(* ===== verification/AF_Prelude.thy ===== *)
theory AF_Prelude
  imports Main "HOL-Library.Multiset" "HOL-Library.List_Lexorder" "HOL-Library.Char_ord"
begin

text \<open>
  Shared vocabulary of the development: the type synonyms every component uses, the
  collections of facts the proofs draw on, and the generic lemmas on lists, maps and
  sums that more than one component needs.

  Go strings are byte strings ordered bytewise; they are modelled by \<^typ>\<open>string\<close>
  with the lexicographic order of \<open>List_Lexorder\<close> over \<open>Char_ord\<close>.  An instant
  (\<open>time.Time\<close>) and a \<open>time.Duration\<close> are numbers of nanoseconds.
\<close>

type_synonym instant = int
type_synonym duration = int

definition nano_second :: duration where
  "nano_second = 1000000000"

definition nano_minute :: duration where
  "nano_minute = 60 * nano_second"

definition nano_hour :: duration where
  "nano_hour = 60 * nano_minute"

text \<open>Frame and effect equations of operations, used as one simp set.\<close>

named_theorems op_simps

text \<open>Preservation lemmas of component invariants.\<close>

named_theorems inv_intros

lemmas time_unit_defs = nano_second_def nano_minute_def nano_hour_def

text \<open>The Go idiom \<open>if x <= 0 { x = d }\<close> used by every configuration struct.\<close>

definition positive_or :: "int \<Rightarrow> int \<Rightarrow> int" where
  "positive_or d x = (if x \<le> 0 then d else x)"

lemma positive_or_pos [simp]: "0 < d \<Longrightarrow> 0 < positive_or d x"
  by (simp add: positive_or_def)

lemma positive_or_id [simp]: "0 < x \<Longrightarrow> positive_or d x = x"
  by (simp add: positive_or_def)

section \<open>Lists\<close>

lemma count_list_filter: "count_list (filter P xs) x = (if P x then count_list xs x else 0)"
  by (induction xs) auto

lemma count_list_pos_iff: "0 < count_list xs x \<longleftrightarrow> x \<in> set xs"
  by (induction xs) auto

lemma count_list_mset: "count_list xs x = count (mset xs) x"
  by (induction xs) auto

lemma count_list_mset_cong: "mset xs = mset ys \<Longrightarrow> count_list xs x = count_list ys x"
  by (simp add: count_list_mset)

lemma distinct_mset_cong: "mset xs = mset ys \<Longrightarrow> distinct xs = distinct ys"
  by (metis mset_eq_imp_distinct_iff)

lemma length_filter_partition:
  "length (filter P xs) + length (filter (\<lambda>x. \<not> P x) xs) = length xs"
  by (induction xs) auto

lemma distinct_length_le_card:
  "distinct xs \<Longrightarrow> set xs \<subseteq> A \<Longrightarrow> finite A \<Longrightarrow> length xs \<le> card A"
  by (metis card_mono distinct_card)

lemma distinct_full_length:
  assumes "distinct xs" "set xs \<subseteq> set ys" "distinct ys" "length xs = length ys"
  shows "set xs = set ys"
  using assms by (metis card_subset_eq distinct_card finite_set)

lemma remove_nth_mset:
  "i < length xs \<Longrightarrow> mset (take i xs @ drop (Suc i) xs) = mset xs - {#xs ! i#}"
  by (metis add_mset_remove_trivial id_take_nth_drop mset.simps(2) mset_append
      union_mset_add_mset_right)

lemma remove_nth_set:
  "distinct xs \<Longrightarrow> i < length xs \<Longrightarrow> set (take i xs @ drop (Suc i) xs) = set xs - {xs ! i}"
proof -
  assume d: "distinct xs" and i: "i < length xs"
  have "xs = take i xs @ xs ! i # drop (Suc i) xs"
    using i by (rule id_take_nth_drop)
  moreover have "distinct (take i xs @ xs ! i # drop (Suc i) xs)"
    using d i by (simp flip: id_take_nth_drop)
  ultimately show ?thesis
    by (metis Diff_insert_absorb distinct.simps(2) distinct_append list.simps(15)
        Un_iff Un_insert_right disjoint_insert(1) insert_disjoint(1) set_append)
qed

lemma remove_nth_distinct:
  "distinct xs \<Longrightarrow> distinct (take i xs @ drop (Suc i) xs)"
  by (metis distinct_append distinct_drop distinct_take set_take_disj_set_drop_if_distinct
      le_SucI le_refl)

section \<open>Errors as sums\<close>

definition is_ok :: "'e + 'a \<Rightarrow> bool" where
  "is_ok r = (case r of Inl _ \<Rightarrow> False | Inr _ \<Rightarrow> True)"

lemma is_ok_simps [simp]: "is_ok (Inr a)" "\<not> is_ok (Inl e)"
  by (simp_all add: is_ok_def)

lemma is_ok_iff: "is_ok r \<longleftrightarrow> (\<exists>a. r = Inr a)"
  by (cases r) auto

end
