(* ===== verification/Go_Sort.thy ===== *)
theory Go_Sort
  imports AF_Prelude
begin

text \<open>
  The sorting code of the repository: \<open>sortStrings\<close> and \<open>insertSorted\<close> of
  \<open>orchestrator/types.go\<close>, and the contract \<open>sorter\<close> a sorting routine promises its
  callers.  Slices are lists, an assignment \<open>s[i] = v\<close> is a list update.
\<close>

section \<open>The contract of a sorting routine\<close>

locale sorter =
  fixes srt :: "'a::linorder list \<Rightarrow> 'a list"
  assumes srt_mset: "mset (srt xs) = mset xs"
    and srt_sorted: "sorted (srt xs)"
begin

lemma srt_set: "set (srt xs) = set xs"
  by (metis srt_mset set_mset_mset)

lemma srt_length: "length (srt xs) = length xs"
  by (metis srt_mset size_mset)

lemma srt_distinct: "distinct (srt xs) = distinct xs"
  by (rule distinct_mset_cong) (rule srt_mset)

lemma srt_count: "count_list (srt xs) x = count_list xs x"
  by (rule count_list_mset_cong) (rule srt_mset)

lemma srt_unique: "mset ys = mset xs \<Longrightarrow> sorted ys \<Longrightarrow> srt xs = ys"
  by (metis properties_for_sort srt_mset srt_sorted)

lemma srt_eq_sort: "srt xs = sort xs"
  by (rule srt_unique) simp_all

lemma srt_idem: "srt (srt xs) = srt xs"
  by (rule srt_unique) (simp_all add: srt_sorted)

lemma srt_perm: "mset xs = mset ys \<Longrightarrow> srt xs = srt ys"
  by (rule srt_unique) (simp_all add: srt_mset srt_sorted)

end

section \<open>sortStrings: in-place insertion sort\<close>

text \<open>
  The inner loop \<open>for j := i; j > 0 && s[j-1] > s[j]; j--\<close>, with the swap of the two
  neighbours as its body.
\<close>

fun sort_inner :: "nat \<Rightarrow> 'a::linorder list \<Rightarrow> 'a list" where
  "sort_inner 0 s = s"
| "sort_inner (Suc j) s =
     (if s ! j > s ! Suc j then sort_inner j (s[j := s ! Suc j, Suc j := s ! j]) else s)"

definition sortStrings :: "'a::linorder list \<Rightarrow> 'a list" where
  "sortStrings s = fold sort_inner [1..<length s] s"

lemma sort_inner_step:
  "\<exists>zs. sort_inner (length xs) (xs @ x # ys) = zs @ ys \<and> mset zs = add_mset x (mset xs)
        \<and> (sorted xs \<longrightarrow> sorted zs)"
proof (induction xs arbitrary: ys rule: rev_induct)
  case Nil
  show ?case by (intro exI [of _ "[x]"]) simp
next
  case (snoc y xs)
  have nth: "(xs @ y # x # ys) ! length xs = y" "(xs @ y # x # ys) ! Suc (length xs) = x"
    by (simp_all add: nth_append)
  show ?case
  proof (cases "y > x")
    case True
    have upd: "(xs @ y # x # ys)[length xs := x, Suc (length xs) := y] = xs @ x # y # ys"
      by (simp add: list_update_append)
    from snoc [of "y # ys"] obtain zs where
      zs: "sort_inner (length xs) (xs @ x # y # ys) = zs @ y # ys"
        "mset zs = add_mset x (mset xs)" "sorted xs \<longrightarrow> sorted zs"
      by blast
    have "set zs = insert x (set xs)"
      using zs(2) by (metis set_mset_add_mset_insert set_mset_mset)
    then have "sorted (xs @ [y]) \<longrightarrow> sorted (zs @ [y])"
      using True zs(3) by (auto simp: sorted_append)
    then show ?thesis
      using True nth upd zs(1,2) by (intro exI [of _ "zs @ [y]"]) simp
  next
    case False
    then show ?thesis
      using nth by (intro exI [of _ "xs @ [y, x]"]) (auto simp: sorted_append)
  qed
qed

lemma sort_inner_at:
  assumes "i < length s"
  shows "mset (sort_inner i s) = mset s
    \<and> drop (Suc i) (sort_inner i s) = drop (Suc i) s
    \<and> (sorted (take i s) \<longrightarrow> sorted (take (Suc i) (sort_inner i s)))"
proof -
  let ?xs = "take i s" and ?ys = "drop (Suc i) s"
  have s: "s = ?xs @ s ! i # ?ys"
    using assms by (rule id_take_nth_drop)
  have len: "length ?xs = i" using assms by simp
  from sort_inner_step [of ?xs "s ! i" ?ys] len s obtain zs where
    zs: "sort_inner i s = zs @ ?ys" "mset zs = add_mset (s ! i) (mset ?xs)"
      "sorted ?xs \<longrightarrow> sorted zs"
    by auto
  have lz: "length zs = Suc i"
    using zs(2) len by (metis size_add_mset size_mset)
  have "mset s = mset ?xs + add_mset (s ! i) (mset ?ys)"
    using s by (metis mset.simps(2) mset_append)
  then show ?thesis
    using zs lz by simp
qed

lemma sortStrings_prefix:
  assumes "n \<le> length s"
  shows "mset (fold sort_inner [1..<n] s) = mset s
    \<and> sorted (take n (fold sort_inner [1..<n] s))"
  using assms
proof (induction n)
  case 0
  then show ?case by simp
next
  case (Suc n)
  show ?case
  proof (cases "n = 0")
    case True
    with Suc show ?thesis by (cases s) simp_all
  next
    case False
    let ?t = "fold sort_inner [1..<n] s"
    have IH: "mset ?t = mset s" "sorted (take n ?t)"
      using Suc by auto
    have "n < length ?t"
      using Suc.prems IH(1) by (metis Suc_le_lessD size_mset)
    from sort_inner_at [OF this] IH False show ?thesis
      by simp
  qed
qed

interpretation str_sort: sorter "sortStrings :: 'a::linorder list \<Rightarrow> 'a list"
proof
  fix xs :: "'a list"
  show "mset (sortStrings xs) = mset xs"
    using sortStrings_prefix [of "length xs" xs] by (simp add: sortStrings_def)
  have "length (fold sort_inner [1..<length xs] xs) = length xs"
    using sortStrings_prefix [of "length xs" xs] by (metis order_refl size_mset)
  then show "sorted (sortStrings xs)"
    using sortStrings_prefix [of "length xs" xs] by (simp add: sortStrings_def)
qed

section \<open>insertSorted: binary-search insertion\<close>

text \<open>The search loop \<open>for lo < hi\<close>, then the append, copy and store.\<close>

function search_pos :: "'a::linorder list \<Rightarrow> 'a \<Rightarrow> nat \<Rightarrow> nat \<Rightarrow> nat" where
  "search_pos s v lo hi =
     (if lo < hi
      then let mid = (lo + hi) div 2
           in if s ! mid < v then search_pos s v (mid + 1) hi else search_pos s v lo mid
      else lo)"
  by pat_completeness auto
termination
  by (relation "measure (\<lambda>(s, v, lo, hi). hi - lo)") auto

declare search_pos.simps [simp del]

definition insertSorted :: "'a::linorder list \<Rightarrow> 'a \<Rightarrow> 'a list" where
  "insertSorted s v =
     (let lo = search_pos s v 0 (length s) in take lo s @ v # drop lo s)"

lemma search_pos_spec:
  assumes "sorted s" "lo \<le> hi" "hi \<le> length s"
    and "\<forall>i<lo. s ! i < v" and "\<forall>i. hi \<le> i \<and> i < length s \<longrightarrow> v \<le> s ! i"
  shows "let p = search_pos s v lo hi in p \<le> length s \<and> (\<forall>i<p. s ! i < v)
           \<and> (\<forall>i. p \<le> i \<and> i < length s \<longrightarrow> v \<le> s ! i)"
  using assms
proof (induction s v lo hi rule: search_pos.induct)
  case (1 s v lo hi)
  show ?case
  proof (cases "lo < hi")
    case False
    then have "search_pos s v lo hi = lo"
      by (simp add: search_pos.simps [of s v lo hi])
    moreover have "lo = hi" using False "1.prems"(2) by simp
    ultimately show ?thesis
      using "1.prems" by (simp add: Let_def)
  next
    case True
    let ?mid = "(lo + hi) div 2"
    have mid: "lo \<le> ?mid" "?mid < hi" using True by auto
    show ?thesis
    proof (cases "s ! ?mid < v")
      case less: True
      have "\<forall>i<?mid + 1. s ! i < v"
      proof (intro allI impI)
        fix i assume "i < ?mid + 1"
        then have "s ! i \<le> s ! ?mid"
          using \<open>sorted s\<close> mid "1.prems"(3) by (intro sorted_nth_mono) auto
        then show "s ! i < v" using less by (rule le_less_trans)
      qed
      then show ?thesis
        using "1.IH"(1) [OF True refl less] "1.prems" True less mid
        by (simp add: search_pos.simps [of s v lo hi] Let_def)
    next
      case ge: False
      have "\<forall>i. ?mid \<le> i \<and> i < length s \<longrightarrow> v \<le> s ! i"
      proof (intro allI impI)
        fix i assume "?mid \<le> i \<and> i < length s"
        then have "s ! ?mid \<le> s ! i"
          using \<open>sorted s\<close> by (intro sorted_nth_mono) auto
        then show "v \<le> s ! i" using ge by (meson leI order_trans)
      qed
      then show ?thesis
        using "1.IH"(2) [OF True refl ge] "1.prems" True ge mid
        by (simp add: search_pos.simps [of s v lo hi] Let_def)
    qed
  qed
qed

lemma insertSorted_mset: "mset (insertSorted s v) = add_mset v (mset s)"
proof -
  let ?p = "search_pos s v 0 (length s)"
  have "mset (take ?p s) + mset (drop ?p s) = mset s"
    by (simp flip: mset_append)
  then show ?thesis by (simp add: insertSorted_def Let_def)
qed

lemma insertSorted_sorted:
  assumes "sorted s"
  shows "sorted (insertSorted s v)"
proof -
  define p where "p = search_pos s v 0 (length s)"
  have none: "\<forall>i<0. s ! i < v" "\<forall>i. length s \<le> i \<and> i < length s \<longrightarrow> v \<le> s ! i"
    by auto
  have p: "p \<le> length s" "\<forall>i<p. s ! i < v" "\<forall>i. p \<le> i \<and> i < length s \<longrightarrow> v \<le> s ! i"
    using search_pos_spec [OF assms _ _ none] unfolding p_def Let_def by simp_all
  have lo: "\<forall>x\<in>set (take p s). x < v"
    using p(1,2) by (auto simp: in_set_conv_nth)
  have hi: "\<forall>x\<in>set (drop p s). v \<le> x"
    using p(1,3) by (auto simp: in_set_conv_nth)
  have "sorted (take p s @ drop p s)" using assms by simp
  then have "sorted (take p s @ v # drop p s)"
    using lo hi unfolding sorted_append by (auto simp: less_imp_le)
  then show ?thesis by (simp add: insertSorted_def Let_def flip: p_def)
qed

lemma insertSorted_set: "set (insertSorted s v) = insert v (set s)"
  by (metis insertSorted_mset set_mset_add_mset_insert set_mset_mset)

lemma insertSorted_distinct: "distinct (insertSorted s v) \<longleftrightarrow> v \<notin> set s \<and> distinct s"
proof -
  have "mset (insertSorted s v) = mset (v # s)" by (simp add: insertSorted_mset)
  from distinct_mset_cong [OF this] show ?thesis by simp
qed

lemma insertSorted_eq_insort:
  "sorted s \<Longrightarrow> insertSorted s v = insort v s"
  by (metis insertSorted_mset insertSorted_sorted mset_insort properties_for_sort sorted_insort)

lemmas insertSorted_simps = insertSorted_mset insertSorted_set insertSorted_distinct

end
