(* ===== verification/F64.thy ===== *)
theory F64
  imports AF_Prelude "HOL-Library.Log_Nat"
begin

text \<open>
  Go's \<open>float64\<close>, IEEE 754 binary64.  A finite non-zero value is the rational it denotes; the
  two zeros are \<open>Fin 0\<close> and \<open>NegZero\<close>; NaN payloads are not distinguished, as the program
  cannot tell them apart.  An operation is the exact operation on rationals followed by
  \<open>f_round\<close>, which rounds to nearest, ties to even, with gradual underflow and overflow to the
  infinities.
\<close>

datatype f64 = NaN | Inf bool | NegZero | Fin rat

section \<open>Rounding a rational\<close>

text \<open>Round half even to an integer.\<close>

definition rhe :: "rat \<Rightarrow> int" where
  "rhe x =
     (let f = \<lfloor>x\<rfloor>; r = x - of_int f
      in if r < 1 / 2 then f else if 1 / 2 < r then f + 1 else if even f then f else f + 1)"

text \<open>The exponent of a positive rational: \<open>2 ^ ilog2 q \<le> q < 2 ^ (ilog2 q + 1)\<close>.\<close>

definition ilog2 :: "rat \<Rightarrow> int" where
  "ilog2 q =
     (case quotient_of q of (n, d) \<Rightarrow>
        let e = bitlen n - bitlen d in if 2 powi e \<le> q then e else e - 1)"

text \<open>The exponent of the last place, bounded below by the subnormals'.\<close>

definition ulp_exp :: "rat \<Rightarrow> int" where
  "ulp_exp q = max (ilog2 q - 52) (- 1074)"

definition rnd_mag :: "rat \<Rightarrow> rat" where
  "rnd_mag q = (if q \<le> 0 then 0 else of_int (rhe (q / 2 powi ulp_exp q)) * 2 powi ulp_exp q)"

text \<open>Where overflow begins.\<close>

definition f_limit :: rat where
  "f_limit = 2 ^ 1024"

definition f_zero :: "bool \<Rightarrow> f64" where
  "f_zero neg = (if neg then NegZero else Fin 0)"

definition f_round :: "bool \<Rightarrow> rat \<Rightarrow> f64" where
  "f_round neg q =
     (if q = 0 then f_zero neg
      else let m = rnd_mag \<bar>q\<bar>
           in if f_limit \<le> m then Inf (q < 0)
              else if m = 0 then f_zero (q < 0) else Fin (if q < 0 then - m else m))"

section \<open>Operations\<close>

fun f_val :: "f64 \<Rightarrow> rat" where
  "f_val (Fin q) = q"
| "f_val _ = 0"

fun f_sign :: "f64 \<Rightarrow> bool" where
  "f_sign (Fin q) = (q < 0)"
| "f_sign NegZero = True"
| "f_sign (Inf neg) = neg"
| "f_sign NaN = False"

fun f_finite :: "f64 \<Rightarrow> bool" where
  "f_finite (Fin q) = True"
| "f_finite NegZero = True"
| "f_finite _ = False"

definition f_is_zero :: "f64 \<Rightarrow> bool" where
  "f_is_zero x \<longleftrightarrow> x = NegZero \<or> x = Fin 0"

fun f_neg :: "f64 \<Rightarrow> f64" where
  "f_neg NaN = NaN"
| "f_neg (Inf b) = Inf (\<not> b)"
| "f_neg NegZero = Fin 0"
| "f_neg (Fin q) = (if q = 0 then NegZero else Fin (- q))"

definition f_add :: "f64 \<Rightarrow> f64 \<Rightarrow> f64" where
  "f_add x y =
     (if x = NaN \<or> y = NaN then NaN
      else case (x, y) of
        (Inf a, Inf b) \<Rightarrow> if a = b then Inf a else NaN
      | (Inf a, _) \<Rightarrow> Inf a
      | (_, Inf b) \<Rightarrow> Inf b
      | _ \<Rightarrow> f_round (x = NegZero \<and> y = NegZero) (f_val x + f_val y))"

definition f_sub :: "f64 \<Rightarrow> f64 \<Rightarrow> f64" where
  "f_sub x y = f_add x (f_neg y)"

definition f_mul :: "f64 \<Rightarrow> f64 \<Rightarrow> f64" where
  "f_mul x y =
     (if x = NaN \<or> y = NaN then NaN
      else let neg = (f_sign x \<noteq> f_sign y)
           in if f_finite x \<and> f_finite y then f_round neg (f_val x * f_val y)
              else if f_is_zero x \<or> f_is_zero y then NaN else Inf neg)"

definition f_div :: "f64 \<Rightarrow> f64 \<Rightarrow> f64" where
  "f_div x y =
     (if x = NaN \<or> y = NaN then NaN
      else let neg = (f_sign x \<noteq> f_sign y)
           in if \<not> f_finite x then (if f_finite y then Inf neg else NaN)
              else if \<not> f_finite y then f_zero neg
              else if f_is_zero y then (if f_is_zero x then NaN else Inf neg)
              else f_round neg (f_val x / f_val y))"

fun f_abs :: "f64 \<Rightarrow> f64" where
  "f_abs NaN = NaN"
| "f_abs (Inf _) = Inf False"
| "f_abs NegZero = Fin 0"
| "f_abs (Fin q) = Fin \<bar>q\<bar>"

text \<open>\<open>float64(n)\<close> of an integer.\<close>

definition f_of_int :: "int \<Rightarrow> f64" where
  "f_of_int n = f_round False (of_int n)"

fun f_lt :: "f64 \<Rightarrow> f64 \<Rightarrow> bool" where
  "f_lt NaN _ = False"
| "f_lt _ NaN = False"
| "f_lt (Inf a) (Inf b) = (a \<and> \<not> b)"
| "f_lt (Inf a) _ = a"
| "f_lt _ (Inf b) = (\<not> b)"
| "f_lt x y = (f_val x < f_val y)"

definition f_eq :: "f64 \<Rightarrow> f64 \<Rightarrow> bool" where
  "f_eq x y \<longleftrightarrow> x \<noteq> NaN \<and> (x = y \<or> f_is_zero x \<and> f_is_zero y)"

definition f_le :: "f64 \<Rightarrow> f64 \<Rightarrow> bool" where
  "f_le x y \<longleftrightarrow> f_lt x y \<or> f_eq x y"

text \<open>\<open>math.Max\<close> and \<open>math.Min\<close>.\<close>

definition f_max :: "f64 \<Rightarrow> f64 \<Rightarrow> f64" where
  "f_max x y =
     (if x = Inf False \<or> y = Inf False then Inf False
      else if x = NaN \<or> y = NaN then NaN
      else if f_is_zero x \<and> f_is_zero y then (if x = NegZero then y else x)
      else if f_lt y x then x else y)"

definition f_min :: "f64 \<Rightarrow> f64 \<Rightarrow> f64" where
  "f_min x y =
     (if x = Inf True \<or> y = Inf True then Inf True
      else if x = NaN \<or> y = NaN then NaN
      else if f_is_zero x \<and> f_is_zero y then (if x = NegZero then x else y)
      else if f_lt x y then x else y)"

section \<open>Rounding to an integer\<close>

lemma rhe_of_int [simp]: "rhe (of_int n) = n"
  by (simp add: rhe_def)

lemma rhe_floor: "rhe x = \<lfloor>x\<rfloor> \<or> rhe x = \<lfloor>x\<rfloor> + 1"
  by (simp add: rhe_def Let_def)

lemma rhe_mono: "x \<le> y \<Longrightarrow> rhe x \<le> rhe y"
proof -
  assume le: "x \<le> y"
  then have fl: "\<lfloor>x\<rfloor> \<le> \<lfloor>y\<rfloor>" by (rule floor_mono)
  show ?thesis
  proof (cases "\<lfloor>x\<rfloor> = \<lfloor>y\<rfloor>")
    case True
    then show ?thesis using le by (auto simp: rhe_def Let_def)
  next
    case False
    then show ?thesis using fl rhe_floor [of x] rhe_floor [of y] by linarith
  qed
qed

lemma rhe_ge: "of_int n \<le> x \<Longrightarrow> n \<le> rhe x"
  using rhe_mono [of "of_int n" x] by simp

lemma rhe_le: "x \<le> of_int n \<Longrightarrow> rhe x \<le> n"
  using rhe_mono [of x "of_int n"] by simp

lemma rhe_error: "\<bar>of_int (rhe x) - x\<bar> \<le> 1 / 2"
proof -
  have "of_int \<lfloor>x\<rfloor> \<le> x" "x < of_int \<lfloor>x\<rfloor> + 1" by linarith+
  then show ?thesis unfolding rhe_def Let_def by (simp only: split: if_split) (auto simp: abs_le_iff)
qed

section \<open>The exponent\<close>

lemma bitlen_pos: "0 < n \<Longrightarrow> 0 < bitlen n"
  by (simp add: bitlen_alt_def)

lemma bitlen_powi:
  assumes "0 < n"
  shows "2 powi (bitlen n - 1) \<le> (of_int n :: rat)" "(of_int n :: rat) < 2 powi bitlen n"
proof -
  have p: "(2 :: rat) powi k = of_int (2 ^ nat k)" if "0 \<le> k" for k
    using that by (simp add: power_int_def)
  show "2 powi (bitlen n - 1) \<le> (of_int n :: rat)"
    using bitlen_bounds [OF assms] bitlen_pos [OF assms] by (subst p) (auto simp flip: of_int_power simp del: of_int_power)
  show "(of_int n :: rat) < 2 powi bitlen n"
    using bitlen_bounds [OF assms] bitlen_pos [OF assms] by (subst p) (auto simp flip: of_int_power simp del: of_int_power)
qed

lemma ilog2_bounds:
  assumes "0 < q"
  shows "2 powi ilog2 q \<le> q" "q < 2 powi (ilog2 q + 1)"
proof -
  obtain n d where nd: "quotient_of q = (n, d)" by fastforce
  have d: "0 < d" using quotient_of_denom_pos [OF nd] .
  have q: "q = of_int n / of_int d" using quotient_of_div [OF nd] .
  have n: "0 < n" using assms d by (simp add: q zero_less_divide_iff)
  define e where "e = bitlen n - bitlen d"
  have dp: "(0 :: rat) < of_int d" using d by simp
  have lo: "2 powi (e - 1) < q"
  proof -
    have "(2 :: rat) powi (e - 1) * of_int d < 2 powi (e - 1) * 2 powi bitlen d"
      using bitlen_powi(2) [OF d] by simp
    also have "\<dots> = 2 powi (bitlen n - 1)" by (simp add: e_def flip: power_int_add)
    also have "\<dots> \<le> of_int n" by (rule bitlen_powi(1) [OF n])
    finally show ?thesis using dp by (simp add: q field_simps)
  qed
  have hi: "q < 2 powi (e + 1)"
  proof -
    have "(of_int n :: rat) < 2 powi bitlen n" by (rule bitlen_powi(2) [OF n])
    also have "\<dots> = 2 powi (e + 1) * 2 powi (bitlen d - 1)" by (simp add: e_def flip: power_int_add)
    also have "\<dots> \<le> 2 powi (e + 1) * of_int d" using bitlen_powi(1) [OF d] by simp
    finally show ?thesis using dp by (simp add: q field_simps)
  qed
  have i: "ilog2 q = (if 2 powi e \<le> q then e else e - 1)" by (simp add: ilog2_def nd e_def Let_def)
  show "2 powi ilog2 q \<le> q" using lo by (simp add: i)
  show "q < 2 powi (ilog2 q + 1)" using hi by (simp add: i)
qed

lemma powi_le_iff [simp]: "(2 :: rat) powi a \<le> 2 powi b \<longleftrightarrow> a \<le> b"
  using power_int_strict_increasing [of b a "2 :: rat"] power_int_increasing [of a b "2 :: rat"]
  by (cases "a \<le> b") auto

lemma powi_less_iff [simp]: "(2 :: rat) powi a < 2 powi b \<longleftrightarrow> a < b"
  by (simp only: flip: linorder_not_le) simp

lemma ilog2_mono: "0 < p \<Longrightarrow> p \<le> q \<Longrightarrow> ilog2 p \<le> ilog2 q"
proof -
  assume "0 < p" "p \<le> q"
  then have "(2 :: rat) powi ilog2 p < 2 powi (ilog2 q + 1)"
    using ilog2_bounds(1) [of p] ilog2_bounds(2) [of q] by linarith
  then show ?thesis by simp
qed

lemma ilog2_unique: "2 powi e \<le> q \<Longrightarrow> q < 2 powi (e + 1) \<Longrightarrow> ilog2 q = e"
proof -
  assume a: "2 powi e \<le> q" "q < 2 powi (e + 1)"
  have pos: "0 < q" using a(1) by (meson less_le_trans zero_less_numeral zero_less_power_int)
  have "(2 :: rat) powi e < 2 powi (ilog2 q + 1)" "(2 :: rat) powi ilog2 q < 2 powi (e + 1)"
    using ilog2_bounds [OF pos] a by linarith+
  then show ?thesis by simp
qed


section \<open>Rounding is monotone and leaves representable values alone\<close>

lemma powi_split:
  assumes "E \<le> k"
  shows "(2 :: rat) powi k = of_int (2 ^ nat (k - E)) * 2 powi E"
proof -
  have "(2 :: rat) powi k = 2 powi (k - E) * 2 powi E" by (simp flip: power_int_add)
  moreover have "(2 :: rat) powi (k - E) = of_int (2 ^ nat (k - E))"
    using assms by (simp add: power_int_def)
  ultimately show ?thesis by simp
qed

lemma ulp_exp_mono: "0 < p \<Longrightarrow> p \<le> q \<Longrightarrow> ulp_exp p \<le> ulp_exp q"
  using ilog2_mono [of p q] by (simp add: ulp_exp_def)

lemma rnd_mag_nonneg: "0 \<le> rnd_mag q"
proof (cases "q \<le> 0")
  case False
  then have "0 \<le> rhe (q / 2 powi ulp_exp q)" by (intro rhe_ge) simp
  then show ?thesis by (simp add: rnd_mag_def)
qed (simp add: rnd_mag_def)

text \<open>Rounding stays within the binade.\<close>

lemma rnd_mag_le_pow:
  assumes "0 < q" "q < 2 powi k" "- 1074 \<le> k"
  shows "rnd_mag q \<le> 2 powi k"
proof -
  define E where "E = ulp_exp q"
  have "(2 :: rat) powi ilog2 q < 2 powi k" using ilog2_bounds(1) [OF assms(1)] assms(2) by linarith
  then have E: "E \<le> k" using assms(3) by (simp add: E_def ulp_exp_def)
  define n :: int where "n = 2 ^ nat (k - E)"
  have n: "(of_int n :: rat) * 2 powi E = 2 powi k"
    using powi_split [OF E] by (simp add: n_def)
  have "q / 2 powi E \<le> of_int n" using assms(2) n by (simp add: field_simps)
  then have "rhe (q / 2 powi E) \<le> n" by (rule rhe_le)
  then have "(of_int (rhe (q / 2 powi E)) :: rat) * 2 powi E \<le> of_int n * 2 powi E"
    by (intro mult_right_mono) simp_all
  moreover have "rnd_mag q = of_int (rhe (q / 2 powi E)) * 2 powi E"
    using assms(1) by (simp add: rnd_mag_def E_def)
  ultimately show ?thesis unfolding n by simp
qed

lemma rnd_mag_ge_pow:
  assumes "2 powi k \<le> q" "- 1074 \<le> k"
  shows "2 powi k \<le> rnd_mag q"
proof -
  have pos: "0 < q" using assms(1) by (meson less_le_trans zero_less_numeral zero_less_power_int)
  define E where "E = ulp_exp q"
  show ?thesis
  proof (cases "E \<le> k")
    case True
    define n :: int where "n = 2 ^ nat (k - E)"
    have n: "(of_int n :: rat) * 2 powi E = 2 powi k"
      using powi_split [OF True] by (simp add: n_def)
    have "of_int n \<le> q / 2 powi E" using assms(1) n by (simp add: field_simps)
    then have "n \<le> rhe (q / 2 powi E)" by (rule rhe_ge)
    then have "(of_int n :: rat) * 2 powi E \<le> of_int (rhe (q / 2 powi E)) * 2 powi E"
      by (intro mult_right_mono) simp_all
    moreover have "rnd_mag q = of_int (rhe (q / 2 powi E)) * 2 powi E"
      using pos by (simp add: rnd_mag_def E_def)
    ultimately show ?thesis unfolding n by simp
  next
    case False
    then have E: "E = ilog2 q - 52" using assms(2) by (auto simp: E_def ulp_exp_def)
    have m: "(of_int (2 ^ 52) :: rat) * 2 powi E = 2 powi ilog2 q"
      by (simp add: E power_int_diff)
    then have "of_int (2 ^ 52) \<le> q / 2 powi E" using ilog2_bounds(1) [OF pos] by (simp add: field_simps)
    then have "2 ^ 52 \<le> rhe (q / 2 powi E)" by (rule rhe_ge)
    then have "(of_int (2 ^ 52) :: rat) * 2 powi E \<le> of_int (rhe (q / 2 powi E)) * 2 powi E"
      by (intro mult_right_mono) (simp_all only: of_int_le_iff, simp)
    moreover have "rnd_mag q = of_int (rhe (q / 2 powi E)) * 2 powi E"
      using pos by (simp add: rnd_mag_def E_def)
    ultimately have "2 powi ilog2 q \<le> rnd_mag q" unfolding m by simp
    moreover have "(2 :: rat) powi k \<le> 2 powi ilog2 q" using False E by simp
    ultimately show ?thesis by linarith
  qed
qed

lemma rnd_mag_mono:
  assumes "p \<le> q"
  shows "rnd_mag p \<le> rnd_mag q"
proof (cases "p \<le> 0")
  case True
  then show ?thesis using rnd_mag_nonneg [of q] by (simp add: rnd_mag_def)
next
  case False
  then have pos: "0 < p" "0 < q" using assms by auto
  show ?thesis
  proof (cases "ulp_exp p = ulp_exp q")
    case True
    have "rhe (p / 2 powi ulp_exp q) \<le> rhe (q / 2 powi ulp_exp q)"
      using assms by (intro rhe_mono divide_right_mono) simp_all
    then show ?thesis using pos True by (simp add: rnd_mag_def)
  next
    case False
    then have lt: "ilog2 p < ilog2 q" "- 1022 < ilog2 q"
      using ulp_exp_mono [OF pos(1) assms] by (auto simp: ulp_exp_def max_def split: if_splits)
    define k where "k = max (ilog2 p + 1) (- 1074)"
    have "(2 :: rat) powi (ilog2 p + 1) \<le> 2 powi k" by (simp add: k_def)
    then have "p < 2 powi k" using ilog2_bounds(2) [OF pos(1)] by linarith
    then have "rnd_mag p \<le> 2 powi k" by (rule rnd_mag_le_pow [OF pos(1)]) (simp add: k_def)
    also have "\<dots> \<le> 2 powi ilog2 q" using lt by (simp add: k_def)
    also have "\<dots> \<le> rnd_mag q"
      using ilog2_bounds(1) [OF pos(2)] lt by (intro rnd_mag_ge_pow) auto
    finally show ?thesis .
  qed
qed

text \<open>The magnitudes a \<open>float64\<close> has: multiples of the last place.\<close>

definition rep_mag :: "rat \<Rightarrow> bool" where
  "rep_mag q \<longleftrightarrow> rnd_mag q = q"

lemma rnd_mag_exact:
  assumes "0 < q" "q = of_int m * 2 powi ulp_exp q"
  shows "rep_mag q"
proof -
  have "q / 2 powi ulp_exp q = of_int m" using assms(2) by (simp add: field_simps)
  then show ?thesis using assms by (simp add: rep_mag_def rnd_mag_def)
qed

lemma rep_mag_0 [simp]: "rep_mag 0"
  by (simp add: rep_mag_def rnd_mag_def)

lemma rep_mag_pow:
  assumes "- 1074 \<le> k"
  shows "rep_mag (2 powi k)"
proof -
  have "rnd_mag (2 powi k) \<le> 2 powi k"
  proof -
    have i: "ilog2 (2 powi k) = k" by (rule ilog2_unique) (simp_all)
    then have E: "ulp_exp (2 powi k) \<le> k" using assms by (simp add: ulp_exp_def)
    have "(2 :: rat) powi k = of_int (2 ^ nat (k - ulp_exp (2 powi k))) * 2 powi ulp_exp (2 powi k)"
      by (rule powi_split [OF E])
    from rnd_mag_exact [OF _ this] show ?thesis by (simp add: rep_mag_def)
  qed
  then show ?thesis using rnd_mag_ge_pow [OF order_refl assms] by (simp add: rep_mag_def)
qed

lemma rnd_mag_idem: "rep_mag (rnd_mag q)"
proof (cases "q \<le> 0 \<or> rnd_mag q = 0")
  case True
  then show ?thesis by (auto simp: rnd_mag_def)
next
  case False
  then have pos: "0 < q" "0 < rnd_mag q" using rnd_mag_nonneg [of q] by auto
  define E where "E = ulp_exp q"
  define m where "m = rhe (q / 2 powi E)"
  have r: "rnd_mag q = of_int m * 2 powi E" using pos by (simp add: rnd_mag_def E_def m_def)
  have k: "- 1074 \<le> E + 53" by (simp add: E_def ulp_exp_def)
  have "q < 2 powi (E + 53)"
  proof -
    have "ilog2 q + 1 \<le> E + 53" by (simp add: E_def ulp_exp_def)
    then have "(2 :: rat) powi (ilog2 q + 1) \<le> 2 powi (E + 53)" by simp
    then show ?thesis using ilog2_bounds(2) [OF pos(1)] by linarith
  qed
  then have le: "rnd_mag q \<le> 2 powi (E + 53)" by (rule rnd_mag_le_pow [OF pos(1) _ k])
  show ?thesis
  proof (cases "rnd_mag q = 2 powi (E + 53)")
    case True
    then show ?thesis using rep_mag_pow [OF k] by simp
  next
    case False
    then have lt: "rnd_mag q < 2 powi (E + 53)" using le by simp
    have "ilog2 (rnd_mag q) < E + 53"
    proof -
      have "(2 :: rat) powi ilog2 (rnd_mag q) < 2 powi (E + 53)"
        using ilog2_bounds(1) [OF pos(2)] lt by linarith
      then show ?thesis by simp
    qed
    then have E': "ulp_exp (rnd_mag q) \<le> E" by (auto simp: ulp_exp_def E_def)
    have "rnd_mag q = of_int (m * 2 ^ nat (E - ulp_exp (rnd_mag q))) * 2 powi ulp_exp (rnd_mag q)"
    proof -
      have "(2 :: rat) powi E = 2 ^ nat (E - ulp_exp (rnd_mag q)) * 2 powi ulp_exp (rnd_mag q)"
        using powi_split [OF E'] by simp
      then show ?thesis by (subst (1) r) simp
    qed
    from rnd_mag_exact [OF pos(2) this] show ?thesis .
  qed
qed

end
