(* ===== verification/Dag.thy ===== *)
theory Dag
  imports Go_Sort F64
begin

text \<open>
  \<open>orchestrator/types.go\<close>: the strategy DAG, its structural validation and its
  lookups.  A \<open>*DAG\<close> is an option of \<open>dag\<close>, the nil pointer being \<open>None\<close>.
  Node parameters stay the raw JSON bytes, as in \<open>json.RawMessage\<close>.
\<close>

section \<open>Data\<close>

record position =
  pos_x :: f64
  pos_y :: f64

record node_def =
  nd_ID :: string
  nd_Type :: string
  nd_Subtype :: string
  nd_Params :: string
  nd_Position :: "position option"

record edge =
  ed_ID :: string
  ed_Source :: string
  ed_SourceHandle :: string
  ed_Target :: string
  ed_TargetHandle :: string

record dag =
  Nodes :: "node_def list"
  Edges :: "edge list"

text \<open>
  The sentinel errors, with the data their message carries.  The first group wraps
  \<open>ErrInvalidDAG\<close>.
\<close>

datatype invalid_dag =
    NilDag
  | NoNodes
  | MissingId nat
  | MissingType string
  | DuplicateId string
  | MissingEndpoint nat
  | SelfLoop nat string
  | UnknownSource nat string
  | UnknownTarget nat string

text \<open>The \<open>Error\<close> string of a node result: empty, the error's text, or the recovered panic's.\<close>

datatype node_error = NoError | ErrorText string | Panicked string string

datatype orch_error =
    ErrInvalidDAG invalid_dag
  | ErrCycle nat nat
  | ErrUnknownType string string string
  | ErrNodeNotFound string
  | NodeFailed string node_error

section \<open>Validate\<close>

text \<open>The loop over the nodes, carrying the index and the set of seen IDs.\<close>

fun validate_nodes :: "nat \<Rightarrow> string set \<Rightarrow> node_def list \<Rightarrow> invalid_dag + string set" where
  "validate_nodes i seen [] = Inr seen"
| "validate_nodes i seen (n # ns) =
     (if nd_ID n = [] then Inl (MissingId i)
      else if nd_Type n = [] then Inl (MissingType (nd_ID n))
      else if nd_ID n \<in> seen then Inl (DuplicateId (nd_ID n))
      else validate_nodes (Suc i) (insert (nd_ID n) seen) ns)"

fun validate_edges :: "nat \<Rightarrow> string set \<Rightarrow> edge list \<Rightarrow> invalid_dag option" where
  "validate_edges i seen [] = None"
| "validate_edges i seen (e # es) =
     (if ed_Source e = [] \<or> ed_Target e = [] then Some (MissingEndpoint i)
      else if ed_Source e = ed_Target e then Some (SelfLoop i (ed_Source e))
      else if ed_Source e \<notin> seen then Some (UnknownSource i (ed_Source e))
      else if ed_Target e \<notin> seen then Some (UnknownTarget i (ed_Target e))
      else validate_edges (Suc i) seen es)"

definition Validate :: "dag option \<Rightarrow> invalid_dag option" where
  "Validate d =
     (case d of
        None \<Rightarrow> Some NilDag
      | Some g \<Rightarrow>
          if Nodes g = [] then Some NoNodes
          else (case validate_nodes 0 {} (Nodes g) of
                  Inl err \<Rightarrow> Some err
                | Inr seen \<Rightarrow> validate_edges 0 seen (Edges g)))"

section \<open>Lookups\<close>

definition node_ids :: "dag \<Rightarrow> string list" where
  "node_ids g = map nd_ID (Nodes g)"

definition HasNode :: "dag option \<Rightarrow> string \<Rightarrow> bool" where
  "HasNode d i = (case d of None \<Rightarrow> False | Some g \<Rightarrow> list_ex (\<lambda>n. nd_ID n = i) (Nodes g))"

definition NodeByID :: "dag option \<Rightarrow> string \<Rightarrow> orch_error + node_def" where
  "NodeByID d i =
     (case d of
        None \<Rightarrow> Inl (ErrNodeNotFound [])
      | Some g \<Rightarrow> (case find (\<lambda>n. nd_ID n = i) (Nodes g) of
                     Some n \<Rightarrow> Inr n
                   | None \<Rightarrow> Inl (ErrNodeNotFound i)))"

definition Successors :: "dag option \<Rightarrow> string \<Rightarrow> string list" where
  "Successors d i =
     (case d of None \<Rightarrow> []
      | Some g \<Rightarrow> map ed_Target (filter (\<lambda>e. ed_Source e = i) (Edges g)))"

definition Predecessors :: "dag option \<Rightarrow> string \<Rightarrow> string list" where
  "Predecessors d i =
     (case d of None \<Rightarrow> []
      | Some g \<Rightarrow> map ed_Source (filter (\<lambda>e. ed_Target e = i) (Edges g)))"

definition Roots :: "dag option \<Rightarrow> string list" where
  "Roots d =
     (case d of None \<Rightarrow> []
      | Some g \<Rightarrow>
          let hasIncoming = fold (\<lambda>e m. m(ed_Target e := True)) (Edges g) (\<lambda>_. False)
          in map nd_ID (filter (\<lambda>n. \<not> hasIncoming (nd_ID n)) (Nodes g)))"

section \<open>What validation establishes\<close>

text \<open>The edges of a graph as a relation on node IDs.\<close>

definition edge_rel :: "dag \<Rightarrow> (string \<times> string) set" where
  "edge_rel g = (\<lambda>e. (ed_Source e, ed_Target e)) ` set (Edges g)"

definition well_formed :: "dag \<Rightarrow> bool" where
  "well_formed g \<longleftrightarrow>
     Nodes g \<noteq> [] \<and> distinct (node_ids g)
     \<and> (\<forall>n\<in>set (Nodes g). nd_ID n \<noteq> [] \<and> nd_Type n \<noteq> [])
     \<and> (\<forall>e\<in>set (Edges g). ed_Source e \<noteq> ed_Target e
           \<and> ed_Source e \<in> set (node_ids g) \<and> ed_Target e \<in> set (node_ids g))"

lemma validate_nodes_Inr:
  "validate_nodes i seen ns = Inr seen' \<longleftrightarrow>
     (\<forall>n\<in>set ns. nd_ID n \<noteq> [] \<and> nd_Type n \<noteq> []) \<and> distinct (map nd_ID ns)
     \<and> set (map nd_ID ns) \<inter> seen = {} \<and> seen' = seen \<union> set (map nd_ID ns)"
  by (induction i seen ns rule: validate_nodes.induct) auto

lemma validate_nodes_Inl_iff:
  "(\<exists>err. validate_nodes i seen ns = Inl err) \<longleftrightarrow> \<not> is_ok (validate_nodes i seen ns)"
  by (cases "validate_nodes i seen ns") auto

lemma validate_edges_None:
  "validate_edges i seen es = None \<longleftrightarrow>
     (\<forall>e\<in>set es. ed_Source e \<noteq> [] \<and> ed_Target e \<noteq> [] \<and> ed_Source e \<noteq> ed_Target e
        \<and> ed_Source e \<in> seen \<and> ed_Target e \<in> seen)"
  by (induction i seen es rule: validate_edges.induct) auto

lemma Validate_None_iff: "Validate (Some g) = None \<longleftrightarrow> well_formed g"
proof (cases "validate_nodes 0 {} (Nodes g)")
  case (Inl err)
  have "\<not> well_formed g"
  proof
    assume "well_formed g"
    then have "validate_nodes 0 {} (Nodes g) = Inr (set (node_ids g))"
      unfolding validate_nodes_Inr by (auto simp: well_formed_def node_ids_def)
    with Inl show False by simp
  qed
  moreover have "Validate (Some g) \<noteq> None"
    using Inl by (simp add: Validate_def)
  ultimately show ?thesis by simp
next
  case (Inr seen)
  then have nodes: "\<forall>n\<in>set (Nodes g). nd_ID n \<noteq> [] \<and> nd_Type n \<noteq> []"
      "distinct (node_ids g)" "seen = set (node_ids g)"
    using validate_nodes_Inr [of 0 "{}" "Nodes g" seen] by (auto simp: node_ids_def)
  have ne: "\<forall>x\<in>set (node_ids g). x \<noteq> []"
    using nodes(1) by (auto simp: node_ids_def)
  show ?thesis
    using Inr nodes ne
    by (auto simp: Validate_def well_formed_def validate_edges_None)
qed

lemma well_formedD:
  assumes "well_formed g"
  shows "Nodes g \<noteq> []" "distinct (node_ids g)"
    and "\<And>u v. (u, v) \<in> edge_rel g \<Longrightarrow> u \<noteq> v \<and> u \<in> set (node_ids g) \<and> v \<in> set (node_ids g)"
    and "[] \<notin> set (node_ids g)"
  using assms by (auto simp: well_formed_def edge_rel_def node_ids_def)

lemma finite_edge_rel [simp]: "finite (edge_rel g)"
  by (simp add: edge_rel_def)

lemma HasNode_iff: "HasNode (Some g) i \<longleftrightarrow> i \<in> set (node_ids g)"
  by (auto simp: HasNode_def node_ids_def list_ex_iff)

lemma set_Successors: "set (Successors (Some g) i) = edge_rel g `` {i}"
  by (auto simp: Successors_def edge_rel_def)

lemma set_Predecessors: "set (Predecessors (Some g) i) = (edge_rel g)\<inverse> `` {i}"
  by (auto simp: Predecessors_def edge_rel_def)

lemma count_Predecessors:
  "count_list (Predecessors (Some g) v) u = count_list (Successors (Some g) u) v"
proof -
  have "count_list (map ed_Source (filter (\<lambda>e. ed_Target e = v) es)) u
        = count_list (map ed_Target (filter (\<lambda>e. ed_Source e = u) es)) v" for es
    by (induction es) auto
  then show ?thesis by (simp add: Predecessors_def Successors_def)
qed

lemma hasIncoming_fold:
  "fold (\<lambda>e m. m(ed_Target e := True)) es m v \<longleftrightarrow> m v \<or> v \<in> ed_Target ` set es"
  by (induction es arbitrary: m) auto

lemma set_Roots: "set (Roots (Some g)) = {v \<in> set (node_ids g). (edge_rel g)\<inverse> `` {v} = {}}"
  by (auto simp: Roots_def hasIncoming_fold node_ids_def edge_rel_def)

lemma distinct_Roots: "distinct (node_ids g) \<Longrightarrow> distinct (Roots (Some g))"
  by (simp add: Roots_def node_ids_def distinct_map_filter Let_def)

lemmas dag_set_simps = set_Successors set_Predecessors set_Roots HasNode_iff

end
