(* ===== verification/Go_Text.thy ===== *)
theory Go_Text
  imports AF_Prelude
begin

text \<open>
  What the code uses of Go's \<open>strings\<close> package, on byte strings: \<open>TrimSpace\<close> with the UTF-8
  encodings of the Unicode spaces, \<open>Split\<close> at a byte, \<open>Contains\<close>, and \<open>ToUpper\<close> on ASCII text.
\<close>

section \<open>Trimming\<close>

definition bytes :: "nat list \<Rightarrow> string" where
  "bytes ns = map char_of ns"

text \<open>The encodings of the code points \<open>unicode.IsSpace\<close> accepts.\<close>

definition space_texts :: "string list" where
  "space_texts =
     map (\<lambda>n. bytes [n]) [9, 10, 11, 12, 13, 32] @ map bytes [[194, 133], [194, 160], [225, 154, 128]]
     @ map (\<lambda>n. bytes [226, 128, n]) [128, 129, 130, 131, 132, 133, 134, 135, 136, 137, 138, 168, 169, 175]
     @ map bytes [[226, 129, 159], [227, 128, 128]]"

definition starts_with :: "string \<Rightarrow> string \<Rightarrow> bool" where
  "starts_with w s \<longleftrightarrow> take (length w) s = w"

function trim_front :: "string list \<Rightarrow> string \<Rightarrow> string" where
  "trim_front ws s =
     (case find (\<lambda>w. w \<noteq> [] \<and> starts_with w s) ws of
        None \<Rightarrow> s
      | Some w \<Rightarrow> trim_front ws (drop (length w) s))"
  by auto
termination
proof (relation "measure (length \<circ> snd)")
  fix ws s w assume "find (\<lambda>w. w \<noteq> [] \<and> starts_with w s) ws = Some w"
  then have "w \<noteq> []" "take (length w) s = w" by (auto simp: find_Some_iff starts_with_def)
  then show "((ws, drop (length w) s), (ws, s)) \<in> measure (length \<circ> snd)"
    by (cases s) (auto simp: length_greater_0_conv)
qed simp

declare trim_front.simps [simp del]

definition TrimSpace :: "string \<Rightarrow> string" where
  "TrimSpace s = rev (trim_front (map rev space_texts) (rev (trim_front space_texts s)))"

lemma TrimSpace_empty: "TrimSpace [] = []"
proof -
  have "trim_front ws [] = []" for ws
  proof -
    have "find (\<lambda>w. w \<noteq> [] \<and> starts_with w []) ws = None" by (auto simp: find_None_iff starts_with_def)
    then show ?thesis by (subst trim_front.simps) simp
  qed
  then show ?thesis by (simp add: TrimSpace_def)
qed

text \<open>A text between two ASCII characters that are no space is left as it is.\<close>

definition plain_char :: "char \<Rightarrow> bool" where
  "plain_char c \<longleftrightarrow> 32 < (of_char c :: nat) \<and> (of_char c :: nat) < 128"

lemma space_texts_ends:
  "w \<in> set space_texts \<Longrightarrow> w \<noteq> [] \<and> \<not> plain_char (hd w) \<and> \<not> plain_char (last w)"
  by (auto simp: space_texts_def bytes_def plain_char_def)

lemma trim_front_plain:
  assumes "\<forall>w\<in>set ws. w \<noteq> [] \<longrightarrow> \<not> plain_char (hd w)" "s \<noteq> []" "plain_char (hd s)"
  shows "trim_front ws s = s"
proof -
  have "find (\<lambda>w. w \<noteq> [] \<and> starts_with w s) ws = None"
    unfolding find_None_iff
  proof (intro notI, elim exE bexE conjE)
    fix w assume "w \<in> set ws" "w \<noteq> []" "starts_with w s"
    then have "hd w = hd s"
      unfolding starts_with_def by (metis hd_append2 append_take_drop_id)
    then show False using assms \<open>w \<in> set ws\<close> \<open>w \<noteq> []\<close> by auto
  qed
  then show ?thesis by (subst trim_front.simps) simp
qed

lemma TrimSpace_plain:
  assumes "s \<noteq> []" "plain_char (hd s)" "plain_char (last s)"
  shows "TrimSpace s = s"
proof -
  have "trim_front space_texts s = s"
    by (rule trim_front_plain) (use assms space_texts_ends in auto)
  moreover have "trim_front (map rev space_texts) (rev s) = rev s"
    by (rule trim_front_plain) (use assms space_texts_ends in \<open>auto simp: hd_rev\<close>)
  ultimately show ?thesis by (simp add: TrimSpace_def)
qed

section \<open>Splitting and searching\<close>

text \<open>\<open>strings.Split(s, sep)\<close> for a one-byte separator.\<close>

fun split_on :: "char \<Rightarrow> string \<Rightarrow> string list" where
  "split_on c [] = [[]]"
| "split_on c (x # xs) =
     (if x = c then [] # split_on c xs
      else case split_on c xs of [] \<Rightarrow> [[x]] | w # ws \<Rightarrow> (x # w) # ws)"

fun contains :: "string \<Rightarrow> string \<Rightarrow> bool" where
  "contains [] needle = (needle = [])"
| "contains (x # xs) needle = (starts_with needle (x # xs) \<or> contains xs needle)"

text \<open>Joining the pieces with the separator gives the text back.\<close>

fun join_with :: "char \<Rightarrow> string list \<Rightarrow> string" where
  "join_with c [] = []"
| "join_with c [w] = w"
| "join_with c (w # ws) = w @ c # join_with c ws"

lemma split_on_not_Nil [simp]: "split_on c s \<noteq> []"
  by (cases s) (auto split: list.split)

lemma join_split: "join_with c (split_on c s) = s"
proof (induction s)
  case (Cons x xs)
  obtain w ws where "split_on c xs = w # ws" by (cases "split_on c xs") auto
  then show ?case using Cons by (cases ws) auto
qed simp

lemma contains_iff: "contains s needle \<longleftrightarrow> (\<exists>us vs. s = us @ needle @ vs)"
proof (induction s)
  case (Cons x xs)
  have "starts_with needle (x # xs) \<longleftrightarrow> (\<exists>vs. x # xs = needle @ vs)"
    unfolding starts_with_def by (metis append_eq_conv_conj append_take_drop_id)
  moreover have "(\<exists>us vs. x # xs = us @ needle @ vs)
      \<longleftrightarrow> (\<exists>vs. x # xs = needle @ vs) \<or> (\<exists>us vs. xs = us @ needle @ vs)"
    by (metis (no_types, lifting) append_Cons append_Nil list.inject neq_Nil_conv)
  ultimately show ?case using Cons by simp
qed auto

text \<open>\<open>strings.ToUpper\<close>, on ASCII text.\<close>

definition upper_char :: "char \<Rightarrow> char" where
  "upper_char c = (if 97 \<le> (of_char c :: nat) \<and> (of_char c :: nat) \<le> 122 then char_of (of_char c - 32 :: nat) else c)"

end
