(* ===== verification/Dag_Json.thy ===== *)
theory Dag_Json
  imports Dag Go_Text
begin

text \<open>
  \<open>orchestrator/dag.go\<close>: the ReactFlow document of a strategy graph.  A JSON text is its value, with
  number literals, members in the order of the text and white space and string escapes forgotten;
  the parser, the writer and the conversion of numbers are arguments.  Members match a field by name
  without regard to (ASCII) case, as in \<open>encoding/json\<close>; of several members for an array field the last
  one counts.
\<close>

section \<open>JSON\<close>

datatype json =
    JNull
  | JBool bool
  | JNum string
  | JStr string
  | JArr "json list"
  | JObj "(string \<times> json) list"

type_synonym members = "(string \<times> json) list"

text \<open>\<open>Unmarshal\<close>'s syntax check, the writer, a number literal as a \<open>float64\<close> (\<^const>\<open>None\<close> out of
  range) and the literal \<open>Marshal\<close> writes for one (\<^const>\<open>None\<close> for NaN and infinities).\<close>

record json_lib =
  jl_parse :: "string \<Rightarrow> string + json"
  jl_text :: "json \<Rightarrow> string"
  jl_float :: "string \<Rightarrow> f64 option"
  jl_number :: "f64 \<Rightarrow> string option"

text \<open>Decoding into \<open>any\<close>: numbers become \<open>float64\<close>, objects become maps, which are written in the
  order of their keys.\<close>

fun last_members :: "members \<Rightarrow> members" where
  "last_members [] = []"
| "last_members ((k, v) # ms) = (if k \<in> fst ` set ms then last_members ms else (k, v) # last_members ms)"

definition sorted_members :: "members \<Rightarrow> members" where
  "sorted_members ms = sort_key fst (last_members ms)"

fun any_of :: "json_lib \<Rightarrow> json \<Rightarrow> json option" where
  "any_of lib JNull = Some JNull"
| "any_of lib (JBool b) = Some (JBool b)"
| "any_of lib (JNum l) = map_option JNum (Option.bind (jl_float lib l) (jl_number lib))"
| "any_of lib (JStr s) = Some (JStr s)"
| "any_of lib (JArr vs) = map_option JArr (those (map (any_of lib) vs))"
| "any_of lib (JObj ms) =
     map_option (\<lambda>vs. JObj (sorted_members (zip (map fst ms) vs))) (those (map (any_of lib) (map snd ms)))"

section \<open>Decoding into structs\<close>

definition fold_name :: "string \<Rightarrow> string" where
  "fold_name = map upper_char"

definition field :: "string \<Rightarrow> members \<Rightarrow> json list" where
  "field name ms = map snd (filter (\<lambda>(k, v). fold_name k = fold_name name) ms)"

text \<open>A \<open>string\<close> field: null leaves it as it is, any other type is an error.\<close>

fun into_string :: "string \<Rightarrow> json list \<Rightarrow> string option" where
  "into_string cur [] = Some cur"
| "into_string cur (JStr s # vs) = into_string s vs"
| "into_string cur (JNull # vs) = into_string cur vs"
| "into_string cur (_ # vs) = None"

fun into_float :: "json_lib \<Rightarrow> f64 \<Rightarrow> json list \<Rightarrow> f64 option" where
  "into_float lib cur [] = Some cur"
| "into_float lib cur (JNum l # vs) = (case jl_float lib l of None \<Rightarrow> None | Some x \<Rightarrow> into_float lib x vs)"
| "into_float lib cur (JNull # vs) = into_float lib cur vs"
| "into_float lib cur (_ # vs) = None"

text \<open>A struct field takes the members of every object given for it.\<close>

fun into_struct :: "json list \<Rightarrow> members option" where
  "into_struct [] = Some []"
| "into_struct (JObj ms # vs) = map_option ((@) ms) (into_struct vs)"
| "into_struct (JNull # vs) = into_struct vs"
| "into_struct (_ # vs) = None"

fun into_slice :: "json list \<Rightarrow> json list \<Rightarrow> json list option" where
  "into_slice cur [] = Some cur"
| "into_slice cur (JArr xs # vs) = into_slice xs vs"
| "into_slice cur (JNull # vs) = into_slice [] vs"
| "into_slice cur (_ # vs) = None"

text \<open>\<open>*Position\<close>: null sets it to nil.\<close>

fun into_position :: "json_lib \<Rightarrow> position option \<Rightarrow> json list \<Rightarrow> position option option" where
  "into_position lib cur [] = Some cur"
| "into_position lib cur (JNull # vs) = into_position lib None vs"
| "into_position lib cur (JObj ms # vs) =
     (let p = (case cur of None \<Rightarrow> \<lparr>pos_x = Fin 0, pos_y = Fin 0\<rparr> | Some p \<Rightarrow> p)
      in case (into_float lib (pos_x p) (field ''x'' ms), into_float lib (pos_y p) (field ''y'' ms)) of
           (Some x, Some y) \<Rightarrow> into_position lib (Some \<lparr>pos_x = x, pos_y = y\<rparr>) vs
         | _ \<Rightarrow> None)"
| "into_position lib cur (_ # vs) = None"

text \<open>A \<open>json.RawMessage\<close> is the text of the last value given for it, null included.\<close>

definition into_raw :: "json_lib \<Rightarrow> json list \<Rightarrow> string" where
  "into_raw lib vs = (if vs = [] then [] else jl_text lib (last vs))"

definition decode_node :: "json_lib \<Rightarrow> json \<Rightarrow> node_def option" where
  "decode_node lib v =
     (case into_struct [v] of
        None \<Rightarrow> None
      | Some ms \<Rightarrow>
          (case (into_string [] (field ''id'' ms), into_string [] (field ''type'' ms),
                 into_position lib None (field ''position'' ms), into_struct (field ''data'' ms)) of
             (Some i, Some ty, Some p, Some dm) \<Rightarrow>
               map_option (\<lambda>sub. \<lparr>nd_ID = i, nd_Type = ty, nd_Subtype = sub,
                   nd_Params = into_raw lib (field ''params'' dm), nd_Position = p\<rparr>)
                 (into_string [] (field ''subtype'' dm))
           | _ \<Rightarrow> None))"

definition decode_edge :: "json \<Rightarrow> edge option" where
  "decode_edge v =
     (case into_struct [v] of
        None \<Rightarrow> None
      | Some ms \<Rightarrow>
          (case map (\<lambda>f. into_string [] (field f ms)) [''id'', ''source'', ''sourceHandle'', ''target'', ''targetHandle''] of
             [Some i, Some src, Some sh, Some tgt, Some th] \<Rightarrow>
               Some \<lparr>ed_ID = i, ed_Source = src, ed_SourceHandle = sh, ed_Target = tgt, ed_TargetHandle = th\<rparr>
           | _ \<Rightarrow> None))"

text \<open>The document: nodes with the raw text of their parameters, and edges.\<close>

definition decode_doc :: "json_lib \<Rightarrow> json \<Rightarrow> (node_def list \<times> edge list) option" where
  "decode_doc lib v =
     (case into_struct [v] of
        None \<Rightarrow> None
      | Some ms \<Rightarrow>
          (case (into_slice [] (field ''nodes'' ms), into_slice [] (field ''edges'' ms)) of
             (Some ns, Some es) \<Rightarrow>
               (case (those (map (decode_node lib) ns), those (map decode_edge es)) of
                  (Some nodes, Some edges) \<Rightarrow> Some (nodes, edges)
                | _ \<Rightarrow> None)
           | _ \<Rightarrow> None))"

section \<open>Parameters\<close>

text \<open>\<open>json.Unmarshal\<close> of a text into \<open>any\<close>, as a validity check.\<close>

definition json_valid :: "json_lib \<Rightarrow> string \<Rightarrow> bool" where
  "json_valid lib t = (case jl_parse lib t of Inl _ \<Rightarrow> False | Inr v \<Rightarrow> any_of lib v \<noteq> None)"

text \<open>\<open>Unmarshal\<close> into a \<open>string\<close> succeeds for a string and for null, which leaves it empty.\<close>

definition text_of_json :: "json_lib \<Rightarrow> string \<Rightarrow> string option" where
  "text_of_json lib t = (case jl_parse lib t of Inl _ \<Rightarrow> None | Inr v \<Rightarrow> into_string [] [v])"

definition normalizeParams :: "json_lib \<Rightarrow> string \<Rightarrow> string option" where
  "normalizeParams lib p =
     (if p = [] then Some ''{}''
      else case text_of_json lib p of
             Some inner \<Rightarrow>
               if inner = [] then Some ''{}'' else if json_valid lib inner then Some inner else None
           | None \<Rightarrow> if json_valid lib p then Some p else None)"

section \<open>ParseReactFlowJSON\<close>

text \<open>All of them wrap \<open>ErrInvalidDAG\<close>.\<close>

datatype parse_error =
    EmptyJson
  | BadJson string
  | BadShape
  | BadParams string
  | BadGraph invalid_dag

fun normalize_nodes :: "json_lib \<Rightarrow> node_def list \<Rightarrow> parse_error + node_def list" where
  "normalize_nodes lib [] = Inr []"
| "normalize_nodes lib (n # ns) =
     (case normalizeParams lib (nd_Params n) of
        None \<Rightarrow> Inl (BadParams (nd_ID n))
      | Some p \<Rightarrow> map_sum id ((#) (n\<lparr>nd_Params := p\<rparr>)) (normalize_nodes lib ns))"

definition ParseReactFlowJSON :: "json_lib \<Rightarrow> string \<Rightarrow> parse_error + dag" where
  "ParseReactFlowJSON lib raw =
     (if raw = [] then Inl EmptyJson
      else case jl_parse lib raw of
             Inl e \<Rightarrow> Inl (BadJson e)
           | Inr v \<Rightarrow>
               (case decode_doc lib v of
                  None \<Rightarrow> Inl BadShape
                | Some (nodes, edges) \<Rightarrow>
                    (case normalize_nodes lib nodes of
                       Inl e \<Rightarrow> Inl e
                     | Inr nodes' \<Rightarrow>
                         let g = \<lparr>Nodes = nodes', Edges = edges\<rparr>
                         in case Validate (Some g) of Some e \<Rightarrow> Inl (BadGraph e) | None \<Rightarrow> Inr g)))"

definition ParseDAG :: "json_lib \<Rightarrow> string \<Rightarrow> parse_error + dag" where
  "ParseDAG lib raw = ParseReactFlowJSON lib raw"

section \<open>MarshalDAG\<close>

definition rawOrEmpty :: "json_lib \<Rightarrow> string \<Rightarrow> json" where
  "rawOrEmpty lib r =
     (if r = [] then JNull
      else case jl_parse lib r of
             Inl _ \<Rightarrow> JStr r
           | Inr v \<Rightarrow> (case any_of lib v of None \<Rightarrow> JStr r | Some w \<Rightarrow> w))"

text \<open>A \<open>map[string]any\<close>, whose members are written in the order of their keys; \<^const>\<open>None\<close> is the
  error for a coordinate that is not finite.\<close>

definition encode_node :: "json_lib \<Rightarrow> node_def \<Rightarrow> json option" where
  "encode_node lib n =
     (let base = [(''id'', JStr (nd_ID n)), (''type'', JStr (nd_Type n)),
                  (''data'', JObj [(''params'', rawOrEmpty lib (nd_Params n)), (''subtype'', JStr (nd_Subtype n))])]
      in case nd_Position n of
           None \<Rightarrow> Some (JObj (sort_key fst base))
         | Some p \<Rightarrow>
             (case (jl_number lib (pos_x p), jl_number lib (pos_y p)) of
                (Some x, Some y) \<Rightarrow>
                  Some (JObj (sort_key fst (base @ [(''position'', JObj [(''x'', JNum x), (''y'', JNum y)])])))
              | _ \<Rightarrow> None))"

definition optional :: "string \<Rightarrow> string \<Rightarrow> members" where
  "optional k s = (if s = [] then [] else [(k, JStr s)])"

definition encode_edge :: "edge \<Rightarrow> json" where
  "encode_edge e =
     JObj (sort_key fst
       ([(''source'', JStr (ed_Source e)), (''target'', JStr (ed_Target e))]
        @ optional ''id'' (ed_ID e) @ optional ''sourceHandle'' (ed_SourceHandle e)
        @ optional ''targetHandle'' (ed_TargetHandle e)))"

datatype marshal_error = MarshalNil | MarshalValue

definition dag_doc :: "json_lib \<Rightarrow> dag \<Rightarrow> json option" where
  "dag_doc lib d =
     map_option (\<lambda>ns. JObj [(''nodes'', JArr ns), (''edges'', JArr (map encode_edge (Edges d)))])
       (those (map (encode_node lib) (Nodes d)))"

definition MarshalDAG :: "json_lib \<Rightarrow> dag option \<Rightarrow> marshal_error + string" where
  "MarshalDAG lib d_opt =
     (case d_opt of
        None \<Rightarrow> Inl MarshalNil
      | Some d \<Rightarrow> (case dag_doc lib d of None \<Rightarrow> Inl MarshalValue | Some v \<Rightarrow> Inr (jl_text lib v)))"

section \<open>Reading back what was written\<close>

lemma fold_names:
  "fold_name ''id'' = ''ID''" "fold_name ''type'' = ''TYPE''" "fold_name ''data'' = ''DATA''"
  "fold_name ''position'' = ''POSITION''" "fold_name ''params'' = ''PARAMS''" "fold_name ''subtype'' = ''SUBTYPE''"
  "fold_name ''source'' = ''SOURCE''" "fold_name ''sourceHandle'' = ''SOURCEHANDLE''"
  "fold_name ''target'' = ''TARGET''" "fold_name ''targetHandle'' = ''TARGETHANDLE''"
  "fold_name ''nodes'' = ''NODES''" "fold_name ''edges'' = ''EDGES''" "fold_name ''x'' = ''X''" "fold_name ''y'' = ''Y''"
  by (code_simp)+

lemma field_simps [simp]:
  "field f [] = []"
  "field f ((k, v) # ms) = (if fold_name k = fold_name f then v # field f ms else field f ms)"
  "field f (ms @ ms') = field f ms @ field f ms'"
  "field f (optional k s) = (if fold_name k = fold_name f \<and> s \<noteq> [] then [JStr s] else [])"
  by (simp_all add: field_def optional_def)

lemma field_sorted: "length (field f ms) \<le> 1 \<Longrightarrow> field f (sort_key fst ms) = field f ms"
proof -
  assume "length (field f ms) \<le> 1"
  then obtain kv where "filter (\<lambda>(k, v). fold_name k = fold_name f) ms \<in> {[], [kv]}"
    by (cases "filter (\<lambda>(k, v). fold_name k = fold_name f) ms") (auto simp: field_def)
  then show ?thesis by (auto simp: field_def filter_sort)
qed

lemma decode_encode_edge: "decode_edge (encode_edge e) = Some e"
  unfolding decode_edge_def encode_edge_def by (cases e) (simp add: field_sorted fold_names del: sort_key_simps)

text \<open>What is used of the library: a number is read back as it was written, and the empty text is no
  JSON.\<close>

definition json_laws :: "json_lib \<Rightarrow> bool" where
  "json_laws lib \<longleftrightarrow>
     (\<forall>x l. jl_number lib x = Some l \<longrightarrow> jl_float lib l = Some x) \<and> \<not> is_ok (jl_parse lib [])"

text \<open>The parameters of a node as they are written.\<close>

definition canonical :: "json_lib \<Rightarrow> node_def \<Rightarrow> node_def" where
  "canonical lib n = n\<lparr>nd_Params := jl_text lib (rawOrEmpty lib (nd_Params n))\<rparr>"

lemma decode_encode_node:
  assumes "json_laws lib" "encode_node lib n = Some v"
  shows "decode_node lib v = Some (canonical lib n)"
proof (cases "nd_Position n")
  case None
  with assms(2) show ?thesis
    by (cases n) (auto simp: encode_node_def decode_node_def canonical_def field_sorted fold_names into_raw_def
        simp del: sort_key_simps)
next
  case (Some p)
  with assms show ?thesis
    by (cases n; cases p) (auto simp: encode_node_def decode_node_def canonical_def field_sorted fold_names
        into_raw_def json_laws_def simp del: sort_key_simps split: option.splits)
qed

lemma those_Some: "those (map (\<lambda>x. Some (f x)) xs) = Some (map f xs)"
  by (induction xs) auto

lemma those_map_decode:
  assumes "\<And>x y. f x = Some y \<Longrightarrow> g y = Some (h x)" "those (map f xs) = Some ys"
  shows "those (map g ys) = Some (map h xs)"
  using assms(2)
proof (induction xs arbitrary: ys)
  case (Cons a xs)
  then show ?case using assms(1) [of a] by (auto split: option.splits)
qed simp

lemma decode_dag_doc:
  assumes "json_laws lib" "dag_doc lib d = Some v"
  shows "decode_doc lib v = Some (map (canonical lib) (Nodes d), Edges d)"
proof -
  obtain ns where ns: "those (map (encode_node lib) (Nodes d)) = Some ns"
    "v = JObj [(''nodes'', JArr ns), (''edges'', JArr (map encode_edge (Edges d)))]"
    using assms(2) by (auto simp: dag_doc_def)
  have "those (map (decode_node lib) ns) = Some (map (canonical lib) (Nodes d))"
    by (rule those_map_decode [OF _ ns(1)]) (use assms(1) decode_encode_node in blast)
  moreover have "those (map decode_edge (map encode_edge (Edges d))) = Some (Edges d)"
    using those_map_decode [of "\<lambda>e. Some (encode_edge e)" decode_edge id "Edges d"]
    by (simp add: decode_encode_edge those_Some)
  ultimately show ?thesis by (simp add: decode_doc_def ns(2) fold_names)
qed

lemma distinct_last_members: "distinct (map fst (last_members ms)) \<and> fst ` set (last_members ms) \<subseteq> fst ` set ms"
  by (induction ms rule: last_members.induct) auto

lemma last_members_id: "distinct (map fst ms) \<Longrightarrow> last_members ms = ms"
  by (induction ms rule: last_members.induct) auto

lemma set_last_members: "set (last_members ms) \<subseteq> set ms"
  by (induction ms rule: last_members.induct) auto

lemma sorted_members_idem: "sorted_members (sorted_members ms) = sorted_members ms"
proof -
  have "distinct (map fst (sorted_members ms))"
    using distinct_last_members [of ms] by (simp add: sorted_members_def distinct_map inj_on_def)
  then show ?thesis by (simp add: sorted_members_def last_members_id sort_key_id_if_sorted)
qed

lemma set_sorted_members: "set (sorted_members ms) \<subseteq> set ms"
  using set_last_members by (simp add: sorted_members_def)

lemma those_eq_Some: "those (map f xs) = Some ys \<longleftrightarrow> list_all2 (\<lambda>x y. f x = Some y) xs ys"
proof (induction xs arbitrary: ys)
  case (Cons x xs)
  then show ?case by (cases ys) (auto split: option.splits)
qed auto

lemma those_fixed: "(\<forall>x\<in>set xs. f x = Some x) \<Longrightarrow> those (map f xs) = Some xs"
  by (induction xs) auto

lemma list_all2_fixed:
  assumes "list_all2 (\<lambda>x y. f x = Some y) xs ys" "\<And>x y. x \<in> set xs \<Longrightarrow> f x = Some y \<Longrightarrow> f y = Some y"
  shows "\<forall>y\<in>set ys. f y = Some y"
  using assms by (induction rule: list_all2_induct) auto

lemma any_of_idem: "json_laws lib \<Longrightarrow> any_of lib v = Some w \<Longrightarrow> any_of lib w = Some w"
proof (induction lib v arbitrary: w rule: any_of.induct)
  case (5 lib vs)
  then obtain ws where ws: "list_all2 (\<lambda>x y. any_of lib x = Some y) vs ws" "w = JArr ws"
    by (auto simp: those_eq_Some)
  have "\<forall>y\<in>set ws. any_of lib y = Some y"
    by (rule list_all2_fixed [OF ws(1)]) (use 5 in blast)
  then show ?case using ws(2) by (simp add: those_fixed)
next
  case (6 lib ms)
  then obtain ws where ws: "list_all2 (\<lambda>x y. any_of lib x = Some y) (map snd ms) ws"
    "w = JObj (sorted_members (zip (map fst ms) ws))"
    by (auto simp: those_eq_Some simp del: map_map)
  have "\<forall>y\<in>set ws. any_of lib y = Some y"
    by (rule list_all2_fixed [OF ws(1)]) (use 6 in blast)
  then have "\<forall>y\<in>set (map snd (sorted_members (zip (map fst ms) ws))). any_of lib y = Some y"
    using set_sorted_members [of "zip (map fst ms) ws"] by (auto dest!: subsetD dest: set_zip_rightD)
  then have "those (map (any_of lib) (map snd (sorted_members (zip (map fst ms) ws))))
      = Some (map snd (sorted_members (zip (map fst ms) ws)))"
    by (rule those_fixed)
  then show ?case using ws(2) by (simp add: zip_map_fst_snd sorted_members_idem)
qed (auto simp: json_laws_def split: Option.bind_splits)

definition structured :: "json \<Rightarrow> bool" where
  "structured v = (case v of JArr _ \<Rightarrow> True | JObj _ \<Rightarrow> True | _ \<Rightarrow> False)"

lemma structured_any_of: "any_of lib v = Some w \<Longrightarrow> structured w = structured v"
  by (cases v) (auto simp: structured_def)

lemma into_string_structured: "structured w \<Longrightarrow> into_string [] [w] = None"
  by (cases w) (simp_all add: structured_def)

lemma parse_not_Nil: "json_laws lib \<Longrightarrow> jl_parse lib t = Inr v \<Longrightarrow> t \<noteq> []"
  by (auto simp: json_laws_def)

lemma normalizeParams_structured:
  assumes "json_laws lib" "jl_parse lib t = Inr w" "structured w" "any_of lib w \<noteq> None"
  shows "normalizeParams lib t = Some t"
  using assms parse_not_Nil [OF assms(1,2)]
  by (simp add: normalizeParams_def text_of_json_def into_string_structured json_valid_def)

lemma normalize_nodes_id:
  "(\<forall>n\<in>set ns. normalizeParams lib (nd_Params n) = Some (nd_Params n)) \<Longrightarrow> normalize_nodes lib ns = Inr ns"
  by (induction ns) auto

lemma normalize_nodes_Inr:
  "normalize_nodes lib ns = Inr ns' \<Longrightarrow>
   map nd_ID ns' = map nd_ID ns \<and> map nd_Type ns' = map nd_Type ns
   \<and> list_all2 (\<lambda>n n'. normalizeParams lib (nd_Params n) = Some (nd_Params n')) ns ns'"
proof (induction ns arbitrary: ns')
  case (Cons n ns)
  then obtain p ns1 where "normalizeParams lib (nd_Params n) = Some p" "normalize_nodes lib ns = Inr ns1"
    "ns' = n\<lparr>nd_Params := p\<rparr> # ns1"
    by (auto split: option.splits) (cases "normalize_nodes lib ns"; auto)
  then show ?case using Cons.IH by auto
qed simp

lemma map_eq_Nil_conv_same: "map f xs = map f ys \<Longrightarrow> xs = [] \<longleftrightarrow> ys = []"
  by auto

lemma validate_nodes_cong:
  "map nd_ID ns' = map nd_ID ns \<Longrightarrow> map nd_Type ns' = map nd_Type ns \<Longrightarrow>
   validate_nodes i seen ns' = validate_nodes i seen ns"
proof (induction ns arbitrary: ns' i seen)
  case (Cons n ns)
  obtain m ms where m: "ns' = m # ms" "nd_ID m = nd_ID n" "nd_Type m = nd_Type n" "map nd_ID ms = map nd_ID ns"
    "map nd_Type ms = map nd_Type ns"
    using Cons.prems by (cases ns') auto
  have "validate_nodes (Suc i) (insert (nd_ID n) seen) ms = validate_nodes (Suc i) (insert (nd_ID n) seen) ns"
    by (rule Cons.IH [OF m(4,5)])
  then show ?case by (simp only: m validate_nodes.simps)
qed simp

lemma Validate_cong:
  "map nd_ID ns' = map nd_ID ns \<Longrightarrow> map nd_Type ns' = map nd_Type ns \<Longrightarrow>
   Validate (Some \<lparr>Nodes = ns', Edges = es\<rparr>) = Validate (Some \<lparr>Nodes = ns, Edges = es\<rparr>)"
  using validate_nodes_cong [of ns' ns 0 "{}"] map_eq_Nil_conv_same [of nd_ID ns' ns]
  unfolding Validate_def by (simp only: option.case dag.select_convs)

lemma ParseDAG_Inr: "ParseDAG lib raw = Inr d \<Longrightarrow> Validate (Some d) = None"
  by (auto simp: ParseDAG_def ParseReactFlowJSON_def Let_def split: if_splits sum.splits option.splits)

lemma ParseDAG_marshalled:
  assumes "json_laws lib" "dag_doc lib d = Some v" "jl_parse lib (jl_text lib v) = Inr v" "Validate (Some d) = None"
  shows "ParseDAG lib (jl_text lib v) =
    map_sum id (\<lambda>ns. \<lparr>Nodes = ns, Edges = Edges d\<rparr>) (normalize_nodes lib (map (canonical lib) (Nodes d)))"
proof (cases "normalize_nodes lib (map (canonical lib) (Nodes d))")
  case (Inl e)
  then show ?thesis
    using assms parse_not_Nil [OF assms(1,3)]
    by (simp add: ParseDAG_def ParseReactFlowJSON_def decode_dag_doc [OF assms(1,2)])
next
  case (Inr ns)
  have "Validate (Some \<lparr>Nodes = ns, Edges = Edges d\<rparr>) = Validate (Some (\<lparr>Nodes = Nodes d, Edges = Edges d\<rparr> :: dag))"
    using normalize_nodes_Inr [OF Inr] by (intro Validate_cong) (simp_all add: canonical_def)
  then have "Validate (Some \<lparr>Nodes = ns, Edges = Edges d\<rparr>) = None" using assms(4) by (cases d) simp
  then show ?thesis
    using assms parse_not_Nil [OF assms(1,3)] Inr
    by (simp add: ParseDAG_def ParseReactFlowJSON_def decode_dag_doc [OF assms(1,2)])
qed

lemma rawOrEmpty_parsed:
  "json_laws lib \<Longrightarrow> jl_parse lib t = Inr v \<Longrightarrow> any_of lib v = Some w \<Longrightarrow> rawOrEmpty lib t = w"
  using parse_not_Nil by (simp add: rawOrEmpty_def)

lemma encode_node_canonical:
  assumes "rawOrEmpty lib (jl_text lib (rawOrEmpty lib (nd_Params n))) = rawOrEmpty lib (nd_Params n)"
  shows "encode_node lib (canonical lib n) = encode_node lib n"
  using assms by (simp add: encode_node_def canonical_def)

text \<open>C21: The documented round trip.  A graph that was parsed, and whose node parameters are JSON
  objects or arrays, is written and read back as the same graph: the same nodes and edges in the
  same order, the parameters rewritten with sorted keys and numbers as float64; the graph read back
  is written as the same text again.\<close>

theorem MarshalDAG_roundtrip:
  assumes "json_laws lib" "ParseDAG lib raw = Inr d" "MarshalDAG lib (Some d) = Inr t"
    and written: "\<And>v. dag_doc lib d = Some v \<Longrightarrow> jl_parse lib (jl_text lib v) = Inr v"
    and params: "\<And>n. n \<in> set (Nodes d) \<Longrightarrow> \<exists>v w. jl_parse lib (nd_Params n) = Inr v \<and> structured v
      \<and> any_of lib v = Some w \<and> jl_parse lib (jl_text lib w) = Inr w"
  shows "\<exists>d'. ParseDAG lib t = Inr d' \<and> MarshalDAG lib (Some d') = Inr t \<and> Edges d' = Edges d
    \<and> list_all2 (\<lambda>n n'. n' = n\<lparr>nd_Params := nd_Params n'\<rparr>
        \<and> (\<exists>v w. jl_parse lib (nd_Params n) = Inr v \<and> jl_parse lib (nd_Params n') = Inr w \<and> any_of lib v = Some w))
        (Nodes d) (Nodes d')"
proof -
  obtain v where v: "dag_doc lib d = Some v" "t = jl_text lib v"
    using assms(3) by (auto simp: MarshalDAG_def split: option.splits)
  define d' where "d' = \<lparr>Nodes = map (canonical lib) (Nodes d), Edges = Edges d\<rparr>"
  have each: "normalizeParams lib (nd_Params (canonical lib n)) = Some (nd_Params (canonical lib n))
      \<and> rawOrEmpty lib (nd_Params (canonical lib n)) = rawOrEmpty lib (nd_Params n)
      \<and> (\<exists>v w. jl_parse lib (nd_Params n) = Inr v \<and> jl_parse lib (nd_Params (canonical lib n)) = Inr w \<and> any_of lib v = Some w)"
    if n: "n \<in> set (Nodes d)" for n
  proof -
    obtain pv w where w: "jl_parse lib (nd_Params n) = Inr pv" "structured pv" "any_of lib pv = Some w"
      "jl_parse lib (jl_text lib w) = Inr w"
      using params [OF n] by blast
    have can: "nd_Params (canonical lib n) = jl_text lib w" "rawOrEmpty lib (nd_Params n) = w"
      using rawOrEmpty_parsed [OF assms(1) w(1,3)] by (simp_all add: canonical_def)
    moreover have "any_of lib w = Some w" by (rule any_of_idem [OF assms(1) w(3)])
    ultimately show ?thesis
      using w normalizeParams_structured [OF assms(1) w(4)] rawOrEmpty_parsed [OF assms(1) w(4)]
        structured_any_of [OF w(3)] by auto
  qed
  have "ParseDAG lib t = Inr d'"
    using ParseDAG_marshalled [OF assms(1) v(1) written [OF v(1)]] ParseDAG_Inr [OF assms(2)] each
    by (simp add: v(2) normalize_nodes_id d'_def)
  moreover have "MarshalDAG lib (Some d') = Inr t"
  proof -
    have "encode_node lib (canonical lib n) = encode_node lib n" if "n \<in> set (Nodes d)" for n
      using each [OF that] by (intro encode_node_canonical) (simp add: canonical_def)
    then have "map (encode_node lib) (Nodes d') = map (encode_node lib) (Nodes d)" by (simp add: d'_def)
    then have "dag_doc lib d' = dag_doc lib d" unfolding dag_doc_def by (simp only:) (simp add: d'_def)
    then show ?thesis using v by (simp add: MarshalDAG_def)
  qed
  moreover have "list_all2 (\<lambda>n n'. n' = n\<lparr>nd_Params := nd_Params n'\<rparr>
        \<and> (\<exists>v w. jl_parse lib (nd_Params n) = Inr v \<and> jl_parse lib (nd_Params n') = Inr w \<and> any_of lib v = Some w))
        (Nodes d) (Nodes d')"
    using each by (simp add: d'_def list.rel_map list.rel_refl_strong canonical_def)
  ultimately show ?thesis by (intro exI [of _ d']) (simp add: d'_def)
qed

text \<open>A library that knows the texts of one document.\<close>

definition demo_params :: json where
  "demo_params = JObj [(''window'', JNum ''5''), (''field'', JStr ''close'')]"

definition demo_sorted :: json where
  "demo_sorted = JObj [(''field'', JStr ''close''), (''window'', JNum ''5'')]"

definition demo_doc_of :: "json \<Rightarrow> json" where
  "demo_doc_of p = JObj [(''nodes'', JArr [JObj [(''data'', JObj [(''params'', p), (''subtype'', JStr ''ma'')]),
     (''id'', JStr ''a''), (''type'', JStr ''indicator'')]]), (''edges'', JArr [])]"

definition demo_texts :: "(string \<times> json) list" where
  "demo_texts = [(''request'', demo_doc_of demo_params), (''stored'', demo_doc_of demo_sorted),
     (''params'', demo_params), (''sorted'', demo_sorted), (''null'', JNull),
     (''quoted'', JStr ''plain''), (''bad'', demo_doc_of (JStr ''quoted'')), (''worse'', demo_doc_of (JStr ''plain'')),
     (''other'', JStr ''quoted''),
     (''exported'', JObj [(''code'', JStr ''m''), (''name'', JStr ''N''), (''description'', JStr []), (''tags'', JStr []),
        (''status'', JStr ''active''), (''dag_json'', JStr ''stored'')])]"

definition demo_json :: json_lib where
  "demo_json =
     \<lparr>jl_parse = (\<lambda>t. case map_of demo_texts t of None \<Rightarrow> Inl ''syntax'' | Some v \<Rightarrow> Inr v),
      jl_text = (\<lambda>v. case find (\<lambda>(t, w). w = v) demo_texts of None \<Rightarrow> [] | Some (t, _) \<Rightarrow> t),
      jl_float = (\<lambda>l. if l = ''5'' then Some (Fin 5) else None),
      jl_number = (\<lambda>x. if x = Fin 5 then Some ''5'' else None)\<rparr>"

definition demo_dag :: dag where
  "demo_dag = \<lparr>Nodes = [\<lparr>nd_ID = ''a'', nd_Type = ''indicator'', nd_Subtype = ''ma'', nd_Params = ''params'',
     nd_Position = None\<rparr>], Edges = []\<rparr>"

lemmas demo_json_defs = demo_json_def demo_texts_def demo_doc_of_def demo_params_def demo_sorted_def demo_dag_def

lemma demo_laws: "json_laws demo_json"
  by (simp add: json_laws_def demo_json_def demo_texts_def is_ok_def)

lemma demo_parse: "ParseDAG demo_json ''request'' = Inr demo_dag"
  by code_simp

definition demo_sorted_dag :: dag where
  "demo_sorted_dag = \<lparr>Nodes = [\<lparr>nd_ID = ''a'', nd_Type = ''indicator'', nd_Subtype = ''ma'', nd_Params = ''sorted'',
     nd_Position = None\<rparr>], Edges = []\<rparr>"

lemma demo_sorted_parse: "ParseDAG demo_json ''stored'' = Inr demo_sorted_dag"
  by code_simp

lemma demo_stored: "is_ok (ParseDAG demo_json ''stored'')"
  by (simp add: demo_sorted_parse)

lemma demo_marshal: "MarshalDAG demo_json (Some demo_dag) = Inr ''stored''"
  by code_simp

theorem MarshalDAG_roundtrip_witness:
  "\<exists>d'. ParseDAG demo_json ''stored'' = Inr d' \<and> MarshalDAG demo_json (Some d') = Inr ''stored'' \<and> Edges d' = []"
proof -
  have "\<exists>d'. ParseDAG demo_json ''stored'' = Inr d' \<and> MarshalDAG demo_json (Some d') = Inr ''stored'' \<and> Edges d' = Edges demo_dag
    \<and> list_all2 (\<lambda>n n'. n' = n\<lparr>nd_Params := nd_Params n'\<rparr>
        \<and> (\<exists>v w. jl_parse demo_json (nd_Params n) = Inr v \<and> jl_parse demo_json (nd_Params n') = Inr w \<and> any_of demo_json v = Some w))
        (Nodes demo_dag) (Nodes d')"
  proof (rule MarshalDAG_roundtrip [OF demo_laws demo_parse demo_marshal])
    fix v assume "dag_doc demo_json demo_dag = Some v"
    moreover have "dag_doc demo_json demo_dag = Some (demo_doc_of demo_sorted)" by code_simp
    moreover have "jl_parse demo_json (jl_text demo_json (demo_doc_of demo_sorted)) = Inr (demo_doc_of demo_sorted)" by code_simp
    ultimately show "jl_parse demo_json (jl_text demo_json v) = Inr v" by simp
  next
    fix n assume "n \<in> set (Nodes demo_dag)"
    then have n: "nd_Params n = ''params''" by (simp add: demo_dag_def)
    have "jl_parse demo_json ''params'' = Inr demo_params" "structured demo_params"
      "any_of demo_json demo_params = Some demo_sorted" "jl_parse demo_json (jl_text demo_json demo_sorted) = Inr demo_sorted"
      by code_simp+
    then show "\<exists>v w. jl_parse demo_json (nd_Params n) = Inr v \<and> structured v \<and> any_of demo_json v = Some w
        \<and> jl_parse demo_json (jl_text demo_json w) = Inr w"
      unfolding n by blast
  qed
  then show ?thesis unfolding demo_dag_def by (simp only: dag.select_convs) blast
qed

text \<open>A graph whose parameters are a JSON string (accepted by the parser when the string is given
  twice quoted) is written as a text that the parser rejects, unless the string holds JSON again:
  what is stored for a clone of such a strategy can no longer be read.\<close>

theorem MarshalDAG_loses_text_params:
  assumes "json_laws lib" "ParseDAG lib raw = Inr d" "MarshalDAG lib (Some d) = Inr t"
    and "\<And>v. dag_doc lib d = Some v \<Longrightarrow> jl_parse lib (jl_text lib v) = Inr v"
    and "n \<in> set (Nodes d)" "jl_parse lib (nd_Params n) = Inr (JStr s)" "s \<noteq> []" "\<not> json_valid lib s"
    and "jl_parse lib (jl_text lib (JStr s)) = Inr (JStr s)"
  shows "\<exists>i. ParseDAG lib t = Inl (BadParams i)"
proof -
  obtain v where v: "dag_doc lib d = Some v" "t = jl_text lib v"
    using assms(3) by (auto simp: MarshalDAG_def split: option.splits)
  have "normalizeParams lib (nd_Params (canonical lib n)) = None"
    using parse_not_Nil [OF assms(1,9)] rawOrEmpty_parsed [OF assms(1,6)] assms(7-9)
    by (simp add: canonical_def normalizeParams_def text_of_json_def)
  then have bad: "\<exists>n\<in>set (map (canonical lib) (Nodes d)). normalizeParams lib (nd_Params n) = None"
    using assms(5) by auto
  have rejected: "\<exists>i. normalize_nodes lib ns = Inl (BadParams i)"
    if "\<exists>n\<in>set ns. normalizeParams lib (nd_Params n) = None" for ns
    using that by (induction ns) (auto split: option.splits, metis map_sum.simps(1) id_apply)
  show ?thesis
    using rejected [OF bad] ParseDAG_marshalled [OF assms(1) v(1) assms(4) [OF v(1)] ParseDAG_Inr [OF assms(2)]]
    by (auto simp: v(2))
qed

definition quoted_dag :: dag where
  "quoted_dag = \<lparr>Nodes = [\<lparr>nd_ID = ''a'', nd_Type = ''indicator'', nd_Subtype = ''ma'', nd_Params = ''quoted'',
     nd_Position = None\<rparr>], Edges = []\<rparr>"

theorem MarshalDAG_loses_text_params_witness:
  "ParseDAG demo_json ''bad'' = Inr quoted_dag \<and> (\<exists>i. ParseDAG demo_json ''worse'' = Inl (BadParams i))"
proof -
  have p: "ParseDAG demo_json ''bad'' = Inr quoted_dag" "MarshalDAG demo_json (Some quoted_dag) = Inr ''worse''"
    "dag_doc demo_json quoted_dag = Some (demo_doc_of (JStr ''plain''))"
    "jl_parse demo_json (jl_text demo_json (demo_doc_of (JStr ''plain''))) = Inr (demo_doc_of (JStr ''plain''))"
    "jl_parse demo_json ''quoted'' = Inr (JStr ''plain'')" "\<not> json_valid demo_json ''plain''"
    "jl_parse demo_json (jl_text demo_json (JStr ''plain'')) = Inr (JStr ''plain'')"
    by code_simp+
  have "\<exists>i. ParseDAG demo_json ''worse'' = Inl (BadParams i)"
    by (rule MarshalDAG_loses_text_params [OF demo_laws p(1,2), where n = "hd (Nodes quoted_dag)" and s = "''plain''"])
      (use p in \<open>simp_all add: quoted_dag_def\<close>)
  with p(1) show ?thesis by blast
qed

end
