(* ===== verification/Go_Time.thy ===== *)
theory Go_Time
  imports AF_Prelude
begin

text \<open>
  What the code uses of Go's \<open>time\<close> package.  An instant is a number of nanoseconds since
  1970-01-01T00:00:00Z; a location is its offset from UTC in nanoseconds, constant as it is in
  Asia/Shanghai and in UTC, the locations the program is configured with.  A civil date is
  its day number; \<open>civil\<close> gives its year, month and day and \<open>format_date\<close> the text of the
  layout \<open>2006-01-02\<close>.
\<close>

type_synonym location = duration

definition nano_day :: duration where
  "nano_day = 24 * nano_hour"

lemmas day_unit_defs = nano_day_def nano_hour_def nano_minute_def nano_second_def

text \<open>The civil day of an instant, its midnight, and the minutes since midnight.\<close>

definition day_of :: "location \<Rightarrow> instant \<Rightarrow> int" where
  "day_of off t = (t + off) div nano_day"

definition midnight :: "location \<Rightarrow> int \<Rightarrow> instant" where
  "midnight off d = d * nano_day - off"

definition minute_of :: "location \<Rightarrow> instant \<Rightarrow> int" where
  "minute_of off t = ((t + off) mod nano_day) div nano_minute"

definition hour_of :: "location \<Rightarrow> instant \<Rightarrow> int" where
  "hour_of off t = ((t + off) mod nano_day) div nano_hour"

text \<open>\<open>Weekday\<close>: 0 is Sunday; 1970-01-01 was a Thursday.\<close>

definition weekday :: "int \<Rightarrow> int" where
  "weekday d = (d + 4) mod 7"

text \<open>\<open>AddDate(0, 0, n)\<close> keeps the clock time.\<close>

definition add_days :: "int \<Rightarrow> instant \<Rightarrow> instant" where
  "add_days n t = t + n * nano_day"

text \<open>Year, month and day of a day number, in the proleptic Gregorian calendar.\<close>

definition civil :: "int \<Rightarrow> int \<times> int \<times> int" where
  "civil d =
     (let z = d + 719468;
          era = z div 146097;
          doe = z mod 146097;
          yoe = (doe - doe div 1460 + doe div 36524 - doe div 146096) div 365;
          doy = doe - (365 * yoe + yoe div 4 - yoe div 100);
          mp = (5 * doy + 2) div 153;
          dd = doy - (153 * mp + 2) div 5 + 1;
          mm = (if mp < 10 then mp + 3 else mp - 9)
      in (yoe + era * 400 + (if mm \<le> 2 then 1 else 0), mm, dd))"

fun digits_rev :: "nat \<Rightarrow> nat \<Rightarrow> string" where
  "digits_rev 0 n = []"
| "digits_rev (Suc w) n = char_of (48 + n mod 10) # digits_rev w (n div 10)"

definition pad_digits :: "nat \<Rightarrow> int \<Rightarrow> string" where
  "pad_digits w n = rev (digits_rev w (nat n))"

definition format_date :: "int \<Rightarrow> string" where
  "format_date d =
     (case civil d of (y, m, dd) \<Rightarrow> pad_digits 4 y @ ''-'' @ pad_digits 2 m @ ''-'' @ pad_digits 2 dd)"

lemma nano_day_pos [simp]: "0 < nano_day"
  by (simp add: day_unit_defs)

lemma nano_day_neq [simp]: "nano_day \<noteq> 0"
  using nano_day_pos by linarith

lemma int_le_div_iff:
  assumes "0 < (c :: int)"
  shows "a \<le> b div c \<longleftrightarrow> a * c \<le> b"
proof
  assume "a \<le> b div c"
  then have "a * c \<le> (b div c) * c" using assms by (simp add: mult_right_mono)
  also have "\<dots> \<le> b" using assms by (simp add: minus_mod_eq_div_mult [symmetric])
  finally show "a * c \<le> b" .
next
  assume "a * c \<le> b"
  then have "(a * c) div c \<le> b div c" using assms by (rule zdiv_mono1)
  then show "a \<le> b div c" using assms by simp
qed

lemma midnight_le_iff: "midnight off d \<le> t \<longleftrightarrow> d \<le> day_of off t"
  unfolding midnight_def day_of_def int_le_div_iff [OF nano_day_pos] by auto

lemma day_of_midnight [simp]: "day_of off (midnight off d) = d"
  by (simp add: day_of_def midnight_def)

lemma day_of_mono: "s \<le> t \<Longrightarrow> day_of off s \<le> day_of off t"
  by (simp add: day_of_def zdiv_mono1)

lemma day_of_add_days: "day_of off (add_days n t) = day_of off t + n"
proof -
  have "(t + n * nano_day + off) div nano_day = ((t + off) + n * nano_day) div nano_day"
    by (simp add: algebra_simps)
  also have "\<dots> = (t + off) div nano_day + n"
    by simp
  finally show ?thesis by (simp add: day_of_def add_days_def)
qed

lemma minute_of_add_days: "minute_of off (add_days n t) = minute_of off t"
proof -
  have "(t + n * nano_day + off) mod nano_day = ((t + off) + n * nano_day) mod nano_day"
    by (simp add: algebra_simps)
  then show ?thesis by (simp add: minute_of_def add_days_def)
qed

lemma civil_examples: "civil 0 = (1970, 1, 1)" "civil 11016 = (2000, 2, 29)" "civil 20248 = (2025, 6, 9)"
  by code_simp+

lemma format_date_example: "format_date 20248 = ''2025-06-09''"
  by code_simp

end
