(* ===== verification/Calendar.thy ===== *)
theory Calendar
  imports Go_Time
begin

text \<open>
  \<open>calendar/trading_day.go\<close>: trading days and trading sessions.  The \<open>trading_calendar\<close> table
  is an argument of every call that may query it, as are the readings of the clock; the text
  \<open>YYYY-MM-DD\<close> of a cache key is replaced by the day number it is the date of.
\<close>

section \<open>Configuration\<close>

definition is_digit :: "char \<Rightarrow> bool" where
  "is_digit c \<longleftrightarrow> CHR ''0'' \<le> c \<and> c \<le> CHR ''9''"

definition digit_value :: "char \<Rightarrow> int" where
  "digit_value c = int (of_char c) - 48"

text \<open>Go's \<open>getnum\<close>: one or two digits, exactly two when \<open>fixed\<close>.\<close>

fun getnum :: "bool \<Rightarrow> string \<Rightarrow> (int \<times> string) option" where
  "getnum fixed [] = None"
| "getnum fixed [c] = (if is_digit c \<and> \<not> fixed then Some (digit_value c, []) else None)"
| "getnum fixed (c # d # s) =
     (if \<not> is_digit c then None
      else if \<not> is_digit d then (if fixed then None else Some (digit_value c, d # s))
      else Some (digit_value c * 10 + digit_value d, s))"

text \<open>\<open>parseHHMM\<close>, with \<open>time.Parse(\<open>15:04\<close>, s)\<close> written out.\<close>

definition parseHHMM :: "string \<Rightarrow> int option" where
  "parseHHMM s =
     (case getnum False s of
        None \<Rightarrow> None
      | Some (h, s1) \<Rightarrow>
          if h < 0 \<or> 24 \<le> h then None
          else case s1 of
            [] \<Rightarrow> None
          | c # s2 \<Rightarrow>
              if c \<noteq> CHR '':'' then None
              else case getnum True s2 of
                None \<Rightarrow> None
              | Some (m, s3) \<Rightarrow>
                  if m < 0 \<or> 60 \<le> m then None else if s3 \<noteq> [] then None else Some (h * 60 + m))"

record calendar_strings =
  cs_MorningStart :: string
  cs_MorningEnd :: string
  cs_AfternoonStart :: string
  cs_AfternoonEnd :: string
  cs_ReviewStart :: string
  cs_ReviewEnd :: string

record calendar_config =
  timezone :: location
  morningStart :: int
  morningEnd :: int
  afternoonStart :: int
  afternoonEnd :: int
  reviewStart :: int
  reviewEnd :: int

text \<open>A cache entry; \<open>ok = False\<close> means that the table had no row for the date.\<close>

record cached_day =
  cd_isTrading :: bool
  cd_ok :: bool
  cd_transient :: bool
  cd_expiresAt :: instant

definition no_day :: cached_day where
  "no_day = \<lparr>cd_isTrading = False, cd_ok = False, cd_transient = False, cd_expiresAt = 0\<rparr>"

record calendar =
  cal_cache :: "int \<rightharpoonup> cached_day"
  cal_cfg :: calendar_config

text \<open>\<open>NewService\<close>; \<open>loc\<close> is what \<open>time.LoadLocation\<close> gives for the configured name.\<close>

definition NewCalendar :: "location option \<Rightarrow> calendar_strings \<Rightarrow> calendar option" where
  "NewCalendar loc cfg =
     (case loc of None \<Rightarrow> None | Some off \<Rightarrow>
      case parseHHMM (cs_MorningStart cfg) of None \<Rightarrow> None | Some ms \<Rightarrow>
      case parseHHMM (cs_MorningEnd cfg) of None \<Rightarrow> None | Some me \<Rightarrow>
      case parseHHMM (cs_AfternoonStart cfg) of None \<Rightarrow> None | Some as \<Rightarrow>
      case parseHHMM (cs_AfternoonEnd cfg) of None \<Rightarrow> None | Some ae \<Rightarrow>
      case parseHHMM (cs_ReviewStart cfg) of None \<Rightarrow> None | Some rs \<Rightarrow>
      case parseHHMM (cs_ReviewEnd cfg) of None \<Rightarrow> None | Some re \<Rightarrow>
        Some \<lparr>cal_cache = Map.empty,
              cal_cfg = \<lparr>timezone = off, morningStart = ms, morningEnd = me, afternoonStart = as,
                         afternoonEnd = ae, reviewStart = rs, reviewEnd = re\<rparr>\<rparr>)"

section \<open>Trading days\<close>

text \<open>The table: unreachable, or its rows in primary-key order, each a date and its flag.\<close>

datatype calendar_db = DbError | DbRows "(instant \<times> bool) list"

definition negErrTTL :: duration where
  "negErrTTL = 30 * nano_second"

definition cal_key :: "calendar \<Rightarrow> instant \<Rightarrow> int" where
  "cal_key s day = day_of (timezone (cal_cfg s)) day"

definition cal_lookup ::
  "calendar_db option \<Rightarrow> instant \<Rightarrow> int \<Rightarrow> instant \<Rightarrow> calendar \<Rightarrow> (cached_day \<times> bool) \<times> calendar" where
  "cal_lookup db now key day s =
     (case (case cal_cache s key of
              Some c \<Rightarrow> if \<not> cd_transient c \<or> now < cd_expiresAt c then Some c else None
            | None \<Rightarrow> None) of
        Some c \<Rightarrow> ((c, True), s)
      | None \<Rightarrow>
          case db of
            None \<Rightarrow> ((no_day, False), s)
          | Some DbError \<Rightarrow>
              ((no_day, False),
               s\<lparr>cal_cache := (cal_cache s)
                   (key \<mapsto> no_day\<lparr>cd_transient := True, cd_expiresAt := now + negErrTTL\<rparr>)\<rparr>)
          | Some (DbRows rows) \<Rightarrow>
              let start = midnight (timezone (cal_cfg s)) (day_of (timezone (cal_cfg s)) day);
                  stop = start + 24 * nano_hour
              in case find (\<lambda>r. start \<le> fst r \<and> fst r < stop) rows of
                   None \<Rightarrow> ((no_day, False), s\<lparr>cal_cache := (cal_cache s)(key \<mapsto> no_day)\<rparr>)
                 | Some r \<Rightarrow>
                     let c = no_day\<lparr>cd_isTrading := snd r, cd_ok := True\<rparr>
                     in ((c, True), s\<lparr>cal_cache := (cal_cache s)(key \<mapsto> c)\<rparr>))"

definition weekend_rule :: "location \<Rightarrow> instant \<Rightarrow> bool" where
  "weekend_rule off day =
     (let wd = weekday (day_of off day) in wd \<noteq> 6 \<and> wd \<noteq> 0)"

definition IsTradingDay ::
  "calendar_db option \<Rightarrow> instant \<Rightarrow> instant \<Rightarrow> calendar \<Rightarrow> bool \<times> calendar" where
  "IsTradingDay db now day s =
     (case cal_lookup db now (cal_key s day) day s of
        ((c, ok), s') \<Rightarrow> (if ok then cd_isTrading c else weekend_rule (timezone (cal_cfg s)) day, s'))"

text \<open>
  The scan loop of \<open>NextTradingDay\<close> (\<open>sign\<close> is 1) and \<open>PreviousTradingDay\<close> (\<open>sign\<close> is -1),
  from step \<open>i\<close> on for \<open>n\<close> more steps; \<open>env i\<close> is the table and the clock at step \<open>i\<close>.
\<close>

fun scan_days ::
  "int \<Rightarrow> (int \<Rightarrow> calendar_db option \<times> instant) \<Rightarrow> instant \<Rightarrow> nat \<Rightarrow> int \<Rightarrow> calendar
   \<Rightarrow> (instant \<times> bool) \<times> calendar"
where
  "scan_days sign env day 0 i s = ((day, False), s)"
| "scan_days sign env day (Suc n) i s =
     (let cand = add_days (sign * i) day
      in case IsTradingDay (fst (env i)) (snd (env i)) cand s of
           (True, s') \<Rightarrow> ((cand, True), s')
         | (False, s') \<Rightarrow> scan_days sign env day n (i + 1) s')"

definition NextTradingDay ::
  "(int \<Rightarrow> calendar_db option \<times> instant) \<Rightarrow> instant \<Rightarrow> calendar \<Rightarrow> (instant \<times> bool) \<times> calendar" where
  "NextTradingDay env day s = scan_days 1 env day 366 1 s"

definition PreviousTradingDay ::
  "(int \<Rightarrow> calendar_db option \<times> instant) \<Rightarrow> instant \<Rightarrow> calendar \<Rightarrow> (instant \<times> bool) \<times> calendar" where
  "PreviousTradingDay env day s = scan_days (- 1) env day 366 1 s"

definition ReloadCache :: "calendar \<Rightarrow> calendar" where
  "ReloadCache s = s\<lparr>cal_cache := Map.empty\<rparr>"

section \<open>Sessions\<close>

definition IsInTradingSession :: "calendar \<Rightarrow> instant \<Rightarrow> bool" where
  "IsInTradingSession s at =
     (let hm = minute_of (timezone (cal_cfg s)) at
      in if morningStart (cal_cfg s) \<le> hm \<and> hm < morningEnd (cal_cfg s) then True
         else if afternoonStart (cal_cfg s) \<le> hm \<and> hm < afternoonEnd (cal_cfg s) then True
         else False)"

datatype session = MORNING | AFTERNOON | REVIEW | NO_POST

definition SessionAt :: "calendar \<Rightarrow> instant \<Rightarrow> session" where
  "SessionAt s at =
     (let hm = minute_of (timezone (cal_cfg s)) at
      in if morningStart (cal_cfg s) \<le> hm \<and> hm < morningEnd (cal_cfg s) then MORNING
         else if afternoonStart (cal_cfg s) \<le> hm \<and> hm < afternoonEnd (cal_cfg s) then AFTERNOON
         else if reviewStart (cal_cfg s) \<le> hm \<and> hm < reviewEnd (cal_cfg s) then REVIEW
         else NO_POST)"

section \<open>Lemmas\<close>

lemma IsTradingDay_cfg: "cal_cfg (snd (IsTradingDay db now day s)) = cal_cfg s"
  by (auto simp: IsTradingDay_def cal_lookup_def Let_def split: option.splits calendar_db.splits)

text \<open>What a scan has asked: the answers at the skipped steps and at the last one.\<close>

fun day_answers ::
  "int \<Rightarrow> (int \<Rightarrow> calendar_db option \<times> instant) \<Rightarrow> instant \<Rightarrow> nat \<Rightarrow> int \<Rightarrow> calendar \<Rightarrow> bool list"
where
  "day_answers sign env day 0 i s = []"
| "day_answers sign env day (Suc n) i s =
     (case IsTradingDay (fst (env i)) (snd (env i)) (add_days (sign * i) day) s of
        (b, s') \<Rightarrow> b # day_answers sign env day n (i + 1) s')"

lemma length_day_answers [simp]: "length (day_answers sign env day n i s) = n"
  by (induction n arbitrary: i s) (auto split: prod.split)

lemma scan_days_spec:
  "fst (scan_days sign env day n i s) =
     (case find (\<lambda>k. day_answers sign env day n i s ! k) [0..<n] of
        Some k \<Rightarrow> (add_days (sign * (i + int k)) day, True)
      | None \<Rightarrow> (day, False))"
proof (induction n arbitrary: i s)
  case 0
  then show ?case by simp
next
  case (Suc n)
  obtain b s' where a: "IsTradingDay (fst (env i)) (snd (env i)) (add_days (sign * i) day) s = (b, s')"
    by fastforce
  let ?as = "day_answers sign env day n (i + 1) s'"
  have up: "[0..<Suc n] = 0 # map Suc [0..<n]"
    by (simp add: map_Suc_upt upt_conv_Cons)
  have fm: "find P (map Suc ks) = map_option Suc (find (P \<circ> Suc) ks)" for P ks
    by (induction ks) auto
  have "fst (scan_days sign env day (Suc n) i s) =
      (if b then (add_days (sign * i) day, True) else fst (scan_days sign env day n (i + 1) s'))"
    by (simp add: a Let_def)
  moreover have "day_answers sign env day (Suc n) i s = b # ?as" by (simp add: a)
  ultimately show ?case
    unfolding up by (cases b) (simp_all add: fm comp_def Suc.IH [of "i + 1" s'] add.assoc split: option.split)
qed

text \<open>The two session questions agree, and neither depends on the day.\<close>

lemma sessions_agree:
  "(IsInTradingSession s at \<longleftrightarrow> SessionAt s at = MORNING \<or> SessionAt s at = AFTERNOON)
   \<and> SessionAt s (add_days n at) = SessionAt s at
   \<and> IsInTradingSession s (add_days n at) = IsInTradingSession s at"
  by (simp add: IsInTradingSession_def SessionAt_def Let_def minute_of_add_days)

section \<open>Properties\<close>

definition ex_calendar :: calendar where
  "ex_calendar = \<lparr>cal_cache = Map.empty,
     cal_cfg = \<lparr>timezone = 8 * nano_hour, morningStart = 570, morningEnd = 690, afternoonStart = 780,
                afternoonEnd = 900, reviewStart = 900, reviewEnd = 1020\<rparr>\<rparr>"

text \<open>C26: \<open>IsTradingDay\<close> contradicts itself: for a weekday that is not cached and has no row in a
  reachable table, the first call answers yes and the next call answers no, because the cached
  miss is taken for a known non-trading day.\<close>

theorem IsTradingDay_flips:
  assumes "cal_cache s (cal_key s day) = None"
    and "\<forall>r\<in>set rows. day_of (timezone (cal_cfg s)) (fst r) \<noteq> cal_key s day"
    and "weekday (cal_key s day) \<in> {1..5}"
  shows "fst (IsTradingDay (Some (DbRows rows)) now day s) = True
     \<and> fst (IsTradingDay db later day (snd (IsTradingDay (Some (DbRows rows)) now day s))) = False"
proof -
  let ?off = "timezone (cal_cfg s)"
  have "find (\<lambda>r. midnight ?off (day_of ?off day) \<le> fst r
           \<and> fst r < midnight ?off (day_of ?off day) + 24 * nano_hour) rows = None"
  proof -
    have "day_of ?off t = day_of ?off day"
      if "midnight ?off (day_of ?off day) \<le> t" "t < midnight ?off (day_of ?off day) + 24 * nano_hour" for t
    proof -
      have "\<not> midnight ?off (day_of ?off day + 1) \<le> t"
        using that(2) by (simp add: midnight_def nano_day_def algebra_simps)
      then show ?thesis using that(1) by (simp add: midnight_le_iff)
    qed
    then show ?thesis using assms(2) by (auto simp: find_None_iff cal_key_def)
  qed
  then show ?thesis
    using assms(1,3) by (auto simp: IsTradingDay_def cal_lookup_def cal_key_def weekend_rule_def Let_def no_day_def)
qed

theorem IsTradingDay_flips_witness:
  "fst (IsTradingDay (Some (DbRows [])) 0 0 ex_calendar) = True
   \<and> fst (IsTradingDay None 1 0 (snd (IsTradingDay (Some (DbRows [])) 0 0 ex_calendar))) = False"
  by (rule IsTradingDay_flips) (simp_all add: ex_calendar_def cal_key_def day_of_def weekday_def day_unit_defs)

text \<open>\<open>NextTradingDay\<close> and \<open>PreviousTradingDay\<close> return the nearest later or earlier day, at the
  same clock time, for which \<open>IsTradingDay\<close> answered yes when it was asked, and report failure exactly
  when it answered no for all of the 366 nearest days.\<close>

theorem NextTradingDay_nearest:
  "fst (NextTradingDay env day s) =
     (case find (\<lambda>k. day_answers 1 env day 366 1 s ! k) [0..<366] of
        Some k \<Rightarrow> (day + (1 + int k) * nano_day, True) | None \<Rightarrow> (day, False))
   \<and> fst (PreviousTradingDay env day s) =
     (case find (\<lambda>k. day_answers (- 1) env day 366 1 s ! k) [0..<366] of
        Some k \<Rightarrow> (day - (1 + int k) * nano_day, True) | None \<Rightarrow> (day, False))"
  unfolding NextTradingDay_def PreviousTradingDay_def scan_days_spec
  by (simp add: add_days_def algebra_simps split: option.split)

end
