(* ===== verification/Go_Parse.thy ===== *)
theory Go_Parse
  imports Calendar
begin

text \<open>
  What the request handlers use to read numbers and dates: \<open>strconv.Atoi\<close> and \<open>time.Parse\<close> with the layout
  \<open>2006-01-02\<close>; and the wrap-around of 64-bit integers.
\<close>

definition int64 :: "int \<Rightarrow> int" where
  "int64 n = (n + 2 ^ 63) mod 2 ^ 64 - 2 ^ 63"

definition digits_value :: "string \<Rightarrow> int" where
  "digits_value s = foldl (\<lambda>n c. 10 * n + digit_value c) 0 s"

text \<open>\<open>strconv.Atoi\<close>; its errors are not looked at.\<close>

definition Atoi :: "string \<Rightarrow> int option" where
  "Atoi s =
     (let neg = (s \<noteq> [] \<and> hd s = CHR ''-'');
          ds = (if s \<noteq> [] \<and> (hd s = CHR ''-'' \<or> hd s = CHR ''+'') then tl s else s);
          v = (if neg then - digits_value ds else digits_value ds)
      in if ds \<noteq> [] \<and> list_all is_digit ds \<and> - (2 ^ 63) \<le> v \<and> v < 2 ^ 63 then Some v else None)"

text \<open>The day number of a civil date, and \<open>time.Parse\<close> with the layout \<open>2006-01-02\<close>: a day that the month
  does not have is an error.\<close>

definition days_of_civil :: "int \<Rightarrow> int \<Rightarrow> int \<Rightarrow> int" where
  "days_of_civil y m d =
     (let y' = (if m \<le> 2 then y - 1 else y); era = y' div 400; yoe = y' mod 400;
          doy = (153 * (if 2 < m then m - 3 else m + 9) + 2) div 5 + d - 1;
          doe = yoe * 365 + yoe div 4 - yoe div 100 + doy
      in era * 146097 + doe - 719468)"

definition parseDate :: "string \<Rightarrow> instant option" where
  "parseDate s =
     (if length s = 10 \<and> s ! 4 = CHR ''-'' \<and> s ! 7 = CHR ''-'' \<and> list_all is_digit (take 4 s @ take 2 (drop 5 s) @ drop 8 s)
      then let y = digits_value (take 4 s); m = digits_value (take 2 (drop 5 s)); d = digits_value (drop 8 s);
               day = days_of_civil y m d
           in if 1 \<le> m \<and> m \<le> 12 \<and> 1 \<le> d \<and> civil day = (y, m, d) then Some (midnight 0 day) else None
      else None)"

lemma parseDate_examples: "parseDate ''2025-06-09'' = Some (midnight 0 20248)" "parseDate ''2025-02-29'' = None"
  by code_simp+

lemma int64_id: "- (2 ^ 63) \<le> n \<Longrightarrow> n < 2 ^ 63 \<Longrightarrow> int64 n = n"
  by (simp add: int64_def)

end
