(* ===== verification/F64_Order.thy ===== *)
theory F64_Order
  imports F64
begin

text \<open>
  Facts about \<open>float64\<close> the components use: which values are representable, small integers are
  exact, operations give representable values, the order is total outside NaN, and rounding is
  monotone and does not cross a representable value.
\<close>

section \<open>Small integers\<close>

lemma f_limit_gt: "(2 :: rat) ^ 53 < f_limit"
  unfolding f_limit_def by (rule power_strict_increasing) simp_all

lemma f_limit_pos [simp]: "0 < f_limit" "\<not> f_limit \<le> 0" "1 < f_limit"
proof -
  have "(1 :: rat) < 2 ^ 53" by simp
  then show "1 < f_limit" using f_limit_gt by linarith
  then show "0 < f_limit" "\<not> f_limit \<le> 0" by linarith+
qed

lemma rep_mag_int:
  assumes "0 \<le> n" "n \<le> 2 ^ 53"
  shows "rep_mag (of_int n)"
proof (cases "n = 0 \<or> n = 2 ^ 53")
  case True
  have "(of_int (2 ^ 53) :: rat) = 2 powi 53" by (simp add: power_int_def)
  moreover have "rep_mag (2 powi 53)" by (rule rep_mag_pow) simp
  ultimately have "rep_mag (of_int (2 ^ 53))" by (simp only:)
  with True show ?thesis by (elim disjE) (simp_all only: of_int_0 rep_mag_0)
next
  case False
  then have n: "0 < n" "n < 2 ^ 53" using assms by auto
  let ?q = "of_int n :: rat"
  have q: "0 < ?q" using n by simp
  have "?q < of_int (2 ^ 53)" using n(2) by (simp only: of_int_less_iff)
  also have "(of_int (2 ^ 53) :: rat) = 2 powi 53" by (simp add: power_int_def)
  finally have "(2 :: rat) powi ilog2 ?q < 2 powi 53"
    using ilog2_bounds(1) [OF q] by linarith
  then have "ilog2 ?q < 53" by (rule powi_less_iff [THEN iffD1])
  then have E: "ulp_exp ?q \<le> 0" by (simp add: ulp_exp_def)
  have one: "(1 :: rat) = of_int (2 ^ nat (0 - ulp_exp ?q)) * 2 powi ulp_exp ?q"
    using powi_split [OF E] by simp
  have "?q = of_int (n * 2 ^ nat (0 - ulp_exp ?q)) * 2 powi ulp_exp ?q"
  proof -
    have "?q = ?q * 1" by simp
    also have "\<dots> = ?q * (of_int (2 ^ nat (0 - ulp_exp ?q)) * 2 powi ulp_exp ?q)"
      using one by (simp only:)
    finally show ?thesis by simp
  qed
  from rnd_mag_exact [OF q this] show ?thesis .
qed

section \<open>Representable values\<close>

fun f_ok :: "f64 \<Rightarrow> bool" where
  "f_ok (Fin q) = (rep_mag \<bar>q\<bar> \<and> \<bar>q\<bar> < f_limit)"
| "f_ok _ = True"

lemma f_round_ok: "f_ok (f_round neg q)"
  using rnd_mag_idem [of "\<bar>q\<bar>"] rnd_mag_nonneg [of "\<bar>q\<bar>"]
  by (auto simp: f_round_def f_zero_def Let_def not_le)

lemma f_round_exact: "rep_mag \<bar>q\<bar> \<Longrightarrow> \<bar>q\<bar> < f_limit \<Longrightarrow> q \<noteq> 0 \<Longrightarrow> f_round neg q = Fin q"
  by (simp add: f_round_def rep_mag_def Let_def)

lemma f_of_int_exact:
  assumes "\<bar>n\<bar> \<le> 2 ^ 53"
  shows "f_of_int n = Fin (of_int n)"
proof (cases "n = 0")
  case False
  have "rep_mag \<bar>of_int n\<bar>" using rep_mag_int [of "\<bar>n\<bar>"] assms by simp
  moreover have "\<bar>of_int n :: rat\<bar> < f_limit"
  proof -
    have "(of_int \<bar>n\<bar> :: rat) \<le> of_int (2 ^ 53)" using assms by (simp only: of_int_le_iff)
    also have "\<dots> = 2 ^ 53" by (simp only: of_int_power of_int_numeral)
    also have "\<dots> < f_limit" by (rule f_limit_gt)
    finally show ?thesis by simp
  qed
  ultimately show ?thesis using False by (simp add: f_of_int_def f_round_exact)
qed (simp add: f_of_int_def f_round_def f_zero_def)

lemma f_arith_ok: "f_ok (f_add x y)" "f_ok (f_mul x y)" "f_ok (f_div x y)"
  "f_ok x \<Longrightarrow> f_ok (f_neg x)" "f_ok x \<Longrightarrow> f_ok (f_abs x)"
proof -
  show "f_ok (f_add x y)" by (cases x; cases y) (simp_all add: f_add_def f_round_ok)
  show "f_ok (f_mul x y)" by (simp add: f_mul_def f_round_ok Let_def)
  show "f_ok (f_div x y)" by (simp add: f_div_def f_round_ok Let_def f_zero_def)
  show "f_ok (f_neg x)" if "f_ok x" using that by (cases x) auto
  show "f_ok (f_abs x)" if "f_ok x" using that by (cases x) auto
qed

section \<open>The order\<close>

fun f_class :: "f64 \<Rightarrow> int" where
  "f_class (Inf neg) = (if neg then - 1 else 1)"
| "f_class _ = 0"

lemma f_lt_iff:
  "f_lt x y \<longleftrightarrow> x \<noteq> NaN \<and> y \<noteq> NaN
     \<and> (f_class x < f_class y \<or> f_class x = f_class y \<and> f_val x < f_val y)"
  by (cases x; cases y) auto

lemma f_eq_iff:
  "f_eq x y \<longleftrightarrow> x \<noteq> NaN \<and> y \<noteq> NaN \<and> f_class x = f_class y \<and> f_val x = f_val y"
  by (cases x; cases y) (auto simp: f_eq_def f_is_zero_def)

lemma f_le_iff:
  "f_le x y \<longleftrightarrow> x \<noteq> NaN \<and> y \<noteq> NaN
     \<and> (f_class x < f_class y \<or> f_class x = f_class y \<and> f_val x \<le> f_val y)"
  by (auto simp: f_le_def f_lt_iff f_eq_iff)

lemma f_le_refl: "x \<noteq> NaN \<Longrightarrow> f_le x x" by (simp add: f_le_iff)
lemma f_le_trans: "f_le x y \<Longrightarrow> f_le y z \<Longrightarrow> f_le x z" by (auto simp: f_le_iff)
lemma f_le_total: "x \<noteq> NaN \<Longrightarrow> y \<noteq> NaN \<Longrightarrow> f_le x y \<or> f_le y x" by (auto simp: f_le_iff)
lemma f_lt_trans: "f_lt x y \<Longrightarrow> f_lt y z \<Longrightarrow> f_lt x z" by (auto simp: f_lt_iff)
lemma f_lt_irrefl: "\<not> f_lt x x" by (simp add: f_lt_iff)
lemma f_not_lt: "x \<noteq> NaN \<Longrightarrow> y \<noteq> NaN \<Longrightarrow> \<not> f_lt x y \<longleftrightarrow> f_le y x"
  by (auto simp: f_le_iff f_lt_iff)
lemma f_le_lt_trans: "f_le x y \<Longrightarrow> f_lt y z \<Longrightarrow> f_lt x z" by (auto simp: f_le_iff f_lt_iff)
lemma f_lt_le_trans: "f_lt x y \<Longrightarrow> f_le y z \<Longrightarrow> f_lt x z" by (auto simp: f_le_iff f_lt_iff)
lemma f_lt_imp_le: "f_lt x y \<Longrightarrow> f_le x y" by (simp add: f_le_def)

lemma f_max_iff: "x \<noteq> NaN \<Longrightarrow> y \<noteq> NaN \<Longrightarrow> f_le z (f_max x y) \<longleftrightarrow> f_le z x \<or> f_le z y"
  by (cases x; cases y) (auto simp: f_max_def f_le_iff f_lt_iff f_is_zero_def)

lemma f_round_not_NaN [simp]: "f_round neg q \<noteq> NaN"
  by (simp add: f_round_def f_zero_def Let_def)

lemma f_round_le_round:
  assumes "p \<le> q"
  shows "f_le (f_round a p) (f_round b q)"
proof -
  consider "0 \<le> p" | "q \<le> 0" | "p < 0" "0 < q" by linarith
  then show ?thesis
  proof cases
    case 1
    then have "rnd_mag \<bar>p\<bar> \<le> rnd_mag \<bar>q\<bar>" using assms by (intro rnd_mag_mono) simp
    then show ?thesis
      using 1 assms rnd_mag_nonneg [of "\<bar>q\<bar>"] by (auto simp: f_round_def f_zero_def Let_def f_le_iff)
  next
    case 2
    then have "rnd_mag \<bar>q\<bar> \<le> rnd_mag \<bar>p\<bar>" using assms by (intro rnd_mag_mono) simp
    then show ?thesis
      using 2 assms rnd_mag_nonneg [of "\<bar>p\<bar>"] rnd_mag_nonneg [of "\<bar>q\<bar>"] by (auto simp: f_round_def f_zero_def Let_def f_le_iff)
  next
    case 3
    then show ?thesis
      using rnd_mag_nonneg [of "\<bar>p\<bar>"] rnd_mag_nonneg [of "\<bar>q\<bar>"]
      by (auto simp: f_round_def f_zero_def Let_def f_le_iff)
  qed
qed

text \<open>Rounding does not cross a representable value.\<close>

lemma f_round_0: "f_round neg 0 = f_zero neg"
  by (simp add: f_round_def)

lemma f_zero_simps [simp]: "f_val (f_zero neg) = 0" "f_class (f_zero neg) = 0" "f_zero neg \<noteq> NaN"
  by (simp_all add: f_zero_def)

lemma f_round_val:
  assumes "f_finite x" "f_ok x"
  shows "f_eq (f_round neg (f_val x)) x"
proof (cases "f_val x = 0")
  case True
  then show ?thesis using assms(1) by (cases x) (auto simp: f_round_0 f_eq_iff)
next
  case False
  then obtain q where "x = Fin q" by (cases x) auto
  then show ?thesis using assms False by (simp add: f_round_exact f_eq_iff)
qed

lemma f_round_le: "f_finite y \<Longrightarrow> f_ok y \<Longrightarrow> p \<le> f_val y \<Longrightarrow> f_le (f_round neg p) y"
  using f_round_le_round [of p "f_val y" neg False] f_round_val [of y False]
  by (meson f_le_def f_le_trans)

lemma f_round_ge: "f_finite x \<Longrightarrow> f_ok x \<Longrightarrow> f_val x \<le> q \<Longrightarrow> f_le x (f_round neg q)"
  using f_round_le_round [of "f_val x" q False neg] f_round_val [of x False]
  by (auto simp: f_le_iff f_eq_iff)

lemma f_1 [simp]: "f_ok (Fin 1)" "f_ok (Fin 0)"
  using rep_mag_int [of 1] by simp_all

lemma f_ok_pow2: "f_ok (Fin (1 / 2 ^ n))" if "n \<le> 1000"
proof -
  have "(1 / 2 ^ n :: rat) = 2 powi - int n" by (simp add: power_int_minus field_simps)
  moreover have "(1 / 2 ^ n :: rat) \<le> 1" by simp
  moreover have "(1 :: rat) < f_limit" by simp
  moreover have "(0 :: rat) < 1 / 2 ^ n" by simp
  ultimately show ?thesis using rep_mag_pow [of "- int n"] that by (auto intro: le_less_trans)
qed

end
