(* ===== verification/Source_Types.thy ===== *)
theory Source_Types
  imports F64_Order Go_Time Go_Text
begin

text \<open>
  The market data of \<open>datasource/types.go\<close> and the stock codes of \<open>datasource/code.go\<close>.  A
  \<open>time.Time\<close> is an instant together with the location it is printed in.
\<close>

section \<open>Market data\<close>

record wall_time =
  wt_instant :: instant
  wt_loc :: location

text \<open>\<open>Format("2006-01-02")\<close>: the date in the value's own location.\<close>

definition date_text :: "wall_time \<Rightarrow> string" where
  "date_text t = format_date (day_of (wt_loc t) (wt_instant t))"

record bid_ask =
  ba_Price :: f64
  ba_Volume :: int

record quote =
  q_StockCode :: string
  q_StockName :: string
  q_Price :: f64
  q_Open :: f64
  q_High :: f64
  q_Low :: f64
  q_PrevClose :: f64
  q_Volume :: int
  q_Amount :: f64
  q_Bid5 :: "bid_ask list"
  q_Ask5 :: "bid_ask list"
  q_Timestamp :: wall_time
  q_Source :: string

record kline =
  k_StockCode :: string
  k_Period :: string
  k_Timestamp :: wall_time
  k_Open :: f64
  k_High :: f64
  k_Low :: f64
  k_Close :: f64
  k_Volume :: int
  k_Amount :: f64
  k_Source :: string

record fundamental =
  fd_StockCode :: string
  fd_StockName :: string
  fd_PE :: f64
  fd_PB :: f64
  fd_ROE :: f64
  fd_DividendYield :: f64
  fd_Revenue :: f64
  fd_NetProfit :: f64
  fd_UpdateTime :: wall_time
  fd_Source :: string

record news =
  nw_StockCode :: string
  nw_Title :: string
  nw_Content :: string
  nw_URL :: string
  nw_PublishedAt :: wall_time
  nw_Source :: string

text \<open>
  A \<open>Source\<close>: its name and what its methods return for given arguments when called at a given
  instant; an error is its text, a nil pointer \<^const>\<open>None\<close>.
\<close>

record source =
  s_Name :: string
  s_GetQuote :: "string \<Rightarrow> instant \<Rightarrow> string + quote option"
  s_GetKLine :: "string \<Rightarrow> string \<Rightarrow> instant \<Rightarrow> instant \<Rightarrow> instant \<Rightarrow> string + kline list"
  s_GetFundamental :: "string \<Rightarrow> instant \<Rightarrow> string + fundamental option"
  s_GetNews :: "string \<Rightarrow> int \<Rightarrow> instant \<Rightarrow> string + news list"

section \<open>Stock codes\<close>

datatype market = MarketSH | MarketSZ | MarketBJ

fun market_text :: "market \<Rightarrow> string" where
  "market_text MarketSH = ''SH''"
| "market_text MarketSZ = ''SZ''"
| "market_text MarketBJ = ''BJ''"

datatype code_error =
    EmptyCode
  | BadDigitsBeforeSuffix string
  | UnknownSuffix string string
  | BadDigits string
  | UnknownPrefix string

definition digit_char :: "char \<Rightarrow> bool" where
  "digit_char c \<longleftrightarrow> 48 \<le> (of_char c :: nat) \<and> (of_char c :: nat) \<le> 57"

definition allDigits :: "string \<Rightarrow> bool" where
  "allDigits s = list_all digit_char s"

text \<open>The text around the last dot, if there is one.\<close>

definition split_last_dot :: "string \<Rightarrow> (string \<times> string) option" where
  "split_last_dot s =
     (if CHR ''.'' \<in> set s
      then Some (rev (tl (dropWhile (\<lambda>c. c \<noteq> CHR ''.'') (rev s))),
                 rev (takeWhile (\<lambda>c. c \<noteq> CHR ''.'') (rev s)))
      else None)"

text \<open>On ASCII text: \<open>ToUpper\<close> also maps some other letters to ASCII ones.\<close>

definition SplitCode :: "string \<Rightarrow> code_error + string \<times> market" where
  "SplitCode stockCode =
     (let s = TrimSpace (map upper_char stockCode)
      in if s = [] then Inl EmptyCode
         else case split_last_dot s of
           Some (digits, suffix) \<Rightarrow>
             if length digits \<noteq> 6 \<or> \<not> allDigits digits then Inl (BadDigitsBeforeSuffix stockCode)
             else if suffix = ''SH'' then Inr (digits, MarketSH)
             else if suffix = ''SZ'' then Inr (digits, MarketSZ)
             else if suffix = ''BJ'' then Inr (digits, MarketBJ)
             else Inl (UnknownSuffix suffix stockCode)
         | None \<Rightarrow>
             if length s \<noteq> 6 \<or> \<not> allDigits s then Inl (BadDigits stockCode)
             else if hd s \<in> {CHR ''6'', CHR ''9''} then Inr (s, MarketSH)
             else if hd s \<in> {CHR ''0'', CHR ''3''} then Inr (s, MarketSZ)
             else if hd s \<in> {CHR ''4'', CHR ''8''} then Inr (s, MarketBJ)
             else Inl (UnknownPrefix stockCode))"

lemma digit_plain:
  assumes "digit_char c"
  shows "upper_char c = c" "plain_char c" "c \<noteq> CHR ''.''"
proof -
  show "upper_char c = c" "plain_char c"
    using assms by (auto simp: digit_char_def upper_char_def plain_char_def)
  show "c \<noteq> CHR ''.''" using assms by (auto simp: digit_char_def)
qed

lemma split_last_dot_append:
  "CHR ''.'' \<notin> set suffix \<Longrightarrow> split_last_dot (digits @ ''.'' @ suffix) = Some (digits, suffix)"
  by (simp add: split_last_dot_def dropWhile_append2 takeWhile_append2 dropWhile_append takeWhile_append)

text \<open>The canonical form of a code is a code, with the same digits and market.\<close>

lemma SplitCode_suffixed:
  assumes "length d = 6" "allDigits d"
  shows "SplitCode (d @ ''.'' @ market_text m) = Inr (d, m)"
proof -
  have digits: "digit_char c" if "c \<in> set d" for c
    using that assms(2) by (simp add: allDigits_def list_all_iff)
  obtain c d' where d: "d = c # d'" using assms(1) by (cases d) auto
  have up: "map upper_char (d @ ''.'' @ market_text m) = d @ ''.'' @ market_text m"
  proof -
    have "map upper_char d = d" using digits digit_plain(1) by (simp add: map_idI)
    moreover have "map upper_char (''.'' @ market_text m) = ''.'' @ market_text m"
      by (cases m) (simp_all add: upper_char_def)
    ultimately show ?thesis by (simp only: map_append)
  qed
  have trim: "TrimSpace (d @ ''.'' @ market_text m) = d @ ''.'' @ market_text m"
    by (rule TrimSpace_plain)
      (use digits [of c] digit_plain(2) in \<open>cases m; auto simp: d plain_char_def\<close>)+
  have "CHR ''.'' \<notin> set (market_text m)" by (cases m) simp_all
  from split_last_dot_append [OF this, of d] show ?thesis
    using assms unfolding SplitCode_def up trim Let_def by (cases m) simp_all
qed

lemma SplitCode_digits:
  "SplitCode s = Inr (d, m) \<Longrightarrow> length d = 6 \<and> allDigits d"
  by (auto simp: SplitCode_def Let_def split: if_splits option.splits)

text \<open>A code that \<open>SplitCode\<close> accepts has six digits, and the canonical form built from its
  digits and market is accepted with the same result; conversely every canonical form is accepted.\<close>

theorem SplitCode_roundtrip:
  "(\<exists>s. SplitCode s = Inr (d, m)) \<longleftrightarrow> SplitCode (d @ ''.'' @ market_text m) = Inr (d, m)
   \<and> length d = 6 \<and> allDigits d"
  using SplitCode_suffixed SplitCode_digits by blast

end
