(* ===== verification/Slice_Stable.thy ===== *)
theory Slice_Stable
  imports AF_Prelude "HOL-Library.Product_Lexorder"
begin

text \<open>
  \<open>sort.SliceStable\<close> with a comparison function.  Up to twenty elements the library sorts by
  insertion, which is what \<open>slice_stable\<close> does; above that it merges blocks sorted in this way.
  When the comparison is that of a linearly ordered key the result is the stable sort by that
  key, whatever the length.
\<close>

text \<open>One element moves left past the elements it is less than; the prefix is held reversed.\<close>

fun insert_left :: "('a \<Rightarrow> 'a \<Rightarrow> bool) \<Rightarrow> 'a \<Rightarrow> 'a list \<Rightarrow> 'a list" where
  "insert_left lt x [] = [x]"
| "insert_left lt x (y # ys) = (if lt x y then y # insert_left lt x ys else x # y # ys)"

definition slice_stable :: "('a \<Rightarrow> 'a \<Rightarrow> bool) \<Rightarrow> 'a list \<Rightarrow> 'a list" where
  "slice_stable lt xs = rev (fold (insert_left lt) xs [])"

lemma insert_left_mset [simp]: "mset (insert_left lt x ys) = add_mset x (mset ys)"
  by (induction ys) auto

lemma insert_left_set [simp]: "set (insert_left lt x ys) = insert x (set ys)"
  by (induction ys) auto

lemma fold_insert_left_mset: "mset (fold (insert_left lt) xs ys) = mset xs + mset ys"
  by (induction xs arbitrary: ys) auto

lemma slice_stable_mset [simp]: "mset (slice_stable lt xs) = mset xs"
  by (simp add: slice_stable_def fold_insert_left_mset)

lemma slice_stable_set [simp]: "set (slice_stable lt xs) = set xs"
  by (metis mset_eq_setD slice_stable_mset)

lemma slice_stable_length [simp]: "length (slice_stable lt xs) = length xs"
  by (metis mset_eq_length slice_stable_mset)

text \<open>A comparison that is the order of a key, on the elements of \<open>D\<close>.\<close>

locale keyed_less =
  fixes lt :: "'a \<Rightarrow> 'a \<Rightarrow> bool" and key :: "'a \<Rightarrow> 'k::linorder" and D :: "'a set"
  assumes less_key: "x \<in> D \<Longrightarrow> y \<in> D \<Longrightarrow> lt x y \<longleftrightarrow> key x < key y"
begin

lemma insert_left_split:
  assumes "x \<in> D" "set ys \<subseteq> D" "sorted (map key ys)"
  shows "\<exists>us vs. ys = us @ vs \<and> rev (insert_left lt x (rev ys)) = us @ x # vs
           \<and> (\<forall>u\<in>set us. key u \<le> key x) \<and> (\<forall>v\<in>set vs. key x < key v)"
  using assms(2,3)
proof (induction ys rule: rev_induct)
  case (snoc y ys)
  show ?case
  proof (cases "lt x y")
    case True
    then have less: "key x < key y" using less_key assms(1) snoc.prems by auto
    obtain us vs where "ys = us @ vs" "rev (insert_left lt x (rev ys)) = us @ x # vs"
      "\<forall>u\<in>set us. key u \<le> key x" "\<forall>v\<in>set vs. key x < key v"
      using snoc by (auto simp: sorted_append)
    then show ?thesis using True less by (intro exI [of _ us] exI [of _ "vs @ [y]"]) auto
  next
    case False
    then have "key y \<le> key x" using less_key assms(1) snoc.prems by auto
    then show ?thesis using False snoc.prems
      by (intro exI [of _ "ys @ [y]"] exI [of _ "[]"]) (auto simp: sorted_append intro: order_trans)
  qed
qed simp

lemma insert_left_sorted:
  assumes "x \<in> D" "set ys \<subseteq> D" "sorted (map key ys)"
  shows "sorted (map key (rev (insert_left lt x (rev ys))))"
    and "\<And>k. filter (\<lambda>y. key y = k) (rev (insert_left lt x (rev ys)))
             = filter (\<lambda>y. key y = k) (ys @ [x])"
proof -
  obtain us vs where eq: "ys = us @ vs" "rev (insert_left lt x (rev ys)) = us @ x # vs"
    and le: "\<And>u. u \<in> set us \<Longrightarrow> key u \<le> key x" and gt: "\<And>v. v \<in> set vs \<Longrightarrow> key x < key v"
    using insert_left_split [OF assms] by blast
  show "sorted (map key (rev (insert_left lt x (rev ys))))"
    unfolding eq(2) using assms(3) le gt by (auto simp: eq(1) sorted_append less_imp_le)
  fix k
  have "filter (\<lambda>y. key y = k) vs = []" if "key x = k"
    using gt that by (metis (mono_tags, lifting) filter_False less_irrefl)
  then show "filter (\<lambda>y. key y = k) (rev (insert_left lt x (rev ys)))
          = filter (\<lambda>y. key y = k) (ys @ [x])"
    unfolding eq(2) by (auto simp: eq(1))
qed

theorem slice_stable_sort_key:
  assumes "set xs \<subseteq> D"
  shows "slice_stable lt xs = sort_key key xs"
proof -
  have "sorted (map key (rev (fold (insert_left lt) xs (rev ys))))
      \<and> (\<forall>k. filter (\<lambda>y. key y = k) (rev (fold (insert_left lt) xs (rev ys)))
             = filter (\<lambda>y. key y = k) (ys @ xs))"
    if "sorted (map key ys)" "set ys \<subseteq> D" for ys
    using assms that
  proof (induction xs arbitrary: ys)
    case (Cons x xs)
    define zs where "zs = rev (insert_left lt x (rev ys))"
    have zs: "insert_left lt x (rev ys) = rev zs" "set zs \<subseteq> D"
      using Cons.prems by (auto simp: zs_def)
    have "sorted (map key zs)" "\<And>k. filter (\<lambda>y. key y = k) zs = filter (\<lambda>y. key y = k) (ys @ [x])"
      unfolding zs_def using insert_left_sorted [of x ys] Cons.prems by auto
    then show ?case using Cons.IH [of zs] Cons.prems zs by simp
  qed simp
  from this [of "[]"]
  have "sorted (map key (slice_stable lt xs))"
    "\<And>k. filter (\<lambda>y. key y = k) (slice_stable lt xs) = filter (\<lambda>y. key y = k) xs"
    by (simp_all add: slice_stable_def)
  then show ?thesis
    using properties_for_sort_key [of "slice_stable lt xs" xs key] by (auto simp: eq_commute)
qed

end

end
