(* ===== verification/Node_Values.thy ===== *)
theory Node_Values
  imports Source_Types Slice_Stable
begin

text \<open>
  The dynamic values the strategy nodes exchange (\<open>any\<close>, \<open>map[string]any\<close>, \<open>[]any\<close>) and the
  helpers of \<open>executor/nodes\<close> that read them; the run context they share.  A Go map is the list
  of its entries in the order an iteration visits them, with distinct keys; the order differs
  from one iteration to the next, so nothing may depend on it.
\<close>

section \<open>Values\<close>

datatype val =
    VNil
  | VBool bool
  | VNum f64
  | VInt int
  | VStr string
  | VArr "val list"
  | VMap "(string \<times> val) list"
  | VStrs "string list"
  | VBytes string
  | VBars "kline list"
  | VTime instant
  | VOther string

type_synonym payload = "(string \<times> val) list"

text \<open>What a node returns: \<open>orchestrator.ParamError\<close> by node, field and reason, any other error
  by its text, or the output payload.\<close>

datatype node_error = ParamError string string string | NodeFailure string

type_synonym node_out = "node_error + payload"

text \<open>How \<open>fmt\<close> prints the values whose text is not determined here: floating-point numbers
  (shortest decimal), bars and times.  \<open>VOther\<close> carries its text.\<close>

record printer =
  pr_float :: "f64 \<Rightarrow> string"
  pr_bars :: "kline list \<Rightarrow> string"
  pr_time :: "instant \<Rightarrow> string"

fun dec_nat :: "nat \<Rightarrow> string" where
  "dec_nat n = (if n < 10 then [char_of (48 + n)] else dec_nat (n div 10) @ [char_of (48 + n mod 10)])"

declare dec_nat.simps [simp del]

definition dec_int :: "int \<Rightarrow> string" where
  "dec_int n = (if n < 0 then ''-'' @ dec_nat (nat (- n)) else dec_nat (nat n))"

definition bracketed :: "string list \<Rightarrow> string" where
  "bracketed ws = ''['' @ join_with CHR '' '' ws @ '']''"

text \<open>\<open>fmt.Sprintf("%v", v)\<close>; the entries of a map are printed in the order of their keys.\<close>

fun print_v :: "printer \<Rightarrow> val \<Rightarrow> string" where
  "print_v pr VNil = ''<nil>''"
| "print_v pr (VBool b) = (if b then ''true'' else ''false'')"
| "print_v pr (VNum x) = pr_float pr x"
| "print_v pr (VInt n) = dec_int n"
| "print_v pr (VStr s) = s"
| "print_v pr (VArr vs) = bracketed (map (print_v pr) vs)"
| "print_v pr (VMap m) =
     ''map'' @ bracketed (map (\<lambda>(k, s). k @ '':'' @ s) (sort_key fst (map (map_prod id (print_v pr)) m)))"
| "print_v pr (VStrs ws) = bracketed ws"
| "print_v pr (VBytes s) = bracketed (map (\<lambda>c. dec_nat (of_char c)) s)"
| "print_v pr (VBars ks) = pr_bars pr ks"
| "print_v pr (VTime t) = pr_time pr t"
| "print_v pr (VOther s) = s"

section \<open>Reading values\<close>

text \<open>A type assertion to \<open>map[string]any\<close>; the zero value is the nil map, which has no entries.\<close>

fun as_map :: "val \<Rightarrow> payload option" where
  "as_map (VMap m) = Some m"
| "as_map _ = None"

fun lookup_parts :: "val \<Rightarrow> string list \<Rightarrow> val" where
  "lookup_parts cur [] = cur"
| "lookup_parts cur (p # ps) =
     (case as_map cur of
        None \<Rightarrow> VNil
      | Some m \<Rightarrow> (case map_of m p of None \<Rightarrow> VNil | Some v \<Rightarrow> lookup_parts v ps))"

definition lookupField :: "payload \<Rightarrow> string \<Rightarrow> val" where
  "lookupField item path = lookup_parts (VMap item) (split_on CHR ''.'' path)"

fun toFloatOK :: "val \<Rightarrow> f64 option" where
  "toFloatOK (VNum x) = Some x"
| "toFloatOK (VInt n) = Some (f_of_int n)"
| "toFloatOK _ = None"

definition toFloat :: "val \<Rightarrow> f64" where
  "toFloat v = (case toFloatOK v of Some x \<Rightarrow> x | None \<Rightarrow> f_zero False)"

fun stringOf :: "val \<Rightarrow> string" where
  "stringOf (VStr s) = s"
| "stringOf _ = []"

definition equalish :: "printer \<Rightarrow> val \<Rightarrow> val \<Rightarrow> bool" where
  "equalish pr a b =
     (case (toFloatOK a, toFloatOK b) of
        (Some x, Some y) \<Rightarrow> f_eq x y
      | _ \<Rightarrow> print_v pr a = print_v pr b)"

text \<open>\<open>toStringList\<close>: the trimmed, non-empty texts of a list or of a comma-separated string;
  \<open>None\<close> is the nil slice of any other value.\<close>

fun raw_strings :: "printer \<Rightarrow> val \<Rightarrow> string list option" where
  "raw_strings pr (VArr vs) = Some (map (print_v pr) vs)"
| "raw_strings pr (VStrs ws) = Some ws"
| "raw_strings pr (VStr s) = Some (split_on CHR '','' s)"
| "raw_strings pr _ = None"

definition toStringList :: "printer \<Rightarrow> val \<Rightarrow> string list" where
  "toStringList pr v =
     (case raw_strings pr v of
        None \<Rightarrow> []
      | Some ws \<Rightarrow> filter (\<lambda>t. t \<noteq> []) (map TrimSpace ws))"

text \<open>The reserved keys of a node's inputs.\<close>

definition reserved_keys :: "string list" where
  "reserved_keys = [''_params'', ''_type'', ''_subtype'', ''_id'']"

fun first_array :: "payload \<Rightarrow> val list option" where
  "first_array [] = None"
| "first_array ((k, VArr vs) # m) = Some vs"
| "first_array (_ # m) = first_array m"

text \<open>\<open>findFirstSlice\<close>; \<open>None\<close> is the nil slice.  Every \<open>[]any\<close> the program puts in a payload is
  made non-nil.\<close>

fun findFirstSlice :: "payload \<Rightarrow> val list option" where
  "findFirstSlice [] = None"
| "findFirstSlice ((k, v) # ins) =
     (if k \<in> set reserved_keys then findFirstSlice ins
      else case as_map v of
          None \<Rightarrow> findFirstSlice ins
        | Some m \<Rightarrow> (case first_array m of None \<Rightarrow> findFirstSlice ins | Some vs \<Rightarrow> Some vs))"

text \<open>\<open>in["_params"].([]byte)\<close> with its length check, and the decoding of it.  \<open>json.Unmarshal\<close>
  is an argument: it gives the parameters or the text of an error.\<close>

fun raw_params :: "val option \<Rightarrow> string option" where
  "raw_params (Some (VBytes s)) = (if s = [] then None else Some s)"
| "raw_params _ = None"

definition decode_params ::
  "string \<Rightarrow> (string \<Rightarrow> string + 'p) \<Rightarrow> 'p \<Rightarrow> payload \<Rightarrow> node_error + 'p" where
  "decode_params nd unmarshal zero ins =
     (case raw_params (map_of ins ''_params'') of
        None \<Rightarrow> Inr zero
      | Some raw \<Rightarrow>
          (case unmarshal raw of
             Inl e \<Rightarrow> Inl (ParamError nd ''params'' (''invalid json: '' @ e))
           | Inr p \<Rightarrow> Inr p))"

section \<open>The run context\<close>

record run_ctx =
  rc_Vars :: "string \<Rightarrow> val option"

definition SetVar :: "run_ctx \<Rightarrow> string \<Rightarrow> val \<Rightarrow> run_ctx" where
  "SetVar rc k v = rc\<lparr>rc_Vars := (rc_Vars rc)(k \<mapsto> v)\<rparr>"

definition GetVar :: "run_ctx \<Rightarrow> string \<Rightarrow> val option" where
  "GetVar rc k = rc_Vars rc k"

lemma GetVar_SetVar [simp]: "GetVar (SetVar rc k v) k' = (if k' = k then Some v else GetVar rc k')"
  by (simp add: GetVar_def SetVar_def)

section \<open>Facts about lookups\<close>

lemma split_on_plain: "c \<notin> set s \<Longrightarrow> split_on c s = [s]"
  by (induction s) auto

lemma split_on_dot: "c \<notin> set s \<Longrightarrow> split_on c (s @ c # t) = s # split_on c t"
  by (induction s) auto

lemma lookupField_plain:
  "CHR ''.'' \<notin> set k \<Longrightarrow> lookupField m k = (case map_of m k of None \<Rightarrow> VNil | Some v \<Rightarrow> v)"
  by (simp add: lookupField_def split_on_plain split: option.splits)

lemma lookupField_dot:
  "CHR ''.'' \<notin> set k \<Longrightarrow>
   lookupField m (k @ CHR ''.'' # path) =
     (case map_of m k of Some (VMap m') \<Rightarrow> lookupField m' path | _ \<Rightarrow> VNil)"
  by (cases "split_on CHR ''.'' path")
    (auto simp: lookupField_def split_on_dot split: option.splits val.splits)

lemma first_array_mem: "first_array m = Some vs \<Longrightarrow> \<exists>k. (k, VArr vs) \<in> set m"
  by (induction m rule: first_array.induct) auto

lemma findFirstSlice_mem:
  "findFirstSlice ins = Some vs \<Longrightarrow>
   \<exists>k m f. (k, VMap m) \<in> set ins \<and> k \<notin> set reserved_keys \<and> (f, VArr vs) \<in> set m"
proof (induction ins rule: findFirstSlice.induct)
  case (2 k v ins)
  then show ?case
    by (cases v) (auto split: if_splits option.splits dest!: first_array_mem; blast)+
qed simp

end
