(* ===== verification/Llm_Client.thy ===== *)
theory Llm_Client
  imports Dag_Json Go_Parse Node_Values
begin

text \<open>
  The language-model backends of \<open>ai/\<close>: the OpenAI-compatible client, the rule-based mock, the fallback
  chain and the hot-swappable provider.  The network is a state \<open>'w\<close>; one HTTP exchange, the reading of
  a response and the error of the request context are arguments.  Texts are UTF-8 bytes.
\<close>

section \<open>Texts\<close>

definition ends_with :: "string \<Rightarrow> string \<Rightarrow> bool" where
  "ends_with w s \<longleftrightarrow> length w \<le> length s \<and> drop (length s - length w) s = w"

definition trim_suffix :: "string \<Rightarrow> string \<Rightarrow> string" where
  "trim_suffix w s = (if ends_with w s then take (length s - length w) s else s)"

definition trim_slashes :: "string \<Rightarrow> string" where
  "trim_slashes s = rev (dropWhile (\<lambda>c. c = CHR ''/'') (rev s))"

fun join_text :: "string \<Rightarrow> string list \<Rightarrow> string" where
  "join_text sep [] = []"
| "join_text sep [w] = w"
| "join_text sep (w # ws) = w @ sep @ join_text sep ws"

text \<open>ASCII letters in lower case; no other letter has one of the mock's keywords as its lower case.\<close>

definition lower_char :: "char \<Rightarrow> char" where
  "lower_char c = (if 65 \<le> (of_char c :: nat) \<and> (of_char c :: nat) \<le> 90 then char_of (of_char c + 32 :: nat) else c)"

definition normBase :: "string \<Rightarrow> string" where
  "normBase base =
     trim_slashes (fold trim_suffix [''/chat/completions'', ''/embeddings'', ''/models''] (trim_slashes (TrimSpace base)))"

definition stripFences :: "string \<Rightarrow> string" where
  "stripFences s0 =
     (let s = TrimSpace s0;
          fence = [CHR 0x60, CHR 0x60, CHR 0x60]
      in if starts_with fence s
         then let body = (if CHR 0x0A \<in> set s then tl (dropWhile (\<lambda>c. c \<noteq> CHR 0x0A) s) else s)
              in TrimSpace (trim_suffix fence (TrimSpace body))
         else TrimSpace s)"

section \<open>The OpenAI-compatible client\<close>

record chat_message =
  cm_Role :: string
  cm_Content :: string

record chat_request =
  cq_Model :: string
  cq_Messages :: "chat_message list"
  cq_Temperature :: rat

record chat_response =
  ca_Choices :: "string list"
  ca_Error :: "string option"

text \<open>The surroundings of a call: whether \<open>NewRequest\<close> accepts a URL; \<open>http.Do\<close> for a URL, key and timeout
  (0 for a client without one of its own), with an error or status and body; the decoding of the two kinds of response; the JSON library,
  the text of its errors; the error of the context.\<close>

record 'w llm_env =
  le_url_error :: "string \<Rightarrow> string option"
  le_post :: "string \<Rightarrow> string \<Rightarrow> duration \<Rightarrow> chat_request \<Rightarrow> 'w \<Rightarrow> (string + int \<times> string) \<times> 'w"
  le_get :: "string \<Rightarrow> string \<Rightarrow> duration \<Rightarrow> 'w \<Rightarrow> (string + int \<times> string) \<times> 'w"
  le_chat :: "string \<Rightarrow> string + chat_response"
  le_models :: "string \<Rightarrow> string + string list"
  le_json :: json_lib
  le_decode_error :: "string \<Rightarrow> string"
  le_ctx :: "'w \<Rightarrow> string option"

type_synonym 'w reply = "(string + string) \<times> 'w"

record openai_client =
  oc_baseURL :: string
  oc_apiKey :: string
  oc_model :: string
  oc_timeout :: duration

definition NewOpenAIClient :: "string \<Rightarrow> string \<Rightarrow> string \<Rightarrow> duration \<Rightarrow> openai_client" where
  "NewOpenAIClient baseURL apiKey model timeout =
     \<lparr>oc_baseURL = trim_slashes baseURL, oc_apiKey = apiKey, oc_model = model,
      oc_timeout = (if timeout \<le> 0 then 30 * nano_second else timeout)\<rparr>"

definition status_ok :: "int \<Rightarrow> bool" where
  "status_ok n \<longleftrightarrow> 200 \<le> n \<and> n < 300"

text \<open>The exchange the two operations share: the content of the first choice.  At most 1 MiB of the body is
  read.\<close>

definition chat_exchange :: "'w llm_env \<Rightarrow> openai_client \<Rightarrow> chat_request \<Rightarrow> 'w \<Rightarrow> 'w reply" where
  "chat_exchange env c req w =
     (let url = oc_baseURL c @ ''/chat/completions''
      in case le_url_error env url of
           Some e \<Rightarrow> (Inl (''openai: build request: '' @ e), w)
         | None \<Rightarrow>
             (case le_post env url (oc_apiKey c) (oc_timeout c) req w of
                (Inl e, w') \<Rightarrow> (Inl (''openai: http do: '' @ e), w')
              | (Inr (status, full), w') \<Rightarrow>
                  let body = take (2 ^ 20) full
                  in (if \<not> status_ok status then Inl (''openai: status '' @ dec_int status @ '': '' @ body)
                      else case le_chat env body of
                             Inl e \<Rightarrow> Inl (''openai: decode response: '' @ e)
                           | Inr r \<Rightarrow>
                               (case ca_Error r of
                                  Some m \<Rightarrow> Inl (''openai: api error: '' @ m)
                                | None \<Rightarrow> (case ca_Choices r of [] \<Rightarrow> Inl ''openai: empty choices'' | x # _ \<Rightarrow> Inr x)), w')))"

definition prompt_pair :: "string \<Rightarrow> string \<Rightarrow> chat_message list" where
  "prompt_pair system user = [\<lparr>cm_Role = ''system'', cm_Content = system\<rparr>, \<lparr>cm_Role = ''user'', cm_Content = user\<rparr>]"

definition systemPrompt :: string where
  "systemPrompt = bytes [228, 189, 160, 230, 152, 175, 32, 65, 32, 232, 130, 161, 233, 128, 137, 232, 130, 161,
    231, 173, 150, 231, 149, 165, 231, 154, 132, 32, 68, 65, 71, 32, 231, 188, 150, 232, 190, 145, 229, 153, 168,
    227, 128, 130, 231, 187, 153, 228, 189, 160, 228, 184, 128, 228, 184, 170, 32, 82, 101, 97, 99, 116, 70, 108,
    111, 119, 32, 230, 160, 188, 229, 188, 143, 231, 154, 132, 32, 68, 65, 71, 32, 74, 83, 79, 78, 32, 229, 146,
    140, 228, 184, 128, 229, 143, 165, 228, 184, 173, 230, 150, 135, 228, 191, 174, 230, 148, 185, 230, 140, 135,
    228, 187, 164, 44, 10, 228, 189, 160, 229, 191, 133, 233, 161, 187, 232, 191, 148, 229, 155, 158, 228, 191,
    174, 230, 148, 185, 229, 144, 142, 231, 154, 132, 227, 128, 144, 229, 174, 140, 230, 149, 180, 227, 128, 145,
    32, 68, 65, 71, 32, 74, 83, 79, 78, 44, 229, 143, 170, 232, 190, 147, 229, 135, 186, 32, 74, 83, 79, 78, 32,
    230, 156, 172, 232, 186, 171, 44, 228, 184, 141, 232, 166, 129, 232, 167, 163, 233, 135, 138, 227, 128, 129,
    228, 184, 141, 232, 166, 129, 32, 109, 97, 114, 107, 100, 111, 119, 110, 32, 228, 187, 163, 231, 160, 129, 229,
    157, 151, 227, 128, 130, 10, 10, 68, 65, 71, 32, 231, 187, 147, 230, 158, 132, 58, 32, 123, 34, 110, 111, 100,
    101, 115, 34, 58, 91, 123, 34, 105, 100, 34, 44, 34, 116, 121, 112, 101, 34, 44, 34, 112, 111, 115, 105, 116,
    105, 111, 110, 34, 58, 123, 34, 120, 34, 44, 34, 121, 34, 125, 44, 34, 100, 97, 116, 97, 34, 58, 123, 34, 115,
    117, 98, 116, 121, 112, 101, 34, 44, 34, 112, 97, 114, 97, 109, 115, 34, 58, 123, 46, 46, 46, 125, 125, 125,
    93, 44, 34, 101, 100, 103, 101, 115, 34, 58, 91, 123, 34, 105, 100, 34, 44, 34, 115, 111, 117, 114, 99, 101,
    34, 44, 34, 116, 97, 114, 103, 101, 116, 34, 125, 93, 125, 10, 232, 138, 130, 231, 130, 185, 231, 177, 187,
    229, 158, 139, 40, 116, 121, 112, 101, 41, 58, 32, 100, 97, 116, 97, 95, 115, 111, 117, 114, 99, 101, 44, 32,
    105, 110, 100, 105, 99, 97, 116, 111, 114, 44, 32, 102, 105, 108, 116, 101, 114, 44, 32, 114, 97, 110, 107, 44,
    32, 100, 101, 100, 117, 112, 101, 44, 32, 115, 101, 115, 115, 105, 111, 110, 95, 116, 97, 103, 44, 32, 112,
    101, 114, 115, 105, 115, 116, 10, 45, 32, 105, 110, 100, 105, 99, 97, 116, 111, 114, 32, 231, 154, 132, 32,
    115, 117, 98, 116, 121, 112, 101, 58, 32, 109, 97, 47, 101, 109, 97, 47, 109, 97, 99, 100, 47, 107, 100, 106,
    47, 98, 111, 108, 108, 47, 118, 111, 108, 117, 109, 101, 95, 114, 97, 116, 105, 111, 44, 32, 112, 97, 114, 97,
    109, 115, 32, 229, 166, 130, 32, 123, 34, 115, 117, 98, 116, 121, 112, 101, 34, 58, 34, 109, 97, 34, 44, 34,
    112, 101, 114, 105, 111, 100, 34, 58, 53, 125, 10, 45, 32, 102, 105, 108, 116, 101, 114, 32, 231, 154, 132, 32,
    112, 97, 114, 97, 109, 115, 58, 32, 123, 34, 102, 105, 101, 108, 100, 34, 44, 34, 111, 112, 34, 58, 34, 60,
    124, 62, 124, 61, 61, 124, 62, 61, 124, 60, 61, 34, 44, 34, 118, 97, 108, 117, 101, 34, 125, 10, 45, 32, 114,
    97, 110, 107, 32, 231, 154, 132, 32, 112, 97, 114, 97, 109, 115, 58, 32, 123, 34, 102, 105, 101, 108, 100, 34,
    44, 34, 111, 114, 100, 101, 114, 34, 58, 34, 97, 115, 99, 124, 100, 101, 115, 99, 34, 44, 34, 116, 111, 112,
    34, 125, 10, 228, 191, 157, 230, 140, 129, 229, 133, 182, 228, 189, 153, 232, 138, 130, 231, 130, 185, 229,
    146, 140, 232, 190, 185, 228, 184, 141, 229, 143, 152, 44, 229, 143, 170, 230, 140, 137, 230, 140, 135, 228,
    187, 164, 230, 148, 185, 229, 138, 168, 231, 155, 184, 229, 133, 179, 233, 131, 168, 229, 136, 134, 227, 128,
    130, 232, 191, 148, 229, 155, 158, 231, 154, 132, 32, 74, 83, 79, 78, 32, 229, 191, 133, 233, 161, 187, 232,
    131, 189, 232, 162, 171, 232, 167, 163, 230, 158, 144, 228, 184, 148, 232, 138, 130, 231, 130, 185, 32, 105,
    100, 32, 229, 148, 175, 228, 184, 128, 227, 128, 130]"

definition openai_ProposeDAG :: "'w llm_env \<Rightarrow> openai_client \<Rightarrow> string \<Rightarrow> string \<Rightarrow> 'w \<Rightarrow> 'w reply" where
  "openai_ProposeDAG env c current instruction w =
     map_prod (map_sum id stripFences) id
       (chat_exchange env c
          \<lparr>cq_Model = oc_model c,
           cq_Messages = prompt_pair systemPrompt
             (bytes [229, 189, 147, 229, 137, 141, 32, 68, 65, 71, 58, 10] @ current @ bytes [10, 10, 228, 191,
               174, 230, 148, 185, 230, 140, 135, 228, 187, 164, 58, 32] @ instruction),
           cq_Temperature = 0\<rparr> w)"

definition openai_Summarize :: "'w llm_env \<Rightarrow> openai_client \<Rightarrow> string \<Rightarrow> string \<Rightarrow> 'w \<Rightarrow> 'w reply" where
  "openai_Summarize env c system user w =
     map_prod (map_sum id TrimSpace) id
       (chat_exchange env c
          \<lparr>cq_Model = oc_model c, cq_Messages = prompt_pair system user, cq_Temperature = 4 / 10\<rparr> w)"

text \<open>\<open>GET /models\<close>: every identifier that is not empty.\<close>

definition ListModels :: "'w llm_env \<Rightarrow> string \<Rightarrow> string \<Rightarrow> duration \<Rightarrow> 'w \<Rightarrow> (string + string list) \<times> 'w" where
  "ListModels env baseURL apiKey timeout w =
     (let base = normBase baseURL
      in if base = [] \<or> apiKey = [] then (Inl (bytes [233, 156, 128, 232, 166, 129, 32, 98, 97, 115, 101, 95,
        117, 114, 108, 32, 229, 146, 140, 32, 97, 112, 105, 95, 107, 101, 121]), w)
         else case le_url_error env (base @ ''/models'') of
                Some e \<Rightarrow> (Inl (''build request: '' @ e), w)
              | None \<Rightarrow>
                  (case le_get env (base @ ''/models'') apiKey (positive_or (15 * nano_second) timeout) w of
                     (Inl e, w') \<Rightarrow> (Inl (''http do: '' @ e), w')
                   | (Inr (status, body), w') \<Rightarrow>
                       (if status = 401 \<or> status = 403
                        then Inl (bytes [107, 101, 121, 32, 233, 137, 180, 230, 157, 131, 229, 164, 177, 232, 180,
                          165, 32, 40, 72, 84, 84, 80, 32] @ dec_int status @ '')'')
                        else if \<not> status_ok status then Inl (''HTTP '' @ dec_int status)
                        else case le_models env body of
                               Inl e \<Rightarrow> Inl (''decode: '' @ e)
                             | Inr ids \<Rightarrow> Inr (filter (\<lambda>i. i \<noteq> []) ids), w')))"

section \<open>The mock\<close>

text \<open>The document as \<open>reactFlow\<close> keeps it: positions, data and edges as maps, written in the order of their
  keys; a map or list that was not given, or given as null, is nil.\<close>

record rf_node =
  rn_ID :: string
  rn_Type :: string
  rn_Position :: "members option"
  rn_Data :: "members option"

record react_flow =
  rf_Nodes :: "rf_node list option"
  rf_Edges :: "members option list option"

fun into_map :: "json_lib \<Rightarrow> members option \<Rightarrow> json list \<Rightarrow> members option option" where
  "into_map lib cur [] = Some cur"
| "into_map lib cur (JNull # vs) = into_map lib None vs"
| "into_map lib cur (JObj ms # vs) =
     (case any_of lib (JObj ms) of
        Some (JObj new) \<Rightarrow> into_map lib (Some (sorted_members ((case cur of None \<Rightarrow> [] | Some old \<Rightarrow> old) @ new))) vs
      | _ \<Rightarrow> None)"
| "into_map lib cur (_ # vs) = None"

fun into_list :: "json list option \<Rightarrow> json list \<Rightarrow> json list option option" where
  "into_list cur [] = Some cur"
| "into_list cur (JArr xs # vs) = into_list (Some xs) vs"
| "into_list cur (JNull # vs) = into_list None vs"
| "into_list cur (_ # vs) = None"

definition decode_list :: "(json \<Rightarrow> 'a option) \<Rightarrow> json list \<Rightarrow> 'a list option option" where
  "decode_list f vs =
     (case into_list None vs of
        None \<Rightarrow> None
      | Some None \<Rightarrow> Some None
      | Some (Some xs) \<Rightarrow> map_option Some (those (map f xs)))"

definition decode_rf_node :: "json_lib \<Rightarrow> json \<Rightarrow> rf_node option" where
  "decode_rf_node lib v =
     (case into_struct [v] of
        None \<Rightarrow> None
      | Some ms \<Rightarrow>
          (case (into_string [] (field ''id'' ms), into_string [] (field ''type'' ms),
                 into_map lib None (field ''position'' ms), into_map lib None (field ''data'' ms)) of
             (Some i, Some ty, Some p, Some d) \<Rightarrow> Some \<lparr>rn_ID = i, rn_Type = ty, rn_Position = p, rn_Data = d\<rparr>
           | _ \<Rightarrow> None))"

definition decode_react_flow :: "json_lib \<Rightarrow> string \<Rightarrow> react_flow option" where
  "decode_react_flow lib t =
     (case jl_parse lib t of
        Inl _ \<Rightarrow> None
      | Inr v \<Rightarrow>
          (case into_struct [v] of
             None \<Rightarrow> None
           | Some ms \<Rightarrow>
               (case (decode_list (decode_rf_node lib) (field ''nodes'' ms),
                      decode_list (\<lambda>e. into_map lib None [e]) (field ''edges'' ms)) of
                  (Some ns, Some es) \<Rightarrow> Some \<lparr>rf_Nodes = ns, rf_Edges = es\<rparr>
                | _ \<Rightarrow> None)))"

definition map_json :: "members option \<Rightarrow> json" where
  "map_json m = (case m of None \<Rightarrow> JNull | Some ms \<Rightarrow> JObj ms)"

definition list_json :: "('a \<Rightarrow> json) \<Rightarrow> 'a list option \<Rightarrow> json" where
  "list_json f xs = (case xs of None \<Rightarrow> JNull | Some ys \<Rightarrow> JArr (map f ys))"

definition rf_node_json :: "rf_node \<Rightarrow> json" where
  "rf_node_json n =
     JObj [(''id'', JStr (rn_ID n)), (''type'', JStr (rn_Type n)), (''position'', map_json (rn_Position n)),
           (''data'', map_json (rn_Data n))]"

definition react_flow_json :: "react_flow \<Rightarrow> json" where
  "react_flow_json rf =
     JObj [(''nodes'', list_json rf_node_json (rf_Nodes rf)), (''edges'', list_json map_json (rf_Edges rf))]"

text \<open>Setting a key of a map, and of the parameters within the data of a node.\<close>

definition put_member :: "string \<Rightarrow> json \<Rightarrow> members \<Rightarrow> members" where
  "put_member k v ms = sorted_members (ms @ [(k, v)])"

definition params_of :: "rf_node \<Rightarrow> members option" where
  "params_of n =
     (case rn_Data n of
        None \<Rightarrow> None
      | Some d \<Rightarrow> (case map_of d ''params'' of Some (JObj ps) \<Rightarrow> Some ps | _ \<Rightarrow> None))"

definition set_param :: "string \<Rightarrow> int \<Rightarrow> rf_node \<Rightarrow> rf_node" where
  "set_param k x n =
     (case (rn_Data n, params_of n) of
        (Some d, Some ps) \<Rightarrow> n\<lparr>rn_Data := Some (put_member ''params'' (JObj (put_member k (JNum (dec_int x)) ps)) d)\<rparr>
      | _ \<Rightarrow> n)"

definition edit_nodes :: "(rf_node \<Rightarrow> bool) \<Rightarrow> string \<Rightarrow> int \<Rightarrow> react_flow \<Rightarrow> react_flow \<times> bool" where
  "edit_nodes pick k x rf =
     (rf\<lparr>rf_Nodes := map_option (map (\<lambda>n. if pick n then set_param k x n else n)) (rf_Nodes rf)\<rparr>,
      case rf_Nodes rf of None \<Rightarrow> False | Some ns \<Rightarrow> \<exists>n\<in>set ns. pick n)"

definition setIndicatorPeriod :: "string \<Rightarrow> int \<Rightarrow> react_flow \<Rightarrow> react_flow \<times> bool" where
  "setIndicatorPeriod subtype period =
     edit_nodes (\<lambda>n. rn_Type n = ''indicator''
       \<and> (case params_of n of
            None \<Rightarrow> False
          | Some ps \<Rightarrow> (case map_of ps ''subtype'' of Some (JStr st) \<Rightarrow> st = subtype | _ \<Rightarrow> subtype = []))) ''period'' period"

definition setRankTop :: "int \<Rightarrow> react_flow \<Rightarrow> react_flow \<times> bool" where
  "setRankTop n = edit_nodes (\<lambda>nd. rn_Type nd = ''rank'' \<and> params_of nd \<noteq> None) ''top'' n"

text \<open>The leftmost match of \<open>(?:k1|k2|...).*?(\\d+)\<close>: the digits of its group.  No \<open>.\<close> matches a newline.\<close>

fun first_digits :: "string \<Rightarrow> string option" where
  "first_digits [] = None"
| "first_digits (c # cs) =
     (if is_digit c then Some (takeWhile is_digit (c # cs)) else if c = CHR 0x0A then None else first_digits cs)"

fun keyword_digits :: "string list \<Rightarrow> string \<Rightarrow> string option" where
  "keyword_digits ks [] = None"
| "keyword_digits ks (c # cs) =
     (case find (\<lambda>k. starts_with k (c # cs)) ks of
        None \<Rightarrow> keyword_digits ks cs
      | Some k \<Rightarrow>
          (case first_digits (drop (length k) (c # cs)) of
             Some ds \<Rightarrow> Some ds
           | None \<Rightarrow> keyword_digits ks cs))"

definition keyword_number :: "string list \<Rightarrow> string \<Rightarrow> int option" where
  "keyword_number ks s = Option.bind (keyword_digits ks s) Atoi"

definition kw_ma :: "string list" where "kw_ma = [''ma'', bytes [229, 157, 135, 231, 186, 191], bytes [229, 145,
  168, 230, 156, 159]]"
definition kw_top :: "string list" where "kw_top = [''top'', bytes [229, 143, 150], bytes [229, 137, 141],
  bytes [228, 191, 157, 231, 149, 153]]"

definition mock_edit :: "string \<Rightarrow> react_flow \<Rightarrow> react_flow \<times> bool" where
  "mock_edit instruction rf =
     (let instr = map lower_char instruction
      in if contains instr ''ma'' \<or> contains instruction (bytes [229, 157, 135, 231, 186,
        191]) \<or> contains instruction (bytes [229, 145, 168, 230, 156, 159])
         then (case keyword_number kw_ma instr of None \<Rightarrow> (rf, False) | Some n \<Rightarrow> setIndicatorPeriod ''ma'' n rf)
         else if contains instr ''top'' \<or> contains instruction (bytes [228, 191, 157, 231, 149, 153])
              \<or> contains instruction (bytes [229, 143, 150, 229, 137, 141]) \<or> contains instruction (bytes [229, 137, 141])
         then (case keyword_number kw_top instr of None \<Rightarrow> (rf, False) | Some n \<Rightarrow> setRankTop n rf)
         else (rf, False))"

definition mock_ProposeDAG :: "'w llm_env \<Rightarrow> string \<Rightarrow> string \<Rightarrow> string + string" where
  "mock_ProposeDAG env current instruction =
     (case decode_react_flow (le_json env) current of
        None \<Rightarrow> Inl (''mock: parse current dag: '' @ le_decode_error env current)
      | Some rf \<Rightarrow>
          (case mock_edit instruction rf of
             (rf', changed) \<Rightarrow> Inr (if changed then jl_text (le_json env) (react_flow_json rf') else current)))"

definition mock_Summarize :: "string \<Rightarrow> string" where
  "mock_Summarize user =
     bytes [227, 128, 144, 232, 135, 170, 229, 138, 168, 229, 164, 141, 231, 155, 152, 32, 194, 183, 32, 109, 111,
       99, 107, 227, 128, 145, 10, 10] @ user
       @ bytes [10, 10, 239, 188, 136, 232, 191, 153, 230, 152, 175, 232, 167, 132, 229, 136, 153, 229, 188, 143,
         229, 141, 160, 228, 189, 141, 230, 145, 152, 232, 166, 129, 227, 128, 130, 233, 133, 141, 231, 189, 174,
         32, 97, 105, 46, 112, 114, 111, 118, 105, 100, 101, 114, 61, 111, 112, 101, 110, 97, 105, 32, 229, 143,
         175, 231, 148, 159, 230, 136, 144, 231, 156, 159, 230, 173, 163, 231, 154, 132, 232, 135, 170, 231, 132,
         182, 232, 175, 173, 232, 168, 128, 229, 164, 141, 231, 155, 152, 227, 128, 130, 239, 188, 137]"

section \<open>Clients, the chain and the provider\<close>

datatype client =
    MockClient
  | OpenAIClient openai_client
  | ChainClient "(string \<times> client) list"

fun client_Name :: "client \<Rightarrow> string" where
  "client_Name MockClient = ''mock''"
| "client_Name (OpenAIClient c) = ''openai:'' @ oc_model c"
| "client_Name (ChainClient bs) = ''chain['' @ join_text ''>'' (map fst bs) @ '']''"

datatype question = AskDAG string string | AskSummary string string

text \<open>\<open>reason\<close>, for an outcome that was not accepted.\<close>

definition reason :: "string + string \<Rightarrow> string" where
  "reason r = (case r of Inl e \<Rightarrow> e | Inr out \<Rightarrow> if TrimSpace out = [] then ''empty response'' else ''ok'')"

definition accepted :: "string + string \<Rightarrow> bool" where
  "accepted r = (case r of Inl e \<Rightarrow> False | Inr out \<Rightarrow> TrimSpace out \<noteq> [])"

definition all_failed :: "nat \<Rightarrow> string list \<Rightarrow> string" where
  "all_failed n errs = ''ai: all '' @ dec_nat n @ '' backends failed: '' @ join_text ''; '' errs"

text \<open>The loop of a chain, over any way of asking a backend: \<open>n\<close> backends in all, the failures so far.\<close>

fun chain_loop ::
  "('w \<Rightarrow> string option) \<Rightarrow> ('c \<Rightarrow> 'w \<Rightarrow> 'w reply) \<Rightarrow> nat \<Rightarrow> string list \<Rightarrow> (string \<times> 'c) list \<Rightarrow> 'w \<Rightarrow> 'w reply" where
  "chain_loop ctx ask n errs [] w = (Inl (all_failed n errs), w)"
| "chain_loop ctx ask n errs ((name, c) # bs) w =
     (case ctx w of
        Some e \<Rightarrow> (Inl e, w)
      | None \<Rightarrow>
          (case ask c w of
             (r, w') \<Rightarrow>
               if accepted r then (r, w')
               else chain_loop ctx ask n (errs @ [name @ '': '' @ reason r]) bs w'))"

lemma chain_loop_cong [fundef_cong]:
  assumes "bs = bs'" "\<And>name c w. (name, c) \<in> set bs' \<Longrightarrow> ask c w = ask' c w" "ctx = ctx'" "n = n'" "errs = errs'" "w = w'"
  shows "chain_loop ctx ask n errs bs w = chain_loop ctx' ask' n' errs' bs' w'"
proof -
  have "chain_loop ctx' ask n' es xs v = chain_loop ctx' ask' n' es xs v" if "set xs \<subseteq> set bs'" for es xs v
    using that
  proof (induction xs arbitrary: es v)
    case (Cons x xs)
    obtain name c where x: "x = (name, c)" by fastforce
    have "ask c v = ask' c v" by (rule assms(2) [of name]) (use Cons.prems x in auto)
    then show ?case using Cons x by (simp split: option.split prod.split)
  qed simp
  then show ?thesis using assms by simp
qed

fun client_ask :: "'w llm_env \<Rightarrow> question \<Rightarrow> client \<Rightarrow> 'w \<Rightarrow> 'w reply" where
  "client_ask env (AskDAG cur instr) MockClient w = (mock_ProposeDAG env cur instr, w)"
| "client_ask env (AskSummary sys user) MockClient w = (Inr (mock_Summarize user), w)"
| "client_ask env (AskDAG cur instr) (OpenAIClient c) w = openai_ProposeDAG env c cur instr w"
| "client_ask env (AskSummary sys user) (OpenAIClient c) w = openai_Summarize env c sys user w"
| "client_ask env q (ChainClient bs) w = chain_loop (le_ctx env) (client_ask env q) (length bs) [] bs w"

text \<open>A nil client is \<^const>\<open>None\<close>.\<close>

definition NewChainClient :: "client option list \<Rightarrow> client option" where
  "NewChainClient clients =
     (case map (\<lambda>c. (client_Name c, c)) (List.map_filter id clients) of
        [] \<Rightarrow> None
      | [(_, c)] \<Rightarrow> Some c
      | bs \<Rightarrow> Some (ChainClient bs))"

definition Presets :: "string \<Rightarrow> (string \<times> string) option" where
  "Presets p = map_of
     [(''deepseek'', (''https://api.deepseek.com/v1'', ''deepseek-chat'')),
      (''openai'', (''https://api.openai.com/v1'', ''gpt-4o-mini'')),
      (''minimax'', (''https://api.minimax.io/v1'', ''MiniMax-Text-01'')),
      (''bailian'', (''https://dashscope.aliyuncs.com/compatible-mode/v1'', ''qwen-plus'')),
      (''glm'', (''https://open.bigmodel.cn/api/paas/v4'', ''glm-4.5''))] p"

definition ResolveEndpoint :: "string \<Rightarrow> string \<Rightarrow> string \<Rightarrow> string \<times> string" where
  "ResolveEndpoint provider baseURL model =
     (case Presets provider of
        None \<Rightarrow> (baseURL, model)
      | Some (b, m) \<Rightarrow> (if baseURL = [] then b else baseURL, if model = [] then m else model))"

definition BuildClient :: "string \<Rightarrow> string \<Rightarrow> string \<Rightarrow> string \<Rightarrow> duration \<Rightarrow> string + client" where
  "BuildClient provider baseURL apiKey model timeout =
     (if provider = [] \<or> provider = ''mock'' then Inr MockClient
      else case ResolveEndpoint provider (normBase baseURL) model of
             (b, m) \<Rightarrow>
               if b = [] \<or> apiKey = [] \<or> m = []
               then Inl ''openai-compatible provider needs base_url, api_key and model''
               else Inr (OpenAIClient (NewOpenAIClient b apiKey m timeout)))"

text \<open>The provider is its current client.\<close>

definition provider_Name :: "client option \<Rightarrow> string" where
  "provider_Name p = (case p of None \<Rightarrow> ''disabled'' | Some c \<Rightarrow> client_Name c)"

definition ErrDisabled :: string where "ErrDisabled = ''ai: assistant disabled''"

definition provider_ask :: "'w llm_env \<Rightarrow> client option \<Rightarrow> question \<Rightarrow> 'w \<Rightarrow> 'w reply" where
  "provider_ask env p q w = (case p of None \<Rightarrow> (Inl ErrDisabled, w) | Some c \<Rightarrow> client_ask env q c w)"

text \<open>A backend of a chain is asked only when the context is live and every backend before it has
  failed; the answer is the first one that is accepted.\<close>

fun asked :: "('w \<Rightarrow> string option) \<Rightarrow> ('c \<Rightarrow> 'w \<Rightarrow> 'w reply) \<Rightarrow> 'c list \<Rightarrow> 'w \<Rightarrow> ('c \<times> (string + string)) list \<times> 'w" where
  "asked ctx ask [] w = ([], w)"
| "asked ctx ask (c # cs) w =
     (if ctx w \<noteq> None then ([], w)
      else case ask c w of
             (r, w') \<Rightarrow>
               if accepted r then ([(c, r)], w')
               else (case asked ctx ask cs w' of (rs, w'') \<Rightarrow> ((c, r) # rs, w'')))"

lemma chain_loop_asked:
  assumes "asked ctx ask (map snd bs) w = (tried, w')"
  shows "chain_loop ctx ask n errs bs w =
    (if tried \<noteq> [] \<and> accepted (snd (last tried)) then snd (last tried)
     else if length tried < length bs then Inl (the (ctx w'))
     else Inl (all_failed n (errs @ map2 (\<lambda>b t. fst b @ '': '' @ reason (snd t)) bs tried)), w')
    \<and> map fst tried = take (length tried) (map snd bs) \<and> (\<forall>t\<in>set (butlast tried). \<not> accepted (snd t))
    \<and> (length tried < length bs \<longrightarrow> (tried \<noteq> [] \<and> accepted (snd (last tried))) \<or> ctx w' \<noteq> None)"
  using assms
proof (induction bs arbitrary: w tried errs w')
  case (Cons b bs)
  obtain name c where b: "b = (name, c)" by fastforce
  obtain r v where r: "ask c w = (r, v)" by fastforce
  obtain ts w2 where ts: "asked ctx ask (map snd bs) v = (ts, w2)" by fastforce
  show ?case
  proof (cases "ctx w")
    case None
    note IH = Cons.IH [OF ts, of "errs @ [name @ '': '' @ reason r]"]
    show ?thesis
    proof (cases "accepted r")
      case True
      then have "tried = [(c, r)]" "w' = v" using Cons.prems None r b by simp_all
      then show ?thesis using None r b True by simp
    next
      case False
      then have t: "tried = (c, r) # ts" "w' = w2" using Cons.prems None r ts b by simp_all
      have "ts = [] \<or> last tried = last ts" "butlast tried = (if ts = [] then [] else (c, r) # butlast ts)"
        by (simp_all add: t)
      then show ?thesis using IH None r b False unfolding t by (cases "ts = []") simp_all
    qed
  next
    case (Some e)
    then show ?thesis using Cons.prems b by auto
  qed
qed simp

text \<open>C35: A fallback chain asks its backends in their order, each at most once, and only while the context
  is live and every backend before failed or answered blank; it gives back the first answer that is
  accepted, else the error of the context when that ended the search, else one error that names
  every backend with its reason; nothing else is called.\<close>

theorem chain_fallback:
  assumes "asked (le_ctx env) (client_ask env q) (map snd bs) w = (tried, w')"
  shows "client_ask env q (ChainClient bs) w =
    (if tried \<noteq> [] \<and> accepted (snd (last tried)) then snd (last tried)
     else if length tried < length bs then Inl (the (le_ctx env w'))
     else Inl (all_failed (length bs) (map2 (\<lambda>b t. fst b @ '': '' @ reason (snd t)) bs tried)), w')
    \<and> map fst tried = take (length tried) (map snd bs) \<and> (\<forall>t\<in>set (butlast tried). \<not> accepted (snd t))
    \<and> (length tried < length bs \<longrightarrow> (tried \<noteq> [] \<and> accepted (snd (last tried))) \<or> le_ctx env w' \<noteq> None)"
  using chain_loop_asked [OF assms, of "length bs" "[]"] by simp

definition demo_llm :: "nat llm_env" where
  "demo_llm = \<lparr>le_url_error = (\<lambda>_. None), le_post = (\<lambda>_ _ _ _ n. (Inl ''connection refused'', Suc n)),
     le_get = (\<lambda>_ _ _ n. (Inl ''connection refused'', Suc n)), le_chat = (\<lambda>_. Inl ''no json''),
     le_models = (\<lambda>_. Inl ''no json''),
     le_json = \<lparr>jl_parse = (\<lambda>_. Inl ''no json''), jl_text = (\<lambda>_. []), jl_float = (\<lambda>_. None), jl_number = (\<lambda>_. None)\<rparr>,
     le_decode_error = (\<lambda>_. ''no json''), le_ctx = (\<lambda>_. None)\<rparr>"

definition demo_chain :: "(string \<times> client) list" where
  "demo_chain = [(''openai:m'', OpenAIClient (NewOpenAIClient ''http://h/v1'' ''k'' ''m'' 0)), (''mock'', MockClient)]"

lemma trim_front_keeps:
  "\<forall>w\<in>set ws. \<forall>x\<in>set w. \<not> P x \<Longrightarrow> c \<in> set s \<Longrightarrow> P c \<Longrightarrow> c \<in> set (trim_front ws s)"
proof (induction ws s rule: trim_front.induct)
  case (1 ws s)
  show ?case
  proof (cases "find (\<lambda>w. w \<noteq> [] \<and> starts_with w s) ws")
    case None
    then show ?thesis using 1(3) by (subst trim_front.simps) simp
  next
    case (Some w)
    then have w: "w \<in> set ws" "take (length w) s = w" by (auto simp: find_Some_iff starts_with_def)
    have "c \<in> set (drop (length w) s)"
      using 1(2-4) w by (metis append_take_drop_id Un_iff set_append)
    then have "c \<in> set (trim_front ws (drop (length w) s))" by (rule 1(1) [OF Some 1(2) _ 1(4)])
    then show ?thesis using Some by (subst trim_front.simps) simp
  qed
qed

lemma TrimSpace_keeps: "c \<in> set s \<Longrightarrow> plain_char c \<Longrightarrow> TrimSpace s \<noteq> []"
proof -
  assume c: "c \<in> set s" "plain_char c"
  have sp: "\<forall>w\<in>set space_texts. \<forall>x\<in>set w. \<not> plain_char x"
    by (auto simp: space_texts_def bytes_def plain_char_def)
  have "c \<in> set (trim_front space_texts s)" using sp c by (rule trim_front_keeps)
  then have "c \<in> set (trim_front (map rev space_texts) (rev (trim_front space_texts s)))"
    using sp c(2) by (intro trim_front_keeps [where P = plain_char]) auto
  then show ?thesis by (auto simp: TrimSpace_def)
qed

lemma mock_Summarize_accepted: "accepted (Inr (mock_Summarize user))"
proof -
  have "(char_of (109 :: nat) :: char) \<in> set (mock_Summarize user)"
    unfolding mock_Summarize_def bytes_def set_append set_map by (intro UnI1 imageI) simp
  then have "TrimSpace (mock_Summarize user) \<noteq> []" by (rule TrimSpace_keeps) (simp add: plain_char_def)
  then show ?thesis by (simp add: accepted_def)
qed

lemma demo_asked:
  "asked (le_ctx demo_llm) (client_ask demo_llm (AskSummary [] ''data'')) (map snd demo_chain) 0 =
     ([(OpenAIClient (NewOpenAIClient ''http://h/v1'' ''k'' ''m'' 0), Inl ''openai: http do: connection refused''),
       (MockClient, Inr (mock_Summarize ''data''))], 1)"
proof -
  have "\<not> accepted (Inl ''openai: http do: connection refused'')" by (simp add: accepted_def)
  then show ?thesis using mock_Summarize_accepted
    by (simp add: demo_chain_def demo_llm_def openai_Summarize_def chat_exchange_def Let_def)
qed

theorem chain_fallback_witness:
  "client_ask demo_llm (AskSummary [] ''data'') (ChainClient demo_chain) 0 = (Inr (mock_Summarize ''data''), 1)"
  using chain_fallback [OF demo_asked] mock_Summarize_accepted by simp

section \<open>Connection settings\<close>

lemma trim_slashes_last: "trim_slashes s = [] \<or> last (trim_slashes s) \<noteq> CHR ''/''"
proof (cases "dropWhile (\<lambda>c. c = CHR ''/'') (rev s)")
  case (Cons c cs)
  then have "c \<noteq> CHR ''/''" by (metis (full_types) dropWhile_eq_Cons_conv)
  then show ?thesis by (simp add: trim_slashes_def Cons)
qed (simp add: trim_slashes_def)

lemma trim_slashes_id: "s = [] \<or> last s \<noteq> CHR ''/'' \<Longrightarrow> trim_slashes s = s"
  by (cases s rule: rev_cases) (auto simp: trim_slashes_def)

text \<open>A client that is built has all it needs to call: an endpoint without a trailing slash, a key and a
  model.\<close>

lemma BuildClient_complete:
  assumes "BuildClient provider baseURL apiKey model timeout = Inr (OpenAIClient c)"
  shows "oc_apiKey c = apiKey \<and> apiKey \<noteq> [] \<and> oc_model c \<noteq> [] \<and> oc_baseURL c \<noteq> [] \<and> last (oc_baseURL c) \<noteq> CHR ''/''
    \<and> 0 < oc_timeout c"
proof -
  obtain b m where r: "ResolveEndpoint provider (normBase baseURL) model = (b, m)" by fastforce
  have b: "b \<noteq> []" "m \<noteq> []" "apiKey \<noteq> []" "c = NewOpenAIClient b apiKey m timeout"
    using assms r by (auto simp: BuildClient_def split: if_splits)
  have "last b \<noteq> CHR ''/''"
  proof (cases "normBase baseURL = []")
    case True
    then show ?thesis using r b(1) by (auto simp: ResolveEndpoint_def Presets_def split: if_splits)
  next
    case False
    then have "b = normBase baseURL" using r by (auto simp: ResolveEndpoint_def split: option.splits)
    then show ?thesis using trim_slashes_last b(1) by (simp add: normBase_def) metis
  qed
  then show ?thesis using b by (simp add: NewOpenAIClient_def trim_slashes_id nano_second_def)
qed

section \<open>What the mock may change\<close>

lemma set_param_keeps [simp]:
  "rn_ID (set_param k x n) = rn_ID n" "rn_Type (set_param k x n) = rn_Type n" "rn_Position (set_param k x n) = rn_Position n"
  by (simp_all add: set_param_def split: option.split)

lemma edit_nodes_keeps:
  "edit_nodes pick k x rf = (rf', ch) \<Longrightarrow>
   rf_Edges rf' = rf_Edges rf
   \<and> map_option (map (\<lambda>n. (rn_ID n, rn_Type n, rn_Position n))) (rf_Nodes rf')
       = map_option (map (\<lambda>n. (rn_ID n, rn_Type n, rn_Position n))) (rf_Nodes rf)"
  by (cases "rf_Nodes rf") (auto simp: edit_nodes_def)

lemma mock_edit_keeps:
  "mock_edit instr rf = (rf', ch) \<Longrightarrow>
   rf_Edges rf' = rf_Edges rf
   \<and> map_option (map (\<lambda>n. (rn_ID n, rn_Type n, rn_Position n))) (rf_Nodes rf')
       = map_option (map (\<lambda>n. (rn_ID n, rn_Type n, rn_Position n))) (rf_Nodes rf)"
  unfolding mock_edit_def Let_def setIndicatorPeriod_def setRankTop_def
  by (auto dest!: edit_nodes_keeps split: if_split_asm option.split_asm simp del: contains.simps)

end
