(* ===== verification/App_Error.thy ===== *)
theory App_Error
  imports AF_Prelude
begin

text \<open>
  The structured errors of \<open>apperr/apperr.go\<close>.  The cause of a wrapped error is its text.
\<close>

datatype code =
    CodeOK | CodeInternal | CodeInvalidArg | CodeNotFound | CodeConflict | CodeUnauthorized
  | CodeForbidden | CodeUnavailable | CodeTimeout

fun code_number :: "code \<Rightarrow> int" where
  "code_number CodeOK = 0"
| "code_number CodeInternal = 10000"
| "code_number CodeInvalidArg = 10001"
| "code_number CodeNotFound = 10002"
| "code_number CodeConflict = 10003"
| "code_number CodeUnauthorized = 10004"
| "code_number CodeForbidden = 10005"
| "code_number CodeUnavailable = 10006"
| "code_number CodeTimeout = 10007"

datatype biz_error = BizError (be_code: code) (be_message: string) (be_cause: "string option")

definition new_error :: "code \<Rightarrow> string \<Rightarrow> biz_error" where
  "new_error c msg = BizError c msg None"

definition wrap_error :: "code \<Rightarrow> string \<Rightarrow> string \<Rightarrow> biz_error" where
  "wrap_error c msg cause = BizError c msg (Some cause)"

definition Internal :: "string \<Rightarrow> string \<Rightarrow> biz_error" where "Internal msg cause = wrap_error CodeInternal msg cause"
definition InvalidArg :: "string \<Rightarrow> biz_error" where "InvalidArg msg = new_error CodeInvalidArg msg"
definition NotFound :: "string \<Rightarrow> biz_error" where "NotFound msg = new_error CodeNotFound msg"
definition Conflict :: "string \<Rightarrow> biz_error" where "Conflict msg = new_error CodeConflict msg"
definition Unauthorized :: "string \<Rightarrow> biz_error" where "Unauthorized msg = new_error CodeUnauthorized msg"
definition Forbidden :: "string \<Rightarrow> biz_error" where "Forbidden msg = new_error CodeForbidden msg"
definition Unavailable :: "string \<Rightarrow> biz_error" where "Unavailable msg = new_error CodeUnavailable msg"

fun HTTPStatus :: "code \<Rightarrow> int" where
  "HTTPStatus CodeOK = 200"
| "HTTPStatus CodeInvalidArg = 400"
| "HTTPStatus CodeUnauthorized = 401"
| "HTTPStatus CodeForbidden = 403"
| "HTTPStatus CodeNotFound = 404"
| "HTTPStatus CodeConflict = 409"
| "HTTPStatus CodeTimeout = 504"
| "HTTPStatus CodeUnavailable = 503"
| "HTTPStatus CodeInternal = 500"

text \<open>A statement whose outcome is an argument: the text of a database error, or none.\<close>

definition guarded :: "code \<Rightarrow> string \<Rightarrow> string option \<Rightarrow> 'a \<Rightarrow> biz_error + 'a" where
  "guarded c msg err x = (case err of None \<Rightarrow> Inr x | Some e \<Rightarrow> Inl (wrap_error c msg e))"

lemma guarded_Inr [simp]: "guarded c msg err x = Inr y \<longleftrightarrow> err = None \<and> y = x"
  by (auto simp: guarded_def split: option.split)

section \<open>Sequencing\<close>

text \<open>The idiom \<open>if err != nil { return err }\<close>.\<close>

definition and_then :: "'e + 'a \<Rightarrow> ('a \<Rightarrow> 'e + 'b) \<Rightarrow> 'e + 'b" where
  "and_then r f = (case r of Inl e \<Rightarrow> Inl e | Inr x \<Rightarrow> f x)"

lemma and_then_simps [simp]: "and_then (Inl e) f = Inl e" "and_then (Inr x) f = f x"
  by (simp_all add: and_then_def)

lemma and_then_Inr: "and_then r f = Inr y \<longleftrightarrow> (\<exists>x. r = Inr x \<and> f x = Inr y)"
  by (cases r) auto

text \<open>A service method ends with a structured error or with one the database driver gave.\<close>

datatype service_error = Biz biz_error | DbError string

definition check :: "service_error \<Rightarrow> bool \<Rightarrow> service_error + unit" where
  "check e b = (if b then Inr () else Inl e)"

definition stmt :: "(string \<Rightarrow> 'e) \<Rightarrow> string option \<Rightarrow> 'a \<Rightarrow> 'e + 'a" where
  "stmt f err x = (case err of None \<Rightarrow> Inr x | Some e \<Rightarrow> Inl (f e))"

lemma check_Inr [simp]: "check e b = Inr u \<longleftrightarrow> b"
  by (simp add: check_def)

lemma stmt_Inr [simp]: "stmt f err x = Inr y \<longleftrightarrow> err = None \<and> y = x"
  by (auto simp: stmt_def split: option.split)

definition wrapped :: "code \<Rightarrow> string \<Rightarrow> string \<Rightarrow> service_error" where
  "wrapped c msg e = Biz (wrap_error c msg e)"

end
