(* ===== verification/Row_Table.thy ===== *)
theory Row_Table
  imports AF_Prelude
begin

text \<open>
  A database table as the services see it through their statements: the live rows by identifier,
  in ascending order of identifier, and the next identifier.  A soft delete hides a row from every
  query the program makes, so it is the removal of the row.  \<open>id_table\<close> states what the statements
  promise; the services use only that.
\<close>

record 'r table =
  tb_rows :: "(nat \<times> 'r) list"
  tb_next :: nat

definition empty_table :: "'r table" where
  "empty_table = \<lparr>tb_rows = [], tb_next = 1\<rparr>"

definition tb_create :: "'r \<Rightarrow> 'r table \<Rightarrow> nat \<times> 'r table" where
  "tb_create r t = (tb_next t, t\<lparr>tb_rows := tb_rows t @ [(tb_next t, r)], tb_next := Suc (tb_next t)\<rparr>)"

definition tb_first :: "nat \<Rightarrow> 'r table \<Rightarrow> 'r option" where
  "tb_first i t = map_of (tb_rows t) i"

text \<open>An update by primary key; without a row of that key it changes nothing.\<close>

definition tb_save :: "nat \<Rightarrow> 'r \<Rightarrow> 'r table \<Rightarrow> 'r table" where
  "tb_save i r t = t\<lparr>tb_rows := map (\<lambda>(j, x). (j, if j = i then r else x)) (tb_rows t)\<rparr>"

definition tb_delete :: "nat \<Rightarrow> 'r table \<Rightarrow> 'r table" where
  "tb_delete i t = t\<lparr>tb_rows := filter (\<lambda>(j, x). j \<noteq> i) (tb_rows t)\<rparr>"

definition tb_where :: "('r \<Rightarrow> bool) \<Rightarrow> 'r table \<Rightarrow> (nat \<times> 'r) list" where
  "tb_where P t = filter (\<lambda>(i, r). P r) (tb_rows t)"

definition tb_ok :: "'r table \<Rightarrow> bool" where
  "tb_ok t \<longleftrightarrow> sorted_wrt (<) (map fst (tb_rows t)) \<and> (\<forall>i\<in>set (map fst (tb_rows t)). i < tb_next t)"

section \<open>The contract\<close>

locale id_table =
  fixes create :: "'r \<Rightarrow> 't \<Rightarrow> nat \<times> 't"
    and first :: "nat \<Rightarrow> 't \<Rightarrow> 'r option"
    and save :: "nat \<Rightarrow> 'r \<Rightarrow> 't \<Rightarrow> 't"
    and delete :: "nat \<Rightarrow> 't \<Rightarrow> 't"
    and ok :: "'t \<Rightarrow> bool"
  assumes create_fresh: "ok t \<Longrightarrow> first (fst (create r t)) t = None"
    and first_create: "ok t \<Longrightarrow> first i (snd (create r t)) = (if i = fst (create r t) then Some r else first i t)"
    and first_save: "ok t \<Longrightarrow> first i (save j r t) = (if i = j \<and> first j t \<noteq> None then Some r else first i t)"
    and first_delete: "ok t \<Longrightarrow> first i (delete j t) = (if i = j then None else first i t)"
    and ok_create: "ok t \<Longrightarrow> ok (snd (create r t))"
    and ok_save: "ok t \<Longrightarrow> ok (save j r t)"
    and ok_delete: "ok t \<Longrightarrow> ok (delete j t)"
begin

lemmas first_simps = first_create first_save first_delete
lemmas ok_intros = ok_create ok_save ok_delete

text \<open>A property of every row.\<close>

definition all_rows :: "(nat \<Rightarrow> 'r \<Rightarrow> bool) \<Rightarrow> 't \<Rightarrow> bool" where
  "all_rows P t \<longleftrightarrow> ok t \<and> (\<forall>i r. first i t = Some r \<longrightarrow> P i r)"

lemma all_rows_create: "all_rows P t \<Longrightarrow> P (fst (create r t)) r \<Longrightarrow> all_rows P (snd (create r t))"
  by (auto simp: all_rows_def first_create ok_create)

lemma all_rows_created:
  "create r t = (i, t') \<Longrightarrow> all_rows P t \<Longrightarrow> P i r \<Longrightarrow> all_rows P t'"
  using all_rows_create [of P t r] by simp

lemma all_rows_save: "all_rows P t \<Longrightarrow> P i r \<Longrightarrow> all_rows P (save i r t)"
  by (auto simp: all_rows_def first_save ok_save split: if_splits)

lemma all_rows_delete: "all_rows P t \<Longrightarrow> all_rows P (delete i t)"
  by (auto simp: all_rows_def first_delete ok_delete split: if_splits)

lemma all_rowsD: "all_rows P t \<Longrightarrow> first i t = Some r \<Longrightarrow> P i r"
  by (simp add: all_rows_def)

lemmas all_rows_intros = all_rows_create all_rows_save all_rows_delete

lemma delete_gone: "ok t \<Longrightarrow> first i (delete i t) = None"
  by (simp add: first_delete)

end

lemma map_of_map_snd:
  "map_of (map (\<lambda>(j, x). (j, if j = i then r else x)) xs) k =
     (if k = i \<and> map_of xs i \<noteq> None then Some r else map_of xs k)"
  by (induction xs) auto

lemma map_of_filter_key: "map_of (filter (\<lambda>(j, x). j \<noteq> i) xs) k = (if k = i then None else map_of xs k)"
  by (induction xs) auto

lemma tb_first_None: "(\<forall>j\<in>set (map fst (tb_rows t)). j \<noteq> i) \<Longrightarrow> tb_first i t = None"
  by (auto simp: tb_first_def map_of_eq_None_iff)

interpretation tbl: id_table tb_create tb_first tb_save tb_delete tb_ok
proof unfold_locales
  fix t :: "'r table" and r i j
  assume ok: "tb_ok t"
  have new: "tb_next t \<notin> set (map fst (tb_rows t))" using ok by (auto simp: tb_ok_def)
  then show "tb_first (fst (tb_create r t)) t = None"
    by (simp add: tb_create_def tb_first_def map_of_eq_None_iff)
  show "tb_first i (snd (tb_create r t)) = (if i = fst (tb_create r t) then Some r else tb_first i t)"
    using new map_of_eq_None_iff [of "tb_rows t" "tb_next t"]
    by (simp add: tb_create_def tb_first_def map_add_def split: option.split)
  show "tb_first i (tb_save j r t) = (if i = j \<and> tb_first j t \<noteq> None then Some r else tb_first i t)"
    by (simp add: tb_save_def tb_first_def map_of_map_snd)
  show "tb_first i (tb_delete j t) = (if i = j then None else tb_first i t)"
    by (simp add: tb_delete_def tb_first_def map_of_filter_key)
  show "tb_ok (snd (tb_create r t))"
    using ok by (auto simp: tb_ok_def tb_create_def sorted_wrt_append)
  have keys: "map fst (tb_rows (tb_save j r t)) = map fst (tb_rows t)"
    by (simp add: tb_save_def comp_def split_def)
  then show "tb_ok (tb_save j r t)" using ok by (simp add: tb_ok_def keys) (simp add: tb_save_def)
  have "map fst (filter (\<lambda>(k, x). k \<noteq> j) (tb_rows t)) = filter (\<lambda>k. k \<noteq> j) (map fst (tb_rows t))"
    by (simp add: filter_map comp_def split_def)
  then show "tb_ok (tb_delete j t)"
    using ok by (simp add: tb_ok_def tb_delete_def sorted_wrt_filter) auto
qed

lemma tb_ok_empty: "tb_ok empty_table"
  by (simp add: tb_ok_def empty_table_def)

lemma tb_rows_first: "tb_ok t \<Longrightarrow> (i, r) \<in> set (tb_rows t) \<longleftrightarrow> tb_first i t = Some r"
proof -
  assume "tb_ok t"
  then have "distinct (map fst (tb_rows t))"
    by (simp add: tb_ok_def strict_sorted_iff)
  then show ?thesis by (auto simp: tb_first_def map_of_eq_Some_iff)
qed

lemma tb_next_save [simp]: "tb_next (tb_save i r t) = tb_next t"
  by (simp add: tb_save_def)

lemma tb_next_delete [simp]: "tb_next (tb_delete i t) = tb_next t"
  by (simp add: tb_delete_def)

end
