(* ===== verification/Node_Select.thy ===== *)
theory Node_Select
  imports Node_Values
begin

text \<open>
  The nodes that select rows of an upstream list: \<open>executor/nodes/filter.go\<close>, \<open>rank.go\<close> and
  \<open>dedupe.go\<close>, and \<open>mergeCodes\<close> of \<open>data_source.go\<close>.  Each \<open>Run\<close> takes the JSON decoder of its
  parameters and the node's inputs, and gives the output payload or an error.  That what a node
  outputs are rows of its input is the contract \<open>row_selector\<close>, which the three meet.
\<close>

section \<open>Filter\<close>

record filter_params =
  fp_Field :: string
  fp_Op :: string
  fp_Value :: val
  fp_Target :: string

definition zero_filter_params :: filter_params where
  "zero_filter_params = \<lparr>fp_Field = [], fp_Op = [], fp_Value = VNil, fp_Target = []\<rparr>"

definition compareNum :: "val \<Rightarrow> val \<Rightarrow> (f64 \<Rightarrow> f64 \<Rightarrow> bool) \<Rightarrow> node_error + bool" where
  "compareNum a b cmp = Inr (cmp (toFloat a) (toFloat b))"

definition value_error :: "string \<Rightarrow> node_error + bool" where
  "value_error reason = Inl (ParamError ''filter'' ''value'' reason)"

definition match_between :: "val \<Rightarrow> val \<Rightarrow> node_error + bool" where
  "match_between got v =
     (case v of
        VArr [lo, hi] \<Rightarrow> Inr (f_le (toFloat lo) (toFloat got) \<and> f_le (toFloat got) (toFloat hi))
      | _ \<Rightarrow> value_error ''between requires [low, high]'')"

definition match_in :: "printer \<Rightarrow> val \<Rightarrow> val \<Rightarrow> node_error + bool" where
  "match_in pr got v =
     (case v of
        VArr es \<Rightarrow> Inr (list_ex (equalish pr got) es)
      | _ \<Rightarrow> value_error ''in requires [...]'')"

definition match_contains :: "val \<Rightarrow> val \<Rightarrow> node_error + bool" where
  "match_contains got v =
     (case (got, v) of (VStr gs, VStr vs) \<Rightarrow> Inr (contains gs vs) | _ \<Rightarrow> Inr False)"

definition match_contains_any :: "printer \<Rightarrow> val \<Rightarrow> val \<Rightarrow> node_error + bool" where
  "match_contains_any pr got v =
     (case got of
        VStr gs \<Rightarrow>
          let needles = toStringList pr v
          in if needles = []
             then value_error ''contains_any requires a non-empty list or comma-separated string''
             else Inr (list_ex (\<lambda>n. n \<noteq> [] \<and> contains gs n) needles)
      | _ \<Rightarrow> Inr False)"

definition matchExpr :: "printer \<Rightarrow> payload \<Rightarrow> string \<Rightarrow> string \<Rightarrow> val \<Rightarrow> node_error + bool" where
  "matchExpr pr item field op v =
     (let got = lookupField item field
      in if op \<in> {''=='', ''eq''} then Inr (equalish pr got v)
         else if op \<in> {''!='', ''ne''} then Inr (\<not> equalish pr got v)
         else if op \<in> {''>'', ''gt''} then compareNum got v (\<lambda>a b. f_lt b a)
         else if op \<in> {''<'', ''lt''} then compareNum got v f_lt
         else if op \<in> {''>='', ''gte''} then compareNum got v (\<lambda>a b. f_le b a)
         else if op \<in> {''<='', ''lte''} then compareNum got v f_le
         else if op = ''between'' then match_between got v
         else if op = ''in'' then match_in pr got v
         else if op = ''contains'' then match_contains got v
         else if op = ''contains_any'' then match_contains_any pr got v
         else Inl (ParamError ''filter'' ''op'' (''unknown: '' @ op)))"

fun filter_loop ::
  "(payload \<Rightarrow> node_error + bool) \<Rightarrow> val list \<Rightarrow> val list \<Rightarrow> int \<Rightarrow> node_error + val list \<times> int" where
  "filter_loop mt [] kept dropped = Inr (kept, dropped)"
| "filter_loop mt (it # its) kept dropped =
     (case as_map it of
        None \<Rightarrow> filter_loop mt its kept (dropped + 1)
      | Some m \<Rightarrow>
          (case mt m of
             Inl e \<Rightarrow> Inl e
           | Inr pass \<Rightarrow>
               if pass then filter_loop mt its (kept @ [it]) dropped
               else filter_loop mt its kept (dropped + 1)))"

text \<open>\<open>target = "root"\<close>: the first map among the inputs is matched.\<close>

fun filter_root :: "(payload \<Rightarrow> node_error + bool) \<Rightarrow> payload \<Rightarrow> node_out" where
  "filter_root mt [] = Inr [(''matched'', VBool False)]"
| "filter_root mt ((k, v) # ins) =
     (case as_map v of
        None \<Rightarrow> filter_root mt ins
      | Some top_map \<Rightarrow>
          (case mt top_map of
             Inl e \<Rightarrow> Inl e
           | Inr False \<Rightarrow> Inr [(''matched'', VBool False)]
           | Inr True \<Rightarrow> Inr [(''matched'', VBool True), (''value'', VMap top_map)]))"

definition filter_out :: "val list \<Rightarrow> int \<Rightarrow> payload" where
  "filter_out kept dropped =
     [(''items'', VArr kept), (''matched'', VInt (int (length kept))), (''dropped'', VInt dropped)]"

definition or_default :: "string \<Rightarrow> string \<Rightarrow> string" where
  "or_default d s = (if s = [] then d else s)"

definition filter_Run :: "printer \<Rightarrow> (string \<Rightarrow> string + filter_params) \<Rightarrow> payload \<Rightarrow> node_out" where
  "filter_Run pr unmarshal ins =
     (case decode_params ''filter'' unmarshal zero_filter_params ins of
        Inl e \<Rightarrow> Inl e
      | Inr p \<Rightarrow>
          if fp_Field p = [] then Inl (ParamError ''filter'' ''field'' ''is required'')
          else
            let mt = (\<lambda>m. matchExpr pr m (fp_Field p) (or_default ''=='' (fp_Op p)) (fp_Value p))
            in if or_default ''each'' (fp_Target p) = ''root'' then filter_root mt ins
               else case findFirstSlice ins of
                      None \<Rightarrow> Inr (filter_out [] 0)
                    | Some items \<Rightarrow>
                        (case filter_loop mt items [] 0 of
                           Inl e \<Rightarrow> Inl e
                         | Inr (kept, dropped) \<Rightarrow> Inr (filter_out kept dropped)))"

section \<open>Rank\<close>

record rank_params =
  rp_Field :: string
  rp_Order :: string
  rp_Top :: int

definition zero_rank_params :: rank_params where
  "zero_rank_params = \<lparr>rp_Field = [], rp_Order = [], rp_Top = 0\<rparr>"

definition rank_field :: "string \<Rightarrow> val \<Rightarrow> f64" where
  "rank_field field it =
     toFloat (lookupField (case as_map it of Some m \<Rightarrow> m | None \<Rightarrow> []) field)"

definition rank_less :: "string \<Rightarrow> string \<Rightarrow> val \<Rightarrow> val \<Rightarrow> bool" where
  "rank_less field order x y =
     (if order = ''asc'' then f_lt (rank_field field x) (rank_field field y)
      else f_lt (rank_field field y) (rank_field field x))"

definition rank_rows :: "string \<Rightarrow> string \<Rightarrow> int \<Rightarrow> val list \<Rightarrow> val list" where
  "rank_rows field order n items =
     (let cp = slice_stable (rank_less field order) items
      in if n < int (length cp) then take (nat n) cp else cp)"

definition counted :: "val list \<Rightarrow> payload" where
  "counted items = [(''items'', VArr items), (''count'', VInt (int (length items)))]"

definition rank_Run :: "(string \<Rightarrow> string + rank_params) \<Rightarrow> payload \<Rightarrow> node_out" where
  "rank_Run unmarshal ins =
     (case decode_params ''rank'' unmarshal zero_rank_params ins of
        Inl e \<Rightarrow> Inl e
      | Inr p \<Rightarrow>
          if rp_Field p = [] then Inl (ParamError ''rank'' ''field'' ''is required'')
          else case findFirstSlice ins of
                 None \<Rightarrow> Inr (counted [])
               | Some items \<Rightarrow>
                   Inr (counted (rank_rows (rp_Field p) (or_default ''desc'' (rp_Order p))
                                   (positive_or 10 (rp_Top p)) items)))"

section \<open>Dedupe\<close>

definition row_key :: "string \<Rightarrow> payload \<Rightarrow> string" where
  "row_key key m = stringOf (lookupField m key)"

fun dedupe_loop :: "string \<Rightarrow> val list \<Rightarrow> string set \<Rightarrow> val list \<Rightarrow> val list" where
  "dedupe_loop key [] seen out = out"
| "dedupe_loop key (it # its) seen out =
     (case as_map it of
        None \<Rightarrow> dedupe_loop key its seen out
      | Some m \<Rightarrow>
          let k = row_key key m
          in if k = [] then dedupe_loop key its seen (out @ [it])
             else if k \<in> seen then dedupe_loop key its seen out
             else dedupe_loop key its (insert k seen) (out @ [it]))"

definition dedupe_Run :: "(string \<Rightarrow> string + string) \<Rightarrow> payload \<Rightarrow> node_out" where
  "dedupe_Run unmarshal ins =
     (case decode_params ''dedupe'' unmarshal [] ins of
        Inl e \<Rightarrow> Inl e
      | Inr key \<Rightarrow>
          (case findFirstSlice ins of
             None \<Rightarrow> Inr (counted [])
           | Some items \<Rightarrow> Inr (counted (dedupe_loop (or_default ''stock_code'' key) items {} []))))"

text \<open>\<open>mergeCodes\<close>: explicit codes first, empty and repeated ones left out.\<close>

fun merge_loop :: "string list \<Rightarrow> string set \<Rightarrow> string list \<Rightarrow> string list" where
  "merge_loop [] seen out = out"
| "merge_loop (c # cs) seen out =
     (if c = [] \<or> c \<in> seen then merge_loop cs seen out
      else merge_loop cs (insert c seen) (out @ [c]))"

definition mergeCodes :: "string list \<Rightarrow> string list \<Rightarrow> string list" where
  "mergeCodes explicit resolved = merge_loop (explicit @ resolved) {} []"

section \<open>What the loops compute\<close>

definition passes :: "(payload \<Rightarrow> node_error + bool) \<Rightarrow> val \<Rightarrow> bool" where
  "passes mt it \<longleftrightarrow> (\<exists>m. it = VMap m \<and> mt m = Inr True)"

definition match_failure :: "(payload \<Rightarrow> node_error + bool) \<Rightarrow> val \<Rightarrow> node_error option" where
  "match_failure mt it =
     (case it of VMap m \<Rightarrow> (case mt m of Inl e \<Rightarrow> Some e | Inr _ \<Rightarrow> None) | _ \<Rightarrow> None)"

lemma as_map_iff [simp]: "as_map it = Some m \<longleftrightarrow> it = VMap m"
  by (cases it) auto

lemma match_cases [simp]:
  "passes mt (VMap m) \<longleftrightarrow> mt m = Inr True"
  "match_failure mt (VMap m) = (case mt m of Inl e \<Rightarrow> Some e | Inr _ \<Rightarrow> None)"
  "as_map it = None \<Longrightarrow> \<not> passes mt it" "as_map it = None \<Longrightarrow> match_failure mt it = None"
  by (auto simp: passes_def match_failure_def split: val.split)

lemma filter_loop_eq:
  "filter_loop mt items kept dropped =
     (case List.map_filter (match_failure mt) items of
        e # _ \<Rightarrow> Inl e
      | [] \<Rightarrow> Inr (kept @ filter (passes mt) items,
                   dropped + int (length (filter (\<lambda>it. \<not> passes mt it) items))))"
proof (induction items arbitrary: kept dropped)
  case (Cons it items)
  show ?case
  proof (cases "as_map it")
    case None
    then show ?thesis using Cons by (simp add: List.map_filter_def split: list.split)
  next
    case (Some m)
    then show ?thesis using Cons
      by (cases "mt m") (auto simp: List.map_filter_def split: list.split)
  qed
qed (simp add: List.map_filter_def)

lemma filter_loop_Inr:
  "filter_loop mt items [] 0 = Inr (ys, n) \<Longrightarrow> ys = filter (passes mt) items"
  by (auto simp: filter_loop_eq split: list.splits)

text \<open>The key of a row in the order rank sorts by; rows whose number is NaN have none.\<close>

definition rank_key :: "string \<Rightarrow> string \<Rightarrow> val \<Rightarrow> int \<times> rat" where
  "rank_key field order it =
     (let x = rank_field field it
      in if order = ''asc'' then (f_class x, f_val x) else (- f_class x, - f_val x))"

definition rankable :: "string \<Rightarrow> val \<Rightarrow> bool" where
  "rankable field it \<longleftrightarrow> rank_field field it \<noteq> NaN"

interpretation rank: keyed_less "rank_less field order" "rank_key field order" "{it. rankable field it}"
  for field order
  by unfold_locales (auto simp: rank_less_def rank_key_def rankable_def f_lt_iff Let_def less_prod_def)

lemma rank_rows_take:
  "\<forall>it\<in>set items. rankable field it \<Longrightarrow>
   rank_rows field order n items = take (nat n) (sort_key (rank_key field order) items)"
  unfolding rank_rows_def Let_def
  by (subst rank.slice_stable_sort_key, auto)+

definition kept_at :: "string \<Rightarrow> val list \<Rightarrow> nat \<Rightarrow> bool" where
  "kept_at key items i \<longleftrightarrow>
     (\<exists>m. items ! i = VMap m
        \<and> (row_key key m = [] \<or> (\<forall>j<i. \<forall>m'. items ! j = VMap m' \<longrightarrow> row_key key m' \<noteq> row_key key m)))"

lemma dedupe_loop_nths:
  assumes "items = pre @ its" "seen = {row_key key m |m. VMap m \<in> set pre} - {[]}"
  shows "dedupe_loop key its seen out = out @ nths its {i. kept_at key items (length pre + i)}"
  using assms
proof (induction its arbitrary: pre seen out)
  case (Cons it its)
  have at: "items ! length pre = it" using Cons.prems(1) by simp
  have earlier: "(\<exists>j<length pre. items ! j = VMap m) \<longleftrightarrow> VMap m \<in> set pre" for m
    using Cons.prems(1) by (auto simp: in_set_conv_nth nth_append)
  have step: "nths (it # its) {i. kept_at key items (length pre + i)} =
      (if kept_at key items (length pre) then [it] else [])
        @ nths its {i. kept_at key items (length (pre @ [it]) + i)}"
    by (simp add: nths_Cons)
  show ?case
  proof (cases "as_map it")
    case None
    then have "\<not> kept_at key items (length pre)"
      unfolding kept_at_def at by (metis as_map.simps(1) option.distinct(1))
    moreover have "dedupe_loop key its seen out =
        out @ nths its {i. kept_at key items (length (pre @ [it]) + i)}"
      by (rule Cons.IH) (use Cons.prems None in auto)
    ultimately show ?thesis using None by (simp only: step dedupe_loop.simps) simp
  next
    case (Some m)
    have "(\<forall>j<length pre. \<forall>m'. items ! j = VMap m' \<longrightarrow> row_key key m' \<noteq> k)
        \<longleftrightarrow> (\<forall>m'. VMap m' \<in> set pre \<longrightarrow> row_key key m' \<noteq> k)" for k
      using earlier by metis
    then have kept: "kept_at key items (length pre) \<longleftrightarrow> row_key key m = [] \<or> row_key key m \<notin> seen"
      using Some Cons.prems(2) by (simp add: kept_at_def at) metis
    define seen' where "seen' = (if row_key key m = [] then seen else insert (row_key key m) seen)"
    have next_row: "dedupe_loop key its seen' out' =
        out' @ nths its {i. kept_at key items (length (pre @ [it]) + i)}" for out'
      by (rule Cons.IH) (use Cons.prems Some in \<open>auto simp: seen'_def\<close>)
    have "dedupe_loop key (it # its) seen out =
        dedupe_loop key its seen' (if kept_at key items (length pre) then out @ [it] else out)"
      using Some by (simp add: kept seen'_def Let_def insert_absorb)
    then show ?thesis unfolding step next_row by simp
  qed
qed simp

lemma remdups_snoc: "remdups (xs @ [x]) = filter (\<lambda>y. y \<noteq> x) (remdups xs) @ [x]"
  by (induction xs) auto

lemma first_occurrences_Cons:
  "rev (remdups (rev (x # xs))) = x # filter (\<lambda>y. y \<noteq> x) (rev (remdups (rev xs)))"
  by (simp add: remdups_snoc rev_filter)

lemma merge_loop_eq:
  "merge_loop cs seen out = out @ rev (remdups (rev (filter (\<lambda>c. c \<noteq> [] \<and> c \<notin> seen) cs)))"
proof (induction cs arbitrary: seen out)
  case (Cons c cs)
  show ?case
  proof (cases "c = [] \<or> c \<in> seen")
    case False
    have "rev (remdups (rev (filter (\<lambda>d. d \<noteq> [] \<and> d \<notin> insert c seen) cs))) =
        filter (\<lambda>d. d \<noteq> c) (rev (remdups (rev (filter (\<lambda>d. d \<noteq> [] \<and> d \<notin> seen) cs))))"
      unfolding rev_filter remdups_filter filter_filter by (rule filter_cong) auto
    then have "merge_loop (c # cs) seen out =
        (out @ [c]) @ filter (\<lambda>d. d \<noteq> c) (rev (remdups (rev (filter (\<lambda>d. d \<noteq> [] \<and> d \<notin> seen) cs))))"
      using False by (simp only: merge_loop.simps if_False Cons.IH)
    moreover have "filter (\<lambda>d. d \<noteq> [] \<and> d \<notin> seen) (c # cs) = c # filter (\<lambda>d. d \<noteq> [] \<and> d \<notin> seen) cs"
      using False by (simp only: filter.simps de_Morgan_disj simp_thms if_True)
    ultimately show ?thesis by (simp only: first_occurrences_Cons append_assoc append_Cons append_Nil)
  next
    case True
    then show ?thesis by (cases "c = []") (simp_all add: Cons.IH)
  qed
qed simp

section \<open>Nodes as row selectors\<close>

text \<open>What every selecting node promises of the rows it outputs, on rows that meet \<open>ok\<close>: they are
  rows of its input, and selecting again changes nothing.\<close>

locale row_selector =
  fixes sel :: "val list \<Rightarrow> val list" and ok :: "val \<Rightarrow> bool"
  assumes sel_rows: "\<forall>it\<in>set xs. ok it \<Longrightarrow> mset (sel xs) \<subseteq># mset xs"
    and sel_again: "\<forall>it\<in>set xs. ok it \<Longrightarrow> sel (sel xs) = sel xs"
begin

lemma sel_set: "\<forall>it\<in>set xs. ok it \<Longrightarrow> set (sel xs) \<subseteq> set xs"
  by (metis sel_rows set_mset_mono set_mset_mset)

lemma sel_length: "\<forall>it\<in>set xs. ok it \<Longrightarrow> length (sel xs) \<le> length xs"
  by (metis sel_rows size_mset size_mset_mono)

lemma sel_iterate: "\<forall>it\<in>set xs. ok it \<Longrightarrow> (sel ^^ Suc n) xs = sel xs"
  by (induction n) (simp_all add: sel_again)

end

lemma mset_filter_sub: "mset (filter P xs) \<subseteq># mset xs"
  by (simp add: mset_filter)

interpretation keep: row_selector "filter (passes mt)" "\<lambda>_. True" for mt
  by unfold_locales (simp_all add: mset_filter_sub)

lemma mset_take_sub: "mset (take n xs) \<subseteq># mset xs"
  by (metis append_take_drop_id mset_append mset_subset_eq_add_left)

interpretation top_rows: row_selector "rank_rows field order n" "rankable field" for field order n
proof unfold_locales
  fix xs assume ok: "\<forall>it\<in>set xs. rankable field it"
  let ?k = "rank_key field order"
  have rows: "rank_rows field order n xs = take (nat n) (sort_key ?k xs)"
    by (rule rank_rows_take [OF ok])
  then show "mset (rank_rows field order n xs) \<subseteq># mset xs"
    by (metis mset_sort mset_take_sub)
  have "\<forall>it\<in>set (rank_rows field order n xs). rankable field it"
    unfolding rows using ok by (metis in_set_takeD set_sort)
  moreover have "sorted (map ?k (take (nat n) (sort_key ?k xs)))"
    by (metis sorted_sort_key sorted_wrt_take take_map)
  ultimately show "rank_rows field order n (rank_rows field order n xs) = rank_rows field order n xs"
    by (simp add: rank_rows_take rows sort_key_id_if_sorted)
qed

definition map_key :: "string \<Rightarrow> val \<Rightarrow> string" where
  "map_key key it = row_key key (case as_map it of Some m \<Rightarrow> m | None \<Rightarrow> [])"

definition deduped :: "string \<Rightarrow> val list \<Rightarrow> bool" where
  "deduped key xs \<longleftrightarrow>
     (\<forall>it\<in>set xs. as_map it \<noteq> None) \<and> distinct (filter (\<lambda>k. k \<noteq> []) (map (map_key key) xs))"

lemma map_key_VMap [simp]: "map_key key (VMap m) = row_key key m"
  by (simp add: map_key_def)

lemma dedupe_loop_deduped:
  assumes "deduped key out" "seen = set (map (map_key key) out) - {[]}"
  shows "deduped key (dedupe_loop key its seen out)"
  using assms
proof (induction its arbitrary: seen out)
  case (Cons it its)
  show ?case
  proof (cases "as_map it")
    case (Some m)
    define k where "k = row_key key m"
    have seen': "(if k = [] then seen else insert k seen) = set (map (map_key key) (out @ [it])) - {[]}"
      using Some Cons.prems(2) by (auto simp: k_def)
    have "deduped key (dedupe_loop key its (if k = [] then seen else insert k seen) (out @ [it]))"
      if "k = [] \<or> k \<notin> seen"
      by (rule Cons.IH) (use that seen' Some Cons.prems in \<open>auto simp: deduped_def k_def\<close>)
    moreover have "deduped key (dedupe_loop key its seen out)" by (rule Cons.IH [OF Cons.prems])
    ultimately show ?thesis using Some by (cases "k = []"; cases "k \<in> seen") (simp_all add: k_def Let_def)
  next
    case None
    then show ?thesis using Cons.IH [OF Cons.prems] by simp
  qed
qed (simp only: dedupe_loop.simps)

lemma dedupe_loop_id:
  "deduped key (out @ its) \<Longrightarrow> seen = set (map (map_key key) out) - {[]} \<Longrightarrow>
   dedupe_loop key its seen out = out @ its"
proof (induction its arbitrary: seen out)
  case (Cons it its)
  then obtain m where it: "it = VMap m" by (auto simp: deduped_def)
  define k where "k = row_key key m"
  have fresh: "k = [] \<or> k \<notin> seen"
    using Cons.prems unfolding it k_def by (auto simp: deduped_def)
  have "dedupe_loop key its (if k = [] then seen else insert k seen) (out @ [it]) = (out @ [it]) @ its"
    by (rule Cons.IH; use Cons.prems in \<open>auto simp: it k_def\<close>)
  then show ?case using fresh
    by (cases "k = []"; cases "k \<in> seen") (simp_all add: it k_def Let_def)
qed simp

lemma mset_nths_sub: "mset (nths xs A) \<subseteq># mset xs"
proof (induction xs arbitrary: A)
  case (Cons x xs)
  have "mset (nths xs B) \<subseteq># add_mset x (mset xs)" for B
    using Cons.IH [of B] by (metis add_mset_add_single mset_subset_eq_add_left subset_mset.order_trans)
  then show ?case using Cons.IH by (auto simp: nths_Cons)
qed simp

lemma dedupe_loop_eq: "dedupe_loop key xs {} [] = nths xs {i. kept_at key xs i}"
  using dedupe_loop_nths [of xs "[]" xs "{}" key "[]"] by simp

interpretation firsts: row_selector "\<lambda>items. dedupe_loop key items {} []" "\<lambda>_. True" for key
proof unfold_locales
  fix xs
  show "mset (dedupe_loop key xs {} []) \<subseteq># mset xs"
    unfolding dedupe_loop_eq by (rule mset_nths_sub)
  have "deduped key ([] @ dedupe_loop key xs {} [])"
    using dedupe_loop_deduped [of key "[]" "{}" xs] by (simp add: deduped_def)
  from dedupe_loop_id [OF this] show "dedupe_loop key (dedupe_loop key xs {} []) {} [] = dedupe_loop key xs {} []"
    by simp
qed

section \<open>What the nodes return\<close>

lemma map_filter_Nil_iff: "List.map_filter f xs = [] \<longleftrightarrow> (\<forall>x\<in>set xs. f x = None)"
  by (auto simp: List.map_filter_def filter_empty_conv)

text \<open>C28: A filter node with a field and target \<open>each\<close>, fed with a list: when matching an element
  that is a map fails, the node fails with the first such failure.  Otherwise it returns exactly
  the maps that match, in their order, with their number and the number of all other elements,
  which add up to the length of the list.\<close>

theorem filter_Run_keeps:
  assumes "decode_params ''filter'' unmarshal zero_filter_params ins = Inr p" "fp_Field p \<noteq> []"
    and "fp_Target p \<in> {[], ''each''}" "findFirstSlice ins = Some items"
    and "mt = (\<lambda>m. matchExpr pr m (fp_Field p) (or_default ''=='' (fp_Op p)) (fp_Value p))"
  shows "filter_Run pr unmarshal ins =
           (case List.map_filter (match_failure mt) items of
              e # _ \<Rightarrow> Inl e
            | [] \<Rightarrow> Inr [(''items'', VArr (filter (passes mt) items)),
                         (''matched'', VInt (int (length (filter (passes mt) items)))),
                         (''dropped'', VInt (int (length items) - int (length (filter (passes mt) items))))])"
proof -
  have len: "int (length (filter (\<lambda>it. \<not> passes mt it) items)) =
      int (length items) - int (length (filter (passes mt) items))"
    using length_filter_partition [of "passes mt" items] by linarith
  have "or_default ''each'' (fp_Target p) \<noteq> ''root''"
    using assms(3) by (auto simp: or_default_def)
  then show ?thesis
    using assms(1,2,4) unfolding filter_Run_def filter_loop_eq
    by (simp add: Let_def assms(5) [symmetric] len filter_out_def split: list.split)
qed

definition demo_rows :: "val list" where
  "demo_rows = [VMap [(''stock_code'', VStr ''a''), (''pe'', VInt 12)], VNil,
                VMap [(''stock_code'', VStr ''b''), (''pe'', VInt 30)],
                VMap [(''stock_code'', VStr ''a''), (''pe'', VInt 15)]]"

definition demo_ins :: payload where
  "demo_ins = [(''_params'', VBytes ''{}''), (''src'', VMap [(''items'', VArr demo_rows)])]"

definition demo_printer :: printer where
  "demo_printer = \<lparr>pr_float = (\<lambda>_. []), pr_bars = (\<lambda>_. []), pr_time = (\<lambda>_. [])\<rparr>"

definition demo_filter :: filter_params where
  "demo_filter = \<lparr>fp_Field = ''stock_code'', fp_Op = ''contains'', fp_Value = VStr ''a'', fp_Target = []\<rparr>"

theorem filter_Run_keeps_witness:
  "filter_Run demo_printer (\<lambda>_. Inr demo_filter) demo_ins =
     Inr [(''items'', VArr [demo_rows ! 0, demo_rows ! 3]), (''matched'', VInt 2), (''dropped'', VInt 2)]"
  by (subst filter_Run_keeps [where p = demo_filter and items = demo_rows, OF _ _ _ _ refl];
    simp add: decode_params_def demo_ins_def demo_filter_def reserved_keys_def demo_rows_def or_default_def
      matchExpr_def match_contains_def lookupField_def starts_with_def List.map_filter_def passes_def
      match_failure_def)

text \<open>A rank node whose rows all have a key that is a number returns, of a list of \<open>n\<close> rows,
  \<open>min top n\<close> of them: the ones it leaves out do not come before any it returns, the ones it
  returns are in order (ascending for \<open>asc\<close>, descending otherwise), rows with equal keys keep
  their order, and nothing is invented or repeated.\<close>

theorem rank_Run_top:
  assumes "decode_params ''rank'' unmarshal zero_rank_params ins = Inr p" "rp_Field p \<noteq> []"
    and "findFirstSlice ins = Some items" "\<forall>it\<in>set items. rankable (rp_Field p) it"
  shows "\<exists>out rest. rank_Run unmarshal ins =
             Inr [(''items'', VArr out), (''count'', VInt (int (length out)))]
           \<and> length out = min (nat (positive_or 10 (rp_Top p))) (length items)
           \<and> mset (out @ rest) = mset items
           \<and> sorted_wrt (\<lambda>x y. \<not> rank_less (rp_Field p) (or_default ''desc'' (rp_Order p)) y x) (out @ rest)
           \<and> (\<forall>it\<in>set items. filter (\<lambda>x. f_eq (rank_field (rp_Field p) x) (rank_field (rp_Field p) it)) (out @ rest)
                = filter (\<lambda>x. f_eq (rank_field (rp_Field p) x) (rank_field (rp_Field p) it)) items)"
proof -
  let ?f = "rp_Field p" and ?o = "or_default ''desc'' (rp_Order p)" and ?n = "nat (positive_or 10 (rp_Top p))"
  let ?all = "sort_key (rank_key ?f ?o) items"
  have run: "rank_Run unmarshal ins = Inr (counted (take ?n ?all))"
    using assms by (simp add: rank_Run_def rank_rows_take)
  have less: "rank_less ?f ?o y x \<longleftrightarrow> rank_key ?f ?o y < rank_key ?f ?o x"
    if "x \<in> set items" "y \<in> set items" for x y
    by (rule rank.less_key) (use that assms(4) in auto)
  have "sorted_wrt (\<lambda>x y. rank_key ?f ?o x \<le> rank_key ?f ?o y) ?all"
    using sorted_sort_key [of "rank_key ?f ?o" items] by (simp add: sorted_wrt_map)
  then have ord: "sorted_wrt (\<lambda>x y. \<not> rank_less ?f ?o y x) ?all"
    by (rule sorted_wrt_mono_rel [rotated]) (auto simp: less not_less)
  have same: "f_eq (rank_field ?f x) (rank_field ?f y) \<longleftrightarrow> rank_key ?f ?o x = rank_key ?f ?o y"
    if "x \<in> set items" "y \<in> set items" for x y
    using that assms(4) by (auto simp: f_eq_iff rank_key_def rankable_def Let_def)
  have stable: "filter (\<lambda>x. f_eq (rank_field ?f x) (rank_field ?f it)) ?all
      = filter (\<lambda>x. f_eq (rank_field ?f x) (rank_field ?f it)) items" if "it \<in> set items" for it
  proof -
    have "filter (\<lambda>x. f_eq (rank_field ?f x) (rank_field ?f it)) xs
        = filter (\<lambda>x. rank_key ?f ?o x = rank_key ?f ?o it) xs" if "set xs = set items" for xs
      by (rule filter_cong [OF refl]) (use that same \<open>it \<in> set items\<close> in blast)
    then show ?thesis by (simp only: set_sort sort_key_stable)
  qed
  show ?thesis
    by (rule exI [of _ "take ?n ?all"], rule exI [of _ "drop ?n ?all"])
      (simp add: run counted_def ord stable min.commute del: sort_key_simps)
qed

definition demo_rank :: rank_params where
  "demo_rank = \<lparr>rp_Field = ''pe'', rp_Order = [], rp_Top = 2\<rparr>"

theorem rank_Run_top_witness:
  "\<exists>out rest. rank_Run (\<lambda>_. Inr demo_rank) demo_ins =
       Inr [(''items'', VArr out), (''count'', VInt (int (length out)))]
     \<and> length out = 2 \<and> mset (out @ rest) = mset demo_rows
     \<and> sorted_wrt (\<lambda>x y. \<not> rank_less ''pe'' ''desc'' y x) (out @ rest)"
proof -
  have prem: "decode_params ''rank'' (\<lambda>_. Inr demo_rank) zero_rank_params demo_ins = Inr demo_rank"
    "rp_Field demo_rank \<noteq> []" "findFirstSlice demo_ins = Some demo_rows"
    "\<forall>it\<in>set demo_rows. rankable (rp_Field demo_rank) it"
    by (auto simp: decode_params_def demo_ins_def demo_rank_def reserved_keys_def demo_rows_def rankable_def
        rank_field_def lookupField_plain toFloat_def f_of_int_def)
  have "nat (positive_or 10 (rp_Top demo_rank)) = 2" "length demo_rows = 4"
    "or_default ''desc'' (rp_Order demo_rank) = ''desc''" "rp_Field demo_rank = ''pe''"
    by (simp_all add: demo_rank_def demo_rows_def or_default_def positive_or_def)
  with rank_Run_top [OF prem] show ?thesis by (simp only: min_def) auto
qed

text \<open>A dedupe node fed with a list returns, in order, exactly the maps whose key is empty or
  appears for the first time, and the number of them; elements that are no maps are dropped.
  Running the node again on what it returned changes nothing.\<close>

theorem dedupe_Run_firsts:
  assumes "decode_params ''dedupe'' unmarshal [] ins = Inr key" "findFirstSlice ins = Some items"
    and "out = nths items {i. kept_at (or_default ''stock_code'' key) items i}"
  shows "dedupe_Run unmarshal ins = Inr [(''items'', VArr out), (''count'', VInt (int (length out)))]
    \<and> (decode_params ''dedupe'' unmarshal [] ins' = Inr key \<and> findFirstSlice ins' = Some out
         \<longrightarrow> dedupe_Run unmarshal ins' = dedupe_Run unmarshal ins)"
  using assms firsts.sel_again [of items "or_default ''stock_code'' key"]
  by (simp add: dedupe_Run_def counted_def dedupe_loop_eq [symmetric])

theorem dedupe_Run_firsts_witness:
  "dedupe_Run (\<lambda>_. Inr []) demo_ins =
     Inr [(''items'', VArr [demo_rows ! 0, demo_rows ! 2]), (''count'', VInt 2)]
   \<and> dedupe_Run (\<lambda>_. Inr []) [(''n'', VMap [(''items'', VArr [demo_rows ! 0, demo_rows ! 2])])] =
     dedupe_Run (\<lambda>_. Inr []) demo_ins"
proof -
  have out: "[demo_rows ! 0, demo_rows ! 2] = nths demo_rows {i. kept_at (or_default ''stock_code'' []) demo_rows i}"
    by (simp add: dedupe_loop_eq [symmetric] demo_rows_def or_default_def row_key_def lookupField_plain Let_def)
  show ?thesis
    using dedupe_Run_firsts [OF _ _ out, of "\<lambda>_. Inr []" demo_ins
        "[(''n'', VMap [(''items'', VArr [demo_rows ! 0, demo_rows ! 2])])]"]
    by (simp add: decode_params_def demo_ins_def reserved_keys_def)
qed

end
