(* ===== verification/Indicators.thy ===== *)
theory Indicators
  imports F64_Order
begin

text \<open>
  The technical indicators of \<open>executor/nodes/indicators\<close>, over binary64 series.  A series is a
  list; a function returns series of the same length with NaN where there is not enough history.
  Products and sums are rounded one by one: fused multiply-add, which Go allows on some
  architectures, is not used on amd64.
\<close>

section \<open>Helpers\<close>

abbreviation f_int :: "int \<Rightarrow> f64" where
  "f_int n \<equiv> f_of_int n"

text \<open>The integer square root, and \<open>math.Sqrt\<close>: round to nearest on the square root of a
  rational.  A binary64 has no square root half-way between two of them.\<close>

function isqrt_search :: "int \<Rightarrow> int \<Rightarrow> int \<Rightarrow> int" where
  "isqrt_search n lo hi =
     (if hi - lo \<le> 1 then lo
      else let mid = (lo + hi) div 2
           in if mid * mid \<le> n then isqrt_search n mid hi else isqrt_search n lo mid)"
  by auto
termination
  by (relation "measure (\<lambda>(n, lo, hi). nat (hi - lo))") auto

definition isqrt :: "int \<Rightarrow> int" where
  "isqrt n = isqrt_search n 0 (n + 1)"

definition f_sqrt :: "f64 \<Rightarrow> f64" where
  "f_sqrt x =
     (case x of
        NaN \<Rightarrow> NaN
      | Inf neg \<Rightarrow> if neg then NaN else Inf False
      | NegZero \<Rightarrow> NegZero
      | Fin q \<Rightarrow>
          if q = 0 then Fin 0 else if q < 0 then NaN
          else let e = ilog2 q div 2 - 52;
                   s = q / (2 powi (2 * e));
                   m = isqrt \<lfloor>s\<rfloor>
               in Fin (of_int (if s \<le> (of_int m + 1 / 2) ^ 2 then m else m + 1) * 2 powi e))"

definition sum_f :: "f64 list \<Rightarrow> f64" where
  "sum_f xs = fold (\<lambda>v s. f_add s v) xs (Fin 0)"

section \<open>Moving averages\<close>

fun ma_loop :: "f64 list \<Rightarrow> nat \<Rightarrow> f64 \<Rightarrow> nat list \<Rightarrow> f64 list" where
  "ma_loop values n s [] = []"
| "ma_loop values n s (i # is) =
     (let s' = f_add s (f_sub (values ! i) (values ! (i - n)))
      in f_div s' (f_int (int n)) # ma_loop values n s' is)"

definition MA :: "f64 list \<Rightarrow> int \<Rightarrow> f64 list" where
  "MA values period =
     (if period \<le> 0 \<or> int (length values) < period then replicate (length values) NaN
      else let n = nat period; s = sum_f (take n values)
           in replicate (n - 1) NaN @ f_div s (f_int period) # ma_loop values n s [n..<length values])"

fun ema_loop :: "f64 \<Rightarrow> f64 \<Rightarrow> f64 list \<Rightarrow> f64 list" where
  "ema_loop k ema [] = []"
| "ema_loop k ema (v # vs) =
     (let ema' = f_add (f_mul v k) (f_mul ema (f_sub (f_int 1) k)) in ema' # ema_loop k ema' vs)"

definition EMA :: "f64 list \<Rightarrow> int \<Rightarrow> f64 list" where
  "EMA values period =
     (if period \<le> 0 \<or> int (length values) < period then replicate (length values) NaN
      else let n = nat period;
               k = f_div (f_int 2) (f_int (period + 1));
               ema = f_div (sum_f (take n values)) (f_int period)
           in replicate (n - 1) NaN @ ema # ema_loop k ema (drop n values))"

definition SMA :: "f64 list \<Rightarrow> int \<Rightarrow> f64 list" where
  "SMA values period = MA values period"

section \<open>MACD\<close>

definition both_finite :: "f64 \<Rightarrow> f64 \<Rightarrow> f64" where
  "both_finite x y = (if f_finite x \<and> f_finite y then f_sub x y else NaN)"

definition MACD :: "f64 list \<Rightarrow> int \<Rightarrow> int \<Rightarrow> int \<Rightarrow> f64 list \<times> f64 list \<times> f64 list" where
  "MACD values fast0 slow0 signal0 =
     (let fast = positive_or 12 fast0; slow = positive_or 26 slow0; signal = positive_or 9 signal0;
          L = length values; blank = replicate L NaN
      in if int L < slow then (blank, blank, blank)
         else let emaFast = EMA values fast; emaSlow = EMA values slow; w = nat slow - 1;
                  dif = replicate w NaN @ map (\<lambda>i. both_finite (emaFast ! i) (emaSlow ! i)) [w..<L];
                  dea = replicate w NaN @ EMA (drop w dif) signal;
                  hist = map (\<lambda>i. both_finite (dif ! i) (dea ! i)) [0..<L]
              in (dif, dea, hist))"

section \<open>KDJ\<close>

text \<open>The extremes of the window that ends at \<open>i\<close>.\<close>

definition window_high :: "f64 list \<Rightarrow> nat \<Rightarrow> nat \<Rightarrow> f64" where
  "window_high high n i =
     fold (\<lambda>j hh. if f_lt hh (high ! j) then high ! j else hh) [i + 2 - n..<Suc i] (high ! (i + 1 - n))"

definition window_low :: "f64 list \<Rightarrow> nat \<Rightarrow> nat \<Rightarrow> f64" where
  "window_low low n i =
     fold (\<lambda>j ll. if f_lt (low ! j) ll then low ! j else ll) [i + 2 - n..<Suc i] (low ! (i + 1 - n))"

definition rsv_at :: "f64 list \<Rightarrow> f64 list \<Rightarrow> f64 list \<Rightarrow> nat \<Rightarrow> nat \<Rightarrow> f64" where
  "rsv_at high low cls n i =
     (let hh = window_high high n i; ll = window_low low n i
      in if f_eq hh ll then f_int 50
         else f_mul (f_div (f_sub (cls ! i) ll) (f_sub hh ll)) (f_int 100))"

fun smooth_loop :: "f64 \<Rightarrow> f64 \<Rightarrow> f64 \<Rightarrow> f64 list \<Rightarrow> f64 list" where
  "smooth_loop w r prev [] = []"
| "smooth_loop w r prev (x # xs) =
     (let y = f_add (f_mul w prev) (f_mul r x) in y # smooth_loop w r y xs)"

text \<open>\<open>high\<close>, \<open>low\<close> and \<open>cls\<close> have the same length.\<close>

definition KDJ ::
  "f64 list \<Rightarrow> f64 list \<Rightarrow> f64 list \<Rightarrow> int \<Rightarrow> int \<Rightarrow> int \<Rightarrow> f64 list \<times> f64 list \<times> f64 list" where
  "KDJ high low cls n0 m10 m20 =
     (let n = positive_or 9 n0; m1 = positive_or 3 m10; m2 = positive_or 3 m20;
          L = length cls; blank = replicate L NaN
      in if int L < n then (blank, blank, blank)
         else let w = nat n; pre = replicate (w - 1) NaN;
                  rsv = map (rsv_at high low cls w) [w..<L];
                  kw = f_div (f_int (m1 - 1)) (f_int m1); kr = f_div (f_int 1) (f_int m1);
                  dw = f_div (f_int (m2 - 1)) (f_int m2); dr = f_div (f_int 1) (f_int m2);
                  k = smooth_loop kw kr (f_int 50) rsv;
                  d = smooth_loop dw dr (f_int 50) k;
                  j = map2 (\<lambda>k d. f_sub (f_mul (f_int 3) k) (f_mul (f_int 2) d))
                        (f_int 50 # k) (f_int 50 # d)
              in (pre @ f_int 50 # k, pre @ f_int 50 # d, pre @ j))"

section \<open>Bollinger bands\<close>

definition window_sigma :: "f64 list \<Rightarrow> nat \<Rightarrow> nat \<Rightarrow> f64 \<Rightarrow> f64" where
  "window_sigma values n i mean =
     f_sqrt (f_div
       (fold (\<lambda>j sq. let d = f_sub (values ! j) mean in f_add sq (f_mul d d)) [i + 1 - n..<Suc i] (Fin 0))
       (f_int (int n)))"

definition BOLL :: "f64 list \<Rightarrow> int \<Rightarrow> f64 \<Rightarrow> f64 list \<times> f64 list \<times> f64 list" where
  "BOLL values n0 k0 =
     (let n = positive_or 20 n0; k = (if f_le k0 (Fin 0) then f_int 2 else k0);
          L = length values; blank = replicate L NaN
      in if int L < n then (blank, blank, blank)
         else let w = nat n; mid = MA values n;
                  band = (\<lambda>f. replicate (w - 1) NaN @
                    map (\<lambda>i. if f_finite (mid ! i)
                              then f (mid ! i) (f_mul k (window_sigma values w i (mid ! i))) else NaN)
                      [w - 1..<L])
              in (mid, band f_add, band f_sub))"

section \<open>Volume\<close>

definition VolumeRatio :: "f64 list \<Rightarrow> int \<Rightarrow> f64 list" where
  "VolumeRatio volumes n0 =
     (let n = nat (positive_or 5 n0); L = length volumes
      in map (\<lambda>i. if i < n then NaN
                   else let avg = f_div (sum_f (map ((!) volumes) [i - n..<i])) (f_int (int n))
                        in if f_eq avg (Fin 0) then NaN else f_div (volumes ! i) avg) [0..<L])"

definition TurnoverRate :: "f64 list \<Rightarrow> f64 list \<Rightarrow> f64 list" where
  "TurnoverRate volumes floatShares =
     (if length floatShares \<noteq> length volumes then replicate (length volumes) NaN
      else map2 (\<lambda>v fs. if f_le fs (Fin 0) then NaN else f_div v fs) volumes floatShares)"

text \<open>The latest finite value of a series, or zero.\<close>

definition lastFinite :: "f64 list \<Rightarrow> f64" where
  "lastFinite s = (case find f_finite (rev s) of None \<Rightarrow> Fin 0 | Some v \<Rightarrow> v)"

section \<open>Lengths\<close>

lemma length_ma_loop [simp]: "length (ma_loop values n s is) = length is"
  by (induction "is" arbitrary: s) (simp_all add: Let_def)

lemma length_ema_loop [simp]: "length (ema_loop k e vs) = length vs"
  by (induction vs arbitrary: e) (simp_all add: Let_def)

lemma length_smooth_loop [simp]: "length (smooth_loop w r p xs) = length xs"
  by (induction xs arbitrary: p) (simp_all add: Let_def)

lemma length_MA [simp]: "length (MA values period) = length values"
  by (auto simp: MA_def Let_def)

lemma length_EMA [simp]: "length (EMA values period) = length values"
  by (auto simp: EMA_def Let_def)

section \<open>Sums of integers are exact\<close>

text \<open>The range in which binary64 counts without rounding.\<close>

abbreviation exact_range :: "int \<Rightarrow> bool" where
  "exact_range n \<equiv> \<bar>n\<bar> \<le> 2 ^ 53"

lemma f_int_fin: "exact_range n \<Longrightarrow> f_int n = Fin (of_int n)"
  by (rule f_of_int_exact)

lemma f_round_int: "exact_range n \<Longrightarrow> f_round neg (of_int n) = (if n = 0 then f_zero neg else Fin (of_int n))"
  using f_of_int_exact [of n] by (auto simp: f_of_int_def f_round_0) (simp add: f_round_def Let_def split: if_splits)

lemma f_add_int:
  assumes "exact_range a" "exact_range b" "exact_range (a + b)"
  shows "f_add (f_int a) (f_int b) = f_int (a + b)"
proof -
  have "f_add (f_int a) (f_int b) = f_round False (of_int a + of_int b)"
    using assms by (simp add: f_int_fin f_add_def)
  also have "\<dots> = f_int (a + b)" by (simp add: f_of_int_def)
  finally show ?thesis .
qed

lemma f_sub_int:
  assumes "exact_range a" "exact_range b" "exact_range (a - b)"
  shows "f_sub (f_int a) (f_int b) = f_int (a - b)"
proof -
  have "f_add (f_int a) (f_neg (f_int b)) = f_round False (of_int a - of_int b)"
    using assms by (cases "b = 0") (auto simp: f_int_fin f_add_def)
  also have "\<dots> = f_int (a - b)" by (simp add: f_of_int_def)
  finally show ?thesis by (simp add: f_sub_def)
qed

text \<open>The sum of the window of \<open>n\<close> values that ends at \<open>j\<close>.\<close>

definition window_sum :: "int list \<Rightarrow> nat \<Rightarrow> nat \<Rightarrow> int" where
  "window_sum ns n j = (\<Sum>t\<in>{j + 1 - n..<j + 1}. ns ! t)"

lemma window_sum_step:
  assumes "0 < n" "n \<le> j"
  shows "window_sum ns n j = window_sum ns n (j - 1) + (ns ! j - ns ! (j - n))"
proof -
  have "{j + 1 - n..<j + 1} = insert j {j + 1 - n..<j}" using assms by auto
  moreover have "{j - 1 + 1 - n..<j - 1 + 1} = insert (j - n) {j + 1 - n..<j}" using assms by auto
  moreover have "sum ((!) ns) (insert (j - n) {j + 1 - n..<j}) = ns ! (j - n) + sum ((!) ns) {j + 1 - n..<j}"
    "sum ((!) ns) (insert j {j + 1 - n..<j}) = ns ! j + sum ((!) ns) {j + 1 - n..<j}"
    using assms by (intro sum.insert; auto)+
  ultimately show ?thesis unfolding window_sum_def by (simp only:)
qed

lemma window_sum_bound:
  assumes "\<forall>x\<in>set ns. \<bar>x\<bar> * int (length ns) \<le> 2 ^ 52" "n \<le> length ns" "j < length ns"
  shows "\<bar>window_sum ns n j\<bar> \<le> 2 ^ 52"
proof -
  have pos: "0 < int (length ns)" using assms(3) by auto
  have "\<bar>window_sum ns n j\<bar> \<le> (\<Sum>t\<in>{j + 1 - n..<j + 1}. \<bar>ns ! t\<bar>)"
    unfolding window_sum_def by (rule sum_abs)
  then have "\<bar>window_sum ns n j\<bar> * int (length ns) \<le> (\<Sum>t\<in>{j + 1 - n..<j + 1}. \<bar>ns ! t\<bar>) * int (length ns)"
    using pos by (simp add: mult_right_mono)
  also have "\<dots> = (\<Sum>t\<in>{j + 1 - n..<j + 1}. \<bar>ns ! t\<bar> * int (length ns))"
    by (rule sum_distrib_right)
  also have "\<dots> \<le> of_nat (card {j + 1 - n..<j + 1}) * 2 ^ 52"
    by (rule sum_bounded_above) (use assms in auto)
  also have "\<dots> \<le> int (length ns) * 2 ^ 52"
    using assms(2,3) by (intro mult_right_mono) auto
  finally show ?thesis using pos by (simp add: mult.commute)
qed

lemma value_bound:
  assumes "\<forall>x\<in>set ns. \<bar>x\<bar> * int (length ns) \<le> 2 ^ 52" "t < length ns"
  shows "\<bar>ns ! t\<bar> \<le> 2 ^ 52"
proof -
  have "\<bar>ns ! t\<bar> * 1 \<le> \<bar>ns ! t\<bar> * int (length ns)" using assms(2) by (intro mult_left_mono) auto
  also have "\<dots> \<le> 2 ^ 52" using assms by simp
  finally show ?thesis by simp
qed

lemma exact_range_half:
  assumes "\<bar>a\<bar> \<le> 2 ^ 52"
  shows "exact_range a" and "\<bar>b\<bar> \<le> 2 ^ 52 \<Longrightarrow> exact_range (a - b)"
proof -
  have "(2 :: int) ^ 53 = 2 ^ 52 + 2 ^ 52" by simp
  then show "exact_range a" "\<bar>b\<bar> \<le> 2 ^ 52 \<Longrightarrow> exact_range (a - b)"
    using assms abs_triangle_ineq4 [of a b] by linarith+
qed

lemma ma_loop_exact:
  assumes ok: "\<forall>x\<in>set ns. \<bar>x\<bar> * int (length ns) \<le> 2 ^ 52" and n: "0 < n" "n \<le> i" "n \<le> length ns"
  shows "ma_loop (map f_int ns) n (f_int (window_sum ns n (i - 1))) [i..<length ns]
    = map (\<lambda>j. f_div (f_int (window_sum ns n j)) (f_int (int n))) [i..<length ns]"
  using n(2)
proof (induction "length ns - i" arbitrary: i)
  case (Suc d)
  then have i: "i < length ns" by simp
  then have up: "[i..<length ns] = i # [Suc i..<length ns]" by (rule upt_conv_Cons)
  have lt: "i - n < length ns" using i by simp
  have b: "\<bar>ns ! i\<bar> \<le> 2 ^ 52" "\<bar>ns ! (i - n)\<bar> \<le> 2 ^ 52"
    "\<bar>window_sum ns n (i - 1)\<bar> \<le> 2 ^ 52" "\<bar>window_sum ns n i\<bar> \<le> 2 ^ 52"
    using value_bound [OF ok] window_sum_bound [OF ok n(3)] i by simp_all
  have "f_add (f_int (window_sum ns n (i - 1))) (f_sub (map f_int ns ! i) (map f_int ns ! (i - n)))
      = f_int (window_sum ns n i)"
  proof -
    have "f_sub (f_int (ns ! i)) (f_int (ns ! (i - n))) = f_int (ns ! i - ns ! (i - n))"
      by (intro f_sub_int exact_range_half b)
    moreover have "f_add (f_int (window_sum ns n (i - 1))) (f_int (ns ! i - ns ! (i - n)))
        = f_int (window_sum ns n (i - 1) + (ns ! i - ns ! (i - n)))"
      by (intro f_add_int) (use b exact_range_half window_sum_step [OF n(1) Suc.prems, of ns] in \<open>simp_all only:\<close>)
    ultimately show ?thesis using i lt window_sum_step [OF n(1) Suc.prems, of ns] by simp
  qed
  then show ?case using Suc.hyps(1) [of "Suc i"] Suc.hyps(2) Suc.prems by (simp add: up Let_def)
qed simp

lemma sum_f_exact:
  assumes ok: "\<forall>x\<in>set ns. \<bar>x\<bar> * int (length ns) \<le> 2 ^ 52" and "n \<le> length ns"
  shows "sum_f (take n (map f_int ns)) = f_int (window_sum ns n (n - 1))"
  using assms(2)
proof (induction n)
  case 0
  then show ?case by (simp add: sum_f_def window_sum_def f_of_int_exact)
next
  case (Suc n)
  have w: "window_sum ns (Suc n) (Suc n - 1) = window_sum ns n (n - 1) + ns ! n"
  proof (cases n)
    case 0
    then show ?thesis by (simp add: window_sum_def)
  next
    case (Suc m)
    then show ?thesis by (simp add: window_sum_def)
  qed
  have b: "\<bar>ns ! n\<bar> \<le> 2 ^ 52" "\<bar>window_sum ns n (n - 1)\<bar> \<le> 2 ^ 52"
    "\<bar>window_sum ns (Suc n) (Suc n - 1)\<bar> \<le> 2 ^ 52"
    using value_bound [OF ok] window_sum_bound [OF ok] Suc.prems by simp_all
  have "sum_f (take (Suc n) (map f_int ns)) = f_add (sum_f (take n (map f_int ns))) (f_int (ns ! n))"
    using Suc.prems by (simp add: sum_f_def take_Suc_conv_app_nth)
  also have "\<dots> = f_int (window_sum ns (Suc n) (Suc n - 1))"
    using Suc b w by (simp add: f_add_int)
  finally show ?case .
qed

text \<open>On a series of integers small enough for their sums to stay below \<open>2 ^ 53\<close>, the running sum of
  \<open>MA\<close> loses nothing: every entry from the \<open>period\<close>-th on is the rounded quotient of the exact sum
  of its own window by the period, as if each window had been summed afresh, and the entries
  before are NaN.\<close>

theorem MA_is_window_mean:
  assumes "\<forall>x\<in>set ns. \<bar>x\<bar> * int (length ns) \<le> 2 ^ 52" "0 < period" "period \<le> int (length ns)"
    and "i < length ns"
  shows "MA (map f_of_int ns) period ! i =
     (if int i < period - 1 then NaN
      else f_div (f_of_int (\<Sum>t\<in>{i + 1 - nat period..<i + 1}. ns ! t)) (f_of_int period))"
proof -
  define n where "n = nat period"
  have n: "0 < n" "n \<le> length ns" "int n = period" using assms(2,3) by (auto simp: n_def)
  have "MA (map f_int ns) period = replicate (n - 1) NaN
      @ f_div (f_int (window_sum ns n (n - 1))) (f_int period)
      # map (\<lambda>j. f_div (f_int (window_sum ns n j)) (f_int period)) [n..<length ns]"
    using assms(2,3) ma_loop_exact [OF assms(1) n(1) order_refl n(2)] sum_f_exact [OF assms(1) n(2)] n
    by (simp add: MA_def Let_def n_def [symmetric])
  also have "\<dots> = replicate (n - 1) NaN
      @ map (\<lambda>j. f_div (f_int (window_sum ns n j)) (f_int period)) [n - 1..<length ns]"
  proof -
    have "[n - 1..<length ns] = (n - 1) # [n..<length ns]" using n by (simp add: upt_conv_Cons)
    then show ?thesis by simp
  qed
  finally have MA: "MA (map f_int ns) period = replicate (n - 1) NaN
      @ map (\<lambda>j. f_div (f_int (window_sum ns n j)) (f_int period)) [n - 1..<length ns]" .
  have "MA (map f_int ns) period ! i = (if i < n - 1 then NaN
      else f_div (f_int (window_sum ns n i)) (f_int period))"
  proof (cases "i < n - 1")
    case False
    then have "[n - 1..<length ns] ! (i - (n - 1)) = i" using assms(4) n by (subst nth_upt) auto
    with False show ?thesis using assms(4) n by (simp add: MA nth_append)
  qed (simp add: MA nth_append)
  moreover have "i < n - 1 \<longleftrightarrow> int i < period - 1" using n by auto
  ultimately show ?thesis by (simp add: window_sum_def n_def)
qed

theorem MA_is_window_mean_witness:
  "MA (map f_of_int [3, 4, 8]) 2 ! 2 = f_div (f_of_int 12) (f_of_int 2) \<and> MA (map f_of_int [3, 4, 8]) 2 ! 0 = NaN"
proof -
  have w: "{2 + 1 - nat 2..<2 + 1 :: nat} = {1, 2}" by auto
  show ?thesis
    using MA_is_window_mean [of "[3, 4, 8]" 2 2] MA_is_window_mean [of "[3, 4, 8]" 2 0]
    unfolding w by simp
qed

end
