(* ===== verification/Node_Indicator.thy ===== *)
theory Node_Indicator
  imports Node_Select Indicators
begin

text \<open>
  The indicator node, \<open>executor/nodes/indicator.go\<close>: it finds the K-lines among its inputs,
  groups them by stock and emits one row per stock with the latest value of each indicator.
\<close>

section \<open>Finding the bars\<close>

definition floatOf :: "val \<Rightarrow> f64" where
  "floatOf v = toFloat v"

text \<open>\<open>int64(x)\<close> of a \<open>float64\<close>: truncation; out of range, what amd64 gives.\<close>

definition int64_of :: "f64 \<Rightarrow> int" where
  "int64_of x =
     (let q = f_val x; n = (if q < 0 then - \<lfloor>- q\<rfloor> else \<lfloor>q\<rfloor>)
      in if f_finite x \<and> - (2 ^ 63) \<le> n \<and> n < 2 ^ 63 then n else - (2 ^ 63))"

text \<open>The zero \<open>time.Time\<close>, January 1 of year 1.\<close>

definition zero_wall_time :: wall_time where
  "zero_wall_time = \<lparr>wt_instant = - 62135596800 * nano_second, wt_loc = 0\<rparr>"

definition get_any :: "payload \<Rightarrow> string \<Rightarrow> val" where
  "get_any m k = (case map_of m k of None \<Rightarrow> VNil | Some v \<Rightarrow> v)"

definition bar_of_row :: "payload \<Rightarrow> kline" where
  "bar_of_row km =
     \<lparr>k_StockCode = stringOf (get_any km ''stock_code''), k_Period = stringOf (get_any km ''period''),
      k_Timestamp = zero_wall_time, k_Open = floatOf (get_any km ''open''),
      k_High = floatOf (get_any km ''high''), k_Low = floatOf (get_any km ''low''),
      k_Close = floatOf (get_any km ''close''), k_Volume = int64_of (floatOf (get_any km ''volume'')),
      k_Amount = f_zero False, k_Source = []\<rparr>"

fun extractKLines :: "payload \<Rightarrow> kline list" where
  "extractKLines [] = []"
| "extractKLines ((k, v) # ins) =
     (case as_map v of
        None \<Rightarrow> extractKLines ins
      | Some m \<Rightarrow>
          (case map_of m ''klines'' of
             Some (VBars ks) \<Rightarrow> ks
           | Some (VArr es) \<Rightarrow> map bar_of_row (List.map_filter as_map es)
           | _ \<Rightarrow> extractKLines ins))"

section \<open>Grouping by stock\<close>

record stock_group =
  sg_code :: string
  sg_name :: string
  sg_bars :: "kline list"

text \<open>\<open>idx\<close> maps a stock code to the position of its group.\<close>

fun group_loop ::
  "kline list \<Rightarrow> (string \<Rightarrow> nat option) \<Rightarrow> stock_group list \<Rightarrow> stock_group list" where
  "group_loop [] idx gs = gs"
| "group_loop (k # ks) idx gs =
     (case idx (k_StockCode k) of
        None \<Rightarrow>
          group_loop ks (idx(k_StockCode k \<mapsto> length gs))
            (gs @ [\<lparr>sg_code = k_StockCode k, sg_name = [], sg_bars = [k]\<rparr>])
      | Some i \<Rightarrow> group_loop ks idx (gs[i := (gs ! i)\<lparr>sg_bars := sg_bars (gs ! i) @ [k]\<rparr>]))"

definition bar_before :: "kline \<Rightarrow> kline \<Rightarrow> bool" where
  "bar_before a b \<longleftrightarrow> wt_instant (k_Timestamp a) < wt_instant (k_Timestamp b)"

definition bar_time :: "kline \<Rightarrow> instant" where
  "bar_time k = wt_instant (k_Timestamp k)"

definition groupByStock :: "kline list \<Rightarrow> stock_group list" where
  "groupByStock kls =
     map (\<lambda>g. g\<lparr>sg_bars := slice_stable bar_before (sg_bars g)\<rparr>) (group_loop kls Map.empty [])"

section \<open>The node\<close>

record indicator_params =
  ip_Subtype :: string
  ip_Period :: int
  ip_Fast :: int
  ip_Slow :: int
  ip_Signal :: int
  ip_N :: int
  ip_M1 :: int
  ip_M2 :: int
  ip_KStdDev :: f64

definition zero_indicator_params :: indicator_params where
  "zero_indicator_params =
     \<lparr>ip_Subtype = [], ip_Period = 0, ip_Fast = 0, ip_Slow = 0, ip_Signal = 0, ip_N = 0, ip_M1 = 0,
      ip_M2 = 0, ip_KStdDev = f_zero False\<rparr>"

definition known_subtypes :: "string list" where
  "known_subtypes = [''ma'', ''ema'', ''macd'', ''kdj'', ''boll'', ''volume_ratio'']"

definition latest3 :: "string \<Rightarrow> string \<Rightarrow> string \<Rightarrow> f64 list \<times> f64 list \<times> f64 list \<Rightarrow> payload" where
  "latest3 a b c s =
     (case s of (x, y, z) \<Rightarrow> [(a, VNum (lastFinite x)), (b, VNum (lastFinite y)), (c, VNum (lastFinite z))])"

text \<open>The entries the subtype adds to a row.\<close>

definition indicator_fields :: "indicator_params \<Rightarrow> kline list \<Rightarrow> payload" where
  "indicator_fields p bars =
     (let closes = map k_Close bars; highs = map k_High bars; lows = map k_Low bars;
          vols = map (f_of_int \<circ> k_Volume) bars; st = ip_Subtype p
      in if st = ''ma'' then [(''ma'', VNum (lastFinite (MA closes (positive_or 5 (ip_Period p)))))]
         else if st = ''ema'' then [(''ema'', VNum (lastFinite (EMA closes (positive_or 12 (ip_Period p)))))]
         else if st = ''macd''
         then latest3 ''macd_dif'' ''macd_dea'' ''macd_hist'' (MACD closes (ip_Fast p) (ip_Slow p) (ip_Signal p))
         else if st = ''kdj''
         then latest3 ''kdj_k'' ''kdj_d'' ''kdj_j'' (KDJ highs lows closes (ip_N p) (ip_M1 p) (ip_M2 p))
         else if st = ''boll''
         then latest3 ''boll_mid'' ''boll_upper'' ''boll_lower'' (BOLL closes (ip_Period p) (ip_KStdDev p))
         else if st = ''volume_ratio''
         then [(''volume_ratio'', VNum (lastFinite (VolumeRatio vols (ip_Period p))))]
         else [])"

definition indicator_row :: "indicator_params \<Rightarrow> stock_group \<Rightarrow> payload" where
  "indicator_row p g =
     [(''stock_code'', VStr (sg_code g)), (''close'', VNum (lastFinite (map k_Close (sg_bars g))))]
       @ (if sg_name g \<noteq> [] then [(''stock_name'', VStr (sg_name g))] else [])
       @ indicator_fields p (sg_bars g)"

definition turnover_message :: string where
  "turnover_message =
     ''turnover_rate '' @ bytes [230, 154, 130, 228, 184, 141, 229, 143, 175, 231, 148, 168, 239,
     188, 154, 230, 181, 129, 233, 128, 154, 232, 130, 161, 230, 156, 172, 230, 149, 176, 230, 141,
     174, 230, 186, 144, 230, 156, 170, 230, 142, 165, 229, 133, 165, 239, 188, 136, 230, 173, 164,
     229, 137, 141, 230, 129, 146, 232, 190, 147, 229, 135, 186] @ '' 0'' @ bytes [239, 188, 140,
     228, 188, 154, 230, 177, 161, 230, 159, 147, 231, 173, 155, 233, 128, 137, 231, 187, 147, 230,
     158, 156, 239, 188, 137, 239, 188, 155, 232, 175, 183, 230, 148, 185, 231, 148, 168] 
     @ '' volume_ratio '' @ bytes [230, 136, 150, 231, 173, 137, 229, 190, 133, 230, 149, 176, 230, 141,
     174, 230, 186, 144, 230, 142, 165, 229, 133, 165]"

definition indicator_Run :: "(string \<Rightarrow> string + indicator_params) \<Rightarrow> payload \<Rightarrow> node_out" where
  "indicator_Run unmarshal ins =
     (case decode_params ''indicator'' unmarshal zero_indicator_params ins of
        Inl e \<Rightarrow> Inl e
      | Inr p \<Rightarrow>
          if ip_Subtype p = [] then Inl (ParamError ''indicator'' ''subtype'' ''is required'')
          else if extractKLines ins = []
          then Inl (ParamError ''indicator'' ''klines'' ''no kline series found in input'')
          else if ip_Subtype p \<notin> set known_subtypes
          then Inl (ParamError ''indicator'' ''subtype'' (''unknown: '' @ ip_Subtype p))
          else if ip_Subtype p = ''turnover_rate''
          then Inl (ParamError ''indicator'' ''subtype'' turnover_message)
          else
            let items = map (\<lambda>g. VMap (indicator_row p g)) (groupByStock (extractKLines ins))
            in Inr [(''subtype'', VStr (ip_Subtype p)), (''count'', VInt (int (length items))),
                    (''items'', VArr items)])"

section \<open>The groups\<close>

text \<open>The elements of a list at their first occurrence.\<close>

definition first_occs :: "'a list \<Rightarrow> 'a list" where
  "first_occs xs = rev (remdups (rev xs))"

lemma first_occs_snoc: "first_occs (xs @ [x]) = (if x \<in> set xs then first_occs xs else first_occs xs @ [x])"
  by (simp add: first_occs_def)

lemma first_occs_props [simp]: "set (first_occs xs) = set xs" "distinct (first_occs xs)"
  by (simp_all add: first_occs_def)

definition bars_of :: "kline list \<Rightarrow> string \<Rightarrow> stock_group" where
  "bars_of ks c = \<lparr>sg_code = c, sg_name = [], sg_bars = filter (\<lambda>k. k_StockCode k = c) ks\<rparr>"

lemma group_loop_eq:
  assumes "gs = map (bars_of pre) (first_occs (map k_StockCode pre))"
    and "\<And>c i. idx c = Some i \<longleftrightarrow> i < length gs \<and> first_occs (map k_StockCode pre) ! i = c"
  shows "group_loop ks idx gs = map (bars_of (pre @ ks)) (first_occs (map k_StockCode (pre @ ks)))"
  using assms
proof (induction ks arbitrary: pre idx gs)
  case (Cons k ks)
  define codes where "codes = first_occs (map k_StockCode pre)"
  have gs: "gs = map (bars_of pre) codes" "length gs = length codes" "distinct codes"
    using Cons.prems(1) by (simp_all add: codes_def)
  have other: "bars_of (pre @ [k]) c = bars_of pre c" if "c \<noteq> k_StockCode k" for c
    using that by (simp add: bars_of_def)
  show ?case
  proof (cases "idx (k_StockCode k)")
    case None
    then have new: "k_StockCode k \<notin> set codes"
      using Cons.prems(2) gs(2) by (metis codes_def in_set_conv_nth option.distinct(1))
    have snoc: "first_occs (map k_StockCode (pre @ [k])) = codes @ [k_StockCode k]"
      using new by (simp add: first_occs_snoc codes_def)
    have "gs @ [\<lparr>sg_code = k_StockCode k, sg_name = [], sg_bars = [k]\<rparr>] =
        map (bars_of (pre @ [k])) (codes @ [k_StockCode k])"
      using new other by (auto simp: gs(1) bars_of_def codes_def filter_empty_conv image_iff)
    moreover have "(idx(k_StockCode k \<mapsto> length gs)) c = Some i \<longleftrightarrow>
        i < Suc (length gs) \<and> (codes @ [k_StockCode k]) ! i = c" for c i
      using Cons.prems(2) new gs(2) nth_mem [of i codes]
      by (cases "c = k_StockCode k") (auto simp: codes_def nth_append less_Suc_eq)
    ultimately have "group_loop ks (idx(k_StockCode k \<mapsto> length gs))
        (gs @ [\<lparr>sg_code = k_StockCode k, sg_name = [], sg_bars = [k]\<rparr>]) =
        map (bars_of ((pre @ [k]) @ ks)) (first_occs (map k_StockCode ((pre @ [k]) @ ks)))"
      by (intro Cons.IH) (simp_all add: snoc [simplified])
    then show ?thesis using None by simp
  next
    case (Some i)
    then have i: "i < length codes" "codes ! i = k_StockCode k"
      using Cons.prems(2) gs(2) by (simp_all add: codes_def)
    have same: "first_occs (map k_StockCode (pre @ [k])) = codes"
      using i nth_mem [of i codes] by (simp add: first_occs_snoc codes_def)
    have "gs[i := (gs ! i)\<lparr>sg_bars := sg_bars (gs ! i) @ [k]\<rparr>] = map (bars_of (pre @ [k])) codes"
    proof (rule nth_equalityI)
      fix j assume "j < length (gs[i := (gs ! i)\<lparr>sg_bars := sg_bars (gs ! i) @ [k]\<rparr>])"
      then have j: "j < length codes" using gs(2) by simp
      have "codes ! j = k_StockCode k \<longleftrightarrow> j = i"
        using i j gs(3) by (metis nth_eq_iff_index_eq)
      then show "gs[i := (gs ! i)\<lparr>sg_bars := sg_bars (gs ! i) @ [k]\<rparr>] ! j = map (bars_of (pre @ [k])) codes ! j"
        using i j gs other by (auto simp: bars_of_def nth_list_update)
    qed (simp add: gs(2))
    then have "group_loop ks idx (gs[i := (gs ! i)\<lparr>sg_bars := sg_bars (gs ! i) @ [k]\<rparr>]) =
        map (bars_of ((pre @ [k]) @ ks)) (first_occs (map k_StockCode ((pre @ [k]) @ ks)))"
      using Cons.prems(2) gs(2) by (intro Cons.IH) (simp_all add: same [simplified] codes_def)
    then show ?thesis using Some by simp
  qed
qed simp

interpretation bars: keyed_less bar_before bar_time UNIV
  by unfold_locales (simp add: bar_before_def bar_time_def)

lemma groupByStock_eq:
  "groupByStock kls =
     map (\<lambda>c. \<lparr>sg_code = c, sg_name = [], sg_bars = sort_key bar_time (filter (\<lambda>k. k_StockCode k = c) kls)\<rparr>)
       (first_occs (map k_StockCode kls))"
proof -
  have "group_loop kls Map.empty [] = map (bars_of ([] @ kls)) (first_occs (map k_StockCode ([] @ kls)))"
    by (rule group_loop_eq) (simp_all add: first_occs_def)
  then show ?thesis
    by (simp add: groupByStock_def bars_of_def bars.slice_stable_sort_key)
qed

lemma groupByStock_perm:
  assumes "mset kls = mset kls'" "\<forall>c. inj_on bar_time {k \<in> set kls. k_StockCode k = c}"
  shows "mset (groupByStock kls) = mset (groupByStock kls')"
proof -
  have sets: "set kls = set kls'" using assms(1) by (metis set_mset_mset)
  have "mset (first_occs (map k_StockCode kls)) = mset (first_occs (map k_StockCode kls'))"
    using sets by (simp add: set_eq_iff_mset_eq_distinct [symmetric])
  moreover have "sort_key bar_time (filter (\<lambda>k. k_StockCode k = c) kls)
      = sort_key bar_time (filter (\<lambda>k. k_StockCode k = c) kls')" for c
    by (rule sort_key_inj_key_eq) (use assms in \<open>simp_all add: mset_filter\<close>)
  ultimately show ?thesis by (simp add: groupByStock_eq)
qed

text \<open>C29: An indicator node of a known subtype, fed with at least one bar, returns one row per
  stock, in the order in which the stocks first appear; the row of a stock is computed from all
  its bars and no other's, in ascending order of time.  When no two bars of a stock have the same
  time, the rows do not depend on the order in which the bars arrive.\<close>

theorem indicator_Run_rows:
  assumes "decode_params ''indicator'' unmarshal zero_indicator_params ins = Inr p"
    and "ip_Subtype p \<in> set known_subtypes" "extractKLines ins = kls" "kls \<noteq> []"
    and "rows = (\<lambda>ks. map (\<lambda>c. VMap (indicator_row p
           \<lparr>sg_code = c, sg_name = [], sg_bars = sort_key bar_time (filter (\<lambda>k. k_StockCode k = c) ks)\<rparr>))
           (first_occs (map k_StockCode ks)))"
  shows "indicator_Run unmarshal ins =
           Inr [(''subtype'', VStr (ip_Subtype p)), (''count'', VInt (int (card (k_StockCode ` set kls)))),
                (''items'', VArr (rows kls))]
         \<and> (mset kls = mset kls' \<and> (\<forall>c. inj_on bar_time {k \<in> set kls. k_StockCode k = c})
              \<longrightarrow> mset (rows kls) = mset (rows kls'))"
proof
  have rows: "rows ks = map (\<lambda>g. VMap (indicator_row p g)) (groupByStock ks)" for ks
    by (simp add: assms(5) groupByStock_eq)
  have "length (rows kls) = card (k_StockCode ` set kls)"
    using distinct_card [of "first_occs (map k_StockCode kls)"] by (simp add: assms(5))
  then show "indicator_Run unmarshal ins =
      Inr [(''subtype'', VStr (ip_Subtype p)), (''count'', VInt (int (card (k_StockCode ` set kls)))),
           (''items'', VArr (rows kls))]"
    using assms(1-4) unfolding rows by (auto simp: indicator_Run_def known_subtypes_def Let_def)
  show "mset kls = mset kls' \<and> (\<forall>c. inj_on bar_time {k \<in> set kls. k_StockCode k = c})
      \<longrightarrow> mset (rows kls) = mset (rows kls')"
    using groupByStock_perm [of kls kls'] by (simp add: rows)
qed

definition demo_bar :: "string \<Rightarrow> instant \<Rightarrow> int \<Rightarrow> kline" where
  "demo_bar c t px =
     \<lparr>k_StockCode = c, k_Period = ''1d'', k_Timestamp = \<lparr>wt_instant = t, wt_loc = 0\<rparr>, k_Open = Fin 0, k_High = Fin 0,
      k_Low = Fin 0, k_Close = Fin (of_int px), k_Volume = 0, k_Amount = Fin 0, k_Source = []\<rparr>"

definition demo_ma :: indicator_params where
  "demo_ma = zero_indicator_params\<lparr>ip_Subtype := ''ma'', ip_Period := 1\<rparr>"

theorem indicator_Run_rows_witness:
  "indicator_Run (\<lambda>_. Inr demo_ma)
     [(''_params'', VBytes ''{}''), (''k'', VMap [(''klines'', VBars [demo_bar ''a'' 2 7, demo_bar ''b'' 1 9, demo_bar ''a'' 1 8])])] =
   Inr [(''subtype'', VStr ''ma''), (''count'', VInt 2),
        (''items'', VArr [VMap (indicator_row demo_ma \<lparr>sg_code = ''a'', sg_name = [], sg_bars = [demo_bar ''a'' 1 8, demo_bar ''a'' 2 7]\<rparr>),
                          VMap (indicator_row demo_ma \<lparr>sg_code = ''b'', sg_name = [], sg_bars = [demo_bar ''b'' 1 9]\<rparr>)])]"
  by (subst indicator_Run_rows [where p = demo_ma, THEN conjunct1, OF _ _ refl _ refl];
    simp add: decode_params_def demo_ma_def known_subtypes_def first_occs_def demo_bar_def bar_time_def insert_commute)

end
