(* ===== verification/Strategy_Service.thy ===== *)
theory Strategy_Service
  imports Dag_Json App_Error Row_Table Node_Indicator
begin

text \<open>
  Strategies and their versions, \<open>orchestrator/strategy_service.go\<close>.  Every method runs against the two
  tables; \<open>se_fail n\<close> is the error of the \<open>n\<close>-th statement of a call (begin and commit of a
  transaction included), a failed transaction leaves the tables as they were.
\<close>

section \<open>State\<close>

record strategy =
  st_Code :: string
  st_Name :: string
  st_Description :: string
  st_Status :: string
  st_Tags :: string
  st_CurrentVersion :: int
  st_DAGJson :: string
  st_CronExpression :: string

record version =
  ver_StrategyID :: nat
  ver_Version :: int
  ver_DAGJson :: string
  ver_ChangeNote :: string
  ver_SnapshotTakenAt :: instant

definition StrategyStatusDraft :: string where "StrategyStatusDraft = ''draft''"
definition StrategyStatusActive :: string where "StrategyStatusActive = ''active''"
definition StrategyStatusDisabled :: string where "StrategyStatusDisabled = ''disabled''"

lemmas status_defs = StrategyStatusDraft_def StrategyStatusActive_def StrategyStatusDisabled_def

text \<open>The tables: soft-deleted strategies are hidden from the queries, but their codes stay in the
  unique index.\<close>

record strategy_db =
  sd_strategies :: "strategy table"
  sd_deleted :: "strategy list"
  sd_versions :: "version list"

definition empty_strategies :: strategy_db where
  "empty_strategies = \<lparr>sd_strategies = empty_table, sd_deleted = [], sd_versions = []\<rparr>"

definition code_taken :: "string \<Rightarrow> strategy_db \<Rightarrow> bool" where
  "code_taken c db \<longleftrightarrow> c \<in> set (map (st_Code \<circ> snd) (tb_rows (sd_strategies db)) @ map st_Code (sd_deleted db))"

text \<open>What a call finds: the errors of its statements, the driver's text for a unique violation, the
  clock, the clock and random bytes of each
  \<open>generateCode\<close> by its prefix, the JSON library, the cron parser and how errors print.\<close>

record strat_env =
  se_fail :: "nat \<Rightarrow> string option"
  se_duplicate :: string
  se_now :: instant
  se_codes :: "string \<Rightarrow> int \<times> nat list"
  se_json :: json_lib
  se_indent :: "json \<Rightarrow> string"
  se_cron :: "string \<Rightarrow> string option"
  se_parse_text :: "parse_error \<Rightarrow> string"
  se_quote :: "string \<Rightarrow> string"

section \<open>Statements\<close>

definition insert_strategy ::
  "strat_env \<Rightarrow> nat \<Rightarrow> string \<Rightarrow> strategy \<Rightarrow> strategy_db \<Rightarrow> service_error + nat \<times> strategy_db" where
  "insert_strategy env k msg s db =
     and_then (stmt (wrapped CodeConflict msg) (se_fail env k) ()) (\<lambda>_.
     and_then (check (wrapped CodeConflict msg (se_duplicate env)) (\<not> code_taken (st_Code s) db)) (\<lambda>_.
       (case tb_create s (sd_strategies db) of (i, t) \<Rightarrow> Inr (i, db\<lparr>sd_strategies := t\<rparr>))))"

definition insert_version ::
  "strat_env \<Rightarrow> nat \<Rightarrow> string \<Rightarrow> version \<Rightarrow> strategy_db \<Rightarrow> service_error + strategy_db" where
  "insert_version env k msg v db =
     and_then (stmt (wrapped CodeInternal msg) (se_fail env k) ()) (\<lambda>_.
     and_then (check (wrapped CodeInternal msg (se_duplicate env))
        ((ver_StrategyID v, ver_Version v) \<notin> set (map (\<lambda>w. (ver_StrategyID w, ver_Version w)) (sd_versions db)))) (\<lambda>_.
       Inr (db\<lparr>sd_versions := sd_versions db @ [v]\<rparr>)))"

definition strategy_text :: "nat \<Rightarrow> string" where
  "strategy_text i = ''strategy '' @ dec_nat i"

definition load_strategy :: "strat_env \<Rightarrow> nat \<Rightarrow> string \<Rightarrow> nat \<Rightarrow> strategy_db \<Rightarrow> service_error + strategy" where
  "load_strategy env k msg i db =
     and_then (stmt (wrapped CodeInternal msg) (se_fail env k) ()) (\<lambda>_.
       (case tb_first i (sd_strategies db) of
          None \<Rightarrow> Inl (Biz (NotFound (strategy_text i)))
        | Some s \<Rightarrow> Inr s))"

definition save_strategy ::
  "strat_env \<Rightarrow> nat \<Rightarrow> string \<Rightarrow> nat \<Rightarrow> strategy \<Rightarrow> strategy_db \<Rightarrow> service_error + strategy_db" where
  "save_strategy env k msg i s db =
     stmt (wrapped CodeInternal msg) (se_fail env k) (db\<lparr>sd_strategies := tb_save i s (sd_strategies db)\<rparr>)"

definition delete_strategy ::
  "strat_env \<Rightarrow> nat \<Rightarrow> string \<Rightarrow> nat \<Rightarrow> strategy \<Rightarrow> strategy_db \<Rightarrow> service_error + strategy_db" where
  "delete_strategy env k msg i s db =
     stmt (wrapped CodeInternal msg) (se_fail env k)
       (db\<lparr>sd_strategies := tb_delete i (sd_strategies db), sd_deleted := sd_deleted db @ [s]\<rparr>)"

text \<open>\<open>db.Transaction\<close>: \<open>k\<close> is the number of its commit.\<close>

definition transaction ::
  "strat_env \<Rightarrow> nat \<Rightarrow> (strategy_db \<Rightarrow> service_error + 'a \<times> strategy_db) \<Rightarrow> strategy_db
   \<Rightarrow> (service_error + 'a) \<times> strategy_db" where
  "transaction env k body db =
     (case and_then (stmt DbError (se_fail env 0) db) (\<lambda>db. and_then (body db) (stmt DbError (se_fail env k))) of
        Inl e \<Rightarrow> (Inl e, db)
      | Inr (a, db') \<Rightarrow> (Inr a, db'))"

section \<open>Codes\<close>

definition hex_digit :: "nat \<Rightarrow> char" where
  "hex_digit n = ''0123456789abcdef'' ! (n mod 16)"

definition hex_of :: "nat list \<Rightarrow> string" where
  "hex_of bs = concat (map (\<lambda>b. [hex_digit (b div 16), hex_digit b]) bs)"

definition generateCode :: "strat_env \<Rightarrow> string \<Rightarrow> string" where
  "generateCode env prefix =
     (case se_codes env prefix of (nano, b) \<Rightarrow> prefix @ ''_'' @ dec_int (nano mod 1000000) @ ''_'' @ hex_of (take 3 b))"

definition escapeLike :: "string \<Rightarrow> string" where
  "escapeLike s = concat (map (\<lambda>c. if c \<in> {CHR 0x5C, CHR ''%'', CHR ''_''} then [CHR 0x5C, c] else [c]) s)"

section \<open>Create\<close>

record create_strategy =
  cs_Code :: string
  cs_Name :: string
  cs_Description :: string
  cs_Tags :: string
  cs_DAGJson :: string

definition no_database :: service_error where
  "no_database = Biz (Unavailable ''strategy service: database not configured'')"

definition valid_dag_json :: "strat_env \<Rightarrow> string \<Rightarrow> service_error + unit" where
  "valid_dag_json env j =
     (case ParseDAG (se_json env) j of
        Inl e \<Rightarrow> Inl (Biz (InvalidArg (''invalid dag_json: '' @ se_parse_text env e)))
      | Inr g \<Rightarrow> Inr ())"

definition name_required :: "string \<Rightarrow> service_error + unit" where
  "name_required n = check (Biz (InvalidArg ''name is required'')) (TrimSpace n \<noteq> [])"

text \<open>The body of the transaction of \<open>Create\<close> and \<open>Clone\<close>: statements \<open>k\<close> and \<open>k + 1\<close>.\<close>

definition create_pair ::
  "strat_env \<Rightarrow> nat \<Rightarrow> string \<Rightarrow> string \<Rightarrow> strategy \<Rightarrow> string \<Rightarrow> strategy_db
   \<Rightarrow> service_error + ((nat \<times> strategy) \<times> version) \<times> strategy_db" where
  "create_pair env k smsg vmsg s note db =
     and_then (insert_strategy env k smsg s db) (\<lambda>(i, db1).
       let v = \<lparr>ver_StrategyID = i, ver_Version = 1, ver_DAGJson = st_DAGJson s, ver_ChangeNote = note,
                ver_SnapshotTakenAt = se_now env\<rparr>
       in and_then (insert_version env (Suc k) vmsg v db1) (\<lambda>db2. Inr (((i, s), v), db2)))"

type_synonym created = "(nat \<times> strategy) \<times> version"

definition strat_Create ::
  "strat_env \<Rightarrow> create_strategy \<Rightarrow> strategy_db option \<Rightarrow> (service_error + created) \<times> strategy_db option" where
  "strat_Create env inp db_opt =
     (case db_opt of
        None \<Rightarrow> (Inl no_database, None)
      | Some db \<Rightarrow>
          (case and_then (name_required (cs_Name inp)) (\<lambda>_.
                and_then (check (Biz (InvalidArg ''dag_json is required'')) (cs_DAGJson inp \<noteq> [])) (\<lambda>_.
                  valid_dag_json env (cs_DAGJson inp))) of
             Inl e \<Rightarrow> (Inl e, Some db)
           | Inr _ \<Rightarrow>
               let code = (if TrimSpace (cs_Code inp) = [] then generateCode env ''strat'' else TrimSpace (cs_Code inp));
                   s = \<lparr>st_Code = code, st_Name = cs_Name inp, st_Description = cs_Description inp,
                        st_Status = StrategyStatusDraft, st_Tags = cs_Tags inp, st_CurrentVersion = 1,
                        st_DAGJson = cs_DAGJson inp, st_CronExpression = []\<rparr>
               in map_prod id Some
                    (transaction env 3 (create_pair env 1 ''create strategy'' ''create strategy version'' s ''initial'') db)))"

section \<open>Get and List\<close>

record strategy_detail =
  dt_ID :: nat
  dt_Strategy :: strategy
  dt_CurrentVersionDAG :: string
  dt_CurrentVersionNote :: string

definition strat_Get :: "strat_env \<Rightarrow> nat \<Rightarrow> strategy_db option \<Rightarrow> service_error + strategy_detail" where
  "strat_Get env i db_opt =
     (case db_opt of
        None \<Rightarrow> Inl no_database
      | Some db \<Rightarrow>
          and_then (load_strategy env 0 ''load strategy'' i db) (\<lambda>s.
            let detail = \<lparr>dt_ID = i, dt_Strategy = s, dt_CurrentVersionDAG = st_DAGJson s, dt_CurrentVersionNote = []\<rparr>
            in if 0 < st_CurrentVersion s \<and> se_fail env 1 = None
               then case find (\<lambda>v. ver_StrategyID v = i \<and> ver_Version v = st_CurrentVersion s) (sd_versions db) of
                      None \<Rightarrow> Inr detail
                    | Some v \<Rightarrow> Inr (detail\<lparr>dt_CurrentVersionDAG := ver_DAGJson v, dt_CurrentVersionNote := ver_ChangeNote v\<rparr>)
               else Inr detail))"

record list_filter =
  lf_Status :: string
  lf_TagsContains :: string
  lf_CodeLike :: string
  lf_Page :: int
  lf_PageSize :: int

text \<open>The page of a list that the paged queries return.\<close>

definition page_of :: "int \<Rightarrow> int \<Rightarrow> 'a list \<Rightarrow> 'a list" where
  "page_of page per xs = take (nat per) (drop (nat ((page - 1) * per)) xs)"

definition page_size :: "int \<Rightarrow> int" where
  "page_size n = (if n \<le> 0 \<or> 200 < n then 20 else n)"

text \<open>\<open>like\<close> is the operator of the database: pattern, text.\<close>

definition list_matches :: "(string \<Rightarrow> string \<Rightarrow> bool) \<Rightarrow> list_filter \<Rightarrow> strategy \<Rightarrow> bool" where
  "list_matches like f s \<longleftrightarrow>
     (lf_Status f \<noteq> [] \<longrightarrow> st_Status s = lf_Status f)
     \<and> (lf_TagsContains f \<noteq> [] \<longrightarrow> like (''%'' @ escapeLike (lf_TagsContains f) @ ''%'') (st_Tags s))
     \<and> (lf_CodeLike f \<noteq> [] \<longrightarrow> like (''%'' @ escapeLike (lf_CodeLike f) @ ''%'') (st_Code s))"

definition strat_List ::
  "strat_env \<Rightarrow> (string \<Rightarrow> string \<Rightarrow> bool) \<Rightarrow> list_filter \<Rightarrow> strategy_db option \<Rightarrow> service_error + (nat \<times> strategy) list \<times> nat" where
  "strat_List env like f db_opt =
     (case db_opt of
        None \<Rightarrow> Inl no_database
      | Some db \<Rightarrow>
          let rows = rev (tb_where (list_matches like f) (sd_strategies db))
          in and_then (stmt (wrapped CodeInternal ''count strategies'') (se_fail env 0) ()) (\<lambda>_.
               stmt (wrapped CodeInternal ''list strategies'') (se_fail env 1)
                 (page_of (positive_or 1 (lf_Page f)) (page_size (lf_PageSize f)) rows, length rows)))"

section \<open>Update\<close>

record update_strategy =
  us_Name :: string
  us_Description :: string
  us_Tags :: string
  us_DAGJson :: string
  us_ChangeNote :: string
  us_Status :: string
  us_CronExpression :: string

definition check_update :: "strat_env \<Rightarrow> update_strategy \<Rightarrow> service_error + unit" where
  "check_update env inp =
     and_then (name_required (us_Name inp)) (\<lambda>_.
     and_then (if us_DAGJson inp \<noteq> [] then valid_dag_json env (us_DAGJson inp) else Inr ()) (\<lambda>_.
     and_then (check (Biz (InvalidArg (''invalid status: '' @ us_Status inp)))
        (us_Status inp = [] \<or> us_Status inp \<in> {StrategyStatusDraft, StrategyStatusActive, StrategyStatusDisabled})) (\<lambda>_.
       let cron = TrimSpace (us_CronExpression inp)
       in if cron = [] then Inr ()
          else case se_cron env cron of
                 None \<Rightarrow> Inr ()
               | Some e \<Rightarrow> Inl (Biz (InvalidArg (''invalid cron_expression '' @ se_quote env cron @ '': '' @ e))))))"

definition updated_row :: "update_strategy \<Rightarrow> strategy \<Rightarrow> strategy" where
  "updated_row inp s =
     s\<lparr>st_Name := us_Name inp,
       st_Description := (if us_Description inp \<noteq> [] then us_Description inp else st_Description s),
       st_Tags := us_Tags inp,
       st_Status := (if us_Status inp \<noteq> [] then us_Status inp else st_Status s),
       st_CronExpression :=
         (if TrimSpace (us_CronExpression inp) \<noteq> [] then TrimSpace (us_CronExpression inp) else st_CronExpression s)\<rparr>"

definition update_body ::
  "strat_env \<Rightarrow> nat \<Rightarrow> update_strategy \<Rightarrow> strategy_db \<Rightarrow> service_error + (strategy \<times> version option) \<times> strategy_db" where
  "update_body env i inp db =
     and_then (load_strategy env 1 ''load strategy'' i db) (\<lambda>s.
       if us_DAGJson inp \<noteq> [] \<and> us_DAGJson inp \<noteq> st_DAGJson s
       then let s' = (updated_row inp s)\<lparr>st_DAGJson := us_DAGJson inp, st_CurrentVersion := st_CurrentVersion s + 1\<rparr>;
                v = \<lparr>ver_StrategyID = i, ver_Version = st_CurrentVersion s', ver_DAGJson = us_DAGJson inp,
                     ver_ChangeNote = us_ChangeNote inp, ver_SnapshotTakenAt = se_now env\<rparr>
            in and_then (insert_version env 2 ''create strategy version'' v db) (\<lambda>db1.
               and_then (save_strategy env 3 ''save strategy'' i s' db1) (\<lambda>db2. Inr ((s', Some v), db2)))
       else let s' = updated_row inp s
            in and_then (save_strategy env 2 ''save strategy'' i s' db) (\<lambda>db1. Inr ((s', None), db1)))"

text \<open>The scheduler the service is wired to: its state, \<open>Add\<close> with its error and \<open>Remove\<close>.\<close>

record 'r reloader =
  rl_Add :: "nat \<Rightarrow> string \<Rightarrow> 'r \<Rightarrow> string option \<times> 'r"
  rl_Remove :: "nat \<Rightarrow> 'r \<Rightarrow> 'r"

definition scheduleSync :: "'r reloader option \<Rightarrow> nat \<Rightarrow> strategy \<Rightarrow> 'r \<Rightarrow> 'r" where
  "scheduleSync rl i s r =
     (case rl of
        None \<Rightarrow> r
      | Some ops \<Rightarrow>
          if st_Status s = StrategyStatusActive \<and> st_CronExpression s \<noteq> []
          then snd (rl_Add ops i (st_CronExpression s) r)
          else rl_Remove ops i r)"

text \<open>Without a new version, a synthetic one is returned.\<close>

definition shown_version :: "strategy \<Rightarrow> version option \<Rightarrow> version" where
  "shown_version s v =
     (case v of
        Some w \<Rightarrow> w
      | None \<Rightarrow> \<lparr>ver_StrategyID = 0, ver_Version = st_CurrentVersion s, ver_DAGJson = st_DAGJson s, ver_ChangeNote = [],
                 ver_SnapshotTakenAt = wt_instant zero_wall_time\<rparr>)"

definition strat_Update ::
  "strat_env \<Rightarrow> 'r reloader option \<Rightarrow> nat \<Rightarrow> update_strategy \<Rightarrow> strategy_db option \<times> 'r
   \<Rightarrow> (service_error + strategy \<times> version) \<times> strategy_db option \<times> 'r" where
  "strat_Update env rl i inp st =
     (case st of
        (None, r) \<Rightarrow> (Inl no_database, None, r)
      | (Some db, r) \<Rightarrow>
          (case check_update env inp of
             Inl e \<Rightarrow> (Inl e, Some db, r)
           | Inr _ \<Rightarrow>
               (case transaction env 4 (update_body env i inp) db of
                  (Inl e, db') \<Rightarrow> (Inl e, Some db', r)
                | (Inr (s, v), db') \<Rightarrow> (Inr (s, shown_version s v), Some db', scheduleSync rl i s r))))"

section \<open>Delete\<close>

definition delete_body :: "strat_env \<Rightarrow> nat \<Rightarrow> strategy_db \<Rightarrow> service_error + unit \<times> strategy_db" where
  "delete_body env i db =
     and_then (load_strategy env 1 ''load strategy'' i db) (\<lambda>s.
       let s' = s\<lparr>st_Status := StrategyStatusDisabled\<rparr>
       in and_then (save_strategy env 2 ''disable strategy'' i s' db) (\<lambda>db1.
          and_then (delete_strategy env 3 ''soft-delete strategy'' i s' db1) (\<lambda>db2. Inr ((), db2))))"

definition strat_Delete ::
  "strat_env \<Rightarrow> nat \<Rightarrow> strategy_db option \<Rightarrow> (service_error + unit) \<times> strategy_db option" where
  "strat_Delete env i db_opt =
     (case db_opt of
        None \<Rightarrow> (Inl no_database, None)
      | Some db \<Rightarrow> map_prod id Some (transaction env 4 (delete_body env i) db))"

section \<open>Clone\<close>

definition id_map :: "string \<Rightarrow> dag \<Rightarrow> string \<Rightarrow> string option" where
  "id_map suffix d = foldl (\<lambda>m n. m(nd_ID n \<mapsto> nd_ID n @ ''_'' @ suffix)) Map.empty (Nodes d)"

definition remap_edge :: "string \<Rightarrow> (string \<Rightarrow> string option) \<Rightarrow> edge \<Rightarrow> edge option" where
  "remap_edge suffix m e =
     (case (m (ed_Source e), m (ed_Target e)) of
        (Some src, Some tgt) \<Rightarrow>
          Some \<lparr>ed_ID = ed_ID e @ ''_'' @ suffix, ed_Source = src, ed_SourceHandle = ed_SourceHandle e,
                ed_Target = tgt, ed_TargetHandle = ed_TargetHandle e\<rparr>
      | _ \<Rightarrow> None)"

definition remapDAG :: "strat_env \<Rightarrow> dag \<Rightarrow> dag \<times> (string \<Rightarrow> string option)" where
  "remapDAG env d =
     (let suffix = generateCode env ''n''; m = id_map suffix d
      in (\<lparr>Nodes = map (\<lambda>n. n\<lparr>nd_ID := nd_ID n @ ''_'' @ suffix\<rparr>) (Nodes d),
           Edges = List.map_filter (remap_edge suffix m) (Edges d)\<rparr>, m))"

text \<open>\<open>%v\<close> of the identifier map: its entries in the order of the keys.\<close>

definition id_map_text :: "dag \<Rightarrow> (string \<Rightarrow> string option) \<Rightarrow> string" where
  "id_map_text d m =
     ''map'' @ bracketed (map (\<lambda>k. k @ '':'' @ (case m k of None \<Rightarrow> [] | Some v \<Rightarrow> v)) (sort (remdups (node_ids d))))"

definition clone_row :: "strat_env \<Rightarrow> string \<Rightarrow> strategy \<Rightarrow> dag \<Rightarrow> strategy" where
  "clone_row env newCode src srcDAG =
     \<lparr>st_Code = (if TrimSpace newCode = [] then generateCode env ''clone'' else TrimSpace newCode),
      st_Name = st_Name src @ '' (clone)'', st_Description = st_Description src,
      st_Status = StrategyStatusDraft, st_Tags = st_Tags src, st_CurrentVersion = 1,
      st_DAGJson = (case MarshalDAG (se_json env) (Some (fst (remapDAG env srcDAG))) of Inl _ \<Rightarrow> [] | Inr t \<Rightarrow> t),
      st_CronExpression = []\<rparr>"

definition clone_note :: "strat_env \<Rightarrow> nat \<Rightarrow> dag \<Rightarrow> string" where
  "clone_note env i srcDAG =
     ''cloned from strategy '' @ dec_nat i @ '' (id map: '' @ id_map_text srcDAG (snd (remapDAG env srcDAG)) @ '')''"

definition clone_body ::
  "strat_env \<Rightarrow> nat \<Rightarrow> string \<Rightarrow> strategy_db \<Rightarrow> service_error + created \<times> strategy_db" where
  "clone_body env i newCode db =
     and_then (load_strategy env 1 ''load source strategy'' i db) (\<lambda>src.
       (case ParseDAG (se_json env) (st_DAGJson src) of
          Inl e \<Rightarrow> Inl (wrapped CodeInternal ''parse source dag'' (se_parse_text env e))
        | Inr srcDAG \<Rightarrow>
            create_pair env 2 ''create clone'' ''create clone version'' (clone_row env newCode src srcDAG)
              (clone_note env i srcDAG) db))"

definition strat_Clone ::
  "strat_env \<Rightarrow> nat \<Rightarrow> string \<Rightarrow> strategy_db option \<Rightarrow> (service_error + created) \<times> strategy_db option" where
  "strat_Clone env i newCode db_opt =
     (case db_opt of
        None \<Rightarrow> (Inl no_database, None)
      | Some db \<Rightarrow> map_prod id Some (transaction env 4 (clone_body env i newCode) db))"

section \<open>Export and Import\<close>

definition export_doc :: "strategy \<Rightarrow> json" where
  "export_doc s =
     JObj [(''code'', JStr (st_Code s)), (''name'', JStr (st_Name s)), (''description'', JStr (st_Description s)),
           (''tags'', JStr (st_Tags s)), (''status'', JStr (st_Status s)), (''dag_json'', JStr (st_DAGJson s))]"

definition strat_Export :: "strat_env \<Rightarrow> nat \<Rightarrow> strategy_db option \<Rightarrow> service_error + string" where
  "strat_Export env i db_opt =
     (case db_opt of
        None \<Rightarrow> Inl no_database
      | Some db \<Rightarrow> and_then (load_strategy env 0 ''load strategy'' i db) (\<lambda>s. Inr (se_indent env (export_doc s))))"

text \<open>\<open>json.Unmarshal\<close> into the export shape; the status is read and not used.\<close>

definition decode_export :: "json \<Rightarrow> create_strategy option" where
  "decode_export v =
     (case into_struct [v] of
        None \<Rightarrow> None
      | Some ms \<Rightarrow>
          (case map (\<lambda>f. into_string [] (field f ms)) [''code'', ''name'', ''description'', ''tags'', ''status'', ''dag_json''] of
             [Some c, Some n, Some d, Some t, Some _, Some g] \<Rightarrow>
               Some \<lparr>cs_Code = c, cs_Name = n, cs_Description = d, cs_Tags = t, cs_DAGJson = g\<rparr>
           | _ \<Rightarrow> None))"

definition parse_export :: "strat_env \<Rightarrow> string \<Rightarrow> service_error + create_strategy" where
  "parse_export env t =
     and_then (check (Biz (InvalidArg ''empty import json'')) (TrimSpace t \<noteq> [])) (\<lambda>_.
       (case jl_parse (se_json env) t of
          Inl e \<Rightarrow> Inl (Biz (InvalidArg (''invalid import json: '' @ e)))
        | Inr v \<Rightarrow>
            (case decode_export v of
               None \<Rightarrow> Inl (Biz (InvalidArg (''invalid import json: '' @ se_parse_text env BadShape)))
             | Some p \<Rightarrow> Inr p)))"

definition strat_Import ::
  "strat_env \<Rightarrow> string \<Rightarrow> strategy_db option \<Rightarrow> (service_error + created) \<times> strategy_db option" where
  "strat_Import env t db_opt =
     (case db_opt of
        None \<Rightarrow> (Inl no_database, None)
      | Some db \<Rightarrow>
          (case and_then (parse_export env t) (\<lambda>p.
                and_then (name_required (cs_Name p)) (\<lambda>_.
                and_then (valid_dag_json env (cs_DAGJson p)) (\<lambda>_. Inr p))) of
             Inl e \<Rightarrow> (Inl e, Some db)
           | Inr p \<Rightarrow> strat_Create env p (Some db)))"

section \<open>The tables stay consistent\<close>

definition codes :: "strategy_db \<Rightarrow> string list" where
  "codes db = map (st_Code \<circ> snd) (tb_rows (sd_strategies db)) @ map st_Code (sd_deleted db)"

definition versions_of :: "nat \<Rightarrow> strategy_db \<Rightarrow> version list" where
  "versions_of i db = filter (\<lambda>v. ver_StrategyID v = i) (sd_versions db)"

text \<open>The versions of a strategy are numbered from 1 without a gap, the last one is the current one
  and holds the strategy's graph, which satisfies \<open>P\<close>.\<close>

definition history_ok :: "(string \<Rightarrow> bool) \<Rightarrow> strategy_db \<Rightarrow> nat \<Rightarrow> strategy \<Rightarrow> bool" where
  "history_ok P db i s \<longleftrightarrow>
     versions_of i db \<noteq> [] \<and> map ver_Version (versions_of i db) = [1..st_CurrentVersion s]
     \<and> ver_DAGJson (last (versions_of i db)) = st_DAGJson s \<and> P (st_DAGJson s)
     \<and> st_Status s \<in> {StrategyStatusDraft, StrategyStatusActive, StrategyStatusDisabled}"

definition strategies_ok :: "(string \<Rightarrow> bool) \<Rightarrow> strategy_db \<Rightarrow> bool" where
  "strategies_ok P db \<longleftrightarrow>
     tbl.all_rows (history_ok P db) (sd_strategies db) \<and> distinct (codes db)
     \<and> (\<forall>v\<in>set (sd_versions db). ver_StrategyID v < tb_next (sd_strategies db))"

lemma empty_strategies_ok: "strategies_ok P empty_strategies"
  using tb_ok_empty by (simp add: strategies_ok_def empty_strategies_def tbl.all_rows_def codes_def tb_first_def)
    (simp add: empty_table_def)

lemma transaction_keeps:
  "Q db \<Longrightarrow> (\<And>a db'. body db = Inr (a, db') \<Longrightarrow> Q db') \<Longrightarrow> Q (snd (transaction env k body db))"
  by (auto simp: transaction_def and_then_Inr split: sum.splits)

lemma tb_save_field:
  assumes "tb_ok t" "tb_first i t = Some r" "f r' = f r"
  shows "map (f \<circ> snd) (tb_rows (tb_save i r' t)) = map (f \<circ> snd) (tb_rows t)"
proof -
  have "f (if j = i then r' else x) = f x" if "(j, x) \<in> set (tb_rows t)" for j x
    using that assms tb_rows_first [OF assms(1)] by auto
  then show ?thesis by (auto simp: tb_save_def)
qed

lemma tb_delete_field:
  assumes "tb_ok t" "tb_first i t = Some r"
  shows "mset (map (f \<circ> snd) (tb_rows t)) = add_mset (f r) (mset (map (f \<circ> snd) (tb_rows (tb_delete i t))))"
proof -
  have "distinct (map fst xs) \<Longrightarrow> (i, r) \<in> set xs \<Longrightarrow>
      mset (map (f \<circ> snd) xs) = add_mset (f r) (mset (map (f \<circ> snd) (filter (\<lambda>(j, x). j \<noteq> i) xs)))" for xs
  proof (induction xs)
    case (Cons a xs)
    show ?case
    proof (cases "fst a = i")
      case True
      then have "filter (\<lambda>(j, x). j \<noteq> i) xs = xs" using Cons.prems(1) by (intro filter_True) (auto simp: image_iff)
      then show ?thesis using True Cons.prems by (cases a) (force simp: eq_key_imp_eq_value)
    next
      case False
      then show ?thesis using Cons by (cases a) auto
    qed
  qed simp
  moreover have "distinct (map fst (tb_rows t))" using assms(1) by (simp add: tb_ok_def strict_sorted_iff)
  ultimately show ?thesis using tb_rows_first [OF assms(1)] assms(2) by (simp add: tb_delete_def)
qed

lemma strategies_okD:
  assumes "strategies_ok P db"
  shows "tb_ok (sd_strategies db)" "tb_first i (sd_strategies db) = Some s \<Longrightarrow> history_ok P db i s"
    "distinct (codes db)" "v \<in> set (sd_versions db) \<Longrightarrow> ver_StrategyID v < tb_next (sd_strategies db)"
  using assms by (auto simp: strategies_ok_def tbl.all_rows_def)

lemma history_ok_cong:
  "versions_of i db' = versions_of i db \<Longrightarrow> history_ok P db' i s = history_ok P db i s"
  by (simp add: history_ok_def)

lemma load_strategy_Inr: "load_strategy env k msg i db = Inr s \<Longrightarrow> tb_first i (sd_strategies db) = Some s"
  by (auto simp: load_strategy_def and_then_Inr split: option.splits)

lemma create_pair_Inr:
  assumes "create_pair env k smsg vmsg s note db = Inr (((i, s'), v), db')"
  shows "s' = s \<and> i = tb_next (sd_strategies db) \<and> \<not> code_taken (st_Code s) db
    \<and> v = \<lparr>ver_StrategyID = i, ver_Version = 1, ver_DAGJson = st_DAGJson s, ver_ChangeNote = note,
           ver_SnapshotTakenAt = se_now env\<rparr>
    \<and> db' = db\<lparr>sd_strategies := snd (tb_create s (sd_strategies db)), sd_versions := sd_versions db @ [v]\<rparr>"
  using assms
  by (auto simp: create_pair_def insert_strategy_def insert_version_def and_then_Inr Let_def tb_create_def)

lemma tb_create_simps:
  "fst (tb_create r t) = tb_next t" "tb_next (snd (tb_create r t)) = Suc (tb_next t)"
  "tb_rows (snd (tb_create r t)) = tb_rows t @ [(tb_next t, r)]"
  by (simp_all add: tb_create_def)

lemma create_pair_ok:
  assumes "strategies_ok P db" "create_pair env k smsg vmsg s note db = Inr (a, db')"
    and "st_CurrentVersion s = 1" "st_Status s = StrategyStatusDraft" "P (st_DAGJson s)"
  shows "strategies_ok P db'"
proof -
  obtain i s' v where a: "a = ((i, s'), v)" by (metis prod.collapse)
  note c = create_pair_Inr [OF assms(2) [unfolded a]]
  have fresh: "versions_of i db = []"
    using strategies_okD(4) [OF assms(1)] c by (fastforce simp: versions_of_def filter_empty_conv)
  have vs: "versions_of j db' = (if j = i then [v] else versions_of j db)" for j
    using c fresh by (auto simp: versions_of_def)
  have new: "history_ok P db' i s"
    unfolding history_ok_def vs using c assms(3-5) by simp
  have "tbl.all_rows (history_ok P db) (sd_strategies db)" using assms(1) by (simp add: strategies_ok_def)
  moreover have "history_ok P db' j x" if "tb_first j (sd_strategies db) = Some x" for j x
  proof -
    have "j \<noteq> i"
      using that tbl.create_fresh [OF strategies_okD(1) [OF assms(1)], of s] c by (auto simp: tb_create_simps)
    then show ?thesis using strategies_okD(2) [OF assms(1) that] unfolding history_ok_def vs by simp
  qed
  ultimately have "tbl.all_rows (history_ok P db') (sd_strategies db)" by (simp add: tbl.all_rows_def)
  then have "tbl.all_rows (history_ok P db') (sd_strategies db')"
    using tbl.all_rows_create [of "history_ok P db'" "sd_strategies db" s] new c by (simp add: tb_create_simps)
  moreover have "distinct (codes db')"
    using strategies_okD(3) [OF assms(1)] c by (auto simp: codes_def code_taken_def tb_create_simps)
  moreover have "\<forall>v\<in>set (sd_versions db'). ver_StrategyID v < tb_next (sd_strategies db')"
    using strategies_okD(4) [OF assms(1)] c by (auto simp: tb_create_simps less_Suc_eq)
  ultimately show ?thesis by (simp add: strategies_ok_def)
qed

lemma row_replaced_ok:
  assumes "strategies_ok P db" "tb_first i (sd_strategies db) = Some s" "st_Code s' = st_Code s"
    and "sd_strategies db' = tb_save i s' (sd_strategies db)" "sd_deleted db' = sd_deleted db"
    and "\<And>j. j \<noteq> i \<Longrightarrow> versions_of j db' = versions_of j db" "history_ok P db' i s'"
    and "ver_StrategyID ` set (sd_versions db') \<subseteq> insert i (ver_StrategyID ` set (sd_versions db))"
  shows "strategies_ok P db'"
proof -
  note ok = strategies_okD(1) [OF assms(1)]
  have lt: "i < tb_next (sd_strategies db)"
    using ok assms(2) tb_rows_first [OF ok, of i s] by (force simp: tb_ok_def)
  have "history_ok P db' j x" if "tb_first j (sd_strategies db') = Some x" for j x
  proof (cases "j = i")
    case True
    then show ?thesis using that assms(2,4,7) by (simp add: tbl.first_save [OF ok])
  next
    case False
    then have "tb_first j (sd_strategies db) = Some x" using that assms(4) by (simp add: tbl.first_save [OF ok])
    then show ?thesis
      using strategies_okD(2) [OF assms(1)] history_ok_cong [OF assms(6) [OF False]] by simp
  qed
  moreover have "codes db' = codes db"
    using tb_save_field [OF ok assms(2), of st_Code s'] assms(3-5) by (simp add: codes_def)
  ultimately show ?thesis
    using assms(4,8) lt strategies_okD(3,4) [OF assms(1)] tbl.ok_save [OF ok]
    by (force simp: strategies_ok_def tbl.all_rows_def)
qed

lemma valid_status_updated:
  "check_update env inp = Inr u \<Longrightarrow>
   st_Status s \<in> {StrategyStatusDraft, StrategyStatusActive, StrategyStatusDisabled} \<Longrightarrow>
   st_Status (updated_row inp s) \<in> {StrategyStatusDraft, StrategyStatusActive, StrategyStatusDisabled}"
  by (auto simp: check_update_def and_then_Inr updated_row_def)

lemma updated_row_simps [simp]:
  "st_Code (updated_row inp s) = st_Code s" "st_CurrentVersion (updated_row inp s) = st_CurrentVersion s"
  "st_DAGJson (updated_row inp s) = st_DAGJson s"
  by (simp_all add: updated_row_def)

lemma upto_snoc: "(1::int) \<le> n + 1 \<Longrightarrow> [1..n] @ [n + 1] = [1..n + 1]"
  using upto_rec2 [of 1 "n + 1"] by simp

lemma update_body_Inr:
  assumes "update_body env i inp db = Inr ((s', v), db')"
  obtains s where "tb_first i (sd_strategies db) = Some s"
    "us_DAGJson inp \<noteq> [] \<and> us_DAGJson inp \<noteq> st_DAGJson s \<longrightarrow>
       s' = (updated_row inp s)\<lparr>st_DAGJson := us_DAGJson inp, st_CurrentVersion := st_CurrentVersion s + 1\<rparr>
       \<and> v = Some \<lparr>ver_StrategyID = i, ver_Version = st_CurrentVersion s', ver_DAGJson = us_DAGJson inp,
                 ver_ChangeNote = us_ChangeNote inp, ver_SnapshotTakenAt = se_now env\<rparr>
       \<and> db' = db\<lparr>sd_versions := sd_versions db @ [the v], sd_strategies := tb_save i s' (sd_strategies db)\<rparr>"
    "us_DAGJson inp = [] \<or> us_DAGJson inp = st_DAGJson s \<longrightarrow>
       s' = updated_row inp s \<and> v = None \<and> db' = db\<lparr>sd_strategies := tb_save i s' (sd_strategies db)\<rparr>"
proof -
  obtain s where s: "load_strategy env 1 ''load strategy'' i db = Inr s"
    using assms by (auto simp: update_body_def and_then_Inr)
  show thesis
  proof (rule that [of s])
    show "tb_first i (sd_strategies db) = Some s" by (rule load_strategy_Inr [OF s])
  qed (use assms s in \<open>auto simp: update_body_def Let_def and_then_Inr insert_version_def save_strategy_def
        split: if_splits\<close>)
qed

lemma update_body_ok:
  assumes "strategies_ok P db" "check_update env inp = Inr u" "update_body env i inp db = Inr ((s', v), db')"
    and "us_DAGJson inp \<noteq> [] \<longrightarrow> P (us_DAGJson inp)"
  shows "strategies_ok P db'"
proof -
  obtain s where s: "tb_first i (sd_strategies db) = Some s"
    and changed: "us_DAGJson inp \<noteq> [] \<and> us_DAGJson inp \<noteq> st_DAGJson s \<longrightarrow>
       s' = (updated_row inp s)\<lparr>st_DAGJson := us_DAGJson inp, st_CurrentVersion := st_CurrentVersion s + 1\<rparr>
       \<and> v = Some \<lparr>ver_StrategyID = i, ver_Version = st_CurrentVersion s', ver_DAGJson = us_DAGJson inp,
                 ver_ChangeNote = us_ChangeNote inp, ver_SnapshotTakenAt = se_now env\<rparr>
       \<and> db' = db\<lparr>sd_versions := sd_versions db @ [the v], sd_strategies := tb_save i s' (sd_strategies db)\<rparr>"
    and same: "us_DAGJson inp = [] \<or> us_DAGJson inp = st_DAGJson s \<longrightarrow>
       s' = updated_row inp s \<and> v = None \<and> db' = db\<lparr>sd_strategies := tb_save i s' (sd_strategies db)\<rparr>"
    by (rule update_body_Inr [OF assms(3)])
  note h = strategies_okD(2) [OF assms(1) s]
  have st: "st_Status (updated_row inp s) \<in> {StrategyStatusDraft, StrategyStatusActive, StrategyStatusDisabled}"
    using valid_status_updated [OF assms(2)] h by (simp add: history_ok_def)
  show ?thesis
  proof (cases "us_DAGJson inp \<noteq> [] \<and> us_DAGJson inp \<noteq> st_DAGJson s")
    case True
    define w where "w = \<lparr>ver_StrategyID = i, ver_Version = st_CurrentVersion s + 1, ver_DAGJson = us_DAGJson inp,
                 ver_ChangeNote = us_ChangeNote inp, ver_SnapshotTakenAt = se_now env\<rparr>"
    have s': "s' = (updated_row inp s)\<lparr>st_DAGJson := us_DAGJson inp, st_CurrentVersion := st_CurrentVersion s + 1\<rparr>"
      and db': "db' = db\<lparr>sd_versions := sd_versions db @ [w], sd_strategies := tb_save i s' (sd_strategies db)\<rparr>"
      using changed True by (simp_all add: w_def)
    have vs: "versions_of j db' = (if j = i then versions_of i db @ [w] else versions_of j db)" for j
      by (simp add: versions_of_def db' w_def)
    have "0 < st_CurrentVersion s"
      using h by (cases "1 \<le> st_CurrentVersion s") (auto simp: history_ok_def)
    then have "history_ok P db' i s'"
      using h st True assms(4) unfolding history_ok_def vs s' by (simp add: w_def upto_snoc)
    from row_replaced_ok [OF assms(1) s _ _ _ _ this] show ?thesis
      by (simp add: vs) (auto simp: s' db' w_def)
  next
    case False
    then have u: "s' = updated_row inp s" "db' = db\<lparr>sd_strategies := tb_save i s' (sd_strategies db)\<rparr>"
      using same by simp_all
    have vs: "versions_of j db' = versions_of j db" for j by (simp add: versions_of_def u)
    have "history_ok P db' i s'" using h st unfolding history_ok_def vs u(1) by simp
    from row_replaced_ok [OF assms(1) s _ _ _ _ this] show ?thesis
      by (simp add: vs) (auto simp: u)
  qed
qed

lemma tb_save_delete: "tb_delete i (tb_save i r t) = tb_delete i t"
proof -
  have "filter (\<lambda>(j, x). j \<noteq> i) (map (\<lambda>(j, x). (j, if j = i then r else x)) xs) = filter (\<lambda>(j, x). j \<noteq> i) xs" for xs
    by (induction xs) auto
  then show ?thesis by (simp add: tb_delete_def tb_save_def)
qed

lemma delete_body_ok:
  assumes "strategies_ok P db" "delete_body env i db = Inr (u, db')"
  shows "strategies_ok P db'"
proof -
  obtain s where s: "tb_first i (sd_strategies db) = Some s"
    "db' = db\<lparr>sd_strategies := tb_delete i (sd_strategies db),
             sd_deleted := sd_deleted db @ [s\<lparr>st_Status := StrategyStatusDisabled\<rparr>]\<rparr>"
    using assms(2) by (auto simp: delete_body_def and_then_Inr Let_def save_strategy_def delete_strategy_def tb_save_delete
        dest: load_strategy_Inr)
  note ok = strategies_okD(1) [OF assms(1)]
  have vs: "versions_of j db' = versions_of j db" for j by (simp add: versions_of_def s(2))
  have "mset (codes db') = mset (codes db)"
    using tb_delete_field [OF ok s(1), of st_Code] by (simp add: codes_def s(2))
  then have "distinct (codes db')" using strategies_okD(3) [OF assms(1)] distinct_mset_cong by blast
  moreover have "tbl.all_rows (history_ok P db') (sd_strategies db')"
    using assms(1) tbl.all_rows_delete [of "history_ok P db" "sd_strategies db" i] history_ok_cong [OF vs]
    by (simp add: strategies_ok_def s(2) tbl.all_rows_def)
  ultimately show ?thesis using strategies_okD(4) [OF assms(1)] by (simp add: strategies_ok_def s(2))
qed

section \<open>Requests\<close>

datatype strategy_request =
    Create_strategy create_strategy
  | Update_strategy nat update_strategy
  | Delete_strategy nat
  | Clone_strategy nat string
  | Import_strategy string

fun strategy_step ::
  "'r reloader option \<Rightarrow> strat_env \<times> strategy_request \<Rightarrow> strategy_db option \<times> 'r \<Rightarrow> strategy_db option \<times> 'r" where
  "strategy_step rl (env, Create_strategy inp) st = map_prod (snd \<circ> strat_Create env inp) id st"
| "strategy_step rl (env, Update_strategy i inp) st = snd (strat_Update env rl i inp st)"
| "strategy_step rl (env, Delete_strategy i) st = map_prod (snd \<circ> strat_Delete env i) id st"
| "strategy_step rl (env, Clone_strategy i c) st = map_prod (snd \<circ> strat_Clone env i c) id st"
| "strategy_step rl (env, Import_strategy t) st = map_prod (snd \<circ> strat_Import env t) id st"

definition db_ok :: "(string \<Rightarrow> bool) \<Rightarrow> strategy_db option \<Rightarrow> bool" where
  "db_ok P db_opt \<longleftrightarrow> (case db_opt of None \<Rightarrow> False | Some db \<Rightarrow> strategies_ok P db)"

text \<open>\<open>P\<close> holds for every graph the parser accepts, and for every text when the request clones.\<close>

definition admits :: "(string \<Rightarrow> bool) \<Rightarrow> strat_env \<times> strategy_request \<Rightarrow> bool" where
  "admits P er \<longleftrightarrow>
     (\<forall>j. is_ok (ParseDAG (se_json (fst er)) j) \<longrightarrow> P j)
     \<and> (case snd er of Clone_strategy _ _ \<Rightarrow> \<forall>j. P j | _ \<Rightarrow> True)"

lemma valid_dag_json_Inr [simp]: "valid_dag_json env j = Inr u \<longleftrightarrow> is_ok (ParseDAG (se_json env) j)"
  by (auto simp: valid_dag_json_def is_ok_def split: sum.split)

lemma transaction_Some_ok:
  "strategies_ok P db \<Longrightarrow> (\<And>a db'. body db = Inr (a, db') \<Longrightarrow> strategies_ok P db') \<Longrightarrow>
   db_ok P (snd (map_prod id Some (transaction env k body db)))"
  using transaction_keeps [of "strategies_ok P" db body env k] by (simp add: db_ok_def)

lemma strat_Create_ok:
  assumes "strategies_ok P db" "\<And>j. is_ok (ParseDAG (se_json env) j) \<Longrightarrow> P j"
  shows "db_ok P (snd (strat_Create env inp (Some db)))"
proof (cases "and_then (name_required (cs_Name inp)) (\<lambda>_.
    and_then (check (Biz (InvalidArg ''dag_json is required'')) (cs_DAGJson inp \<noteq> [])) (\<lambda>_.
      valid_dag_json env (cs_DAGJson inp)))")
  case (Inr u)
  then have "P (cs_DAGJson inp)" using assms(2) by (auto simp: and_then_Inr)
  then show ?thesis
    unfolding strat_Create_def option.case Inr sum.case Let_def
    by (intro transaction_Some_ok [OF assms(1)]) (rule create_pair_ok [OF assms(1)], assumption, simp_all)
next
  case (Inl e)
  then show ?thesis using assms(1) by (simp add: strat_Create_def db_ok_def)
qed

lemma clone_body_Inr:
  assumes "clone_body env i c db = Inr r"
  shows "\<exists>src g. tb_first i (sd_strategies db) = Some src \<and> ParseDAG (se_json env) (st_DAGJson src) = Inr g
    \<and> create_pair env 2 ''create clone'' ''create clone version'' (clone_row env c src g) (clone_note env i g) db = Inr r"
proof -
  obtain src where src: "load_strategy env 1 ''load source strategy'' i db = Inr src"
    using assms by (auto simp: clone_body_def and_then_Inr)
  obtain g where g: "ParseDAG (se_json env) (st_DAGJson src) = Inr g"
    using assms src by (cases "ParseDAG (se_json env) (st_DAGJson src)") (simp_all add: clone_body_def)
  show ?thesis using assms src g load_strategy_Inr [OF src] by (intro exI [of _ src] exI [of _ g]) (simp add: clone_body_def)
qed

lemma strategy_step_ok:
  assumes "db_ok P (fst st)" "admits P er"
  shows "db_ok P (fst (strategy_step rl er st))"
proof -
  obtain db r where st: "st = (Some db, r)" "strategies_ok P db"
    using assms(1) by (cases st) (auto simp: db_ok_def split: option.splits)
  obtain env req where er: "er = (env, req)" by force
  have parsed: "\<And>j. is_ok (ParseDAG (se_json env) j) \<Longrightarrow> P j" using assms(2) by (simp add: admits_def er)
  show ?thesis
  proof (cases req)
    case (Create_strategy inp)
    then show ?thesis using strat_Create_ok [OF st(2) parsed] by (simp add: er st(1))
  next
    case (Update_strategy i inp)
    show ?thesis
    proof (cases "check_update env inp")
      case (Inl e)
      then show ?thesis using st by (simp add: er Update_strategy strat_Update_def db_ok_def)
    next
      case (Inr u)
      then have P: "us_DAGJson inp \<noteq> [] \<longrightarrow> P (us_DAGJson inp)"
        using parsed by (auto simp: check_update_def and_then_Inr)
      have "strategies_ok P (snd (transaction env 4 (update_body env i inp) db))"
        by (rule transaction_keeps [where Q = "strategies_ok P", OF st(2)]) (use update_body_ok [OF st(2) Inr _ P] in force)
      then show ?thesis
        using Inr by (auto simp: er Update_strategy strat_Update_def st(1) db_ok_def split: prod.splits sum.splits)
    qed
  next
    case (Delete_strategy i)
    have "db_ok P (snd (strat_Delete env i (Some db)))"
      unfolding strat_Delete_def option.case
      by (rule transaction_Some_ok [OF st(2)]) (rule delete_body_ok [OF st(2)])
    then show ?thesis by (simp add: er st(1) Delete_strategy)
  next
    case (Clone_strategy i c)
    then have P: "P j" for j using assms(2) by (simp add: admits_def er)
    have "db_ok P (snd (strat_Clone env i c (Some db)))"
      unfolding strat_Clone_def option.case
    proof (rule transaction_Some_ok [OF st(2)])
      fix a db' assume "clone_body env i c db = Inr (a, db')"
      then obtain src g where "create_pair env 2 ''create clone'' ''create clone version'' (clone_row env c src g)
          (clone_note env i g) db = Inr (a, db')"
        using clone_body_Inr by blast
      then show "strategies_ok P db'"
        by (rule create_pair_ok [OF st(2)]) (simp_all add: clone_row_def P)
    qed
    then show ?thesis by (simp add: er st(1) Clone_strategy)
  next
    case (Import_strategy t)
    have "db_ok P (snd (strat_Import env t (Some db)))"
      using strat_Create_ok [OF st(2) parsed] st(2) by (auto simp: strat_Import_def db_ok_def split: sum.split)
    then show ?thesis by (simp add: er st(1) Import_strategy)
  qed
qed

definition is_clone :: "strategy_request \<Rightarrow> bool" where
  "is_clone req = (case req of Clone_strategy _ _ \<Rightarrow> True | _ \<Rightarrow> False)"

lemma fold_strategy_ok:
  "db_ok P (fst st) \<Longrightarrow> \<forall>er\<in>set reqs. admits P er \<Longrightarrow> db_ok P (fst (fold (strategy_step rl) reqs st))"
  by (induction reqs arbitrary: st) (simp_all add: strategy_step_ok)

lemma current_version_unique:
  assumes "history_ok P db i s" "v \<in> set (versions_of i db)" "ver_Version v = st_CurrentVersion s"
  shows "v = last (versions_of i db)"
proof -
  let ?vs = "versions_of i db"
  have vs: "?vs \<noteq> []" "map ver_Version ?vs = [1..st_CurrentVersion s]" using assms(1) by (simp_all add: history_ok_def)
  then have one: "1 \<le> st_CurrentVersion s" by (metis atLeastatMost_empty' map_is_Nil_conv not_le upto_Nil2)
  have "last (map ver_Version ?vs) = st_CurrentVersion s"
    unfolding vs(2) using one by (simp add: upto_rec2)
  then have "ver_Version (last ?vs) = ver_Version v" using vs(1) assms(3) by (simp add: last_map)
  moreover have "distinct (map ver_Version ?vs)" unfolding vs(2) by simp
  ultimately show ?thesis using assms(2) last_in_set [OF vs(1)] by (metis inj_on_def distinct_map)
qed

text \<open>C16: Whatever requests have been served since the tables were empty, with whatever statement
  failures: no two strategies, deleted ones included, share a code; the versions of a strategy are
  exactly 1 to its current version, each once and in order; the current version holds the graph of
  the strategy, which is what Get reports; the status is one of the three; and if no request was a
  clone, the stored graph is one the parser accepts.\<close>

theorem strategy_versions:
  assumes "fst (fold (strategy_step rl) reqs (Some empty_strategies, r)) = Some db"
    and "tb_first i (sd_strategies db) = Some s"
  shows "distinct (codes db) \<and> 1 \<le> st_CurrentVersion s
    \<and> map ver_Version (versions_of i db) = [1..st_CurrentVersion s]
    \<and> ver_DAGJson (last (versions_of i db)) = st_DAGJson s
    \<and> st_Status s \<in> {StrategyStatusDraft, StrategyStatusActive, StrategyStatusDisabled}
    \<and> (\<forall>env d. strat_Get env i (Some db) = Inr d \<longrightarrow> dt_CurrentVersionDAG d = st_DAGJson s)
    \<and> ((\<forall>(env, req)\<in>set reqs. se_json env = lib \<and> \<not> is_clone req) \<longrightarrow> is_ok (ParseDAG lib (st_DAGJson s)))"
proof -
  have ok: "strategies_ok P db" if "\<forall>er\<in>set reqs. admits P er" for P
    using fold_strategy_ok [of P "(Some empty_strategies, r)" reqs rl] that assms(1) empty_strategies_ok
    by (auto simp: db_ok_def)
  have db: "strategies_ok (\<lambda>_. True) db" by (rule ok) (simp add: admits_def split: strategy_request.split)
  note h = strategies_okD(2) [OF db assms(2)]
  have one: "1 \<le> st_CurrentVersion s" using h by (cases "1 \<le> st_CurrentVersion s") (auto simp: history_ok_def)
  have get: "dt_CurrentVersionDAG d = st_DAGJson s" if "strat_Get env i (Some db) = Inr d" for env d
  proof -
    have load: "load_strategy env 0 ''load strategy'' i db = Inr s"
      using that assms(2) load_strategy_Inr by (fastforce simp: strat_Get_def and_then_Inr)
    show ?thesis
    proof (cases "find (\<lambda>v. ver_StrategyID v = i \<and> ver_Version v = st_CurrentVersion s) (sd_versions db)")
      case None
      then show ?thesis using that by (auto simp: strat_Get_def load Let_def split: if_splits)
    next
      case (Some v)
      then have "v \<in> set (versions_of i db)" "ver_Version v = st_CurrentVersion s"
        by (auto simp: find_Some_iff versions_of_def)
      then have "ver_DAGJson v = st_DAGJson s" using current_version_unique [OF h] h by (auto simp: history_ok_def)
      then show ?thesis using that Some by (auto simp: strat_Get_def load Let_def split: if_splits)
    qed
  qed
  have "is_ok (ParseDAG lib (st_DAGJson s))"
    if q: "\<forall>(env, req)\<in>set reqs. se_json env = lib \<and> \<not> is_clone req"
  proof -
    have "admits (\<lambda>j. is_ok (ParseDAG lib j)) er" if "er \<in> set reqs" for er
      using bspec [OF q that] by (auto simp: admits_def is_clone_def split: strategy_request.splits)
    then have "strategies_ok (\<lambda>j. is_ok (ParseDAG lib j)) db" using ok by blast
    then show ?thesis using strategies_okD(2) [OF _ assms(2)] by (auto simp: history_ok_def)
  qed
  then show ?thesis using strategies_okD(3) [OF db] h one get by (auto simp: history_ok_def)
qed

end
