(* ===== verification/Dag_Topo.thy ===== *)
theory Dag_Topo
  imports Dag
begin

text \<open>
  \<open>(*DAG).TopoSort\<close> of \<open>orchestrator/types.go\<close>: Kahn's algorithm with ties broken by
  node ID.  A Go map read at a missing key yields the zero value, so \<open>indeg\<close> and \<open>adj\<close>
  are total functions with default \<open>0\<close> and the empty list.
\<close>

section \<open>The algorithm\<close>

definition init_indeg :: "edge list \<Rightarrow> string \<Rightarrow> int" where
  "init_indeg es = fold (\<lambda>e m. m(ed_Target e := m (ed_Target e) + 1)) es (\<lambda>_. 0)"

definition init_adj :: "edge list \<Rightarrow> string \<Rightarrow> string list" where
  "init_adj es =
     sortStrings \<circ> fold (\<lambda>e m. m(ed_Source e := m (ed_Source e) @ [ed_Target e])) es (\<lambda>_. [])"

text \<open>The loop over the successors of the popped node.\<close>

fun relax :: "string list \<Rightarrow> (string \<Rightarrow> int) \<Rightarrow> string list \<Rightarrow> (string \<Rightarrow> int) \<times> string list" where
  "relax [] indeg ready = (indeg, ready)"
| "relax (n # ns) indeg ready =
     (let indeg' = indeg(n := indeg n - 1)
      in relax ns indeg' (if indeg' n = 0 then insertSorted ready n else ready))"

partial_function (option) topo_loop ::
  "(string \<Rightarrow> string list) \<Rightarrow> string list \<Rightarrow> (string \<Rightarrow> int) \<Rightarrow> string list \<Rightarrow> string list option"
where
  "topo_loop adj ready indeg out =
     (case ready of
        [] \<Rightarrow> Some out
      | head # rest \<Rightarrow>
          (case relax (adj head) indeg rest of
             (indeg', ready') \<Rightarrow> topo_loop adj ready' indeg' (out @ [head])))"

definition TopoSort :: "dag option \<Rightarrow> (orch_error + string list) option" where
  "TopoSort d =
     (case Validate d of
        Some err \<Rightarrow> Some (Inl (ErrInvalidDAG err))
      | None \<Rightarrow>
          (case d of
             None \<Rightarrow> Some (Inl (ErrInvalidDAG NilDag))
           | Some g \<Rightarrow>
               let indeg = init_indeg (Edges g);
                   adj = init_adj (Edges g);
                   ready = sortStrings (filter (\<lambda>i. indeg i = 0) (node_ids g))
               in map_option
                    (\<lambda>out. if length out \<noteq> length (Nodes g)
                           then Inl (ErrCycle (length out) (length (Nodes g)))
                           else Inr out)
                    (topo_loop adj ready indeg [])))"

section \<open>The abstract view: nodes whose predecessors are all emitted\<close>

definition avail :: "dag \<Rightarrow> string set \<Rightarrow> string set" where
  "avail g S = {v \<in> set (node_ids g). v \<notin> S \<and> (edge_rel g)\<inverse> `` {v} \<subseteq> S}"

text \<open>The least available node comes next, at every position.\<close>

definition greedy_prefix :: "dag \<Rightarrow> string list \<Rightarrow> bool" where
  "greedy_prefix g out \<longleftrightarrow>
     (\<forall>i<length out. out ! i \<in> avail g (set (take i out))
                     \<and> (\<forall>v\<in>avail g (set (take i out)). out ! i \<le> v))"

definition topo_order :: "dag \<Rightarrow> string list \<Rightarrow> bool" where
  "topo_order g out \<longleftrightarrow>
     distinct out \<and> set out = set (node_ids g)
     \<and> (\<forall>i<length out. \<forall>j<length out. (out ! i, out ! j) \<in> edge_rel g \<longrightarrow> i < j)"

text \<open>Edges into \<open>v\<close> whose source is not yet emitted, with multiplicity.\<close>

definition remaining :: "dag \<Rightarrow> string set \<Rightarrow> string \<Rightarrow> nat" where
  "remaining g S v = length (filter (\<lambda>e. ed_Target e = v \<and> ed_Source e \<notin> S) (Edges g))"

lemma remaining_0_iff: "remaining g S v = 0 \<longleftrightarrow> (edge_rel g)\<inverse> `` {v} \<subseteq> S"
  by (auto simp: remaining_def edge_rel_def filter_empty_conv)

lemma remaining_insert:
  assumes "u \<notin> S"
  shows "remaining g S v = remaining g (insert u S) v + count_list (Successors (Some g) u) v"
proof -
  have "length (filter (\<lambda>e. ed_Target e = v \<and> ed_Source e \<notin> S) es)
        = length (filter (\<lambda>e. ed_Target e = v \<and> ed_Source e \<notin> insert u S) es)
          + count_list (map ed_Target (filter (\<lambda>e. ed_Source e = u) es)) v" for es
    using assms by (induction es) auto
  then show ?thesis by (simp add: remaining_def Successors_def)
qed

lemma init_indeg_eq: "init_indeg (Edges g) v = int (remaining g {} v)"
proof -
  have "fold (\<lambda>e m. m(ed_Target e := m (ed_Target e) + 1)) es m v
        = m v + int (length (filter (\<lambda>e. ed_Target e = v) es))" for es :: "edge list" and m :: "string \<Rightarrow> int"
    by (induction es arbitrary: m) auto
  then show ?thesis by (simp add: init_indeg_def remaining_def)
qed

lemma init_adj_eq: "init_adj (Edges g) u = sortStrings (Successors (Some g) u)"
proof -
  have "fold (\<lambda>e m. m(ed_Source e := m (ed_Source e) @ [ed_Target e])) es m u
        = m u @ map ed_Target (filter (\<lambda>e. ed_Source e = u) es)"
    for es :: "edge list" and m
    by (induction es arbitrary: m) auto
  then show ?thesis by (simp add: init_adj_def Successors_def)
qed

lemma avail_iff:
  "v \<in> avail g S \<longleftrightarrow> v \<in> set (node_ids g) \<and> v \<notin> S \<and> remaining g S v = 0"
  by (auto simp: avail_def remaining_0_iff)

section \<open>One pass over the successors\<close>

lemma relax_spec:
  assumes "\<forall>v. int (count_list ns v) \<le> indeg v"
    and "\<forall>v\<in>set ns. v \<notin> set ready" and "sorted ready" "distinct ready"
    and "relax ns indeg ready = (indeg', ready')"
  shows "(\<forall>v. indeg' v = indeg v - int (count_list ns v))
    \<and> set ready' = set ready \<union> {v \<in> set ns. indeg v = int (count_list ns v)}
    \<and> sorted ready' \<and> distinct ready'"
  using assms
proof (induction ns arbitrary: indeg ready)
  case Nil
  then show ?case by auto
next
  case (Cons n ns)
  let ?d = "indeg(n := indeg n - 1)"
  let ?r = "if ?d n = 0 then insertSorted ready n else ready"
  have nn: "n \<notin> set ready" using Cons.prems(2) by simp
  have cnt: "int (count_list ns v) \<le> ?d v" for v
    using Cons.prems(1) [rule_format, of v] by (auto split: if_splits)
  have zero: "n \<notin> set ns" if "?d n = 0"
    using cnt [of n] that by (auto simp flip: count_list_pos_iff)
  have disj: "\<forall>v\<in>set ns. v \<notin> set ?r"
    using Cons.prems(2) zero by (auto simp: insertSorted_set split: if_splits)
  have srt: "sorted ?r" "distinct ?r"
    using Cons.prems(3,4) nn by (auto simp: insertSorted_sorted insertSorted_distinct)
  have eq: "relax ns ?d ?r = (indeg', ready')"
    using Cons.prems(5) by (simp add: Let_def)
  note IH = Cons.IH [OF _ disj srt eq]
  have IH: "\<forall>v. indeg' v = ?d v - int (count_list ns v)"
    "set ready' = set ?r \<union> {v \<in> set ns. ?d v = int (count_list ns v)}"
    "sorted ready'" "distinct ready'"
    using IH cnt by blast+
  have mem: "v \<in> set ready' \<longleftrightarrow> v \<in> set ?r \<or> v \<in> set ns \<and> ?d v = int (count_list ns v)" for v
    using IH(2) by blast
  have mem_n: "n \<in> set ready' \<longleftrightarrow> indeg n = int (count_list (n # ns) n)"
  proof (cases "?d n = 0")
    case True
    then have "count_list ns n = 0" using zero by (simp add: count_list_0_iff)
    with True mem [of n] show ?thesis by (simp add: insertSorted_set)
  next
    case False
    then have "n \<in> set ns \<or> \<not> ?d n = int (count_list ns n)"
      by (auto simp: count_list_0_iff)
    with False nn mem [of n] show ?thesis by auto
  qed
  have mem_v: "v \<in> set ready' \<longleftrightarrow> v \<in> set ready \<or> v \<in> set ns \<and> indeg v = int (count_list ns v)"
    if "v \<noteq> n" for v
    using mem [of v] that by (simp add: insertSorted_set)
  have "set ready' = set ready \<union> {v \<in> set (n # ns). indeg v = int (count_list (n # ns) v)}"
    using mem_n mem_v nn by force
  moreover have "indeg' v = indeg v - int (count_list (n # ns) v)" for v
    using IH(1) by simp
  ultimately show ?case using IH(3,4) by blast
qed

section \<open>The loop invariant\<close>

definition topo_inv :: "dag \<Rightarrow> string list \<Rightarrow> (string \<Rightarrow> int) \<Rightarrow> string list \<Rightarrow> bool" where
  "topo_inv g ready indeg out \<longleftrightarrow>
     sorted ready \<and> distinct ready \<and> distinct out \<and> set out \<subseteq> set (node_ids g)
     \<and> set ready = avail g (set out)
     \<and> (\<forall>v. indeg v = int (remaining g (set out) v))
     \<and> (\<forall>v\<in>set out. remaining g (set out) v = 0)
     \<and> greedy_prefix g out"

lemma greedy_prefix_snoc:
  "greedy_prefix g (out @ [v]) \<longleftrightarrow>
     greedy_prefix g out \<and> v \<in> avail g (set out) \<and> (\<forall>w\<in>avail g (set out). v \<le> w)"
  by (auto simp: greedy_prefix_def nth_append less_Suc_eq)

lemma remaining_mono: "S \<subseteq> T \<Longrightarrow> remaining g S v = 0 \<Longrightarrow> remaining g T v = 0"
  by (auto simp: remaining_0_iff)

lemma topo_inv_step:
  assumes wf: "well_formed g" and inv: "topo_inv g (head # rest) indeg out"
    and rel: "relax (init_adj (Edges g) head) indeg rest = (indeg', ready')"
  shows "topo_inv g ready' indeg' (out @ [head])"
proof -
  let ?S = "set out" and ?ns = "init_adj (Edges g) head"
  have hd: "head \<in> avail g ?S" "head \<notin> set rest" "sorted rest" "distinct rest"
    and least: "\<forall>v\<in>avail g ?S. head \<le> v"
    and rest: "set rest = avail g ?S - {head}"
    using inv by (auto simp: topo_inv_def)
  then have hS: "head \<notin> ?S" and hid: "head \<in> set (node_ids g)" and hrem: "remaining g ?S head = 0"
    by (auto simp: avail_iff)
  have cnt: "count_list ?ns v = count_list (Successors (Some g) head) v" for v
    unfolding init_adj_eq by (rule str_sort.srt_count)
  have rem: "remaining g ?S v = remaining g (insert head ?S) v + count_list ?ns v" for v
    using remaining_insert [OF hS] cnt by simp
  have indeg: "indeg v = int (remaining g ?S v)" for v
    using inv by (simp add: topo_inv_def)
  have pos: "0 < remaining g ?S v" if "v \<in> set ?ns" for v
    using that rem [of v] by (simp flip: count_list_pos_iff)
  have ns: "v \<in> set ?ns \<longleftrightarrow> (head, v) \<in> edge_rel g" for v
    by (simp add: init_adj_eq str_sort.srt_set set_Successors)
  have disj: "\<forall>v\<in>set ?ns. v \<notin> set rest"
    using pos rest by (auto simp: avail_iff)
  from relax_spec [OF _ disj hd(3,4) rel] rem indeg
  have spec: "\<forall>v. indeg' v = indeg v - int (count_list ?ns v)"
    "set ready' = set rest \<union> {v \<in> set ?ns. indeg v = int (count_list ?ns v)}"
    "sorted ready'" "distinct ready'"
    by (metis le_add2 of_nat_mono)+
  have ind': "\<forall>v. indeg' v = int (remaining g (insert head ?S) v)"
    using spec(1) indeg rem by simp
  have old: "remaining g ?S v = 0" if "v \<in> ?S" for v
    using inv that by (simp add: topo_inv_def)
  have "v \<in> set ready' \<longleftrightarrow> v \<in> avail g (insert head ?S)" for v
  proof (cases "v \<in> set ?ns")
    case True
    then have "v \<in> set (node_ids g)" "v \<noteq> head"
      using ns well_formedD(3) [OF wf] by blast+
    moreover have "v \<notin> ?S" using pos [OF True] old by auto
    moreover have "v \<notin> set rest" using disj True by blast
    ultimately show ?thesis
      using True spec(2) indeg rem [of v] by (auto simp: avail_iff)
  next
    case False
    then have "count_list ?ns v = 0" by (simp add: count_list_0_iff)
    then show ?thesis
      using False spec(2) rest rem [of v] by (auto simp: avail_iff)
  qed
  then have "set ready' = avail g (insert head ?S)" by blast
  moreover have "\<forall>v\<in>insert head ?S. remaining g (insert head ?S) v = 0"
    using old hrem remaining_mono [of ?S "insert head ?S"] by auto
  ultimately show ?thesis
    using inv spec(3,4) ind' hS hid hd(1) least
    by (simp add: topo_inv_def greedy_prefix_snoc)
qed

lemma topo_loop_total:
  assumes wf: "well_formed g" and "topo_inv g ready indeg out"
  shows "\<exists>out'. topo_loop (init_adj (Edges g)) ready indeg out = Some out'
           \<and> (\<exists>indeg'. topo_inv g [] indeg' out')"
  using assms(2)
proof (induction "length (node_ids g) - length out" arbitrary: ready indeg out rule: less_induct)
  case less
  show ?case
  proof (cases ready)
    case Nil
    then show ?thesis
      using less.prems by (auto simp: topo_loop.simps)
  next
    case (Cons head rest)
    obtain indeg' ready' where rel: "relax (init_adj (Edges g) head) indeg rest = (indeg', ready')"
      by fastforce
    have inv': "topo_inv g ready' indeg' (out @ [head])"
      using topo_inv_step [OF wf _ rel] less.prems Cons by simp
    have "length (out @ [head]) \<le> card (set (node_ids g))"
      using inv' by (intro distinct_length_le_card) (auto simp: topo_inv_def)
    also have "\<dots> = length (node_ids g)"
      using well_formedD(2) [OF wf] by (rule distinct_card)
    finally have "length (node_ids g) - length (out @ [head]) < length (node_ids g) - length out"
      by simp
    from less.hyps [OF this inv'] show ?thesis
      using Cons rel by (simp add: topo_loop.simps [of _ "head # rest"])
  qed
qed

lemma topo_inv_init:
  assumes "well_formed g"
  shows "topo_inv g (sortStrings (filter (\<lambda>i. init_indeg (Edges g) i = 0) (node_ids g)))
           (init_indeg (Edges g)) []"
  using well_formedD(2) [OF assms]
  by (auto simp: topo_inv_def str_sort.srt_sorted str_sort.srt_distinct str_sort.srt_set
      init_indeg_eq avail_iff greedy_prefix_def)

section \<open>Correctness\<close>

lemma greedy_topo_order:
  assumes "greedy_prefix g out" "distinct out" "set out = set (node_ids g)"
  shows "topo_order g out"
  unfolding topo_order_def
proof (intro conjI assms(2,3) allI impI)
  fix i j assume ij: "i < length out" "j < length out" "(out ! i, out ! j) \<in> edge_rel g"
  have "out ! j \<in> avail g (set (take j out))"
    using assms(1) ij(2) by (simp add: greedy_prefix_def)
  then have "out ! i \<in> set (take j out)"
    using ij(3) by (auto simp: avail_def)
  then obtain k where "k < j" "out ! k = out ! i"
    using ij(2) by (auto simp: in_set_conv_nth)
  then show "i < j"
    using assms(2) ij by (metis distinct_conv_nth less_trans)
qed

lemma topo_order_acyclic:
  assumes "topo_order g out" and wf: "well_formed g"
  shows "acyclic (edge_rel g)"
proof -
  have pos: "\<exists>i<length out. out ! i = v" if "v \<in> set (node_ids g)" for v
    using assms(1) that by (metis in_set_conv_nth topo_order_def)
  define idx where "idx v = (SOME i. i < length out \<and> out ! i = v)" for v
  have idx: "idx v < length out \<and> out ! idx v = v" if "v \<in> set (node_ids g)" for v
    unfolding idx_def by (rule someI_ex) (rule pos [OF that])
  have "edge_rel g \<subseteq> measure idx"
  proof
    fix p assume "p \<in> edge_rel g"
    then obtain u v where p: "p = (u, v)" "(u, v) \<in> edge_rel g" by (cases p) auto
    then have "u \<in> set (node_ids g)" "v \<in> set (node_ids g)"
      using well_formedD(3) [OF wf] by blast+
    with p idx [of u] idx [of v] assms(1) show "p \<in> measure idx"
      by (auto simp: topo_order_def)
  qed
  then show ?thesis by (meson acyclic_subset wf_acyclic wf_measure)
qed

lemma stuck_acyclic_full:
  assumes wf: "well_formed g" and "acyclic (edge_rel g)" "avail g (set out) = {}"
  shows "set (node_ids g) \<subseteq> set out"
proof (rule ccontr)
  assume "\<not> ?thesis"
  then obtain v where v: "v \<in> set (node_ids g) - set out" by blast
  have "wf (edge_rel g)"
    using assms(2) by (simp add: finite_acyclic_wf)
  from wfE_min [OF this v] obtain w where
    w: "w \<in> set (node_ids g) - set out"
       "\<And>u. (u, w) \<in> edge_rel g \<Longrightarrow> u \<notin> set (node_ids g) - set out"
    by blast
  with assms(3) obtain u where "(u, w) \<in> edge_rel g" "u \<notin> set out"
    by (auto simp: avail_def)
  with w(2) well_formedD(3) [OF wf] show False by blast
qed

text \<open>What a run of the loop on a valid graph gives: everything the invariant says at its end.\<close>

lemma TopoSort_run:
  assumes wf: "well_formed g"
  obtains out where
    "TopoSort (Some g) =
       Some (if length out \<noteq> length (Nodes g)
             then Inl (ErrCycle (length out) (length (Nodes g))) else Inr out)"
    "distinct out" "set out \<subseteq> set (node_ids g)" "greedy_prefix g out" "avail g (set out) = {}"
proof -
  from topo_loop_total [OF wf topo_inv_init [OF wf]] obtain out indeg' where
    out: "topo_loop (init_adj (Edges g))
            (sortStrings (filter (\<lambda>i. init_indeg (Edges g) i = 0) (node_ids g)))
            (init_indeg (Edges g)) [] = Some out"
      "topo_inv g [] indeg' out"
    by blast
  show thesis
  proof (rule that [of out])
    show "TopoSort (Some g) =
       Some (if length out \<noteq> length (Nodes g)
             then Inl (ErrCycle (length out) (length (Nodes g))) else Inr out)"
      using wf out(1) by (simp add: TopoSort_def Let_def flip: Validate_None_iff)
  qed (use out(2) in \<open>auto simp: topo_inv_def\<close>)
qed

lemma TopoSort_Inr_wf: "TopoSort (Some g) = Some (Inr out) \<Longrightarrow> well_formed g"
  by (auto simp: TopoSort_def split: option.splits simp flip: Validate_None_iff)

lemma TopoSort_Inr_greedy:
  assumes "TopoSort (Some g) = Some (Inr out)"
  shows "distinct out \<and> set out = set (node_ids g) \<and> greedy_prefix g out"
proof -
  have wf: "well_formed g" using assms by (rule TopoSort_Inr_wf)
  obtain out' where
    out': "TopoSort (Some g) =
       Some (if length out' \<noteq> length (Nodes g)
             then Inl (ErrCycle (length out') (length (Nodes g))) else Inr out')"
    "distinct out'" "set out' \<subseteq> set (node_ids g)" "greedy_prefix g out'" "avail g (set out') = {}"
    by (rule TopoSort_run [OF wf])
  with assms have eq: "out' = out" "length out' = length (node_ids g)"
    by (auto simp: node_ids_def split: if_splits)
  then have "set out' = set (node_ids g)"
    using out'(2,3) well_formedD(2) [OF wf] by (intro distinct_full_length) auto
  with eq out' show ?thesis by simp
qed

lemma TopoSort_acyclic:
  assumes wf: "well_formed g" and "acyclic (edge_rel g)"
  shows "\<exists>out. TopoSort (Some g) = Some (Inr out)"
proof -
  obtain out where
    out: "TopoSort (Some g) =
       Some (if length out \<noteq> length (Nodes g)
             then Inl (ErrCycle (length out) (length (Nodes g))) else Inr out)"
    "distinct out" "set out \<subseteq> set (node_ids g)" "greedy_prefix g out" "avail g (set out) = {}"
    by (rule TopoSort_run [OF wf])
  from stuck_acyclic_full [OF wf assms(2) out(5)] out(3)
  have "set out = set (node_ids g)" by blast
  then have "length out = length (Nodes g)"
    using out(2) well_formedD(2) [OF wf] by (metis distinct_card length_map node_ids_def)
  with out(1) show ?thesis by simp
qed

lemma greedy_prefix_unique:
  assumes "greedy_prefix g xs" "greedy_prefix g ys" "length xs = length ys"
  shows "xs = ys"
proof -
  have "take n xs = take n ys" if "n \<le> length xs" for n
    using that
  proof (induction n)
    case (Suc n)
    then have n: "n < length xs" "n < length ys" and IH: "take n xs = take n ys"
      using assms(3) by auto
    have "xs ! n = ys ! n"
      using assms(1,2) n IH unfolding greedy_prefix_def by (metis order_antisym)
    with n IH show ?case by (simp add: take_Suc_conv_app_nth)
  qed simp
  from this [of "length xs"] assms(3) show ?thesis by simp
qed

lemma greedy_prefix_cong:
  assumes "set (node_ids g) = set (node_ids h)" "edge_rel g = edge_rel h"
  shows "greedy_prefix g xs = greedy_prefix h xs"
  using assms by (simp add: greedy_prefix_def avail_def)

section \<open>Properties\<close>

text \<open>A diamond with a duplicated edge, used to exercise the properties.\<close>

definition ex_node :: "string \<Rightarrow> node_def" where
  "ex_node i = \<lparr>nd_ID = i, nd_Type = ''filter'', nd_Subtype = [], nd_Params = ''{}'', nd_Position = None\<rparr>"

definition ex_edge :: "string \<Rightarrow> string \<Rightarrow> edge" where
  "ex_edge u v = \<lparr>ed_ID = [], ed_Source = u, ed_SourceHandle = [], ed_Target = v, ed_TargetHandle = []\<rparr>"

definition ex_diamond :: dag where
  "ex_diamond = \<lparr>Nodes = map ex_node [''d'', ''c'', ''b'', ''a''],
     Edges = [ex_edge ''a'' ''c'', ex_edge ''a'' ''b'', ex_edge ''a'' ''b'', ex_edge ''b'' ''d'', ex_edge ''c'' ''d'']\<rparr>"

definition ex_diamond' :: dag where
  "ex_diamond' = \<lparr>Nodes = map ex_node [''a'', ''b'', ''c'', ''d''],
     Edges = [ex_edge ''b'' ''d'', ex_edge ''a'' ''b'', ex_edge ''c'' ''d'', ex_edge ''a'' ''b'', ex_edge ''a'' ''c'']\<rparr>"

lemmas ex_dag_defs = ex_diamond_def ex_diamond'_def ex_edge_def ex_node_def

lemma topo_loop_eval:
  "topo_loop adj [] indeg out = Some out"
  "relax (adj h) indeg rest = (indeg', ready') \<Longrightarrow>
     topo_loop adj (h # rest) indeg out = topo_loop adj ready' indeg' (out @ [h])"
  by (subst topo_loop.simps, simp)+

lemmas topo_eval = TopoSort_def Validate_def node_ids_def str_sort.srt_eq_sort topo_loop_eval
  insertSorted_eq_insort Let_def init_indeg_def init_adj_def

lemma ex_diamond_sort: "TopoSort (Some ex_diamond) = Some (Inr [''a'', ''b'', ''c'', ''d''])"
  by (simp add: topo_eval ex_dag_defs)

text \<open>\<open>Validate\<close> accepts exactly the non-nil graphs with at least one node, pairwise distinct
  non-empty node IDs, non-empty node types, and edges that join two different existing nodes.\<close>

theorem Validate_iff:
  "Validate d = None \<longleftrightarrow> (\<exists>g. d = Some g \<and> well_formed g)"
  by (cases d) (simp_all add: Validate_None_iff, simp add: Validate_def)

text \<open>C23: \<open>TopoSort\<close> always returns; it returns an order exactly for the valid graphs without a
  cycle, and on a valid graph with a cycle it returns \<open>ErrCycle\<close> with a count of sorted nodes
  below the total.\<close>

theorem TopoSort_decides:
  "TopoSort d \<noteq> None
   \<and> (\<exists>out. TopoSort d = Some (Inr out)) = (\<exists>g. d = Some g \<and> well_formed g \<and> acyclic (edge_rel g))
   \<and> (\<exists>k n. TopoSort d = Some (Inl (ErrCycle k n)) \<and> k < n)
     = (\<exists>g. d = Some g \<and> well_formed g \<and> \<not> acyclic (edge_rel g))"
proof (cases d)
  case None
  then show ?thesis by (simp add: TopoSort_def Validate_def)
next
  case (Some g)
  show ?thesis
  proof (cases "well_formed g")
    case False
    then have "\<exists>err. Validate (Some g) = Some err"
      using Validate_None_iff by blast
    with False Some show ?thesis by (auto simp: TopoSort_def)
  next
    case True
    obtain out where
      out: "TopoSort (Some g) =
       Some (if length out \<noteq> length (Nodes g)
             then Inl (ErrCycle (length out) (length (Nodes g))) else Inr out)"
      "distinct out" "set out \<subseteq> set (node_ids g)" "greedy_prefix g out" "avail g (set out) = {}"
      by (rule TopoSort_run [OF True])
    have le: "length out \<le> length (Nodes g)"
      using distinct_length_le_card [OF out(2,3)] well_formedD(2) [OF True]
      by (simp add: distinct_card) (simp add: node_ids_def)
    have ac: "acyclic (edge_rel g)" if "length out = length (Nodes g)"
    proof (rule topo_order_acyclic [OF greedy_topo_order True])
      show "greedy_prefix g out" "distinct out" by fact+
      show "set out = set (node_ids g)"
        using that out(2,3) well_formedD(2) [OF True]
        by (intro distinct_full_length) (auto simp: node_ids_def)
    qed
    show ?thesis
      using Some True out(1) le ac TopoSort_acyclic [OF True] by auto
  qed
qed

text \<open>C24: an order returned by \<open>TopoSort\<close> lists every node once, puts the source of every edge
  before its target, and at every position has the least node ID whose predecessors are all
  earlier: the reproducible tie-break.\<close>

theorem TopoSort_order:
  "TopoSort (Some g) = Some (Inr out) \<Longrightarrow> topo_order g out \<and> greedy_prefix g out"
  using TopoSort_Inr_greedy greedy_topo_order by blast

theorem TopoSort_order_witness:
  "topo_order ex_diamond [''a'', ''b'', ''c'', ''d'']
   \<and> greedy_prefix ex_diamond [''a'', ''b'', ''c'', ''d'']"
  by (rule TopoSort_order [OF ex_diamond_sort])

text \<open>The order does not depend on how nodes and edges are listed in the stored graph: two
  graphs whose node and edge lists are permutations of each other get the same order.\<close>

theorem TopoSort_reproducible:
  assumes "mset (Nodes g) = mset (Nodes h)" "mset (Edges g) = mset (Edges h)"
    and "TopoSort (Some g) = Some (Inr out)"
  shows "TopoSort (Some h) = Some (Inr out)"
proof -
  have ids: "mset (node_ids g) = mset (node_ids h)"
    using assms(1) by (simp add: node_ids_def)
  have sets: "set (Nodes g) = set (Nodes h)" "set (Edges g) = set (Edges h)"
      "set (node_ids g) = set (node_ids h)"
    using assms(1,2) ids by (metis set_mset_mset)+
  then have rel: "edge_rel g = edge_rel h" by (simp add: edge_rel_def)
  have wf: "well_formed g" using assms(3) by (rule TopoSort_Inr_wf)
  moreover have "Nodes h \<noteq> []" using wf sets(1) by (auto simp: well_formed_def)
  ultimately have wfh: "well_formed h"
    using distinct_mset_cong [OF ids] sets by (simp add: well_formed_def)
  have og: "distinct out" "set out = set (node_ids g)" "greedy_prefix g out"
    using TopoSort_Inr_greedy [OF assms(3)] by auto
  then have "acyclic (edge_rel h)"
    using topo_order_acyclic [OF greedy_topo_order wf] rel by simp
  with TopoSort_acyclic [OF wfh] obtain out' where out': "TopoSort (Some h) = Some (Inr out')"
    by blast
  from TopoSort_Inr_greedy [OF this] have
    oh: "distinct out'" "set out' = set (node_ids h)" "greedy_prefix h out'" by auto
  have "length out' = length out"
    using og oh sets(3) by (metis distinct_card)
  then have "out' = out"
    using greedy_prefix_unique [of h out' out] greedy_prefix_cong [OF sets(3) rel] og(3) oh(3)
    by simp
  with out' show ?thesis by simp
qed

theorem TopoSort_reproducible_witness:
  "TopoSort (Some ex_diamond') = Some (Inr [''a'', ''b'', ''c'', ''d''])"
  by (rule TopoSort_reproducible [OF _ _ ex_diamond_sort]) (simp_all add: ex_dag_defs)

end
