(* ===== verification/Strategy_Props.thy ===== *)
theory Strategy_Props
  imports Strategy_Service Dag_Topo
begin

text \<open>
  Clone, export and import of strategies, and concrete inputs for the properties of the strategy
  service.
\<close>

section \<open>The graph of a clone\<close>

lemma id_map_fold:
  "foldl (\<lambda>m n. m(nd_ID n \<mapsto> nd_ID n @ sfx)) m ns k = (if k \<in> nd_ID ` set ns then Some (k @ sfx) else m k)"
  by (induction ns arbitrary: m) auto

lemma id_map_iff: "id_map sfx g k = (if k \<in> set (node_ids g) then Some (k @ ''_'' @ sfx) else None)"
  by (simp add: id_map_def id_map_fold node_ids_def)

definition renamed :: "strat_env \<Rightarrow> string \<Rightarrow> string" where
  "renamed env i = i @ ''_'' @ generateCode env ''n''"

lemma inj_renamed: "inj (renamed env)"
  by (rule injI) (simp add: renamed_def)

definition renamed_edge :: "strat_env \<Rightarrow> edge \<Rightarrow> edge" where
  "renamed_edge env e =
     e\<lparr>ed_ID := renamed env (ed_ID e), ed_Source := renamed env (ed_Source e), ed_Target := renamed env (ed_Target e)\<rparr>"

lemma map_filter_all:
  "(\<And>x. x \<in> set xs \<Longrightarrow> f x = Some (h x)) \<Longrightarrow> List.map_filter f xs = map h xs"
  by (induction xs) (auto simp: List.map_filter_def)

lemma remapDAG_eq:
  assumes "well_formed g"
  shows "fst (remapDAG env g) =
    \<lparr>Nodes = map (\<lambda>n. n\<lparr>nd_ID := renamed env (nd_ID n)\<rparr>) (Nodes g), Edges = map (renamed_edge env) (Edges g)\<rparr>"
proof -
  have "remap_edge (generateCode env ''n'') (id_map (generateCode env ''n'') g) e = Some (renamed_edge env e)"
    if "e \<in> set (Edges g)" for e
    using that assms by (cases e) (auto simp: well_formed_def remap_edge_def id_map_iff renamed_edge_def renamed_def)
  then have "List.map_filter (remap_edge (generateCode env ''n'') (id_map (generateCode env ''n'') g)) (Edges g)
      = map (renamed_edge env) (Edges g)"
    by (rule map_filter_all)
  then show ?thesis by (simp add: remapDAG_def Let_def renamed_def)
qed

lemma renamed_not_Nil: "renamed env i \<noteq> []"
  by (simp add: renamed_def)

lemma remapDAG_node_ids: "node_ids (fst (remapDAG env g)) = map (renamed env) (node_ids g)"
  by (simp add: remapDAG_def Let_def node_ids_def renamed_def)

lemma remapDAG_edge_rel:
  "well_formed g \<Longrightarrow> edge_rel (fst (remapDAG env g)) = map_prod (renamed env) (renamed env) ` edge_rel g"
  by (force simp: remapDAG_eq edge_rel_def renamed_edge_def)

lemma remapDAG_well_formed:
  assumes "well_formed g"
  shows "well_formed (fst (remapDAG env g))"
  unfolding well_formed_def remapDAG_node_ids
  using assms inj_renamed [of env]
  by (auto simp: remapDAG_eq [OF assms] well_formed_def distinct_map renamed_not_Nil renamed_edge_def
      inj_eq intro: inj_on_subset)

lemma trancl_image_inj:
  assumes "inj f" "(x, y) \<in> (map_prod f f ` r)\<^sup>+"
  shows "\<exists>a b. x = f a \<and> y = f b \<and> (a, b) \<in> r\<^sup>+"
  using assms(2)
proof (induction rule: trancl.induct)
  case (trancl_into_trancl x y z)
  then obtain a b c d where *: "x = f a" "y = f b" "(a, b) \<in> r\<^sup>+" "y = f c" "z = f d" "(c, d) \<in> r" by auto
  then have "b = c" using assms(1) by (metis injD)
  then show ?case using * by (intro exI [of _ a] exI [of _ d]) (auto intro: trancl.trancl_into_trancl)
qed auto

lemma trancl_map_prod: "(a, b) \<in> r\<^sup>+ \<Longrightarrow> (f a, f b) \<in> (map_prod f f ` r)\<^sup>+"
proof (induction rule: trancl.induct)
  case (trancl_into_trancl a b c)
  then have "(f b, f c) \<in> map_prod f f ` r" by force
  with trancl_into_trancl(3) show ?case by (rule trancl.trancl_into_trancl)
qed force

lemma acyclic_renamed: "inj f \<Longrightarrow> acyclic (map_prod f f ` r) \<longleftrightarrow> acyclic r"
  unfolding acyclic_def by (metis injD trancl_image_inj trancl_map_prod)

lemma sorted_iff_acyclic:
  assumes wf: "well_formed g"
  shows "is_ok (the (TopoSort (Some g))) \<longleftrightarrow> acyclic (edge_rel g)"
proof
  assume "acyclic (edge_rel g)"
  then show "is_ok (the (TopoSort (Some g)))" using TopoSort_acyclic [OF wf] by auto
next
  assume "is_ok (the (TopoSort (Some g)))"
  moreover obtain out where "TopoSort (Some g) =
       Some (if length out \<noteq> length (Nodes g)
             then Inl (ErrCycle (length out) (length (Nodes g))) else Inr out)"
    by (rule TopoSort_run [OF wf])
  ultimately have "TopoSort (Some g) = Some (Inr out)" by (auto split: if_splits)
  note o = TopoSort_Inr_greedy [OF this]
  show "acyclic (edge_rel g)" using topo_order_acyclic [OF greedy_topo_order wf] o by blast
qed

text \<open>C17: The graph of a clone is the source graph with every node renamed by one injective map:
  the same nodes in the same order with their type, subtype, parameters and position, every edge
  between the renamed ends with its handles, none dropped; it is valid, and it can be sorted exactly
  when the source can.\<close>

theorem remapDAG_isomorphic:
  assumes "Validate (Some g) = None" "remapDAG env g = (g', m)"
  shows "\<exists>f. inj f \<and> (\<forall>i. m i = (if i \<in> set (node_ids g) then Some (f i) else None))
    \<and> Nodes g' = map (\<lambda>n. n\<lparr>nd_ID := f (nd_ID n)\<rparr>) (Nodes g)
    \<and> Edges g' = map (\<lambda>e. e\<lparr>ed_ID := f (ed_ID e), ed_Source := f (ed_Source e), ed_Target := f (ed_Target e)\<rparr>) (Edges g)
    \<and> Validate (Some g') = None
    \<and> (is_ok (the (TopoSort (Some g'))) \<longleftrightarrow> is_ok (the (TopoSort (Some g))))"
proof (intro exI [of _ "renamed env"] conjI allI)
  have wf: "well_formed g" using assms(1) by (simp add: Validate_None_iff)
  have g': "g' = fst (remapDAG env g)" using assms(2) by simp
  have m: "m = id_map (generateCode env ''n'') g" using assms(2) by (auto simp: remapDAG_def Let_def)
  show "inj (renamed env)" by (rule inj_renamed)
  show "m i = (if i \<in> set (node_ids g) then Some (renamed env i) else None)" for i
    by (simp add: m id_map_iff renamed_def)
  show "Nodes g' = map (\<lambda>n. n\<lparr>nd_ID := renamed env (nd_ID n)\<rparr>) (Nodes g)"
    by (simp add: g' remapDAG_eq [OF wf])
  show "Edges g' = map (\<lambda>e. e\<lparr>ed_ID := renamed env (ed_ID e), ed_Source := renamed env (ed_Source e),
      ed_Target := renamed env (ed_Target e)\<rparr>) (Edges g)"
    by (simp add: g' remapDAG_eq [OF wf] renamed_edge_def)
  have wf': "well_formed g'" by (simp add: g' remapDAG_well_formed [OF wf])
  then show "Validate (Some g') = None" by (simp add: Validate_None_iff)
  have sortable: "is_ok (the (TopoSort (Some h))) \<longleftrightarrow> acyclic (edge_rel h)" if "well_formed h" for h
    using sorted_iff_acyclic [OF that] .
  show "is_ok (the (TopoSort (Some g'))) \<longleftrightarrow> is_ok (the (TopoSort (Some g)))"
    unfolding sortable [OF wf] sortable [OF wf'] unfolding g' remapDAG_edge_rel [OF wf]
    by (rule acyclic_renamed [OF inj_renamed])
qed

definition demo_env :: strat_env where
  "demo_env =
     \<lparr>se_fail = (\<lambda>_. None), se_duplicate = ''UNIQUE constraint failed'', se_now = 0, se_codes = (\<lambda>_. (1000007, [1, 171, 16])),
      se_json = demo_json, se_indent = (\<lambda>_. ''exported''), se_cron = (\<lambda>_. None), se_parse_text = (\<lambda>_. ''invalid''),
      se_quote = id\<rparr>"

lemma demo_code: "generateCode demo_env ''n'' = ''n_7_01ab10''"
  by code_simp

theorem remapDAG_isomorphic_witness:
  "\<exists>f. inj f \<and> Nodes (fst (remapDAG demo_env ex_diamond)) = map (\<lambda>n. n\<lparr>nd_ID := f (nd_ID n)\<rparr>) (Nodes ex_diamond)
    \<and> is_ok (the (TopoSort (Some (fst (remapDAG demo_env ex_diamond)))))"
proof -
  have v: "Validate (Some ex_diamond) = None" by code_simp
  obtain g' m where g': "remapDAG demo_env ex_diamond = (g', m)" by force
  show ?thesis
    using remapDAG_isomorphic [OF v g'] by (auto simp: g' ex_diamond_sort)
qed

section \<open>Export and import\<close>

lemma export_names:
  "fold_name ''code'' = ''CODE''" "fold_name ''name'' = ''NAME''" "fold_name ''description'' = ''DESCRIPTION''"
  "fold_name ''tags'' = ''TAGS''" "fold_name ''status'' = ''STATUS''" "fold_name ''dag_json'' = ''DAG_JSON''"
  by code_simp+

lemma decode_export_doc:
  "decode_export (export_doc s) =
     Some \<lparr>cs_Code = st_Code s, cs_Name = st_Name s, cs_Description = st_Description s, cs_Tags = st_Tags s,
           cs_DAGJson = st_DAGJson s\<rparr>"
  by (simp add: decode_export_def export_doc_def export_names)

text \<open>C22: What Export writes for a strategy whose stored graph still parses, whose name is not blank and
  whose code is neither empty nor surrounded by blanks, Import turns into a new draft strategy with
  the same code, name, description, tags and graph, at version 1 and without a schedule, provided
  the text is read back as the document it was written from, no statement fails and the versions
  table has no rows of strategies yet to come.  Where the code is taken, as it is in the database
  the export came from, Import answers with a conflict and changes nothing, although a colliding
  code is documented to be replaced.  (A clone of a strategy with textual node parameters is stored
  as a graph that does not parse, so it is exported but not covered here.)\<close>

theorem Import_Export:
  assumes "strat_Export env i (Some db) = Inr t" "tb_first i (sd_strategies db) = Some s"
    and "jl_parse (se_json env') t = Inr (export_doc s)" "TrimSpace t \<noteq> []"
    and "TrimSpace (st_Name s) \<noteq> []" "TrimSpace (st_Code s) = st_Code s" "st_Code s \<noteq> []"
    and "is_ok (ParseDAG (se_json env') (st_DAGJson s))" "st_DAGJson s \<noteq> []" "\<forall>k. se_fail env' k = None"
    and "\<forall>v\<in>set (sd_versions db'). ver_StrategyID v < tb_next (sd_strategies db')"
  shows "strat_Import env' t (Some db') =
     (if code_taken (st_Code s) db'
      then (Inl (wrapped CodeConflict ''create strategy'' (se_duplicate env')), Some db')
      else let i' = tb_next (sd_strategies db');
               s' = s\<lparr>st_Status := StrategyStatusDraft, st_CurrentVersion := 1, st_CronExpression := []\<rparr>;
               v = \<lparr>ver_StrategyID = i', ver_Version = 1, ver_DAGJson = st_DAGJson s, ver_ChangeNote = ''initial'',
                    ver_SnapshotTakenAt = se_now env'\<rparr>
           in (Inr ((i', s'), v), Some (db'\<lparr>sd_strategies := snd (tb_create s' (sd_strategies db')),
                                            sd_versions := sd_versions db' @ [v]\<rparr>)))
    \<and> fst (strat_Import env' t (Some db)) = Inl (wrapped CodeConflict ''create strategy'' (se_duplicate env'))"
proof -
  define inp where "inp = \<lparr>cs_Code = st_Code s, cs_Name = st_Name s, cs_Description = st_Description s,
     cs_Tags = st_Tags s, cs_DAGJson = st_DAGJson s\<rparr>"
  define s' where "s' = s\<lparr>st_Status := StrategyStatusDraft, st_CurrentVersion := 1, st_CronExpression := []\<rparr>"
  have imp: "strat_Import env' t (Some d) = strat_Create env' inp (Some d)" for d
  proof -
    have "parse_export env' t = Inr inp"
      using assms(3,4) by (simp add: parse_export_def check_def decode_export_doc inp_def)
    moreover have "valid_dag_json env' (st_DAGJson s) = Inr ()" using assms(8) by simp
    ultimately show ?thesis
      using assms(5) by (simp add: strat_Import_def name_required_def check_def inp_def del: valid_dag_json_Inr)
  qed
  have create: "strat_Create env' inp (Some d) =
      map_prod id Some (transaction env' 3 (create_pair env' 1 ''create strategy'' ''create strategy version'' s' ''initial'') d)" for d
  proof -
    have "valid_dag_json env' (st_DAGJson s) = Inr ()" using assms(8) by simp
    then show ?thesis
      using assms(5-9) by (cases s) (simp add: strat_Create_def name_required_def check_def inp_def s'_def del: valid_dag_json_Inr)
  qed
  have taken: "code_taken (st_Code s) db"
  proof -
    have "(i, s) \<in> set (tb_rows (sd_strategies db))" using assms(2) by (auto simp: tb_first_def dest: map_of_SomeD)
    then show ?thesis by (force simp: code_taken_def)
  qed
  have s': "st_Code s' = st_Code s" "st_DAGJson s' = st_DAGJson s" by (simp_all add: s'_def)
  have conflict: "strat_Import env' t (Some d) = (Inl (wrapped CodeConflict ''create strategy'' (se_duplicate env')), Some d)"
    if "code_taken (st_Code s) d" for d
    using that assms(10) by (simp add: imp create transaction_def create_pair_def insert_strategy_def stmt_def check_def s')
  have fresh: "(tb_next (sd_strategies db'), 1) \<notin> (\<lambda>w. (ver_StrategyID w, ver_Version w)) ` set (sd_versions db')"
    using assms(11) by auto
  show ?thesis
  proof (cases "code_taken (st_Code s) db'")
    case True
    then show ?thesis using conflict [OF True] conflict [OF taken] by simp
  next
    case False
    then have "strat_Import env' t (Some db') = (Inr ((tb_next (sd_strategies db'), s'),
        \<lparr>ver_StrategyID = tb_next (sd_strategies db'), ver_Version = 1, ver_DAGJson = st_DAGJson s,
         ver_ChangeNote = ''initial'', ver_SnapshotTakenAt = se_now env'\<rparr>),
        Some (db'\<lparr>sd_strategies := snd (tb_create s' (sd_strategies db')), sd_versions := sd_versions db' @
          [\<lparr>ver_StrategyID = tb_next (sd_strategies db'), ver_Version = 1, ver_DAGJson = st_DAGJson s,
            ver_ChangeNote = ''initial'', ver_SnapshotTakenAt = se_now env'\<rparr>]\<rparr>))"
      using assms(10) fresh
      by (simp add: imp create transaction_def create_pair_def insert_strategy_def insert_version_def stmt_def check_def s'
          tb_create_def Let_def)
    then show ?thesis using conflict [OF taken] False by (simp add: s'_def Let_def)
  qed
qed

section \<open>Concrete strategies\<close>

definition demo_create :: create_strategy where
  "demo_create = \<lparr>cs_Code = ''m'', cs_Name = ''M'', cs_Description = [], cs_Tags = ''t'', cs_DAGJson = ''request''\<rparr>"

definition demo_update :: update_strategy where
  "demo_update = \<lparr>us_Name = ''N'', us_Description = [], us_Tags = [], us_DAGJson = ''stored'', us_ChangeNote = ''sorted'',
     us_Status = ''active'', us_CronExpression = ''@daily''\<rparr>"

definition demo_requests :: "(strat_env \<times> strategy_request) list" where
  "demo_requests = [(demo_env, Create_strategy demo_create), (demo_env, Update_strategy 1 demo_update)]"

definition demo_strategy :: strategy where
  "demo_strategy = \<lparr>st_Code = ''m'', st_Name = ''N'', st_Description = [], st_Status = ''active'', st_Tags = [],
     st_CurrentVersion = 2, st_DAGJson = ''stored'', st_CronExpression = ''@daily''\<rparr>"

definition demo_db :: strategy_db where
  "demo_db = \<lparr>sd_strategies = \<lparr>tb_rows = [(1, demo_strategy)], tb_next = 2\<rparr>, sd_deleted = [],
     sd_versions = [\<lparr>ver_StrategyID = 1, ver_Version = 1, ver_DAGJson = ''request'', ver_ChangeNote = ''initial'', ver_SnapshotTakenAt = 0\<rparr>,
                    \<lparr>ver_StrategyID = 1, ver_Version = 2, ver_DAGJson = ''stored'', ver_ChangeNote = ''sorted'', ver_SnapshotTakenAt = 0\<rparr>]\<rparr>"

lemma demo_requests_run:
  "fst (fold (strategy_step None) demo_requests (Some empty_strategies, ())) = Some demo_db"
proof -
  have trims: "TrimSpace ''m'' = ''m''" "TrimSpace ''M'' = ''M''" "TrimSpace ''N'' = ''N''" "TrimSpace ''@daily'' = ''@daily''"
    by (simp_all add: TrimSpace_plain plain_char_def)
  have valid: "valid_dag_json demo_env ''request'' = Inr ()" "valid_dag_json demo_env ''stored'' = Inr ()"
    using demo_parse demo_stored by (simp_all add: demo_env_def)
  have env: "se_fail demo_env k = None" "se_now demo_env = 0" "se_cron demo_env c = None" for k c
    by (simp_all add: demo_env_def)
  have one: "fst (strategy_step None (demo_env, Create_strategy demo_create) (Some empty_strategies, ())) =
      Some \<lparr>sd_strategies = \<lparr>tb_rows = [(1, \<lparr>st_Code = ''m'', st_Name = ''M'', st_Description = [], st_Status = ''draft'',
                 st_Tags = ''t'', st_CurrentVersion = 1, st_DAGJson = ''request'', st_CronExpression = []\<rparr>)], tb_next = 2\<rparr>,
              sd_deleted = [], sd_versions = [\<lparr>ver_StrategyID = 1, ver_Version = 1, ver_DAGJson = ''request'',
                 ver_ChangeNote = ''initial'', ver_SnapshotTakenAt = 0\<rparr>]\<rparr>" (is "_ = Some ?db")
    by (simp add: strat_Create_def demo_create_def name_required_def check_def trims valid env transaction_def stmt_def
        create_pair_def insert_strategy_def insert_version_def code_taken_def empty_strategies_def empty_table_def
        tb_create_def Let_def status_defs del: valid_dag_json_Inr)
  have "fst (strategy_step None (demo_env, Update_strategy 1 demo_update) (Some ?db, ())) = Some demo_db"
    by (simp add: strat_Update_def check_update_def demo_update_def name_required_def check_def trims valid env
        transaction_def stmt_def update_body_def load_strategy_def save_strategy_def insert_version_def tb_first_def
        tb_save_def Let_def status_defs updated_row_def demo_db_def demo_strategy_def del: valid_dag_json_Inr)
  then show ?thesis using one by (simp add: demo_requests_def del: strategy_step.simps) (metis prod.collapse unit_eq)
qed

lemma demo_first: "tb_first 1 (sd_strategies demo_db) = Some demo_strategy"
  by code_simp

theorem strategy_versions_witness:
  "map ver_Version (versions_of 1 demo_db) = [1..2] \<and> is_ok (ParseDAG demo_json (st_DAGJson demo_strategy))"
proof -
  have "\<forall>(env, req)\<in>set demo_requests. se_json env = demo_json \<and> \<not> is_clone req"
    by (simp add: demo_requests_def demo_env_def is_clone_def)
  moreover have "st_CurrentVersion demo_strategy = 2" by (simp add: demo_strategy_def)
  ultimately show ?thesis
    using strategy_versions [OF demo_requests_run demo_first, of demo_json] by simp
qed

theorem Import_Export_witness:
  "map snd (tb_rows (sd_strategies (the (snd (strat_Import demo_env ''exported'' (Some empty_strategies))))))
     = [demo_strategy\<lparr>st_Status := StrategyStatusDraft, st_CurrentVersion := 1, st_CronExpression := []\<rparr>]
   \<and> fst (strat_Import demo_env ''exported'' (Some demo_db))
     = Inl (wrapped CodeConflict ''create strategy'' ''UNIQUE constraint failed'')"
proof -
  have e: "strat_Export demo_env 1 (Some demo_db) = Inr ''exported''"
    using demo_first by (simp add: strat_Export_def load_strategy_def stmt_def demo_env_def)
  have p: "jl_parse (se_json demo_env) ''exported'' = Inr (export_doc demo_strategy)"
    by (simp add: demo_env_def demo_json_def demo_texts_def export_doc_def demo_strategy_def)
  have t: "TrimSpace ''exported'' \<noteq> []" "TrimSpace (st_Name demo_strategy) \<noteq> []"
    "TrimSpace (st_Code demo_strategy) = st_Code demo_strategy" "st_Code demo_strategy \<noteq> []"
    "is_ok (ParseDAG (se_json demo_env) (st_DAGJson demo_strategy))" "st_DAGJson demo_strategy \<noteq> []"
    using demo_stored by (simp_all add: TrimSpace_plain plain_char_def demo_strategy_def demo_env_def)
  have f: "\<forall>k. se_fail demo_env k = None" by (simp add: demo_env_def demo_env_def)
  have v: "\<forall>v\<in>set (sd_versions empty_strategies). ver_StrategyID v < tb_next (sd_strategies empty_strategies)"
    by (simp add: empty_strategies_def)
  have free: "\<not> code_taken (st_Code demo_strategy) empty_strategies" by code_simp
  show ?thesis
    using Import_Export [OF e demo_first p t f v] free
    by (simp add: Let_def tb_create_def empty_strategies_def empty_table_def)
      (simp add: demo_env_def demo_env_def)
qed

end
