(* ===== verification/Ai_Edit.thy ===== *)
theory Ai_Edit
  imports Llm_Client Strategy_Props
begin

text \<open>
  The strategy assistant of \<open>ai/service.go\<close>: preview of a proposed graph and its confirmed application,
  with the audit rows.  The strategies are those of \<open>Strategy_Service\<close>; the language model is the
  provider of \<open>Llm_Client\<close>, or nil.
\<close>

section \<open>Differences\<close>

text \<open>The nodes by identifier: of several nodes with one identifier the last counts.  The text of the
  parameters is that of their value.\<close>

definition params_text :: "json_lib \<Rightarrow> rf_node \<Rightarrow> string" where
  "params_text lib n =
     (case Option.bind (rn_Data n) (\<lambda>d. map_of d ''params'') of None \<Rightarrow> [] | Some v \<Rightarrow> jl_text lib v)"

definition indexNodes :: "json_lib \<Rightarrow> string \<Rightarrow> string \<Rightarrow> (string \<times> string) option" where
  "indexNodes lib dag =
     (case Option.bind (decode_react_flow lib dag) rf_Nodes of
        None \<Rightarrow> Map.empty
      | Some ns \<Rightarrow> map_of (rev (map (\<lambda>n. (rn_ID n, (rn_Type n, params_text lib n))) ns)))"

definition index_ids :: "json_lib \<Rightarrow> string \<Rightarrow> string list" where
  "index_ids lib dag =
     (case Option.bind (decode_react_flow lib dag) rf_Nodes of None \<Rightarrow> [] | Some ns \<Rightarrow> remdups (map rn_ID ns))"

definition change_of :: "(string \<times> string) option \<Rightarrow> (string \<times> string) option \<Rightarrow> string \<Rightarrow> string list" where
  "change_of cn pn i =
     (case (cn, pn) of
        (None, Some (ty, ps)) \<Rightarrow> [bytes [230, 150, 176, 229, 162, 158, 232, 138, 130, 231, 130, 185,
          32] @ i @ '' ('' @ ty @ '')'']
      | (Some (_, ps), Some (_, ps')) \<Rightarrow>
          (if ps = ps' then [] else [bytes [228, 191, 174, 230, 148, 185, 232, 138, 130, 231, 130, 185,
            32] @ i @ '': '' @ ps @ bytes [32, 226, 134, 146, 32] @ ps'])
      | (Some (ty, _), None) \<Rightarrow> [bytes [229, 136, 160, 233, 153, 164, 232, 138, 130, 231, 130, 185,
        32] @ i @ '' ('' @ ty @ '')'']
      | _ \<Rightarrow> [])"

text \<open>\<open>it\<close> is the order in which the maps are walked: proposed nodes first, then those that are gone.\<close>

definition diffDAG :: "json_lib \<Rightarrow> (string list \<Rightarrow> string list) \<Rightarrow> string \<Rightarrow> string \<Rightarrow> string list" where
  "diffDAG lib it current proposed =
     (let cur = indexNodes lib current; prop = indexNodes lib proposed
      in concat (map (\<lambda>i. change_of (cur i) (prop i) i) (it (index_ids lib proposed)))
         @ concat (map (\<lambda>i. if prop i = None then change_of (cur i) None i else []) (it (index_ids lib current))))"

section \<open>The service\<close>

definition AIDecisionPreview :: string where "AIDecisionPreview = ''preview''"
definition AIDecisionApplied :: string where "AIDecisionApplied = ''applied''"

record ai_audit =
  au_StrategyID :: nat
  au_IntentJson :: string
  au_Decision :: string
  au_DagDiffJson :: string

text \<open>The service: the audit table unless there is no database, the language model unless it is nil.\<close>

record ai_service =
  as_audits :: "ai_audit table option"
  as_llm :: "client option option"

text \<open>What a call finds: the environments of \<open>Get\<close> and \<open>Update\<close>, the walk over maps and the error of the
  audit statement.\<close>

record 'w ai_env =
  ae_llm :: "'w llm_env"
  ae_get :: strat_env
  ae_update :: strat_env
  ae_walk :: "string list \<Rightarrow> string list"
  ae_audit :: "string option"

abbreviation ae_json :: "'w ai_env \<Rightarrow> json_lib" where
  "ae_json env \<equiv> le_json (ae_llm env)"

text \<open>A nil list of changes is written as null.\<close>

definition audit_row :: "'w ai_env \<Rightarrow> nat \<Rightarrow> string \<Rightarrow> string \<Rightarrow> string list option \<Rightarrow> client option \<Rightarrow> ai_audit" where
  "audit_row env i instruction decision changes p =
     \<lparr>au_StrategyID = i,
      au_IntentJson = jl_text (ae_json env)
        (JObj [(''instruction'', JStr instruction), (''llm'', JStr (provider_Name p))]),
      au_Decision = decision,
      au_DagDiffJson = jl_text (ae_json env)
        (JObj [(''changes'', case changes of None \<Rightarrow> JNull | Some cs \<Rightarrow> JArr (map JStr cs))])\<rparr>"

text \<open>The identifier of the row, 0 when it could not be written; \<^const>\<open>None\<close> is the panic of a nil language
  model.\<close>

definition writeAudit ::
  "'w ai_env \<Rightarrow> nat \<Rightarrow> string \<Rightarrow> string \<Rightarrow> string list option \<Rightarrow> ai_service \<Rightarrow> nat option \<times> ai_service" where
  "writeAudit env i instruction decision changes s =
     (case as_audits s of
        None \<Rightarrow> (Some 0, s)
      | Some t \<Rightarrow>
          (case as_llm s of
             None \<Rightarrow> (None, s)
           | Some p \<Rightarrow>
               if ae_audit env = None
               then (case tb_create (audit_row env i instruction decision changes p) t of
                       (k, t') \<Rightarrow> (Some k, s\<lparr>as_audits := Some t'\<rparr>))
               else (Some 0, s)))"

record preview_result =
  pr_StrategyID :: nat
  pr_Instruction :: string
  pr_CurrentDAG :: string
  pr_ProposedDAG :: string
  pr_Changes :: "string list"
  pr_Changed :: bool
  pr_AuditID :: nat
  pr_LLM :: string

definition proposal_valid :: "'w ai_env \<Rightarrow> string \<Rightarrow> service_error + unit" where
  "proposal_valid env dag =
     (case ParseDAG (ae_json env) dag of
        Inl e \<Rightarrow> Inl (Biz (InvalidArg (''ai: proposed dag is invalid: '' @ se_parse_text (ae_get env) e)))
      | Inr _ \<Rightarrow> Inr ())"

text \<open>\<^const>\<open>None\<close> is a panic.\<close>

definition ai_Preview ::
  "'w ai_env \<Rightarrow> nat \<Rightarrow> string \<Rightarrow> strategy_db option \<Rightarrow> ai_service \<Rightarrow> 'w
   \<Rightarrow> (service_error + preview_result) option \<times> ai_service \<times> 'w" where
  "ai_Preview env i instruction db s w =
     (case as_llm s of
        None \<Rightarrow> (Some (Inl (Biz (Unavailable ''ai: assistant disabled''))), s, w)
      | Some p \<Rightarrow>
          if instruction = [] then (Some (Inl (Biz (InvalidArg ''instruction is required''))), s, w)
          else case strat_Get (ae_get env) i db of
                 Inl e \<Rightarrow> (Some (Inl e), s, w)
               | Inr detail \<Rightarrow>
                   let current = dt_CurrentVersionDAG detail
                   in (case provider_ask (ae_llm env) p (AskDAG current instruction) w of
                         (Inl e, w') \<Rightarrow> (Some (Inl (wrapped CodeInternal ''ai: llm propose'' e)), s, w')
                       | (Inr proposed, w') \<Rightarrow>
                           (case proposal_valid env proposed of
                              Inl e \<Rightarrow> (Some (Inl e), s, w')
                            | Inr _ \<Rightarrow>
                                let changes = diffDAG (ae_json env) (ae_walk env) current proposed
                                in (case writeAudit env i instruction AIDecisionPreview (Some changes) s of
                                      (a, s') \<Rightarrow>
                                        (map_option (\<lambda>k. Inr
                                           \<lparr>pr_StrategyID = i, pr_Instruction = instruction, pr_CurrentDAG = current,
                                            pr_ProposedDAG = proposed, pr_Changes = changes,
                                            pr_Changed = (changes \<noteq> []), pr_AuditID = k, pr_LLM = provider_Name p\<rparr>) a,
                                         s', w')))))"

record apply_result =
  ap_StrategyID :: nat
  ap_Version :: int
  ap_AuditID :: nat

definition apply_input :: "string \<Rightarrow> string \<Rightarrow> strategy \<Rightarrow> update_strategy" where
  "apply_input proposed instruction d =
     \<lparr>us_Name = st_Name d, us_Description = st_Description d, us_Tags = st_Tags d, us_DAGJson = proposed,
      us_ChangeNote = ''AI: '' @ instruction, us_Status = [], us_CronExpression = []\<rparr>"

definition ai_Apply ::
  "'w ai_env \<Rightarrow> 'r reloader option \<Rightarrow> nat \<Rightarrow> string \<Rightarrow> string \<Rightarrow> strategy_db option \<times> 'r \<Rightarrow> ai_service
   \<Rightarrow> (service_error + apply_result) option \<times> (strategy_db option \<times> 'r) \<times> ai_service" where
  "ai_Apply env rl i proposed instruction st s =
     (if proposed = [] then (Some (Inl (Biz (InvalidArg ''proposed_dag is required''))), st, s)
      else case and_then (proposal_valid env proposed) (\<lambda>_. strat_Get (ae_get env) i (fst st)) of
             Inl e \<Rightarrow> (Some (Inl e), st, s)
           | Inr detail \<Rightarrow>
               (case strat_Update (ae_update env) rl i (apply_input proposed instruction (dt_Strategy detail)) st of
                  (Inl e, st') \<Rightarrow> (Some (Inl e), st', s)
                | (Inr (_, ver), st') \<Rightarrow>
                    (case writeAudit env i instruction AIDecisionApplied None s of
                       (a, s') \<Rightarrow>
                         (map_option (\<lambda>k. Inr \<lparr>ap_StrategyID = i, ap_Version = ver_Version ver, ap_AuditID = k\<rparr>) a, st', s'))))"

section \<open>What a preview and an application do\<close>

lemma writeAudit_result:
  "writeAudit env i instr dec ch s = (a, s') \<Longrightarrow>
   as_llm s' = as_llm s \<and> (a = None \<longleftrightarrow> as_audits s \<noteq> None \<and> as_llm s = None)
   \<and> (s' = s \<or> (\<exists>t p. as_audits s = Some t \<and> as_llm s = Some p \<and> a = Some (tb_next t)
        \<and> s' = s\<lparr>as_audits := Some (snd (tb_create (audit_row env i instr dec ch p) t))\<rparr>))"
  by (auto simp: writeAudit_def tb_create_def split: option.splits if_splits)

text \<open>The strategy is loaded once by \<open>Get\<close> and again by \<open>Update\<close>.\<close>

lemma strat_Get_Inr:
  "strat_Get env i db_opt = Inr d \<Longrightarrow>
   \<exists>db s. db_opt = Some db \<and> tb_first i (sd_strategies db) = Some s \<and> dt_Strategy d = s"
  by (auto simp: strat_Get_def and_then_Inr Let_def split: option.splits if_splits dest!: load_strategy_Inr)

lemma strat_Update_keeps:
  assumes "strat_Update env rl i inp (Some db, r) = (Inl e, st')"
  shows "st' = (Some db, r)"
  using assms by (auto simp: strat_Update_def transaction_def split: sum.splits prod.splits)

lemma strat_Update_Inr:
  assumes "strat_Update env rl i inp (Some db, r) = (Inr (s', v), st')"
  obtains db' v' u where "update_body env i inp db = Inr ((s', v'), db')" "v = shown_version s' v'"
    "st' = (Some db', scheduleSync rl i s' r)" "check_update env inp = Inr u"
  using assms
  by (auto simp: strat_Update_def transaction_def and_then_Inr split: sum.splits prod.splits)

lemma updated_same: "updated_row (apply_input p instr s) s = s"
  by (cases s) (simp add: updated_row_def apply_input_def TrimSpace_empty)

lemma index_ids_dom: "set (index_ids lib dag) = dom (indexNodes lib dag)"
  by (force simp: index_ids_def indexNodes_def dom_map_of_conv_image_fst split: option.split)

text \<open>A preview reports no change exactly when the two documents have the same node identifiers with the
  same parameters: edges, node types and positions are not compared.\<close>

theorem diffDAG_blind:
  assumes "\<And>xs. set (it xs) = set xs"
  shows "diffDAG lib it current proposed = []
    \<longleftrightarrow> (\<forall>i. map_option snd (indexNodes lib current i) = map_option snd (indexNodes lib proposed i))"
proof -
  let ?c = "indexNodes lib current" and ?p = "indexNodes lib proposed"
  have "diffDAG lib it current proposed = []
      \<longleftrightarrow> (\<forall>i\<in>dom ?p. change_of (?c i) (?p i) i = []) \<and> (\<forall>i\<in>dom ?c. ?p i = None \<longrightarrow> change_of (?c i) None i = [])"
    unfolding diffDAG_def Let_def index_ids_dom [symmetric] using assms by (auto split: if_splits)
  also have "\<dots> \<longleftrightarrow> (\<forall>i. map_option snd (?c i) = map_option snd (?p i))"
  proof (intro iffI allI)
    fix i
    assume *: "(\<forall>i\<in>dom ?p. change_of (?c i) (?p i) i = []) \<and> (\<forall>i\<in>dom ?c. ?p i = None \<longrightarrow> change_of (?c i) None i = [])"
    show "map_option snd (?c i) = map_option snd (?p i)"
      using * by (cases "?c i"; cases "?p i") (force simp: change_of_def domIff split: if_splits)+
  next
    assume *: "\<forall>i. map_option snd (?c i) = map_option snd (?p i)"
    have "change_of (?c i) (?p i) i = []" for i
      using * [rule_format, of i] by (cases "?c i"; cases "?p i") (auto simp: change_of_def split: prod.split)
    then show "(\<forall>i\<in>dom ?p. change_of (?c i) (?p i) i = []) \<and> (\<forall>i\<in>dom ?c. ?p i = None \<longrightarrow> change_of (?c i) None i = [])"
      by metis
  qed
  finally show ?thesis .
qed

definition applied_strategy :: "string \<Rightarrow> strategy \<Rightarrow> strategy" where
  "applied_strategy proposed st =
     (if proposed = st_DAGJson st then st
      else st\<lparr>st_DAGJson := proposed, st_CurrentVersion := st_CurrentVersion st + 1\<rparr>)"

lemma ai_Apply_Inr:
  assumes "ai_Apply env rl i proposed instr (Some db, r) s = (Some (Inr a), (db_opt, r'), s')"
  obtains st db' x where "tb_first i (sd_strategies db) = Some st" "db_opt = Some db'"
    "is_ok (ParseDAG (ae_json env) proposed)"
    "db' = db\<lparr>sd_strategies := tb_save i (applied_strategy proposed st) (sd_strategies db),
              sd_versions := sd_versions db @
                (if proposed = st_DAGJson st then []
                 else [\<lparr>ver_StrategyID = i, ver_Version = st_CurrentVersion st + 1, ver_DAGJson = proposed,
                        ver_ChangeNote = ''AI: '' @ instr, ver_SnapshotTakenAt = se_now (ae_update env)\<rparr>])\<rparr>"
    "a = \<lparr>ap_StrategyID = i, ap_Version = st_CurrentVersion (applied_strategy proposed st), ap_AuditID = ap_AuditID a\<rparr>"
    "writeAudit env i instr AIDecisionApplied None s = (Some (ap_AuditID a), s')"
    "check_update (ae_update env) (apply_input proposed instr st) = Inr ()"
    "update_body (ae_update env) i (apply_input proposed instr st) db = Inr (x, db')"
proof -
  from assms have ne: "proposed \<noteq> []" by (auto simp: ai_Apply_def)
  from assms ne obtain d where get: "proposal_valid env proposed = Inr ()" "strat_Get (ae_get env) i (Some db) = Inr d"
    by (cases "proposal_valid env proposed"; cases "strat_Get (ae_get env) i (Some db)")
      (auto simp: ai_Apply_def)
  then obtain st where st: "tb_first i (sd_strategies db) = Some st" "dt_Strategy d = st" by (auto dest: strat_Get_Inr)
  obtain u o1 r1 where u: "strat_Update (ae_update env) rl i (apply_input proposed instr st) (Some db, r) = (u, o1, r1)"
    by (metis prod.collapse)
  obtain k s1 where k: "writeAudit env i instr AIDecisionApplied None s = (k, s1)" by fastforce
  obtain sv where sv: "u = Inr sv" using assms ne get st u by (cases u) (auto simp: ai_Apply_def)
  then have out: "db_opt = o1" "a = \<lparr>ap_StrategyID = i, ap_Version = ver_Version (snd sv), ap_AuditID = ap_AuditID a\<rparr>"
    "k = Some (ap_AuditID a)" "s1 = s'"
    using assms ne get st u k by (auto simp: ai_Apply_def split: prod.splits)
  obtain s2 v2 where sv2: "sv = (s2, v2)" by fastforce
  obtain db' v' where b: "update_body (ae_update env) i (apply_input proposed instr st) db = Inr ((s2, v'), db')"
    "v2 = shown_version s2 v'" "o1 = Some db'" "check_update (ae_update env) (apply_input proposed instr st) = Inr ()"
    by (rule strat_Update_Inr [OF u [unfolded sv sv2]]) auto
  have ap: "us_DAGJson (apply_input proposed instr st) = proposed"
    "us_ChangeNote (apply_input proposed instr st) = ''AI: '' @ instr" by (simp_all add: apply_input_def)
  show thesis
  proof (rule that [of st db' "(s2, v')"])
    show "is_ok (ParseDAG (ae_json env) proposed)" using get(1) by (auto simp: proposal_valid_def is_ok_iff split: sum.splits)
    from update_body_Inr [OF b(1)] obtain st2 where "tb_first i (sd_strategies db) = Some st2"
      and new: "proposed \<noteq> [] \<and> proposed \<noteq> st_DAGJson st2 \<longrightarrow>
        s2 = (updated_row (apply_input proposed instr st) st2)\<lparr>st_DAGJson := proposed, st_CurrentVersion := st_CurrentVersion st2 + 1\<rparr>
        \<and> v' = Some \<lparr>ver_StrategyID = i, ver_Version = st_CurrentVersion s2, ver_DAGJson = proposed,
                 ver_ChangeNote = ''AI: '' @ instr, ver_SnapshotTakenAt = se_now (ae_update env)\<rparr>
        \<and> db' = db\<lparr>sd_versions := sd_versions db @ [the v'], sd_strategies := tb_save i s2 (sd_strategies db)\<rparr>"
      and same: "proposed = [] \<or> proposed = st_DAGJson st2 \<longrightarrow>
        s2 = updated_row (apply_input proposed instr st) st2 \<and> v' = None
        \<and> db' = db\<lparr>sd_strategies := tb_save i s2 (sd_strategies db)\<rparr>"
      unfolding ap by metis
    then have [simp]: "st2 = st" using st(1) by simp
    show "db' = db\<lparr>sd_strategies := tb_save i (applied_strategy proposed st) (sd_strategies db),
              sd_versions := sd_versions db @
                (if proposed = st_DAGJson st then []
                 else [\<lparr>ver_StrategyID = i, ver_Version = st_CurrentVersion st + 1, ver_DAGJson = proposed,
                        ver_ChangeNote = ''AI: '' @ instr, ver_SnapshotTakenAt = se_now (ae_update env)\<rparr>])\<rparr>"
      using new same ne by (cases "proposed = st_DAGJson st") (simp_all add: applied_strategy_def updated_same)
    have "ver_Version v2 = st_CurrentVersion (applied_strategy proposed st)"
      using new same ne b(2)
      by (cases "proposed = st_DAGJson st") (simp_all add: applied_strategy_def updated_same shown_version_def)
    then show "a = \<lparr>ap_StrategyID = i, ap_Version = st_CurrentVersion (applied_strategy proposed st), ap_AuditID = ap_AuditID a\<rparr>"
      using out(2) sv2 by simp
  qed (use st out k b in simp_all)
qed

lemma ai_Apply_Inl:
  "ai_Apply env rl i proposed instr (Some db, r) s = (Some (Inl e), st', s') \<Longrightarrow> st' = (Some db, r) \<and> s' = s"
  by (auto simp: ai_Apply_def split: if_splits sum.splits prod.splits dest: strat_Update_keeps)

text \<open>C34: Applying a proposal succeeds only for a graph the parser accepts.  It then changes one strategy,
  in nothing but its graph and, when the graph differs, its version, which goes up by one and is
  recorded with the instruction; every other strategy and version stays, the invariant of the
  strategy tables is kept, and one audit row is written for it, if any.  When it reports an error,
  nothing has changed.\<close>

theorem ai_Apply_commits:
  assumes "ai_Apply env rl i proposed instr (Some db, r) s = (Some out, (db_opt, r'), s')"
    and "strategies_ok (\<lambda>j. is_ok (ParseDAG (ae_json env) j)) db"
  shows "case out of
      Inl e \<Rightarrow> db_opt = Some db \<and> r' = r \<and> s' = s
    | Inr a \<Rightarrow> is_ok (ParseDAG (ae_json env) proposed)
        \<and> (\<exists>st db'. tb_first i (sd_strategies db) = Some st \<and> db_opt = Some db'
            \<and> (\<forall>j. tb_first j (sd_strategies db') =
                 (if j = i then Some (applied_strategy proposed st) else tb_first j (sd_strategies db)))
            \<and> sd_versions db' = sd_versions db @
                (if proposed = st_DAGJson st then []
                 else [\<lparr>ver_StrategyID = i, ver_Version = st_CurrentVersion st + 1, ver_DAGJson = proposed,
                        ver_ChangeNote = ''AI: '' @ instr, ver_SnapshotTakenAt = se_now (ae_update env)\<rparr>])
            \<and> ap_Version a = st_CurrentVersion (applied_strategy proposed st)
            \<and> strategies_ok (\<lambda>j. is_ok (ParseDAG (ae_json env) j)) db'
            \<and> (s' = s \<or> (\<exists>t p. as_audits s = Some t
                \<and> s' = s\<lparr>as_audits := Some (snd (tb_create (audit_row env i instr AIDecisionApplied None p) t))\<rparr>)))"
proof (cases out)
  case (Inl e)
  then show ?thesis using ai_Apply_Inl [of env rl i proposed instr db r s e "(db_opt, r')" s'] assms(1) by simp
next
  case (Inr a)
  from ai_Apply_Inr [OF assms(1) [unfolded Inr]] obtain st db' x where a: "tb_first i (sd_strategies db) = Some st"
    "db_opt = Some db'" "is_ok (ParseDAG (ae_json env) proposed)"
    "db' = db\<lparr>sd_strategies := tb_save i (applied_strategy proposed st) (sd_strategies db),
              sd_versions := sd_versions db @
                (if proposed = st_DAGJson st then []
                 else [\<lparr>ver_StrategyID = i, ver_Version = st_CurrentVersion st + 1, ver_DAGJson = proposed,
                        ver_ChangeNote = ''AI: '' @ instr, ver_SnapshotTakenAt = se_now (ae_update env)\<rparr>])\<rparr>"
    "a = \<lparr>ap_StrategyID = i, ap_Version = st_CurrentVersion (applied_strategy proposed st), ap_AuditID = ap_AuditID a\<rparr>"
    "writeAudit env i instr AIDecisionApplied None s = (Some (ap_AuditID a), s')"
    "check_update (ae_update env) (apply_input proposed instr st) = Inr ()"
    "update_body (ae_update env) i (apply_input proposed instr st) db = Inr (x, db')"
    by metis
  have rows: "tb_first j (sd_strategies db') =
      (if j = i then Some (applied_strategy proposed st) else tb_first j (sd_strategies db))" for j
    unfolding a(4) using tbl.first_save [OF strategies_okD(1) [OF assms(2)]] a(1) by simp
  have ok: "strategies_ok (\<lambda>j. is_ok (ParseDAG (ae_json env) j)) db'"
    using update_body_ok [OF assms(2) a(7), of i "fst x" "snd x" db'] a(3,8) by (simp add: apply_input_def)
  have v: "ap_Version a = st_CurrentVersion (applied_strategy proposed st)" by (subst a(5)) simp
  have "s' = s \<or> (\<exists>t p. as_audits s = Some t
      \<and> s' = s\<lparr>as_audits := Some (snd (tb_create (audit_row env i instr AIDecisionApplied None p) t))\<rparr>)"
    using writeAudit_result [OF a(6)] by auto
  then show ?thesis using Inr a(1-3) rows ok v by (auto simp: a(4))
qed

text \<open>What a preview returns: a proposal that the parser accepts, next to the stored graph; the model was
  asked with that graph.\<close>

lemma ai_Preview_result:
  assumes "ai_Preview env i instr (Some db) s w = (Some (Inr res), s', w')"
  shows "is_ok (ParseDAG (ae_json env) (pr_ProposedDAG res)) \<and> pr_StrategyID res = i
    \<and> (\<exists>d p. strat_Get (ae_get env) i (Some db) = Inr d \<and> pr_CurrentDAG res = dt_CurrentVersionDAG d \<and> as_llm s = Some p
        \<and> provider_ask (ae_llm env) p (AskDAG (pr_CurrentDAG res) instr) w = (Inr (pr_ProposedDAG res), w'))
    \<and> pr_Changed res = (pr_Changes res \<noteq> [])"
  using assms
  by (auto simp: ai_Preview_def Let_def proposal_valid_def is_ok_iff split: option.splits if_splits sum.splits prod.splits)

definition demo_ai :: "nat ai_env" where
  "demo_ai = \<lparr>ae_llm = demo_llm\<lparr>le_json := demo_json\<rparr>, ae_get = demo_env, ae_update = demo_env, ae_walk = id, ae_audit = None\<rparr>"

definition demo_service_ai :: ai_service where
  "demo_service_ai = \<lparr>as_audits = Some empty_table, as_llm = Some (Some MockClient)\<rparr>"

lemma demo_db_ok: "strategies_ok (\<lambda>j. is_ok (ParseDAG demo_json j)) demo_db"
proof -
  have "\<forall>er\<in>set demo_requests. admits (\<lambda>j. is_ok (ParseDAG demo_json j)) er"
    by (simp add: demo_requests_def admits_def demo_env_def)
  then show ?thesis
    using fold_strategy_ok [of "\<lambda>j. is_ok (ParseDAG demo_json j)" "(Some empty_strategies, ())" demo_requests None]
      demo_requests_run empty_strategies_ok by (simp add: db_ok_def)
qed

lemma demo_apply:
  "fst (ai_Apply demo_ai (None :: unit reloader option) 1 ''request'' ''undo'' (Some demo_db, ()) demo_service_ai)
     = Some (Inr \<lparr>ap_StrategyID = 1, ap_Version = 3, ap_AuditID = 1\<rparr>)"
proof -
  let ?up = "strat_Update demo_env (None :: unit reloader option) 1 (apply_input ''request'' ''undo'' demo_strategy) (Some demo_db, ())"
  have json: "se_json demo_env = demo_json" "le_json (ae_llm demo_ai) = demo_json" "ae_get demo_ai = demo_env"
    "ae_update demo_ai = demo_env" "ae_audit demo_ai = None"
    by (simp_all add: demo_env_def demo_ai_def)
  have env: "se_fail demo_env k = None" "se_now demo_env = 0" for k by (simp_all add: demo_env_def)
  have trims: "TrimSpace ''N'' = ''N''" by (simp add: TrimSpace_plain plain_char_def)
  have valid: "valid_dag_json demo_env ''request'' = Inr ()" using demo_parse by (simp add: json)
  have "proposal_valid demo_ai ''request'' = Inr ()"
    using demo_parse by (auto simp: proposal_valid_def json is_ok_iff split: sum.split)
  moreover have "strat_Get demo_env 1 (Some demo_db) = Inr \<lparr>dt_ID = 1, dt_Strategy = demo_strategy,
      dt_CurrentVersionDAG = ''stored'', dt_CurrentVersionNote = ''sorted''\<rparr>"
    by (simp add: strat_Get_def load_strategy_def env stmt_def demo_db_def demo_strategy_def tb_first_def Let_def)
  moreover have "fst (strat_Update demo_env (None :: unit reloader option) 1 (apply_input ''request'' ''undo'' demo_strategy)
      (Some demo_db, ())) = Inr (demo_strategy\<lparr>st_DAGJson := ''request'', st_CurrentVersion := 3\<rparr>,
        \<lparr>ver_StrategyID = 1, ver_Version = 3, ver_DAGJson = ''request'', ver_ChangeNote = ''AI: undo'', ver_SnapshotTakenAt = 0\<rparr>)"
    by (simp add: strat_Update_def check_update_def apply_input_def name_required_def check_def trims TrimSpace_empty valid env
        transaction_def stmt_def update_body_def load_strategy_def save_strategy_def insert_version_def tb_first_def
        Let_def updated_row_def demo_db_def demo_strategy_def shown_version_def del: valid_dag_json_Inr)
  ultimately have steps: "proposal_valid demo_ai ''request'' = Inr ()"
    "strat_Get demo_env 1 (Some demo_db) = Inr \<lparr>dt_ID = 1, dt_Strategy = demo_strategy,
      dt_CurrentVersionDAG = ''stored'', dt_CurrentVersionNote = ''sorted''\<rparr>"
    "fst ?up = Inr (demo_strategy\<lparr>st_DAGJson := ''request'', st_CurrentVersion := 3\<rparr>,
        \<lparr>ver_StrategyID = 1, ver_Version = 3, ver_DAGJson = ''request'', ver_ChangeNote = ''AI: undo'', ver_SnapshotTakenAt = 0\<rparr>)"
    by simp_all
  obtain o1 where up: "?up = (Inr (demo_strategy\<lparr>st_DAGJson := ''request'', st_CurrentVersion := 3\<rparr>,
        \<lparr>ver_StrategyID = 1, ver_Version = 3, ver_DAGJson = ''request'', ver_ChangeNote = ''AI: undo'', ver_SnapshotTakenAt = 0\<rparr>), o1)"
    using steps(3) by (cases ?up) simp
  have audit: "fst (writeAudit demo_ai 1 ''undo'' AIDecisionApplied None demo_service_ai) = Some 1"
    by (simp add: writeAudit_def json demo_service_ai_def tb_create_def empty_table_def)
  show ?thesis unfolding ai_Apply_def json fst_conv steps(1,2) and_then_simps sum.case strategy_detail.simps up prod.case
    using audit by (cases "writeAudit demo_ai 1 ''undo'' AIDecisionApplied None demo_service_ai") simp
qed

theorem ai_Apply_commits_witness:
  "\<exists>db'. fst (fst (snd (ai_Apply demo_ai (None :: unit reloader option) 1 ''request'' ''undo'' (Some demo_db, ()) demo_service_ai)))
      = Some db'
    \<and> tb_first 1 (sd_strategies db') = Some (demo_strategy\<lparr>st_DAGJson := ''request'', st_CurrentVersion := 3\<rparr>)"
proof -
  obtain o1 r1 s1 where a: "ai_Apply demo_ai (None :: unit reloader option) 1 ''request'' ''undo'' (Some demo_db, ()) demo_service_ai
      = (Some (Inr \<lparr>ap_StrategyID = 1, ap_Version = 3, ap_AuditID = 1\<rparr>), (o1, r1), s1)"
    using demo_apply by (metis prod.collapse)
  have json: "le_json (ae_llm demo_ai) = demo_json" by (simp add: demo_ai_def)
  have "st_CurrentVersion demo_strategy = 2" "st_DAGJson demo_strategy = ''stored''" by (simp_all add: demo_strategy_def)
  then have ap: "applied_strategy ''request'' demo_strategy = demo_strategy\<lparr>st_DAGJson := ''request'', st_CurrentVersion := 3\<rparr>"
    by (simp add: applied_strategy_def)
  obtain st db' where "tb_first 1 (sd_strategies demo_db) = Some st" "o1 = Some db'"
    "tb_first 1 (sd_strategies db') = Some (applied_strategy ''request'' st)"
    using ai_Apply_commits [OF a, unfolded json, OF demo_db_ok] unfolding sum.case by metis
  then show ?thesis unfolding a using demo_first ap by simp
qed

end
