(* ===== verification/Auth.thy ===== *)
theory Auth
  imports Row_Table App_Error Go_Text Node_Values "HOL-Library.Sublist"
begin

text \<open>
  \<open>auth/service.go\<close> and \<open>auth/middleware.go\<close>: password login with signed tokens, the bootstrap of the first
  administrator, password changes, and the gate in front of the protected routes.  The password
  hashing (\<open>bcrypt\<close>), the token library (\<open>jwt\<close>) and the random source are arguments; what the code
  relies on is \<open>auth_laws\<close>.
\<close>

section \<open>State\<close>

record user =
  u_Username :: string
  u_PasswordHash :: string
  u_RoleID :: nat
  u_Status :: string
  u_LastLoginAt :: "instant option"

record role =
  r_Code :: string

record auth_db =
  ad_users :: "user table"
  ad_roles :: "role table"

definition RoleCodeAdmin :: string where "RoleCodeAdmin = ''admin''"
definition RoleCodeViewer :: string where "RoleCodeViewer = ''viewer''"

lemmas role_defs = RoleCodeAdmin_def RoleCodeViewer_def

record auth_service =
  au_secret :: string
  au_ttl :: duration

definition NewAuthService :: "string \<Rightarrow> duration \<Rightarrow> auth_service" where
  "NewAuthService secret ttl = \<lparr>au_secret = secret, au_ttl = positive_or (24 * nano_hour) ttl\<rparr>"

text \<open>The claims of a token; the two dates are kept to the second.\<close>

record claims =
  cl_UserID :: nat
  cl_Username :: string
  cl_Role :: string
  cl_IssuedAt :: instant
  cl_ExpiresAt :: instant
  cl_Subject :: string

definition NewNumericDate :: "instant \<Rightarrow> instant" where
  "NewNumericDate t = t div nano_second * nano_second"

section \<open>The libraries\<close>

text \<open>Hashing takes a salt and may fail (\<open>bcrypt\<close> refuses long passwords).  The parser is given a
  function from whether the method is an HMAC to the key, and the time; it returns the claims and
  whether the token is valid.\<close>

record auth_lib =
  al_hash :: "nat \<Rightarrow> string \<Rightarrow> string + string"
  al_matches :: "string \<Rightarrow> string \<Rightarrow> bool"
  al_sign :: "claims \<Rightarrow> string \<Rightarrow> string + string"
  al_parse :: "string \<Rightarrow> (bool \<Rightarrow> string option) \<Rightarrow> instant \<Rightarrow> (claims \<times> bool) option"

text \<open>A hash matches its password.  A token signed with a key parses under that key, as long as it has
  not expired, and to no other claims.\<close>

definition auth_laws :: "auth_lib \<Rightarrow> bool" where
  "auth_laws lib \<longleftrightarrow>
     (\<forall>salt pw h. al_hash lib salt pw = Inr h \<longrightarrow> al_matches lib h pw)
     \<and> (\<forall>c key t kf now. al_sign lib c key = Inr t \<longrightarrow> kf True = Some key \<longrightarrow>
          al_parse lib t kf now = (if now < cl_ExpiresAt c then Some (c, True) else None))"

text \<open>The environment of a call: the error of its \<open>k\<close>-th statement, the readings of the clock, the salt and
  the random bytes (none when the source fails).\<close>

record auth_env =
  ae_lib :: auth_lib
  ae_fail :: "nat \<Rightarrow> string option"
  ae_issued_at :: instant
  ae_login_at :: instant
  ae_salt :: nat
  ae_random :: "nat list option"
  ae_nano :: "nat \<Rightarrow> int"

definition no_auth_db :: service_error where
  "no_auth_db = Biz (Unavailable ''auth: db not configured'')"

definition bad_credentials :: service_error where
  "bad_credentials = Biz (Unauthorized (bytes [231, 148, 168, 230, 136, 183, 229, 144, 141, 230, 136, 150, 229, 175, 134, 231, 160,
      129, 233, 148, 153, 232, 175, 175]))"

definition account_disabled :: service_error where
  "account_disabled = Biz (Unauthorized (bytes [232, 180, 166, 229, 143, 183, 229, 183, 178, 231, 166, 129, 231, 148, 168]))"

definition bad_token :: service_error where
  "bad_token = Biz (Unauthorized (bytes [231, 153, 187, 229, 189, 149, 229, 183, 178, 232, 191, 135, 230, 156, 159, 230, 136,
      150, 230, 151, 160, 230, 149, 136, 44, 232, 175, 183, 233, 135, 141, 230, 150, 176, 231,
      153, 187, 229, 189, 149]))"

section \<open>Login and tokens\<close>

definition active_user :: "user \<Rightarrow> bool" where
  "active_user u \<longleftrightarrow> u_Status u = [] \<or> u_Status u = ''active''"

definition roleCode :: "auth_env \<Rightarrow> user \<Rightarrow> auth_db \<Rightarrow> string + string" where
  "roleCode env u db =
     (if u_RoleID u \<noteq> 0
      then case (case ae_fail env 1 of
                   Some e \<Rightarrow> Inl e
                 | None \<Rightarrow> (case tb_first (u_RoleID u) (ad_roles db) of None \<Rightarrow> Inl ''record not found'' | Some r \<Rightarrow> Inr r)) of
             Inl e \<Rightarrow> Inl (''query role '' @ dec_nat (u_RoleID u) @ '': '' @ e)
           | Inr r \<Rightarrow> if r_Code r = [] then Inl (''role '' @ dec_nat (u_RoleID u) @ '' has empty code'') else Inr (r_Code r)
      else case ae_fail env 1 of
             Some e \<Rightarrow> Inl (''count active users: '' @ e)
           | None \<Rightarrow> Inr (if length (tb_where active_user (ad_users db)) \<le> 1 then RoleCodeAdmin else RoleCodeViewer))"

definition claims_of :: "auth_service \<Rightarrow> instant \<Rightarrow> nat \<Rightarrow> user \<Rightarrow> string \<Rightarrow> claims" where
  "claims_of sv now i u role =
     \<lparr>cl_UserID = i, cl_Username = u_Username u, cl_Role = role, cl_IssuedAt = NewNumericDate now,
      cl_ExpiresAt = NewNumericDate (now + au_ttl sv), cl_Subject = u_Username u\<rparr>"

definition issue :: "auth_env \<Rightarrow> auth_service \<Rightarrow> nat \<Rightarrow> user \<Rightarrow> string \<Rightarrow> string + string" where
  "issue env sv i u role = al_sign (ae_lib env) (claims_of sv (ae_issued_at env) i u role) (au_secret sv)"

text \<open>Every error of the first query, not only a missing row, gives the same answer as a wrong
  password; the error of the last statement is dropped.\<close>

definition Login ::
  "auth_env \<Rightarrow> auth_service \<Rightarrow> string \<Rightarrow> string \<Rightarrow> auth_db option
   \<Rightarrow> (service_error + string \<times> nat \<times> user) \<times> auth_db option" where
  "Login env sv username password db_opt =
     (case db_opt of
        None \<Rightarrow> (Inl no_auth_db, None)
      | Some db \<Rightarrow>
          (case (if ae_fail env 0 = None then find (\<lambda>(i, u). u_Username u = username) (tb_rows (ad_users db)) else None) of
             None \<Rightarrow> (Inl bad_credentials, Some db)
           | Some (i, u) \<Rightarrow>
               if \<not> active_user u then (Inl account_disabled, Some db)
               else if \<not> al_matches (ae_lib env) (u_PasswordHash u) password then (Inl bad_credentials, Some db)
               else case roleCode env u db of
                 Inl e \<Rightarrow> (Inl (wrapped CodeInternal ''auth: resolve role'' e), Some db)
               | Inr role \<Rightarrow>
                   (case issue env sv i u role of
                      Inl e \<Rightarrow> (Inl (wrapped CodeInternal ''auth: sign token'' e), Some db)
                    | Inr token \<Rightarrow>
                        let u' = u\<lparr>u_LastLoginAt := Some (ae_login_at env)\<rparr>
                        in (Inr (token, i, u'),
                            Some (if ae_fail env 2 = None then db\<lparr>ad_users := tb_save i u' (ad_users db)\<rparr> else db)))))"

definition Verify :: "auth_lib \<Rightarrow> auth_service \<Rightarrow> instant \<Rightarrow> string \<Rightarrow> service_error + claims" where
  "Verify lib sv now token =
     (case al_parse lib token (\<lambda>hmac. if hmac then Some (au_secret sv) else None) now of
        Some (c, True) \<Rightarrow> Inr c
      | _ \<Rightarrow> Inl bad_token)"

section \<open>Bootstrap and password changes\<close>

definition alphabet :: string where
  "alphabet = ''ABCDEFGHJKLMNPQRSTUVWXYZabcdefghijkmnpqrstuvwxyz23456789''"

definition randomPassword :: "auth_env \<Rightarrow> nat \<Rightarrow> string" where
  "randomPassword env n =
     (case ae_random env of
        Some bs \<Rightarrow> map (\<lambda>b. alphabet ! (b mod length alphabet)) (take n bs)
      | None \<Rightarrow> map (\<lambda>i. alphabet ! nat ((ae_nano env i + int i) mod int (length alphabet))) [0..<n])"

definition Bootstrap ::
  "auth_env \<Rightarrow> string \<Rightarrow> string \<Rightarrow> auth_db option \<Rightarrow> (service_error + string) \<times> auth_db option" where
  "Bootstrap env username password db_opt =
     (case db_opt of
        None \<Rightarrow> (Inl no_auth_db, None)
      | Some db \<Rightarrow>
          (case ae_fail env 0 of
             Some e \<Rightarrow> (Inl (wrapped CodeInternal ''auth: count users'' e), Some db)
           | None \<Rightarrow>
               if tb_rows (ad_users db) \<noteq> [] then (Inr [], Some db)
               else
                 let name = (if username = [] then ''admin'' else username);
                     pw = (if password = [] then randomPassword env 16 else password)
                 in case al_hash (ae_lib env) (ae_salt env) pw of
                      Inl e \<Rightarrow> (Inl (wrapped CodeInternal ''auth: hash password'' e), Some db)
                    | Inr h \<Rightarrow>
                        (case ae_fail env 1 of
                           Some e \<Rightarrow> (Inl (wrapped CodeInternal ''auth: create admin'' e), Some db)
                         | None \<Rightarrow>
                             (Inr (if password = [] then pw else []),
                              Some (db\<lparr>ad_users := snd (tb_create
                                \<lparr>u_Username = name, u_PasswordHash = h, u_RoleID = 0, u_Status = ''active'',
                                 u_LastLoginAt = None\<rparr> (ad_users db))\<rparr>)))))"

definition ChangePassword ::
  "auth_env \<Rightarrow> nat \<Rightarrow> string \<Rightarrow> string \<Rightarrow> auth_db option \<Rightarrow> (service_error + unit) \<times> auth_db option" where
  "ChangePassword env i oldPw newPw db_opt =
     (case db_opt of
        None \<Rightarrow> (Inl no_auth_db, None)
      | Some db \<Rightarrow>
          if length newPw < 8 then (Inl (Biz (InvalidArg (bytes [230, 150, 176, 229, 175, 134, 231, 160, 129, 232, 135, 179, 229, 176, 145, 32, 56,
              32, 228, 189, 141]))), Some db)
          else case (if ae_fail env 0 = None then tb_first i (ad_users db) else None) of
            None \<Rightarrow> (Inl (Biz (NotFound ''user not found'')), Some db)
          | Some u \<Rightarrow>
              if \<not> al_matches (ae_lib env) (u_PasswordHash u) oldPw
              then (Inl (Biz (Unauthorized (bytes [229, 142, 159, 229, 175, 134, 231, 160, 129, 233, 148, 153, 232, 175, 175]))), Some
                  db)
              else case al_hash (ae_lib env) (ae_salt env) newPw of
                Inl e \<Rightarrow> (Inl (wrapped CodeInternal ''auth: hash password'' e), Some db)
              | Inr h \<Rightarrow>
                  (case ae_fail env 1 of
                     Some e \<Rightarrow> (Inl (DbError e), Some db)
                   | None \<Rightarrow> (Inr (), Some (db\<lparr>ad_users := tb_save i (u\<lparr>u_PasswordHash := h\<rparr>) (ad_users db)\<rparr>))))"

section \<open>The gate\<close>

record http_request =
  hq_Method :: string
  hq_Path :: string
  hq_Authorization :: string
  hq_access_token :: string

definition sseRequest :: "http_request \<Rightarrow> bool" where
  "sseRequest q \<longleftrightarrow> hq_Method q = ''GET'' \<and> suffix ''/events'' (hq_Path q) \<and> sublist ''/runs/'' (hq_Path q)"

definition bearer_token :: "http_request \<Rightarrow> string" where
  "bearer_token q =
     (if prefix ''Bearer '' (hq_Authorization q) then drop 7 (hq_Authorization q)
      else if sseRequest q then hq_access_token q else [])"

text \<open>The principal in the context of the request, or the error it is answered with.\<close>

record principal =
  pr_UserID :: nat
  pr_Username :: string
  pr_Role :: string

definition Middleware :: "auth_lib \<Rightarrow> auth_service \<Rightarrow> instant \<Rightarrow> http_request \<Rightarrow> service_error + principal" where
  "Middleware lib sv now q =
     (if bearer_token q = [] then Inl (Biz (Unauthorized (bytes [231, 188, 186, 229, 176, 145, 231, 153, 187, 229, 189, 149, 229, 135, 173, 232, 175,
         129])))
      else map_sum id (\<lambda>c. \<lparr>pr_UserID = cl_UserID c, pr_Username = cl_Username c, pr_Role = cl_Role c\<rparr>)
             (Verify lib sv now (bearer_token q)))"

definition principal_UserID :: "principal option \<Rightarrow> nat" where
  "principal_UserID p = (case p of None \<Rightarrow> 0 | Some x \<Rightarrow> pr_UserID x)"

definition principal_Role :: "principal option \<Rightarrow> string" where
  "principal_Role p = (case p of None \<Rightarrow> [] | Some x \<Rightarrow> pr_Role x)"

definition RequireRole :: "string list \<Rightarrow> principal option \<Rightarrow> service_error + unit" where
  "RequireRole roles p =
     check (Biz (Forbidden (bytes [229, 189, 147, 229, 137, 141, 232, 167, 146, 232, 137, 178, 230, 151, 160, 230, 157,
         131, 232, 174, 191, 233, 151, 174, 232, 175, 165, 232, 181, 132, 230, 186, 144])))
         (principal_Role p \<in> set roles)"

section \<open>Sessions\<close>

text \<open>A request that sends the token in its header.\<close>

definition with_token :: "string \<Rightarrow> http_request \<Rightarrow> http_request" where
  "with_token t q = q\<lparr>hq_Authorization := ''Bearer '' @ t\<rparr>"

lemma sent_token [simp]: "bearer_token (with_token t q) = t"
  by (simp add: bearer_token_def with_token_def)

lemma find_user:
  assumes "tb_ok t" "find (\<lambda>(i, u). P u) (tb_rows t) = Some (i, u)"
  shows "tb_first i t = Some u" "P u"
proof -
  have "(i, u) \<in> set (tb_rows t) \<and> P u" using assms(2) by (auto simp: find_Some_iff in_set_conv_nth)
  then show "tb_first i t = Some u" "P u" using tb_rows_first [OF assms(1)] by auto
qed

lemma Login_Inr:
  assumes "Login env sv name pw (Some db) = (Inr (token, i, u'), db')" "tb_ok (ad_users db)"
  obtains u role where "tb_first i (ad_users db) = Some u" "u_Username u = name" "active_user u"
    "al_matches (ae_lib env) (u_PasswordHash u) pw" "roleCode env u db = Inr role" "issue env sv i u role = Inr token"
    "db' = Some (if ae_fail env 2 = None then db\<lparr>ad_users := tb_save i u' (ad_users db)\<rparr> else db)"
    "u' = u\<lparr>u_LastLoginAt := Some (ae_login_at env)\<rparr>"
proof -
  obtain u role where u: "find (\<lambda>(i, u). u_Username u = name) (tb_rows (ad_users db)) = Some (i, u)"
    and r: "roleCode env u db = Inr role"
    using assms(1) by (auto simp: Login_def Let_def split: option.splits if_splits sum.splits)
  note f = find_user [OF assms(2) u]
  show thesis
    by (rule that [OF f _ _ r]) (use assms(1) u r in \<open>auto simp: Login_def Let_def split: option.splits if_splits sum.splits\<close>)
qed

lemma roleCode_Inr:
  "roleCode env u db = Inr role \<Longrightarrow>
   (if u_RoleID u = 0
    then role = (if length (tb_where active_user (ad_users db)) \<le> 1 then RoleCodeAdmin else RoleCodeViewer)
    else \<exists>r. tb_first (u_RoleID u) (ad_roles db) = Some r \<and> r_Code r = role \<and> role \<noteq> [])"
  by (auto simp: roleCode_def split: option.splits if_splits sum.splits)

text \<open>C31: With bcrypt and jwt as documented and a well-formed table of users, a login succeeds only for an active user with that name whose stored hash matches the
  password; it changes nothing in the tables but the time of that user's last login, and not even
  that if its last statement fails.  The token it returns, if it is not empty, opens the gate, as
  exactly that user and with one role, until the lifetime has passed, cut to the whole second, and
  is refused from then on.  The role is the code of the user's role row; a user without a role is
  administrator if there is no other active user, and viewer otherwise.\<close>

theorem Login_session:
  assumes "auth_laws (ae_lib env)" "tb_ok (ad_users db)"
    and "Login env sv name pw (Some db) = (Inr (token, i, u'), Some db')"
  shows "\<exists>u role. tb_first i (ad_users db) = Some u \<and> u_Username u = name \<and> active_user u
    \<and> al_matches (ae_lib env) (u_PasswordHash u) pw
    \<and> u' = u\<lparr>u_LastLoginAt := Some (ae_login_at env)\<rparr>
    \<and> db' = (if ae_fail env 2 = None then db\<lparr>ad_users := tb_save i u' (ad_users db)\<rparr> else db)
    \<and> (\<forall>j. tb_first j (ad_users db') =
         (if j = i \<and> ae_fail env 2 = None then Some u' else tb_first j (ad_users db)))
    \<and> (token \<noteq> [] \<longrightarrow> (\<forall>now q. Middleware (ae_lib env) sv now (with_token token q) =
         (if now < NewNumericDate (ae_issued_at env + au_ttl sv)
          then Inr \<lparr>pr_UserID = i, pr_Username = name, pr_Role = role\<rparr> else Inl bad_token)))
    \<and> (if u_RoleID u = 0
       then role = (if length (tb_where active_user (ad_users db)) \<le> 1 then RoleCodeAdmin else RoleCodeViewer)
       else \<exists>r. tb_first (u_RoleID u) (ad_roles db) = Some r \<and> r_Code r = role \<and> role \<noteq> [])"
proof -
  obtain u role where l: "tb_first i (ad_users db) = Some u" "u_Username u = name" "active_user u"
    "al_matches (ae_lib env) (u_PasswordHash u) pw" "roleCode env u db = Inr role" "issue env sv i u role = Inr token"
    "Some db' = Some (if ae_fail env 2 = None then db\<lparr>ad_users := tb_save i u' (ad_users db)\<rparr> else db)"
    "u' = u\<lparr>u_LastLoginAt := Some (ae_login_at env)\<rparr>"
    by (rule Login_Inr [OF assms(3,2)])
  have parsed: "al_parse (ae_lib env) token (\<lambda>hmac. if hmac then Some (au_secret sv) else None) now =
      (if now < NewNumericDate (ae_issued_at env + au_ttl sv)
       then Some (claims_of sv (ae_issued_at env) i u role, True) else None)" for now
    using assms(1) l(6) by (simp add: auth_laws_def issue_def claims_of_def)
  have gate: "Middleware (ae_lib env) sv now (with_token token q) =
      (if now < NewNumericDate (ae_issued_at env + au_ttl sv)
       then Inr \<lparr>pr_UserID = i, pr_Username = name, pr_Role = role\<rparr> else Inl bad_token)" if "token \<noteq> []" for now q
    using that l(2) by (simp add: Middleware_def Verify_def parsed claims_of_def)
  have db': "db' = (if ae_fail env 2 = None then db\<lparr>ad_users := tb_save i u' (ad_users db)\<rparr> else db)"
    using l(7) by simp
  have "tb_first j (ad_users db') = (if j = i \<and> ae_fail env 2 = None then Some u' else tb_first j (ad_users db))" for j
    using l(1) by (auto simp: db' tbl.first_save [OF assms(2)])
  then show ?thesis using l(1-4,8) db' gate roleCode_Inr [OF l(5)]
    by (intro exI [of _ u] exI [of _ role]) simp
qed

text \<open>No failed login changes anything, and an unknown name is answered as a wrong password; but an
  account that is not active is announced as such without the password, although the answers are
  documented not to tell which names exist.\<close>

lemma Login_failures:
  assumes "Login env sv name pw (Some db) = (Inl e, db')" "ae_fail env 0 = None"
  shows "db' = Some db"
    and "(\<forall>(i, u)\<in>set (tb_rows (ad_users db)). u_Username u \<noteq> name) \<Longrightarrow> e = bad_credentials"
    and "find (\<lambda>(i, u). u_Username u = name) (tb_rows (ad_users db)) = Some (i, u) \<Longrightarrow> active_user u \<Longrightarrow>
      \<not> al_matches (ae_lib env) (u_PasswordHash u) pw \<Longrightarrow> e = bad_credentials"
    and "find (\<lambda>(i, u). u_Username u = name) (tb_rows (ad_users db)) = Some (i, u) \<Longrightarrow> \<not> active_user u \<Longrightarrow>
      e = account_disabled"
proof -
  show "db' = Some db" using assms by (auto simp: Login_def Let_def split: option.splits if_splits sum.splits)
  show "(\<forall>(i, u)\<in>set (tb_rows (ad_users db)). u_Username u \<noteq> name) \<Longrightarrow> e = bad_credentials"
  proof -
    assume none: "\<forall>(i, u)\<in>set (tb_rows (ad_users db)). u_Username u \<noteq> name"
    have "find (\<lambda>(i, u). u_Username u = name) (tb_rows (ad_users db)) = None"
      unfolding find_None_iff using none by auto
    then show ?thesis using assms by (simp add: Login_def)
  qed
qed (use assms in \<open>auto simp: Login_def\<close>)

lemma revealed: "account_disabled \<noteq> bad_credentials"
  by (simp add: account_disabled_def bad_credentials_def Unauthorized_def new_error_def bytes_def)

section \<open>The first administrator\<close>

text \<open>On empty tables, \<open>Bootstrap\<close> makes an account that can log in, with the password given or the one it
  returns, as administrator; a second \<open>Bootstrap\<close> does nothing and returns no password.\<close>

lemma Bootstrap_Login:
  assumes laws: "auth_laws (ae_lib env)" and db: "tb_rows (ad_users db) = []"
    and boot: "Bootstrap env name pw (Some db) = (Inr shown, Some db1)"
    and ok: "\<And>k. ae_fail env' k = None" "ae_lib env' = ae_lib env" "\<And>c. is_ok (al_sign (ae_lib env) c (au_secret sv))"
    and used: "name' = (if name = [] then ''admin'' else name)" "pw' = (if pw = [] then shown else pw)"
  shows "\<exists>token u. fst (Login env' sv name' pw' (Some db1)) = Inr (token, tb_next (ad_users db), u)
      \<and> issue env' sv (tb_next (ad_users db)) (u\<lparr>u_LastLoginAt := None\<rparr>) RoleCodeAdmin = Inr token"
    and "\<And>env2 n p. ae_fail env2 0 = None \<Longrightarrow> Bootstrap env2 n p (Some db1) = (Inr [], Some db1)"
proof -
  define actual where "actual = (if pw = [] then randomPassword env 16 else pw)"
  obtain h where h: "al_hash (ae_lib env) (ae_salt env) actual = Inr h"
    and shown: "shown = (if pw = [] then actual else [])"
    and db1: "db1 = db\<lparr>ad_users := snd (tb_create \<lparr>u_Username = name', u_PasswordHash = h, u_RoleID = 0,
        u_Status = ''active'', u_LastLoginAt = None\<rparr> (ad_users db))\<rparr>"
    using boot db used(1) by (auto simp: Bootstrap_def actual_def Let_def split: option.splits sum.splits if_splits)
  define u where "u = \<lparr>u_Username = name', u_PasswordHash = h, u_RoleID = 0, u_Status = ''active'', u_LastLoginAt = None\<rparr>"
  have rows: "tb_rows (ad_users db1) = [(tb_next (ad_users db), u)]" using db by (simp add: db1 u_def tb_create_def)
  have "al_matches (ae_lib env) h actual" using laws h by (auto simp: auth_laws_def)
  moreover have "actual = pw'" using shown used(2) by (simp add: actual_def)
  moreover have "roleCode env' u db1 = Inr RoleCodeAdmin"
    by (simp add: roleCode_def ok(1) rows tb_where_def u_def)
  moreover obtain token where "issue env' sv (tb_next (ad_users db)) u RoleCodeAdmin = Inr token"
    using ok(3) by (auto simp: issue_def ok(2) is_ok_iff)
  ultimately show "\<exists>token u. fst (Login env' sv name' pw' (Some db1)) = Inr (token, tb_next (ad_users db), u)
      \<and> issue env' sv (tb_next (ad_users db)) (u\<lparr>u_LastLoginAt := None\<rparr>) RoleCodeAdmin = Inr token"
    by (intro exI [of _ token] exI [of _ "u\<lparr>u_LastLoginAt := Some (ae_login_at env')\<rparr>"])
      (simp add: Login_def ok(1,2) rows active_user_def u_def Let_def)
  show "\<And>env2 n p. ae_fail env2 0 = None \<Longrightarrow> Bootstrap env2 n p (Some db1) = (Inr [], Some db1)"
    by (simp add: Bootstrap_def rows)
qed

lemma ChangePassword_Inr:
  assumes "auth_laws (ae_lib env)" "tb_ok (ad_users db)"
    and "ChangePassword env i oldPw newPw (Some db) = (Inr (), Some db')"
  shows "8 \<le> length newPw \<and> (\<exists>u h. tb_first i (ad_users db) = Some u \<and> al_matches (ae_lib env) (u_PasswordHash u) oldPw
    \<and> al_matches (ae_lib env) h newPw
    \<and> (\<forall>j. tb_first j (ad_users db') = (if j = i then Some (u\<lparr>u_PasswordHash := h\<rparr>) else tb_first j (ad_users db))))"
proof -
  obtain u h where u: "8 \<le> length newPw" "tb_first i (ad_users db) = Some u" "al_matches (ae_lib env) (u_PasswordHash u) oldPw"
    "al_hash (ae_lib env) (ae_salt env) newPw = Inr h"
    "db' = db\<lparr>ad_users := tb_save i (u\<lparr>u_PasswordHash := h\<rparr>) (ad_users db)\<rparr>"
    using assms(3) by (auto simp: ChangePassword_def split: option.splits sum.splits if_splits)
  moreover have "al_matches (ae_lib env) h newPw" using assms(1) u(4) by (auto simp: auth_laws_def)
  ultimately show ?thesis
    by (intro conjI exI [of _ u] exI [of _ h]) (simp_all add: tbl.first_save [OF assms(2)])
qed

section \<open>A concrete service\<close>

definition demo_user :: user where
  "demo_user = \<lparr>u_Username = ''admin'', u_PasswordHash = ''#secret'', u_RoleID = 0, u_Status = ''active'', u_LastLoginAt = None\<rparr>"

definition demo_auth_service :: auth_service where
  "demo_auth_service = NewAuthService ''key'' 0"

text \<open>A library that signs the claims of one login.\<close>

definition demo_claims :: claims where
  "demo_claims = claims_of demo_auth_service 0 1 demo_user RoleCodeAdmin"

definition demo_auth :: auth_lib where
  "demo_auth = \<lparr>al_hash = (\<lambda>salt pw. Inr (CHR ''#'' # pw)), al_matches = (\<lambda>h pw. h = CHR ''#'' # pw),
     al_sign = (\<lambda>c key. if c = demo_claims \<and> key = ''key'' then Inr ''token'' else Inl ''unsupported''),
     al_parse = (\<lambda>t kf now. if t = ''token'' \<and> kf True = Some ''key'' \<and> now < cl_ExpiresAt demo_claims
                          then Some (demo_claims, True) else None)\<rparr>"

lemma demo_auth_laws: "auth_laws demo_auth"
  by (auto simp: auth_laws_def demo_auth_def split: if_splits)

definition demo_auth_env :: auth_env where
  "demo_auth_env = \<lparr>ae_lib = demo_auth, ae_fail = (\<lambda>_. None), ae_issued_at = 0, ae_login_at = 5, ae_salt = 0,
     ae_random = None, ae_nano = int\<rparr>"

definition demo_users :: auth_db where
  "demo_users = \<lparr>ad_users = \<lparr>tb_rows = [(1, demo_user)], tb_next = 2\<rparr>, ad_roles = empty_table\<rparr>"

theorem Login_session_witness:
  "Middleware demo_auth demo_auth_service 7
     (with_token ''token'' \<lparr>hq_Method = ''GET'', hq_Path = ''/x'', hq_Authorization = [], hq_access_token = []\<rparr>)
     = Inr \<lparr>pr_UserID = 1, pr_Username = ''admin'', pr_Role = ''admin''\<rparr>
   \<and> tb_first 1 (ad_users demo_users) = Some demo_user"
proof -
  define u' where "u' = demo_user\<lparr>u_LastLoginAt := Some 5\<rparr>"
  have role: "roleCode demo_auth_env demo_user demo_users = Inr RoleCodeAdmin"
    by (simp add: roleCode_def demo_users_def demo_user_def demo_auth_env_def tb_where_def)
  have token: "issue demo_auth_env demo_auth_service 1 demo_user RoleCodeAdmin = Inr ''token''"
    by (simp add: issue_def demo_auth_env_def demo_auth_def demo_claims_def demo_auth_service_def NewAuthService_def)
  have login: "Login demo_auth_env demo_auth_service ''admin'' ''secret'' (Some demo_users) =
      (Inr (''token'', 1, u'), Some (demo_users\<lparr>ad_users := tb_save 1 u' (ad_users demo_users)\<rparr>))"
  proof -
    have "find (\<lambda>(i, u). u_Username u = ''admin'') (tb_rows (ad_users demo_users)) = Some (1, demo_user)"
      by (simp add: demo_users_def demo_user_def)
    moreover have "active_user demo_user \<and> al_matches demo_auth (u_PasswordHash demo_user) ''secret''"
      by (simp add: active_user_def demo_user_def demo_auth_def)
    moreover have "ae_fail demo_auth_env k = None" "ae_lib demo_auth_env = demo_auth" "ae_login_at demo_auth_env = 5" for k
      by (simp_all add: demo_auth_env_def)
    ultimately show ?thesis using role token by (simp add: Login_def u'_def Let_def)
  qed
  have lib: "ae_lib demo_auth_env = demo_auth" by (simp add: demo_auth_env_def)
  have ok: "tb_ok (ad_users demo_users)" by (simp add: tb_ok_def demo_users_def)
  have expires: "7 < NewNumericDate (ae_issued_at demo_auth_env + au_ttl demo_auth_service)"
    by (simp add: NewNumericDate_def demo_auth_env_def demo_auth_service_def NewAuthService_def positive_or_def time_unit_defs nano_minute_def)
  obtain r where "Middleware demo_auth demo_auth_service 7
      (with_token ''token'' \<lparr>hq_Method = ''GET'', hq_Path = ''/x'', hq_Authorization = [], hq_access_token = []\<rparr>)
      = Inr \<lparr>pr_UserID = 1, pr_Username = ''admin'', pr_Role = r\<rparr>"
    using Login_session [OF demo_auth_laws [folded lib] ok login] expires by (auto simp: lib)
  then show ?thesis
    by (simp add: Middleware_def Verify_def demo_auth_def demo_claims_def claims_of_def role_defs demo_auth_service_def
        NewAuthService_def tb_first_def demo_users_def split: if_splits)
qed

end
