(* ===== verification/Config_Check.thy ===== *)
theory Config_Check
  imports Llm_Client
begin

text \<open>
  The decisions of \<open>config/config.go\<close>: reading the list of origins, the checks that decide whether the
  server starts, and the connection strings.  The record has the fields that these functions read;
  what \<open>viper\<close> unmarshals is an argument.
\<close>

record db_config =
  dc_Host :: string
  dc_Port :: int
  dc_User :: string
  dc_Password :: string
  dc_Name :: string
  dc_Charset :: string
  dc_SSLMode :: string
  dc_ParseTime :: bool
  dc_Loc :: string

record config =
  cf_Port :: int
  cf_CORSOrigins :: "string list"
  cf_Env :: string
  cf_LogLevel :: string
  cf_LogEncoding :: string
  cf_AuthEnabled :: bool

text \<open>\<open>strings.EqualFold\<close> with a text of ASCII letters other than k and s, which no other letter folds to.\<close>

definition EqualFold :: "string \<Rightarrow> string \<Rightarrow> bool" where
  "EqualFold s t \<longleftrightarrow> map lower_char s = map lower_char t"

definition corsOriginsFromEnv :: "string \<Rightarrow> string list option" where
  "corsOriginsFromEnv env_value =
     (let raw = TrimSpace env_value
      in if raw = [] then None
         else Some (filter (\<lambda>p. p \<noteq> []) (map TrimSpace (split_on (CHR '','') raw))))"

definition or_default :: "string \<Rightarrow> string \<Rightarrow> string" where
  "or_default d s = (if s = [] then d else s)"

definition no_auth_message :: string where
  "no_auth_message =
     bytes [97, 117, 116, 104, 46, 101, 110, 97, 98, 108, 101, 100, 61, 102, 97, 108, 115, 101,
                32, 228, 184, 141, 229, 133, 129, 232, 174, 184, 229, 156, 168, 32, 97, 112, 112, 46, 101, 110,
                118, 61, 112, 114, 111, 100, 117, 99, 116, 105, 111, 110, 32, 228, 184, 139, 229, 144, 175, 229,
                138, 168, 239, 188, 154, 230, 137, 128, 230, 156, 137, 229, 134, 153, 230, 142, 165, 229, 143, 163,
                229, 176, 134, 230, 151, 160, 232, 174, 164, 232, 175, 129, 230, 154, 180, 233, 156, 178, 239, 188,
                155, 232, 175, 183, 232, 174, 190, 231, 189, 174, 32, 65, 85, 84, 72, 95, 69, 78, 65, 66, 76, 69,
                68, 61, 116, 114, 117, 101]"

definition config_Validate :: "config \<Rightarrow> string + config" where
  "config_Validate c =
     (if cf_Port c \<le> 0 \<or> 65535 < cf_Port c then Inl (''invalid server.port: '' @ dec_int (cf_Port c))
      else let c' = c\<lparr>cf_Env := or_default ''development'' (cf_Env c), cf_LogLevel := or_default ''info'' (cf_LogLevel c),
                      cf_LogEncoding := or_default ''console'' (cf_LogEncoding c)\<rparr>
           in if EqualFold (cf_Env c') ''production'' \<and> \<not> cf_AuthEnabled c'
              then Inl no_auth_message
              else Inr c')"

definition config_Load :: "string + config \<Rightarrow> string \<Rightarrow> string + config" where
  "config_Load unmarshalled origins =
     (case unmarshalled of
        Inl e \<Rightarrow> Inl (''unmarshal config: '' @ e)
      | Inr c \<Rightarrow>
          config_Validate (case corsOriginsFromEnv origins of None \<Rightarrow> c | Some os \<Rightarrow> c\<lparr>cf_CORSOrigins := os\<rparr>))"

definition IsDev :: "config \<Rightarrow> bool" where
  "IsDev c \<longleftrightarrow> EqualFold (cf_Env c) ''development''"

definition DSN :: "db_config \<Rightarrow> string" where
  "DSN d =
     dc_User d @ '':'' @ dc_Password d @ ''@tcp('' @ dc_Host d @ '':'' @ dec_int (dc_Port d) @ '')/'' @ dc_Name d
       @ ''?charset='' @ dc_Charset d @ ''&parseTime='' @ (if dc_ParseTime d then ''True'' else ''False'') @ ''&loc='' @ dc_Loc d"

definition PostgresDSN :: "db_config \<Rightarrow> string" where
  "PostgresDSN d =
     ''host='' @ dc_Host d @ '' port='' @ dec_int (dc_Port d) @ '' user='' @ dc_User d @ '' password='' @ dc_Password d
       @ '' dbname='' @ dc_Name d @ '' sslmode='' @ or_default ''disable'' (dc_SSLMode d)
       @ '' TimeZone='' @ (if dc_Loc d = [] \<or> dc_Loc d = ''Local'' then ''UTC'' else dc_Loc d)"

text \<open>A server that starts has a port it can bind, an environment, and in production, however that is
  spelled, authentication; the origins are trimmed texts, none of them empty, when the variable is set.\<close>

theorem config_Load_safe:
  assumes "config_Load (Inr c0) origins = Inr c"
  shows "0 < cf_Port c \<and> cf_Port c \<le> 65535 \<and> cf_Env c \<noteq> []
    \<and> (map lower_char (cf_Env c) = ''production'' \<longrightarrow> cf_AuthEnabled c)
    \<and> cf_AuthEnabled c = cf_AuthEnabled c0
    \<and> (TrimSpace origins \<noteq> [] \<longrightarrow> [] \<notin> set (cf_CORSOrigins c))"
proof -
  have lower: "map lower_char ''production'' = ''production''" by code_simp
  define c1 where "c1 = (case corsOriginsFromEnv origins of None \<Rightarrow> c0 | Some os \<Rightarrow> c0\<lparr>cf_CORSOrigins := os\<rparr>)"
  have "config_Validate c1 = Inr c" using assms by (simp add: config_Load_def c1_def)
  then have c: "0 < cf_Port c1" "cf_Port c1 \<le> 65535"
    "c = c1\<lparr>cf_Env := or_default ''development'' (cf_Env c1), cf_LogLevel := or_default ''info'' (cf_LogLevel c1),
            cf_LogEncoding := or_default ''console'' (cf_LogEncoding c1)\<rparr>"
    "\<not> EqualFold (cf_Env c) ''production'' \<or> cf_AuthEnabled c"
    unfolding config_Validate_def Let_def by (auto split: if_split_asm)
  have "cf_AuthEnabled c = cf_AuthEnabled c0" unfolding c(3) c1_def by (simp split: option.split)
  moreover have "cf_Env c \<noteq> []" unfolding c(3) by (simp add: or_default_def)
  moreover have "[] \<notin> set (cf_CORSOrigins c)" if "TrimSpace origins \<noteq> []"
    using that unfolding c(3) c1_def by (auto simp: corsOriginsFromEnv_def Let_def)
  moreover have "cf_Port c = cf_Port c1" unfolding c(3) by simp
  ultimately show ?thesis using c(1,2,4) unfolding EqualFold_def lower by auto
qed

end
