(* ===== verification/Schedule_Sync.thy ===== *)
theory Schedule_Sync
  imports Strategy_Service
begin

text \<open>
  What \<open>StrategyService\<close> (\<open>orchestrator/strategy_service.go\<close>) needs of its \<open>ScheduleReloader\<close>, as the locale
  \<open>reloading\<close>, and what it makes of it: the schedule follows the strategies table.
\<close>

section \<open>The interface\<close>

locale reloading =
  fixes ops :: "'r reloader"
    and parse :: "string \<Rightarrow> string + 'p"
    and planned :: "'r \<Rightarrow> nat \<Rightarrow> 'p option"
    and ok :: "'r \<Rightarrow> bool"
  assumes planned_add: "ok r \<Longrightarrow> e \<noteq> [] \<Longrightarrow> parse e = Inr p \<Longrightarrow> planned (snd (rl_Add ops i e r)) = (planned r)(i \<mapsto> p)"
    and planned_remove: "ok r \<Longrightarrow> planned (rl_Remove ops i r) = (planned r)(i := None)"
    and ok_add: "ok r \<Longrightarrow> ok (snd (rl_Add ops i e r))"
    and ok_remove: "ok r \<Longrightarrow> ok (rl_Remove ops i r)"
begin

text \<open>The expressions that the service has accepted.\<close>

definition parsed :: "strategy \<Rightarrow> bool" where
  "parsed s \<longleftrightarrow> st_CronExpression s = [] \<or> is_ok (parse (st_CronExpression s))"

definition wanted :: "strategy \<Rightarrow> 'p option" where
  "wanted s =
     (if st_Status s = StrategyStatusActive \<and> st_CronExpression s \<noteq> []
      then (case parse (st_CronExpression s) of Inl _ \<Rightarrow> None | Inr p \<Rightarrow> Some p) else None)"

lemma ok_sync: "ok r \<Longrightarrow> ok (scheduleSync (Some ops) i s r)"
  by (simp add: scheduleSync_def ok_add ok_remove)

lemma planned_sync:
  "ok r \<Longrightarrow> parsed s \<Longrightarrow> planned (scheduleSync (Some ops) i s r) = (planned r)(i := wanted s)"
  by (auto simp: scheduleSync_def wanted_def parsed_def planned_add planned_remove is_ok_def split: sum.splits)

definition in_sync :: "strategy_db \<Rightarrow> 'r \<Rightarrow> bool" where
  "in_sync db r \<longleftrightarrow>
     ok r \<and> tbl.all_rows (\<lambda>i s. planned r i = wanted s \<and> parsed s) (sd_strategies db)
     \<and> (\<forall>i\<ge>tb_next (sd_strategies db). planned r i = None)"

lemma in_sync_create:
  assumes "in_sync db r" "create_pair env k smsg vmsg s note db = Inr (a, db')" "st_CronExpression s = []"
  shows "in_sync db' r"
proof -
  obtain i s' v where a: "a = ((i, s'), v)" by (metis prod.collapse)
  have db': "sd_strategies db' = snd (tb_create s (sd_strategies db))"
    using create_pair_Inr [OF assms(2) [unfolded a]] by simp
  have "planned r (fst (tb_create s (sd_strategies db))) = wanted s \<and> parsed s"
    using assms(1,3) by (simp add: in_sync_def wanted_def parsed_def tb_create_simps)
  then have "tbl.all_rows (\<lambda>i s. planned r i = wanted s \<and> parsed s) (snd (tb_create s (sd_strategies db)))"
    using assms(1) by (intro tbl.all_rows_create) (simp_all add: in_sync_def)
  then show ?thesis using assms(1) by (simp add: in_sync_def db' tb_create_simps(2))
qed

lemma in_sync_delete: "in_sync db r \<Longrightarrow> delete_body env i db = Inr (u, db') \<Longrightarrow> in_sync db' r"
  using tbl.all_rows_delete
  by (auto simp: in_sync_def delete_body_def and_then_Inr Let_def save_strategy_def delete_strategy_def tb_save_delete)

text \<open>The row of an update, and the schedule after it.\<close>

lemma in_sync_update:
  assumes "in_sync db r" "tb_first i (sd_strategies db) = Some s" "parsed s'"
    and "sd_strategies db' = tb_save i s' (sd_strategies db)"
  shows "in_sync db' (scheduleSync (Some ops) i s' r)"
proof -
  have r: "ok r" and rows: "tbl.all_rows (\<lambda>i s. planned r i = wanted s \<and> parsed s) (sd_strategies db)"
    and fresh: "\<forall>i\<ge>tb_next (sd_strategies db). planned r i = None"
    using assms(1) by (simp_all add: in_sync_def)
  have t: "tb_ok (sd_strategies db)" using rows by (simp add: tbl.all_rows_def)
  have "(i, s) \<in> set (tb_rows (sd_strategies db))" using tb_rows_first [OF t] assms(2) by simp
  then have i: "i < tb_next (sd_strategies db)" using t by (force simp: tb_ok_def)
  have "tbl.all_rows (\<lambda>j x. ((planned r)(i := wanted s')) j = wanted x \<and> parsed x) (sd_strategies db')"
    using rows assms(2,3) by (auto simp: tbl.all_rows_def assms(4) tbl.first_save tbl.ok_save split: if_splits)
  then show ?thesis
    using r fresh i by (simp add: in_sync_def planned_sync [OF r assms(3)] ok_sync assms(4))
qed

text \<open>The service checks an expression with the parser the schedule uses.\<close>

definition same_parser :: "strat_env \<Rightarrow> bool" where
  "same_parser env \<longleftrightarrow> (\<forall>e. se_cron env e = (case parse e of Inl t \<Rightarrow> Some t | Inr _ \<Rightarrow> None))"

lemma parsed_updated:
  assumes "same_parser env" "check_update env inp = Inr u" "parsed s"
    and "st_CronExpression s' = st_CronExpression (updated_row inp s)"
  shows "parsed s'"
proof (cases "TrimSpace (us_CronExpression inp) = []")
  case True
  then show ?thesis using assms(3,4) by (simp add: parsed_def updated_row_def)
next
  case False
  then have "se_cron env (TrimSpace (us_CronExpression inp)) = None"
    using assms(2) by (auto simp: check_update_def and_then_Inr Let_def split: option.splits)
  then have "is_ok (parse (TrimSpace (us_CronExpression inp)))"
    using assms(1) by (auto simp: same_parser_def is_ok_def split: sum.splits)
  then show ?thesis using False assms(4) by (simp add: parsed_def updated_row_def)
qed

definition synced :: "strategy_db option \<times> 'r \<Rightarrow> bool" where
  "synced st \<longleftrightarrow> (\<exists>db. fst st = Some db \<and> in_sync db (snd st))"

lemma synced_transaction:
  assumes "in_sync db r" "\<And>a db'. body db = Inr (a, db') \<Longrightarrow> in_sync db' r"
  shows "synced (snd (map_prod id Some (transaction env k body db)), r)"
  using transaction_keeps [of "\<lambda>db. in_sync db r" db body env k] assms by (simp add: synced_def)

lemma synced_Create:
  assumes "in_sync db r"
  shows "synced (snd (strat_Create env inp (Some db)), r)"
proof (cases "and_then (name_required (cs_Name inp)) (\<lambda>_.
    and_then (check (Biz (InvalidArg ''dag_json is required'')) (cs_DAGJson inp \<noteq> [])) (\<lambda>_.
      valid_dag_json env (cs_DAGJson inp)))")
  case (Inr u)
  then show ?thesis
    unfolding strat_Create_def option.case Inr sum.case Let_def
    by (intro synced_transaction [OF assms]) (rule in_sync_create [OF assms], assumption, simp)
next
  case (Inl e)
  then show ?thesis using assms by (simp add: strat_Create_def synced_def)
qed

lemma synced_Update:
  assumes "in_sync db r" "same_parser env"
  shows "synced (snd (strat_Update env (Some ops) i inp (Some db, r)))"
proof (cases "check_update env inp")
  case (Inl e)
  then show ?thesis using assms(1) by (simp add: strat_Update_def synced_def)
next
  case (Inr u)
  show ?thesis
  proof (cases "transaction env 4 (update_body env i inp) db")
    case (Pair res db')
    show ?thesis
    proof (cases res)
      case (Inl e)
      then have "db' = db" using Pair by (auto simp: transaction_def split: sum.splits)
      then show ?thesis using assms(1) Inl Inr Pair by (simp add: strat_Update_def synced_def)
    next
      case (Inr a)
      then have body: "update_body env i inp db = Inr (a, db')"
        using Pair by (auto simp: transaction_def and_then_Inr split: sum.splits)
      obtain s' v where a: "a = (s', v)" by force
      obtain s where s: "tb_first i (sd_strategies db) = Some s"
        and cron: "st_CronExpression s' = st_CronExpression (updated_row inp s)"
        and db': "sd_strategies db' = tb_save i s' (sd_strategies db)"
        by (rule update_body_Inr [OF body [unfolded a]], cases "us_DAGJson inp = [] \<or> us_DAGJson inp = st_DAGJson s'")
          (auto simp: updated_row_def)
      have "parsed s" using assms(1) s by (auto simp: in_sync_def tbl.all_rows_def)
      then have "parsed s'" by (rule parsed_updated [OF assms(2) \<open>check_update env inp = Inr u\<close> _ cron])
      then have "in_sync db' (scheduleSync (Some ops) i s' r)" by (rule in_sync_update [OF assms(1) s _ db'])
      then show ?thesis
        using \<open>check_update env inp = Inr u\<close> Pair Inr a by (simp add: strat_Update_def synced_def)
    qed
  qed
qed

lemma synced_step:
  assumes "synced st" "same_parser (fst er)"
  shows "synced (strategy_step (Some ops) er st)"
proof -
  obtain db r where st: "st = (Some db, r)" "in_sync db r" using assms(1) by (cases st) (auto simp: synced_def)
  obtain env req where er: "er = (env, req)" by force
  show ?thesis
  proof (cases req)
    case (Create_strategy inp)
    then show ?thesis using synced_Create [OF st(2)] by (simp add: st(1) er)
  next
    case (Update_strategy i inp)
    then show ?thesis using synced_Update [OF st(2)] assms(2) by (simp add: st(1) er)
  next
    case (Delete_strategy i)
    then show ?thesis
      using synced_transaction [OF st(2), of "delete_body env i" env 4] in_sync_delete [OF st(2)]
      by (simp add: st(1) er strat_Delete_def)
  next
    case (Clone_strategy i c)
    have "synced (snd (map_prod id Some (transaction env 4 (clone_body env i c) db)), r)"
    proof (rule synced_transaction [OF st(2)])
      fix a db' assume "clone_body env i c db = Inr (a, db')"
      then obtain src g where "create_pair env 2 ''create clone'' ''create clone version'' (clone_row env c src g)
          (clone_note env i g) db = Inr (a, db')"
        using clone_body_Inr by blast
      then show "in_sync db' r" by (rule in_sync_create [OF st(2)]) (simp add: clone_row_def)
    qed
    then show ?thesis using Clone_strategy by (simp add: st(1) er strat_Clone_def)
  next
    case (Import_strategy t)
    then show ?thesis
      using synced_Create [OF st(2)] st(2) by (auto simp: st(1) er strat_Import_def synced_def split: sum.splits)
  qed
qed

lemma synced_fold:
  "synced st \<Longrightarrow> \<forall>er\<in>set reqs. same_parser (fst er) \<Longrightarrow> synced (fold (strategy_step (Some ops)) reqs st)"
  by (induction reqs arbitrary: st) (simp_all add: synced_step)

lemma synced_empty: "ok r \<Longrightarrow> (\<And>i. planned r i = None) \<Longrightarrow> synced (Some empty_strategies, r)"
  using tb_ok_empty by (simp add: synced_def in_sync_def tbl.all_rows_def empty_strategies_def tb_first_def)
    (simp add: empty_table_def)

end

end
