(* ===== verification/Graph_Walk.thy ===== *)
theory Graph_Walk
  imports Dag_Topo
begin

text \<open>
  The two breadth-first walks of \<open>orchestrator/executor.go\<close>: \<open>collectDescendants\<close>, which
  marks a node when it is queued, and the backward closure computed by \<open>ExecuteToNode\<close>,
  which marks a node when it is taken from the queue.  Both terminate on every graph,
  cyclic ones included.
\<close>

section \<open>collectDescendants\<close>

text \<open>The loop over the children of the node taken from the queue.\<close>

fun visit_children ::
  "string list \<Rightarrow> string set \<Rightarrow> string list \<Rightarrow> string list \<Rightarrow> string set \<times> string list \<times> string list"
where
  "visit_children [] visited out queue = (visited, out, queue)"
| "visit_children (c # cs) visited out queue =
     (if c \<in> visited then visit_children cs visited out queue
      else visit_children cs (insert c visited) (out @ [c]) (queue @ [c]))"

lemma visit_children_new:
  "visit_children cs visited out queue = (visited', out', queue') \<Longrightarrow>
     \<exists>new. out' = out @ new \<and> queue' = queue @ new \<and> visited' = visited \<union> set new
       \<and> distinct new \<and> set new = set cs - visited"
proof (induction cs visited out queue rule: visit_children.induct)
  case (1 visited out queue)
  then show ?case by simp
next
  case (2 c cs visited out queue)
  show ?case
  proof (cases "c \<in> visited")
    case True
    with 2 show ?thesis by auto
  next
    case False
    with 2 obtain new where
      "out' = (out @ [c]) @ new" "queue' = (queue @ [c]) @ new"
      "visited' = insert c visited \<union> set new" "distinct new"
      "set new = set cs - insert c visited"
      by auto
    with False show ?thesis by (intro exI [of _ "c # new"]) auto
  qed
qed

lemma desc_step_measure:
  assumes "visit_children (Successors (Some g) head) visited out queue = (visited', out', queue')"
  shows "card (edge_rel g `` UNIV - visited') < card (edge_rel g `` UNIV - visited)
         \<or> card (edge_rel g `` UNIV - visited') = card (edge_rel g `` UNIV - visited)
           \<and> length queue' = length queue"
proof -
  from visit_children_new [OF assms] obtain new where
    new: "queue' = queue @ new" "visited' = visited \<union> set new"
      "set new = edge_rel g `` {head} - visited"
    by (auto simp: set_Successors)
  have fin: "finite (edge_rel g `` UNIV - visited)" by (simp add: finite_Image)
  show ?thesis
  proof (cases "new = []")
    case True
    with new show ?thesis by simp
  next
    case False
    then obtain c where "c \<in> set new" by (cases new) auto
    with new(2,3) have "edge_rel g `` UNIV - visited' \<subset> edge_rel g `` UNIV - visited" by auto
    from psubset_card_mono [OF fin this] show ?thesis by simp
  qed
qed

function desc_loop :: "dag \<Rightarrow> string set \<Rightarrow> string list \<Rightarrow> string list \<Rightarrow> string list" where
  "desc_loop g visited out [] = out"
| "desc_loop g visited out (head # queue) =
     (case visit_children (Successors (Some g) head) visited out queue of
        (visited', out', queue') \<Rightarrow> desc_loop g visited' out' queue')"
  by pat_completeness auto
termination
  by (relation "measures [\<lambda>(g, visited, out, queue). card (edge_rel g `` UNIV - visited),
                          \<lambda>(g, visited, out, queue). length queue]")
     (auto split: prod.splits dest!: desc_step_measure)

definition collectDescendants :: "string \<Rightarrow> dag \<Rightarrow> string list" where
  "collectDescendants start g = desc_loop g {start} [] [start]"

text \<open>
  What holds at the head of the loop: the start and the emitted nodes are exactly the visited
  ones, everything visited is reachable, and the children of every node that has left the
  queue are visited.
\<close>

definition desc_inv :: "dag \<Rightarrow> string \<Rightarrow> string set \<Rightarrow> string list \<Rightarrow> string list \<Rightarrow> bool" where
  "desc_inv g start visited out queue \<longleftrightarrow>
     visited = insert start (set out) \<and> start \<notin> set out \<and> distinct out
     \<and> set queue \<subseteq> visited \<and> visited \<subseteq> (edge_rel g)\<^sup>* `` {start}
     \<and> edge_rel g `` (visited - set queue) \<subseteq> visited"

lemma desc_inv_step:
  assumes "desc_inv g start visited out (head # queue)"
    and "visit_children (Successors (Some g) head) visited out queue = (visited', out', queue')"
  shows "desc_inv g start visited' out' queue'"
proof -
  from visit_children_new [OF assms(2)] obtain new where
    new: "out' = out @ new" "queue' = queue @ new" "visited' = visited \<union> set new" "distinct new"
      "set new = edge_rel g `` {head} - visited"
    by (auto simp: set_Successors)
  have "(start, head) \<in> (edge_rel g)\<^sup>*"
    using assms(1) by (auto simp: desc_inv_def)
  then have reach: "set new \<subseteq> (edge_rel g)\<^sup>* `` {start}"
    unfolding new(5) by (auto intro: rtrancl_into_rtrancl)
  have old: "edge_rel g `` (visited - set (head # queue)) \<subseteq> visited"
    using assms(1) unfolding desc_inv_def by blast
  have "visited' - set queue' \<subseteq> insert head (visited - set (head # queue))"
    unfolding new(2,3) by auto
  moreover have "edge_rel g `` {head} \<subseteq> visited'"
    unfolding new(3) new(5) by auto
  ultimately have closed: "edge_rel g `` (visited' - set queue') \<subseteq> visited'"
    using old unfolding new(3) by blast
  show ?thesis
    using assms(1) new reach closed unfolding desc_inv_def by auto
qed

lemma desc_loop_inv:
  "desc_inv g start visited out queue \<Longrightarrow>
     (\<exists>visited'. desc_inv g start visited' (desc_loop g visited out queue) [])"
  by (induction g visited out queue rule: desc_loop.induct)
     (auto split: prod.split dest: desc_inv_step)

lemma rtrancl_closed:
  assumes "R `` S \<subseteq> S" "x \<in> S"
  shows "R\<^sup>* `` {x} \<subseteq> S"
proof -
  have "y \<in> S" if "(x, y) \<in> R\<^sup>*" for y
    using that assms by (induction rule: rtrancl_induct) auto
  then show ?thesis by blast
qed

lemma collectDescendants_correct:
  "distinct (collectDescendants start g)
   \<and> set (collectDescendants start g) = (edge_rel g)\<^sup>+ `` {start} - {start}"
proof -
  have "desc_inv g start {start} [] [start]"
    by (simp add: desc_inv_def)
  from desc_loop_inv [OF this] obtain visited where
    inv: "desc_inv g start visited (collectDescendants start g) []"
    by (auto simp: collectDescendants_def)
  then have "(edge_rel g)\<^sup>* `` {start} \<subseteq> visited"
    by (intro rtrancl_closed) (auto simp: desc_inv_def)
  with inv have "visited = (edge_rel g)\<^sup>* `` {start}"
    by (auto simp: desc_inv_def)
  with inv have *: "insert start (set (collectDescendants start g)) = (edge_rel g)\<^sup>* `` {start}"
    "start \<notin> set (collectDescendants start g)" "distinct (collectDescendants start g)"
    by (auto simp: desc_inv_def)
  then have "set (collectDescendants start g) = (edge_rel g)\<^sup>* `` {start} - {start}"
    by auto
  also have "\<dots> = (edge_rel g)\<^sup>+ `` {start} - {start}"
    by (auto simp: rtrancl_eq_or_trancl)
  finally show ?thesis using * by simp
qed

lemma set_collectDescendants:
  "v \<in> set (collectDescendants u g) \<longleftrightarrow> (u, v) \<in> (edge_rel g)\<^sup>+ \<and> v \<noteq> u"
  using collectDescendants_correct [of u g] by auto

section \<open>The backward closure of ExecuteToNode\<close>

function path_loop :: "dag \<Rightarrow> string set \<Rightarrow> string list \<Rightarrow> string set" where
  "path_loop g inPath [] = inPath"
| "path_loop g inPath (head # queue) =
     (if head \<in> inPath then path_loop g inPath queue
      else path_loop g (insert head inPath) (queue @ Predecessors (Some g) head))"
  by pat_completeness auto
termination
proof (relation "measures [\<lambda>(g, inPath, queue). card ((set queue \<union> (edge_rel g)\<inverse> `` UNIV) - inPath),
                           \<lambda>(g, inPath, queue). length queue]", goal_cases)
  case 1
  show ?case by simp
next
  case (2 g inPath head queue)
  then have "(set (head # queue) \<union> (edge_rel g)\<inverse> `` UNIV) - inPath
      = (set queue \<union> (edge_rel g)\<inverse> `` UNIV) - inPath"
    by auto
  then show ?case by simp
next
  case (3 g inPath head queue)
  let ?a = "(set (head # queue) \<union> (edge_rel g)\<inverse> `` UNIV) - inPath"
  have "finite ((edge_rel g)\<inverse> `` UNIV)" by (intro finite_Image) simp
  then have "finite ?a" by simp
  moreover have "(set (queue @ Predecessors (Some g) head) \<union> (edge_rel g)\<inverse> `` UNIV) - insert head inPath
      \<subset> ?a"
    using 3 by (auto simp: set_Predecessors)
  ultimately have "card ((set (queue @ Predecessors (Some g) head) \<union> (edge_rel g)\<inverse> `` UNIV)
      - insert head inPath) < card ?a"
    by (rule psubset_card_mono)
  then show ?case by (simp only: in_measures split_conv prod.case simp_thms)
qed

definition in_path :: "dag \<Rightarrow> string \<Rightarrow> string set" where
  "in_path g target = path_loop g {} [target]"

definition path_inv :: "dag \<Rightarrow> string \<Rightarrow> string set \<Rightarrow> string list \<Rightarrow> bool" where
  "path_inv g target inPath queue \<longleftrightarrow>
     target \<in> inPath \<union> set queue
     \<and> inPath \<union> set queue \<subseteq> ((edge_rel g)\<inverse>)\<^sup>* `` {target}
     \<and> (edge_rel g)\<inverse> `` inPath \<subseteq> inPath \<union> set queue"

lemma path_loop_inv:
  "path_inv g target inPath queue \<Longrightarrow> path_inv g target (path_loop g inPath queue) []"
proof (induction g inPath queue rule: path_loop.induct)
  case (1 g inPath)
  then show ?case by simp
next
  case (2 g inPath head queue)
  show ?case
  proof (cases "head \<in> inPath")
    case True
    with 2 show ?thesis by (auto simp: path_inv_def)
  next
    case False
    have "path_inv g target (insert head inPath) (queue @ Predecessors (Some g) head)"
      using "2.prems" unfolding path_inv_def set_append set_Predecessors
      by (auto intro: rtrancl.rtrancl_into_rtrancl)
    with 2 False show ?thesis by simp
  qed
qed

lemma in_path_correct: "in_path g target = {v. (v, target) \<in> (edge_rel g)\<^sup>*}"
proof -
  have "path_inv g target {} [target]" by (simp add: path_inv_def)
  from path_loop_inv [OF this] have inv: "path_inv g target (in_path g target) []"
    by (simp add: in_path_def)
  then have "((edge_rel g)\<inverse>)\<^sup>* `` {target} \<subseteq> in_path g target"
    by (intro rtrancl_closed) (auto simp: path_inv_def)
  with inv have "in_path g target = ((edge_rel g)\<inverse>)\<^sup>* `` {target}"
    by (auto simp: path_inv_def)
  then show ?thesis by (auto simp: rtrancl_converse)
qed

text \<open>The sub-DAG that keeps the nodes and edges inside the closure.\<close>

definition sub_dag :: "dag \<Rightarrow> string set \<Rightarrow> dag" where
  "sub_dag g inPath =
     \<lparr>Nodes = filter (\<lambda>n. nd_ID n \<in> inPath) (Nodes g),
      Edges = filter (\<lambda>e. ed_Source e \<in> inPath \<and> ed_Target e \<in> inPath) (Edges g)\<rparr>"

lemma node_ids_sub_dag: "node_ids (sub_dag g P) = filter (\<lambda>i. i \<in> P) (node_ids g)"
  by (simp add: node_ids_def sub_dag_def filter_map comp_def)

lemma edge_rel_sub_dag: "edge_rel (sub_dag g P) = edge_rel g \<inter> P \<times> P"
  by (auto simp: edge_rel_def sub_dag_def)

lemma well_formed_sub_dag:
  assumes "well_formed g" "target \<in> set (node_ids g)"
  shows "well_formed (sub_dag g (in_path g target))"
proof -
  have "target \<in> in_path g target" by (simp add: in_path_correct)
  then have ne: "Nodes (sub_dag g (in_path g target)) \<noteq> []"
    using assms(2) by (auto simp: sub_dag_def node_ids_def filter_empty_conv)
  show ?thesis
    using assms(1) ne by (auto simp: well_formed_def node_ids_sub_dag) (auto simp: sub_dag_def)
qed

end
