(* ===== verification/Node_Registry.thy ===== *)
theory Node_Registry
  imports Dag
begin

text \<open>
  \<open>orchestrator/registry.go\<close> and the \<open>Node\<close> interface of \<open>orchestrator/node.go\<close>.  A node
  implementation is its type, its subtype and its \<open>Run\<close> method; \<open>Run\<close> is the relation
  between the inputs map and the outcomes the call may have, so that nothing is assumed of
  an implementation.  Payloads are an arbitrary type \<open>'p\<close>.
\<close>

section \<open>Node implementations\<close>

text \<open>A value of the inputs map: a predecessor's payload, the raw parameters, or a string.\<close>

datatype 'p input = Payload 'p | ParamBytes string | Text string

text \<open>
  What a call of \<open>Run\<close> gives: a payload (or a nil map), an error with its message and
  whether it is \<open>context.Canceled\<close> under \<open>errors.Is\<close>, or a panic.
\<close>

datatype 'p outcome = RunOk "'p option" | RunErr string bool | RunPanic string

record 'p node =
  n_Type :: string
  n_Subtype :: string
  n_Run :: "(string \<rightharpoonup> 'p input) \<Rightarrow> 'p outcome \<Rightarrow> bool"

section \<open>The registry\<close>

record 'p registry =
  byType :: "string \<rightharpoonup> 'p node"
  bySubtype :: "string \<times> string \<rightharpoonup> 'p node"

datatype reg_error = NilNode | EmptyType | DupType string | DupSubtype string string

definition NewRegistry :: "'p registry" where
  "NewRegistry = \<lparr>byType = Map.empty, bySubtype = Map.empty\<rparr>"

text \<open>
  \<open>Register\<close> returns its error and the registry it leaves behind: the duplicate-subtype
  error is raised after \<open>byType\<close> has been written.
\<close>

definition Register :: "'p node option \<Rightarrow> 'p registry \<Rightarrow> reg_error option \<times> 'p registry" where
  "Register nd r =
     (case nd of
        None \<Rightarrow> (Some NilNode, r)
      | Some n \<Rightarrow>
          if n_Type n = [] then (Some EmptyType, r)
          else if byType r (n_Type n) \<noteq> None then (Some (DupType (n_Type n)), r)
          else
            let r' = r\<lparr>byType := (byType r)(n_Type n \<mapsto> n)\<rparr>
            in if n_Subtype n \<noteq> []
               then let k = (n_Type n, n_Subtype n)
                    in if bySubtype r' k \<noteq> None
                       then (Some (DupSubtype (n_Type n) (n_Subtype n)), r')
                       else (None, r'\<lparr>bySubtype := (bySubtype r')(k \<mapsto> n)\<rparr>)
               else (None, r'))"

text \<open>\<open>MustRegister\<close>: \<^const>\<open>Inl\<close> is the panic.\<close>

definition MustRegister :: "'p node option \<Rightarrow> 'p registry \<Rightarrow> reg_error + 'p registry" where
  "MustRegister nd r = (case Register nd r of (Some err, _) \<Rightarrow> Inl err | (None, r') \<Rightarrow> Inr r')"

definition Get :: "'p registry \<Rightarrow> string \<Rightarrow> 'p node option" where
  "Get r t = byType r t"

definition GetBySubtype :: "'p registry \<Rightarrow> string \<Rightarrow> string \<Rightarrow> 'p node option" where
  "GetBySubtype r t st =
     (case (if st \<noteq> [] then bySubtype r (t, st) else None) of
        Some n \<Rightarrow> Some n
      | None \<Rightarrow> (case byType r t of
                   Some n \<Rightarrow> if n_Subtype n = [] then Some n else None
                 | None \<Rightarrow> None))"

definition ListTypes :: "'p registry \<Rightarrow> string list" where
  "ListTypes r = sorted_list_of_set (dom (byType r))"

section \<open>Invariant\<close>

text \<open>Registries reachable from \<open>NewRegistry\<close> by any sequence of \<open>Register\<close> calls.\<close>

inductive registered :: "'p registry \<Rightarrow> bool" where
  registered_new: "registered NewRegistry"
| registered_add: "registered r \<Longrightarrow> registered (snd (Register nd r))"

definition registry_inv :: "'p registry \<Rightarrow> bool" where
  "registry_inv r \<longleftrightarrow>
     finite (dom (byType r))
     \<and> (\<forall>t n. byType r t = Some n \<longrightarrow> n_Type n = t \<and> t \<noteq> []
            \<and> (n_Subtype n \<noteq> [] \<longrightarrow> bySubtype r (t, n_Subtype n) = Some n))
     \<and> (\<forall>t st n. bySubtype r (t, st) = Some n \<longrightarrow>
            st \<noteq> [] \<and> n_Subtype n = st \<and> byType r t = Some n)"

lemma registry_inv_New [inv_intros]: "registry_inv NewRegistry"
  by (simp add: registry_inv_def NewRegistry_def)

lemma Register_cases [case_names fail ok]:
  assumes "\<And>err. Register nd r = (Some err, r) \<Longrightarrow> P"
    and "\<And>n. nd = Some n \<Longrightarrow> n_Type n \<noteq> [] \<Longrightarrow> byType r (n_Type n) = None \<Longrightarrow>
       Register nd r =
         (None, r\<lparr>byType := (byType r)(n_Type n \<mapsto> n),
                  bySubtype := (if n_Subtype n = [] then bySubtype r
                                else (bySubtype r)((n_Type n, n_Subtype n) \<mapsto> n))\<rparr>) \<Longrightarrow> P"
    and inv: "registry_inv r"
  shows P
proof (cases nd)
  case None
  then show ?thesis using assms(1) by (simp add: Register_def)
next
  case (Some n)
  show ?thesis
  proof (cases "n_Type n = [] \<or> byType r (n_Type n) \<noteq> None")
    case True
    then obtain err where "Register nd r = (Some err, r)"
      using Some by (cases "n_Type n = []") (auto simp: Register_def)
    then show ?thesis by (rule assms(1))
  next
    case False
    then have "bySubtype r (n_Type n, n_Subtype n) = None"
      using inv by (cases "bySubtype r (n_Type n, n_Subtype n)") (auto simp: registry_inv_def)
    then show ?thesis
      using False Some by (intro assms(2)) (auto simp: Register_def Let_def)
  qed
qed

lemma registry_inv_Register [inv_intros]:
  assumes "registry_inv r"
  shows "registry_inv (snd (Register nd r))"
  using assms
proof (cases rule: Register_cases [of nd r, case_names fail ok])
  case (fail err)
  then show ?thesis using assms by simp
next
  case (ok n)
  then show ?thesis using assms by (auto simp: registry_inv_def)
qed

lemma registered_inv: "registered r \<Longrightarrow> registry_inv r"
  by (induction rule: registered.induct) (auto intro: inv_intros)

lemma GetBySubtype_iff:
  assumes "registry_inv r"
  shows "GetBySubtype r t st = Some n \<longleftrightarrow>
           byType r t = Some n \<and> (n_Subtype n = [] \<or> n_Subtype n = st)"
  using assms
  by (auto simp: GetBySubtype_def registry_inv_def split: option.splits if_splits)

section \<open>Properties\<close>

definition ex_reg_node :: "string \<Rightarrow> string \<Rightarrow> nat node" where
  "ex_reg_node t st = \<lparr>n_Type = t, n_Subtype = st, n_Run = (\<lambda>_ _. True)\<rparr>"

definition ex_registry :: "nat registry" where
  "ex_registry = snd (Register (Some (ex_reg_node ''rank'' []))
                   (snd (Register (Some (ex_reg_node ''indicator'' ''ma'')) NewRegistry)))"

lemma ex_registered: "registered ex_registry"
  unfolding ex_registry_def by (intro registered.intros)

text \<open>In a registry built by \<open>Register\<close> calls from an empty one, \<open>GetBySubtype\<close> finds a node
  exactly when the type's one registered node either has no subtype or has the subtype asked for,
  and what it finds carries the type asked for.\<close>

theorem GetBySubtype_spec:
  assumes "registered r"
  shows "GetBySubtype r t st = Some n \<longleftrightarrow>
           Get r t = Some n \<and> n_Type n = t \<and> (n_Subtype n = [] \<or> n_Subtype n = st)"
  using GetBySubtype_iff [OF registered_inv [OF assms]] registered_inv [OF assms]
  by (auto simp: Get_def registry_inv_def)

theorem GetBySubtype_spec_witness:
  "GetBySubtype ex_registry ''indicator'' ''ma'' = Some (ex_reg_node ''indicator'' ''ma'')"
  unfolding GetBySubtype_spec [OF ex_registered]
  by (simp add: ex_registry_def ex_reg_node_def Register_def NewRegistry_def Get_def)

end
