(* ===== verification/Event_Bus.thy ===== *)
theory Event_Bus
  imports AF_Prelude
begin

text \<open>
  The run-event bus of \<open>orchestrator/eventbus.go\<close>: event types, events (with the payload of
  \<open>Data\<close> left open), and the in-process bus, which hands an event to every subscriber of its
  run and counts the ones a full subscriber loses.  A subscriber is its channel: the events
  buffered in it and whether it is closed; the address of a \<open>memSub\<close> is its number.
\<close>

section \<open>Events\<close>

datatype event_type =
    EventRunStarted | EventRunCompleted
  | EventNodeStarted | EventNodeSuccess | EventNodeFailed | EventNodeSkipped
  | EventLog

record 'd event =
  ev_RunID :: nat
  ev_NodeID :: string
  ev_Type :: event_type
  ev_Timestamp :: instant
  ev_Data :: 'd

section \<open>The in-process bus\<close>

definition memBusChanSize :: nat where
  "memBusChanSize = 64"

record 'd mem_sub =
  sub_queue :: "'d event list"
  sub_closed :: bool

text \<open>\<open>mb_subs\<close> holds the subscriber lists, \<open>mb_heap\<close> the subscribers they point to.\<close>

record 'd mem_bus =
  mb_subs :: "nat \<rightharpoonup> nat list"
  mb_heap :: "'d mem_sub list"
  mb_dropped :: nat

definition NewMemBus :: "'d mem_bus" where
  "NewMemBus = \<lparr>mb_subs = Map.empty, mb_heap = [], mb_dropped = 0\<rparr>"

definition subs_of :: "'d mem_bus \<Rightarrow> nat \<Rightarrow> nat list" where
  "subs_of b run = (case mb_subs b run of None \<Rightarrow> [] | Some l \<Rightarrow> l)"

definition Subscribe :: "nat \<Rightarrow> 'd mem_bus \<Rightarrow> nat \<times> 'd mem_bus" where
  "Subscribe run b =
     (let p = length (mb_heap b)
      in (p, b\<lparr>mb_heap := mb_heap b @ [\<lparr>sub_queue = [], sub_closed = False\<rparr>],
               mb_subs := (mb_subs b)(run \<mapsto> subs_of b run @ [p])\<rparr>))"

text \<open>The function \<open>Subscribe\<close> returns: the first entry for the subscriber is dropped and its
  channel closed; an empty list leaves the map.\<close>

definition Unsubscribe :: "nat \<Rightarrow> nat \<Rightarrow> 'd mem_bus \<Rightarrow> 'd mem_bus" where
  "Unsubscribe run p b =
     (let l = remove1 p (subs_of b run);
          b1 = (if p \<in> set (subs_of b run)
                then b\<lparr>mb_subs := (mb_subs b)(run \<mapsto> l),
                       mb_heap := (mb_heap b)[p := (mb_heap b ! p)\<lparr>sub_closed := True\<rparr>]\<rparr>
                else b)
      in if subs_of b1 run = [] then b1\<lparr>mb_subs := (mb_subs b1)(run := None)\<rparr> else b1)"

text \<open>One non-blocking send.\<close>

definition send_event :: "'d event \<Rightarrow> nat \<Rightarrow> 'd mem_bus \<Rightarrow> 'd mem_bus" where
  "send_event ev p b =
     (let q = sub_queue (mb_heap b ! p)
      in if length q < memBusChanSize
         then b\<lparr>mb_heap := (mb_heap b)[p := (mb_heap b ! p)\<lparr>sub_queue := q @ [ev]\<rparr>]\<rparr>
         else b\<lparr>mb_dropped := Suc (mb_dropped b)\<rparr>)"

definition Publish :: "'d event \<Rightarrow> 'd mem_bus \<Rightarrow> 'd mem_bus" where
  "Publish ev b = fold (send_event ev) (subs_of b (ev_RunID ev)) b"

definition DroppedCount :: "'d mem_bus \<Rightarrow> nat" where
  "DroppedCount b = mb_dropped b"

text \<open>A subscriber reads the oldest event of its channel.\<close>

definition recv_event :: "nat \<Rightarrow> 'd mem_bus \<Rightarrow> 'd event option \<times> 'd mem_bus" where
  "recv_event p b =
     (case sub_queue (mb_heap b ! p) of
        [] \<Rightarrow> (None, b)
      | ev # q \<Rightarrow> (Some ev, b\<lparr>mb_heap := (mb_heap b)[p := (mb_heap b ! p)\<lparr>sub_queue := q\<rparr>]\<rparr>))"

section \<open>Invariant\<close>

text \<open>Subscriber lists hold open, allocated channels, each in one list and once; no channel
  holds more than its capacity.\<close>

definition bus_inv :: "'d mem_bus \<Rightarrow> bool" where
  "bus_inv b \<longleftrightarrow>
     (\<forall>run. distinct (subs_of b run))
   \<and> (\<forall>run p. p \<in> set (subs_of b run) \<longrightarrow> p < length (mb_heap b) \<and> \<not> sub_closed (mb_heap b ! p))
   \<and> (\<forall>run run' p. p \<in> set (subs_of b run) \<longrightarrow> p \<in> set (subs_of b run') \<longrightarrow> run = run')
   \<and> (\<forall>p < length (mb_heap b). length (sub_queue (mb_heap b ! p)) \<le> memBusChanSize)"

lemma bus_inv_NewMemBus: "bus_inv NewMemBus"
  by (simp add: bus_inv_def NewMemBus_def subs_of_def)

lemma bus_invD:
  assumes "bus_inv b"
  shows "distinct (subs_of b run)"
    and "p \<in> set (subs_of b run) \<Longrightarrow> p < length (mb_heap b)"
    and "p \<in> set (subs_of b run) \<Longrightarrow> \<not> sub_closed (mb_heap b ! p)"
    and "p \<in> set (subs_of b run) \<Longrightarrow> p \<in> set (subs_of b run') \<Longrightarrow> run = run'"
    and "p < length (mb_heap b) \<Longrightarrow> length (sub_queue (mb_heap b ! p)) \<le> memBusChanSize"
  using assms unfolding bus_inv_def by blast+

lemma bus_inv_Subscribe:
  assumes "bus_inv b"
  shows "bus_inv (snd (Subscribe run b))"
proof -
  have subs: "subs_of (snd (Subscribe run b)) r =
      (if r = run then subs_of b run @ [length (mb_heap b)] else subs_of b r)" for r
    by (simp add: Subscribe_def Let_def subs_of_def)
  have heap: "mb_heap (snd (Subscribe run b)) = mb_heap b @ [\<lparr>sub_queue = [], sub_closed = False\<rparr>]"
    by (simp add: Subscribe_def Let_def)
  show ?thesis
    unfolding bus_inv_def subs heap
    using bus_invD [OF assms]
    by (auto simp: nth_append less_Suc_eq split: if_splits) (fastforce+)?
qed

lemma subs_of_Unsubscribe:
  "subs_of (Unsubscribe run p b) r = (if r = run then remove1 p (subs_of b run) else subs_of b r)"
  by (auto simp: Unsubscribe_def Let_def subs_of_def remove1_idem split: option.splits)

lemma heap_Unsubscribe:
  "mb_heap (Unsubscribe run p b) =
     (if p \<in> set (subs_of b run)
      then (mb_heap b)[p := (mb_heap b ! p)\<lparr>sub_closed := True\<rparr>] else mb_heap b)"
  by (simp add: Unsubscribe_def Let_def)

lemma bus_inv_Unsubscribe:
  assumes "bus_inv b"
  shows "bus_inv (Unsubscribe run p b)"
proof -
  note inv = bus_invD [OF assms]
  have sub: "q \<in> set (subs_of b r) \<and> (r = run \<longrightarrow> q \<noteq> p)"
    if "q \<in> set (subs_of (Unsubscribe run p b) r)" for q r
    using that inv(1) by (auto simp: subs_of_Unsubscribe split: if_splits)
  show ?thesis
    unfolding bus_inv_def
  proof (intro conjI allI impI)
    fix r show "distinct (subs_of (Unsubscribe run p b) r)"
      using inv(1) by (simp add: subs_of_Unsubscribe distinct_remove1)
  next
    fix r q assume q: "q \<in> set (subs_of (Unsubscribe run p b) r)"
    show "q < length (mb_heap (Unsubscribe run p b))"
      using sub [OF q] inv(2) [of q r] by (auto simp: heap_Unsubscribe)
    show "\<not> sub_closed (mb_heap (Unsubscribe run p b) ! q)"
      using sub [OF q] inv(2,3,4) by (metis heap_Unsubscribe nth_list_update_neq)
  next
    fix r r' q
    assume "q \<in> set (subs_of (Unsubscribe run p b) r)" "q \<in> set (subs_of (Unsubscribe run p b) r')"
    then show "r = r'" using sub inv(4) by blast
  next
    fix q assume "q < length (mb_heap (Unsubscribe run p b))"
    then show "length (sub_queue (mb_heap (Unsubscribe run p b) ! q)) \<le> memBusChanSize"
      using inv(2,5) by (cases "q = p") (auto simp: heap_Unsubscribe split: if_splits)
  qed
qed

section \<open>Publishing\<close>

text \<open>What a publication leaves of the channel \<open>p\<close>: one more event while there is room, for a
  subscriber of the event's run.\<close>

definition after_publish :: "'d event \<Rightarrow> 'd mem_bus \<Rightarrow> nat \<Rightarrow> 'd mem_sub" where
  "after_publish ev b p =
     (let s = mb_heap b ! p
      in if p \<in> set (subs_of b (ev_RunID ev)) \<and> length (sub_queue s) < memBusChanSize
         then s\<lparr>sub_queue := sub_queue s @ [ev]\<rparr> else s)"

lemma send_event_simps [simp]:
  "mb_subs (send_event ev p b) = mb_subs b"
  "length (mb_heap (send_event ev p b)) = length (mb_heap b)"
  "subs_of (send_event ev p b) run = subs_of b run"
  by (simp_all add: send_event_def Let_def subs_of_def)

lemma fold_send:
  assumes "distinct ps" "\<forall>p\<in>set ps. p < length (mb_heap b)"
  shows "mb_subs (fold (send_event ev) ps b) = mb_subs b
    \<and> mb_heap (fold (send_event ev) ps b) =
        map (\<lambda>p. let s = mb_heap b ! p
                 in if p \<in> set ps \<and> length (sub_queue s) < memBusChanSize
                    then s\<lparr>sub_queue := sub_queue s @ [ev]\<rparr> else s) [0..<length (mb_heap b)]
    \<and> mb_dropped (fold (send_event ev) ps b) =
        mb_dropped b + length (filter (\<lambda>p. length (sub_queue (mb_heap b ! p)) \<ge> memBusChanSize) ps)"
  using assms
proof (induction ps arbitrary: b)
  case Nil
  then show ?case by (simp add: map_nth)
next
  case (Cons p ps)
  have len: "\<forall>q\<in>set ps. q < length (mb_heap (send_event ev p b))" using Cons.prems by simp
  have other: "mb_heap (send_event ev p b) ! q = mb_heap b ! q" if "q \<noteq> p" for q
    using that by (simp add: send_event_def Let_def)
  have here: "mb_heap (send_event ev p b) ! p =
      (let s = mb_heap b ! p in if length (sub_queue s) < memBusChanSize
       then s\<lparr>sub_queue := sub_queue s @ [ev]\<rparr> else s)"
    using Cons.prems by (simp add: send_event_def Let_def)
  have dr: "mb_dropped (send_event ev p b) =
      mb_dropped b + (if length (sub_queue (mb_heap b ! p)) \<ge> memBusChanSize then 1 else 0)"
    by (simp add: send_event_def Let_def)
  have filt: "filter (\<lambda>q. length (sub_queue (mb_heap (send_event ev p b) ! q)) \<ge> memBusChanSize) ps =
      filter (\<lambda>q. length (sub_queue (mb_heap b ! q)) \<ge> memBusChanSize) ps"
  proof (rule filter_cong [OF refl])
    fix q assume "q \<in> set ps"
    with Cons.prems(1) have "q \<noteq> p" by auto
    then show "length (sub_queue (mb_heap (send_event ev p b) ! q)) \<ge> memBusChanSize
        \<longleftrightarrow> length (sub_queue (mb_heap b ! q)) \<ge> memBusChanSize" by (simp add: other)
  qed
  have IH: "mb_subs (fold (send_event ev) ps (send_event ev p b)) = mb_subs b"
    "mb_heap (fold (send_event ev) ps (send_event ev p b)) =
        map (\<lambda>q. let s = mb_heap (send_event ev p b) ! q
                 in if q \<in> set ps \<and> length (sub_queue s) < memBusChanSize
                    then s\<lparr>sub_queue := sub_queue s @ [ev]\<rparr> else s) [0..<length (mb_heap b)]"
    "mb_dropped (fold (send_event ev) ps (send_event ev p b)) = mb_dropped (send_event ev p b)
        + length (filter (\<lambda>q. length (sub_queue (mb_heap b ! q)) \<ge> memBusChanSize) ps)"
    using Cons.IH [OF _ len] Cons.prems(1) by (simp_all add: filt)
  have step: "(let s = mb_heap (send_event ev p b) ! q
        in if q \<in> set ps \<and> length (sub_queue s) < memBusChanSize
           then s\<lparr>sub_queue := sub_queue s @ [ev]\<rparr> else s)
      = (let s = mb_heap b ! q
        in if q \<in> set (p # ps) \<and> length (sub_queue s) < memBusChanSize
           then s\<lparr>sub_queue := sub_queue s @ [ev]\<rparr> else s)" for q
    using Cons.prems(1) by (cases "q = p") (simp_all add: other here Let_def)
  show ?case
    unfolding fold_Cons comp_apply IH step dr by simp
qed

lemma Publish_spec:
  assumes "bus_inv b"
  shows "mb_subs (Publish ev b) = mb_subs b"
    and "length (mb_heap (Publish ev b)) = length (mb_heap b)"
    and "p < length (mb_heap b) \<Longrightarrow> mb_heap (Publish ev b) ! p = after_publish ev b p"
    and "DroppedCount (Publish ev b) = DroppedCount b +
      length (filter (\<lambda>p. length (sub_queue (mb_heap b ! p)) \<ge> memBusChanSize)
                (subs_of b (ev_RunID ev)))"
  using fold_send [where ps = "subs_of b (ev_RunID ev)" and b = b and ev = ev] bus_invD(1,2) [OF assms]
  by (simp_all add: Publish_def DroppedCount_def after_publish_def Let_def)

lemma bus_inv_Publish:
  assumes "bus_inv b"
  shows "bus_inv (Publish ev b)"
proof -
  have subs: "subs_of (Publish ev b) run = subs_of b run" for run
    by (simp add: subs_of_def Publish_spec(1) [OF assms])
  show ?thesis
    using bus_invD [OF assms]
    unfolding bus_inv_def subs Publish_spec(2) [OF assms]
    by (auto simp: Publish_spec(3) [OF assms] after_publish_def Let_def)
qed

lemma bus_inv_recv:
  assumes "bus_inv b" "p < length (mb_heap b)"
  shows "bus_inv (snd (recv_event p b))"
proof (cases "sub_queue (mb_heap b ! p)")
  case Nil
  then show ?thesis using assms(1) by (simp add: recv_event_def)
next
  case (Cons ev q)
  have subs: "subs_of (snd (recv_event p b)) run = subs_of b run" for run
    by (simp add: recv_event_def Cons subs_of_def)
  have heap: "mb_heap (snd (recv_event p b)) = (mb_heap b)[p := (mb_heap b ! p)\<lparr>sub_queue := q\<rparr>]"
    by (simp add: recv_event_def Cons)
  have "length q \<le> memBusChanSize" using bus_invD(5) [OF assms] Cons by simp
  then show ?thesis
    using bus_invD [OF assms(1)] assms(2) unfolding bus_inv_def subs heap
    by (auto simp: nth_list_update)
qed

text \<open>The buses the program can build.\<close>

inductive bus_reachable :: "'d mem_bus \<Rightarrow> bool" where
  bus_new: "bus_reachable NewMemBus"
| bus_subscribe: "bus_reachable b \<Longrightarrow> bus_reachable (snd (Subscribe run b))"
| bus_unsubscribe: "bus_reachable b \<Longrightarrow> bus_reachable (Unsubscribe run p b)"
| bus_publish: "bus_reachable b \<Longrightarrow> bus_reachable (Publish ev b)"
| bus_recv: "bus_reachable b \<Longrightarrow> p < length (mb_heap b) \<Longrightarrow> bus_reachable (snd (recv_event p b))"

lemma bus_reachable_inv: "bus_reachable b \<Longrightarrow> bus_inv b"
  by (induction rule: bus_reachable.induct)
    (auto intro: bus_inv_NewMemBus bus_inv_Subscribe bus_inv_Unsubscribe bus_inv_Publish bus_inv_recv)

section \<open>Property\<close>

text \<open>On every bus the program can build, publishing an event appends it to the channel of
  every subscriber of its run that has room, leaves every other channel as it is, never sends on
  a closed channel, and counts each subscriber whose channel is full as one dropped event.\<close>

theorem Publish_delivers:
  assumes "bus_reachable b"
  shows "length (mb_heap (Publish ev b)) = length (mb_heap b)
    \<and> (p < length (mb_heap b) \<longrightarrow> mb_heap (Publish ev b) ! p =
         (if p \<in> set (subs_of b (ev_RunID ev)) \<and> length (sub_queue (mb_heap b ! p)) < 64
          then (mb_heap b ! p)\<lparr>sub_queue := sub_queue (mb_heap b ! p) @ [ev]\<rparr> else mb_heap b ! p))
    \<and> (p \<in> set (subs_of b (ev_RunID ev)) \<longrightarrow> p < length (mb_heap b) \<and> \<not> sub_closed (mb_heap b ! p))
    \<and> DroppedCount (Publish ev b) = DroppedCount b
         + length (filter (\<lambda>p. length (sub_queue (mb_heap b ! p)) = 64) (subs_of b (ev_RunID ev)))"
proof -
  note inv = bus_reachable_inv [OF assms]
  have full: "filter (\<lambda>p. length (sub_queue (mb_heap b ! p)) \<ge> memBusChanSize) (subs_of b (ev_RunID ev))
      = filter (\<lambda>p. length (sub_queue (mb_heap b ! p)) = 64) (subs_of b (ev_RunID ev))"
    using bus_invD(2,5) [OF inv] by (auto simp: memBusChanSize_def intro!: filter_cong le_antisym)
  show ?thesis
    using Publish_spec [OF inv, where ev = ev] bus_invD(2,3) [OF inv]
    by (simp add: full) (simp add: after_publish_def Let_def memBusChanSize_def)
qed

definition ex_bus :: "nat mem_bus" where
  "ex_bus = snd (Subscribe 7 (snd (Subscribe 7 NewMemBus)))"

definition ex_event :: "nat event" where
  "ex_event = \<lparr>ev_RunID = 7, ev_NodeID = ''a'', ev_Type = EventNodeStarted, ev_Timestamp = 0, ev_Data = 0\<rparr>"

theorem Publish_delivers_witness:
  "sub_queue (mb_heap (Publish ex_event ex_bus) ! 1) = [ex_event]
   \<and> DroppedCount (Publish ex_event ex_bus) = 0"
proof -
  have "bus_reachable ex_bus" unfolding ex_bus_def by (intro bus_reachable.intros)
  from Publish_delivers [OF this, where ev = ex_event and p = 1] show ?thesis
    by (simp add: ex_bus_def ex_event_def Subscribe_def subs_of_def NewMemBus_def DroppedCount_def)
qed

end
