(* ===== verification/Exec_Model.thy ===== *)
theory Exec_Model
  imports Graph_Walk Node_Registry Event_Bus
begin

text \<open>
  The concurrent DAG executor, \<open>orchestrator/executor.go\<close>.  The scheduler goroutine owns
  the state of \<open>sched\<close>; every dispatched node is a worker goroutine in one of the phases of
  \<open>wphase\<close>.  One action is one atomic move of a goroutine; which action comes next, what a
  node's \<open>Run\<close> gives and what the clock reads are not determined.
\<close>

section \<open>Results\<close>

datatype run_status = StatusSuccess | StatusFailed | StatusSkipped | StatusPartial

datatype skip_reason = NoSkip | UpstreamFailed | Cancelled | NotInPath

record 'p node_result =
  nr_NodeID :: string
  nr_Status :: run_status
  nr_Error :: node_error
  nr_SkipReason :: skip_reason
  nr_Payload :: "'p option"
  nr_StartedAt :: instant
  nr_FinishedAt :: instant
  nr_Duration :: duration

section \<open>Run events\<close>

text \<open>The \<open>Error\<close> string of a summary.\<close>

datatype summary_error = NoSummaryError | RunAborted orch_error | OneOrMoreFailed

text \<open>The \<open>Data\<close> maps of the events the executor publishes; durations in milliseconds.\<close>

datatype exec_data =
    RunStartedData nat bool
  | RunCompletedData run_status int summary_error
  | NodeKindData string string
  | NodeErrorData node_error int
  | NodeDurationData int

text \<open>\<open>time.Duration.Milliseconds\<close> truncates toward zero.\<close>

definition milliseconds :: "duration \<Rightarrow> int" where
  "milliseconds d = sgn d * (\<bar>d\<bar> div 1000000)"

text \<open>The run ID and the strategy ID come from the run context, the flag from the request.\<close>

record run_ids =
  ri_RunID :: nat
  ri_StrategyID :: nat
  ri_DryRun :: bool

text \<open>An event of a worker before the run ID is filled in: node, type, timestamp and data.\<close>

type_synonym node_event = "string \<times> event_type \<times> instant \<times> exec_data"

definition run_event :: "run_ids \<Rightarrow> node_event \<Rightarrow> exec_data event" where
  "run_event ids ne =
     (case ne of (i, ty, t, d) \<Rightarrow>
        \<lparr>ev_RunID = ri_RunID ids, ev_NodeID = i, ev_Type = ty, ev_Timestamp = t, ev_Data = d\<rparr>)"

section \<open>The executor's configuration\<close>

record 'p executor =
  eng_registry :: "'p registry"
  eng_maxConcurrency :: int
  eng_defaultTimeout :: duration

definition NewExecutor :: "'p registry option \<Rightarrow> int \<Rightarrow> duration \<Rightarrow> 'p executor" where
  "NewExecutor reg maxc timeout =
     \<lparr>eng_registry = (case reg of None \<Rightarrow> NewRegistry | Some r \<Rightarrow> r),
      eng_maxConcurrency = positive_or 4 maxc,
      eng_defaultTimeout = positive_or (60 * nano_second) timeout\<rparr>"

text \<open>The capacity of the semaphore channel.\<close>

definition sem_capacity :: "'p executor \<Rightarrow> nat" where
  "sem_capacity e = (if eng_maxConcurrency e < 1 then 1 else nat (eng_maxConcurrency e))"

section \<open>Scheduler state\<close>

text \<open>
  A worker is queued until it takes a semaphore slot; it then checks whether its node is
  already completed (\<open>WHolding\<close> when not), checks the context and builds its inputs
  (\<open>WRunning\<close>), and finally offers a result on the \<open>done\<close> channel (\<open>WDone\<close>).  It gives its
  slot back after the scheduler has received the result: \<open>exiting\<close> counts the workers
  between the two.
\<close>

datatype 'p wphase =
    WQueued
  | WHolding instant
  | WRunning instant "string \<rightharpoonup> 'p input"
  | WDone "'p node_result"

record 'p sched =
  pending :: "string \<Rightarrow> int"
  ready :: "string list"
  completed :: "string \<rightharpoonup> run_status"
  results :: "string \<rightharpoonup> 'p node_result"
  payloads :: "string \<rightharpoonup> 'p"
  workers :: "(string \<times> 'p wphase) list"
  exiting :: nat
  first_err :: "orch_error option"
  cancelled :: bool
  published :: "node_event list"

fun holds_slot :: "'p wphase \<Rightarrow> bool" where
  "holds_slot WQueued = False"
| "holds_slot (WHolding _) = True"
| "holds_slot (WRunning _ _) = True"
| "holds_slot (WDone _) = True"

text \<open>\<open>rc.Bus.Publish\<close>, by a worker: \<open>published\<close> lists the node events handed to the bus.\<close>

definition publish :: "node_event list \<Rightarrow> 'p sched \<Rightarrow> 'p sched" where
  "publish evs s = s\<lparr>published := published s @ evs\<rparr>"

text \<open>The number of tokens in the semaphore channel.\<close>

definition slots :: "'p sched \<Rightarrow> nat" where
  "slots s = length (filter (holds_slot \<circ> snd) (workers s)) + exiting s"

section \<open>The scheduler's closures\<close>

definition recordResult :: "'p node_result \<Rightarrow> 'p sched \<Rightarrow> 'p sched" where
  "recordResult res s =
     s\<lparr>completed := (completed s)(nr_NodeID res \<mapsto> nr_Status res),
       results := (results s)(nr_NodeID res \<mapsto> res),
       payloads := (case nr_Payload res of None \<Rightarrow> payloads s
                    | Some p \<Rightarrow> (payloads s)(nr_NodeID res \<mapsto> p))\<rparr>"

text \<open>The body of \<open>enqueueChildren\<close>, for one child.\<close>

definition enqueueChild :: "string \<Rightarrow> 'p sched \<Rightarrow> 'p sched" where
  "enqueueChild child s =
     (if child \<in> dom (completed s) then s
      else let p = pending s child - 1
           in s\<lparr>pending := (pending s)(child := p),
                ready := (if p \<le> 0 then insertSorted (ready s) child else ready s)\<rparr>)"

definition enqueueChildren :: "dag \<Rightarrow> string \<Rightarrow> 'p sched \<Rightarrow> 'p sched" where
  "enqueueChildren g nodeID s = fold enqueueChild (Successors (Some g) nodeID) s"

definition skip_result :: "string \<Rightarrow> skip_reason \<Rightarrow> instant \<Rightarrow> 'p node_result" where
  "skip_result i why now =
     \<lparr>nr_NodeID = i, nr_Status = StatusSkipped, nr_Error = NoError, nr_SkipReason = why,
      nr_Payload = None, nr_StartedAt = now, nr_FinishedAt = now, nr_Duration = 0\<rparr>"

text \<open>The cascade of \<open>onNodeDone\<close>, for one descendant.\<close>

definition cascadeSkip :: "instant \<Rightarrow> string \<Rightarrow> 'p sched \<Rightarrow> 'p sched" where
  "cascadeSkip now i s =
     (if i \<in> dom (completed s) then s
      else s\<lparr>completed := (completed s)(i \<mapsto> StatusSkipped),
             results := (results s)(i \<mapsto> skip_result i UpstreamFailed now)\<rparr>)"

definition onNodeDone :: "dag \<Rightarrow> instant \<Rightarrow> 'p node_result \<Rightarrow> 'p sched \<Rightarrow> 'p sched" where
  "onNodeDone g now res s =
     (let s1 = recordResult res s;
          s2 = (if nr_Status res = StatusFailed
                then fold (cascadeSkip now) (collectDescendants (nr_NodeID res) g) s1 else s1)
      in enqueueChildren g (nr_NodeID res) s2)"

text \<open>
  \<open>drainReady\<close> dispatches the ready nodes in order; \<open>nextReady\<close> answers the empty string for
  an empty queue, so the loop also stops at a node whose ID is empty.
\<close>

fun drain_queue :: "string list \<Rightarrow> (string \<times> 'p wphase) list \<Rightarrow> string list \<times> (string \<times> 'p wphase) list"
where
  "drain_queue [] ws = ([], ws)"
| "drain_queue (i # rest) ws = (if i = [] then (rest, ws) else drain_queue rest (ws @ [(i, WQueued)]))"

definition drainReady :: "'p sched \<Rightarrow> 'p sched" where
  "drainReady s =
     (case drain_queue (ready s) (workers s) of (rest, ws) \<Rightarrow> s\<lparr>ready := rest, workers := ws\<rparr>)"

definition init_sched :: "dag \<Rightarrow> 'p sched" where
  "init_sched g =
     \<lparr>pending = (\<lambda>i. if i \<in> set (node_ids g) then int (length (Predecessors (Some g) i)) else 0),
      ready = sortStrings (Roots (Some g)), completed = Map.empty, results = Map.empty,
      payloads = Map.empty, workers = [], exiting = 0, first_err = None, cancelled = False,
      published = []\<rparr>"

section \<open>runOneNode\<close>

definition done_result :: "string \<Rightarrow> run_status \<Rightarrow> skip_reason \<Rightarrow> instant \<Rightarrow> instant \<Rightarrow> 'p node_result" where
  "done_result i st why t0 t1 =
     \<lparr>nr_NodeID = i, nr_Status = st, nr_Error = NoError, nr_SkipReason = why, nr_Payload = None,
      nr_StartedAt = t0, nr_FinishedAt = t1, nr_Duration = t1 - t0\<rparr>"

text \<open>The already-completed check, after the slot is taken at \<open>t0\<close>.\<close>

definition check_completed :: "string \<Rightarrow> instant \<Rightarrow> instant \<Rightarrow> 'p sched \<Rightarrow> 'p wphase" where
  "check_completed i t0 t1 s =
     (case completed s i of
        Some c \<Rightarrow> WDone (done_result i c (if c = StatusSkipped then UpstreamFailed else NoSkip) t0 t1)
      | None \<Rightarrow> WHolding t0)"

text \<open>
  The inputs map: the payloads of the predecessors that have one, under their IDs, then the
  reserved keys, which overwrite a predecessor of the same name.
\<close>

definition build_inputs :: "dag \<Rightarrow> node_def \<Rightarrow> (string \<rightharpoonup> 'p) \<Rightarrow> string \<Rightarrow> (string \<rightharpoonup> 'p input)" where
  "build_inputs g def pay i =
     (fold (\<lambda>p m. case pay p of Some v \<Rightarrow> m(p \<mapsto> Payload v) | None \<Rightarrow> m)
           (Predecessors (Some g) i) Map.empty)
       (''_params'' \<mapsto> ParamBytes (nd_Params def), ''_type'' \<mapsto> Text (nd_Type def),
        ''_subtype'' \<mapsto> Text (nd_Subtype def), ''_id'' \<mapsto> Text (nd_ID def))"

text \<open>The node definition of \<open>runOneNode\<close>: the zero value when the ID is unknown.\<close>

definition zero_node_def :: node_def where
  "zero_node_def = \<lparr>nd_ID = [], nd_Type = [], nd_Subtype = [], nd_Params = [], nd_Position = None\<rparr>"

definition node_def_of :: "dag \<Rightarrow> string \<Rightarrow> node_def" where
  "node_def_of g i = (case NodeByID (Some g) i of Inl _ \<Rightarrow> zero_node_def | Inr n \<Rightarrow> n)"

text \<open>The context check, then the inputs.\<close>

definition enter_run :: "dag \<Rightarrow> string \<Rightarrow> instant \<Rightarrow> instant \<Rightarrow> 'p sched \<Rightarrow> 'p wphase" where
  "enter_run g i t0 t1 s =
     (if cancelled s then WDone (done_result i StatusSkipped Cancelled t0 t1)
      else WRunning t0 (build_inputs g (node_def_of g i) (payloads s) i))"

text \<open>
  The end of \<open>runOneNode\<close>: an error under a cancelled parent context, or one that is
  \<open>context.Canceled\<close>, is a skip; a panic is recovered into a failed result with fresh times.
\<close>

definition finish_result ::
  "string \<Rightarrow> instant \<Rightarrow> bool \<Rightarrow> 'p outcome \<Rightarrow> instant \<Rightarrow> instant \<Rightarrow> 'p node_result" where
  "finish_result i t0 ctx_done out t1 t2 =
     (case out of
        RunOk pl \<Rightarrow> (done_result i StatusSuccess NoSkip t0 t1)\<lparr>nr_Payload := pl\<rparr>
      | RunErr msg is_canceled \<Rightarrow>
          if ctx_done \<or> is_canceled then done_result i StatusSkipped Cancelled t0 t1
          else (done_result i StatusFailed NoSkip t0 t1)\<lparr>nr_Error := ErrorText msg\<rparr>
      | RunPanic msg \<Rightarrow>
          \<lparr>nr_NodeID = i, nr_Status = StatusFailed, nr_Error = Panicked i msg, nr_SkipReason = NoSkip,
           nr_Payload = None, nr_StartedAt = t1, nr_FinishedAt = t2, nr_Duration = 0\<rparr>)"

text \<open>
  The events of a worker: \<open>node.started\<close> once the context check is passed, then
  \<open>node.success\<close> or \<open>node.failed\<close> with the result; a skip and a recovered panic publish none.
\<close>

definition started_events :: "dag \<Rightarrow> string \<Rightarrow> bool \<Rightarrow> instant \<Rightarrow> node_event list" where
  "started_events g i ctx_done t1 =
     (if ctx_done then []
      else [(i, EventNodeStarted, t1,
             NodeKindData (nd_Type (node_def_of g i)) (nd_Subtype (node_def_of g i)))])"

definition finish_events :: "'p outcome \<Rightarrow> 'p node_result \<Rightarrow> node_event list" where
  "finish_events out res =
     (case out of
        RunOk _ \<Rightarrow> [(nr_NodeID res, EventNodeSuccess, nr_FinishedAt res,
                     NodeDurationData (milliseconds (nr_Duration res)))]
      | RunErr _ _ \<Rightarrow>
          if nr_Status res = StatusFailed
          then [(nr_NodeID res, EventNodeFailed, nr_FinishedAt res,
                 NodeErrorData (nr_Error res) (milliseconds (nr_Duration res)))] else []
      | RunPanic _ \<Rightarrow> [])"

definition node_run :: "'p executor \<Rightarrow> dag \<Rightarrow> string \<Rightarrow> (string \<rightharpoonup> 'p input) \<Rightarrow> 'p outcome \<Rightarrow> bool" where
  "node_run e g i inp out =
     (case GetBySubtype (eng_registry e) (nd_Type (node_def_of g i)) (nd_Subtype (node_def_of g i)) of
        Some n \<Rightarrow> n_Run n inp out
      | None \<Rightarrow> (\<exists>msg. out = RunPanic msg))"

section \<open>Actions\<close>

datatype 'p action =
    ACancel
  | AAcquire nat instant instant
  | AEnter nat instant
  | AFinish nat "'p outcome" instant instant
  | AReceive nat instant
  | ARelease

definition set_phase :: "nat \<Rightarrow> 'p wphase \<Rightarrow> 'p sched \<Rightarrow> 'p sched" where
  "set_phase k ph s = s\<lparr>workers := (workers s)[k := (fst (workers s ! k), ph)]\<rparr>"

text \<open>
  The scheduler loop's body for a received result: the worker is no longer in flight, the
  first failure is kept, \<open>onNodeDone\<close>, \<open>drainReady\<close>.
\<close>

definition receive :: "dag \<Rightarrow> nat \<Rightarrow> instant \<Rightarrow> 'p node_result \<Rightarrow> 'p sched \<Rightarrow> 'p sched" where
  "receive g k now res s =
     (let s1 = s\<lparr>workers := take k (workers s) @ drop (Suc k) (workers s),
                 exiting := Suc (exiting s),
                 first_err := (if nr_Status res = StatusFailed \<and> first_err s = None
                               then Some (NodeFailed (nr_NodeID res) (nr_Error res))
                               else first_err s)\<rparr>
      in drainReady (onNodeDone g now res s1))"

fun sched_step :: "'p executor \<Rightarrow> dag \<Rightarrow> 'p action \<Rightarrow> 'p sched \<Rightarrow> 'p sched option" where
  "sched_step e g ACancel s = (if cancelled s then None else Some (s\<lparr>cancelled := True\<rparr>))"
| "sched_step e g (AAcquire k t0 t1) s =
     (if k < length (workers s) \<and> snd (workers s ! k) = WQueued \<and> slots s < sem_capacity e
      then Some (set_phase k (check_completed (fst (workers s ! k)) t0 t1 s) s) else None)"
| "sched_step e g (AEnter k t1) s =
     (if k < length (workers s)
      then (case workers s ! k of
              (i, WHolding t0) \<Rightarrow>
                Some (publish (started_events g i (cancelled s) t1)
                        (set_phase k (enter_run g i t0 t1 s) s))
            | _ \<Rightarrow> None)
      else None)"
| "sched_step e g (AFinish k out t1 t2) s =
     (if k < length (workers s)
      then (case workers s ! k of
              (i, WRunning t0 inp) \<Rightarrow>
                if node_run e g i inp out
                then Some (publish (finish_events out (finish_result i t0 (cancelled s) out t1 t2))
                        (set_phase k (WDone (finish_result i t0 (cancelled s) out t1 t2)) s))
                else None
            | _ \<Rightarrow> None)
      else None)"
| "sched_step e g (AReceive k now) s =
     (if k < length (workers s)
      then (case workers s ! k of
              (i, WDone res) \<Rightarrow> Some (receive g k now res s)
            | _ \<Rightarrow> None)
      else None)"
| "sched_step e g ARelease s =
     (case exiting s of 0 \<Rightarrow> None | Suc n \<Rightarrow> Some (s\<lparr>exiting := n\<rparr>))"

text \<open>States of the scheduling loop, from the first \<open>drainReady\<close> on.\<close>

definition start_sched :: "dag \<Rightarrow> 'p sched" where
  "start_sched g = drainReady (init_sched g)"

inductive reachable :: "'p executor \<Rightarrow> dag \<Rightarrow> 'p sched \<Rightarrow> bool" for e g where
  reach_start: "reachable e g (start_sched g)"
| reach_step: "reachable e g s \<Longrightarrow> sched_step e g a s = Some s' \<Longrightarrow> reachable e g s'"

text \<open>The loop ends when nothing is in flight.\<close>

definition final :: "'p sched \<Rightarrow> bool" where
  "final s \<longleftrightarrow> workers s = []"

section \<open>Execute\<close>

definition aggregateStatus :: "(string \<rightharpoonup> 'p node_result) \<Rightarrow> run_status" where
  "aggregateStatus rs =
     (if rs = Map.empty then StatusSuccess
      else if \<exists>r\<in>ran rs. nr_Status r = StatusFailed then StatusFailed
      else if \<exists>r\<in>ran rs. nr_Status r = StatusSkipped then StatusPartial
      else StatusSuccess)"

record 'p summary =
  sm_RunID :: nat
  sm_StrategyID :: nat
  sm_Status :: run_status
  sm_DryRun :: bool
  sm_NodeResults :: "string \<rightharpoonup> 'p node_result"
  sm_StartedAt :: instant
  sm_FinishedAt :: instant
  sm_Duration :: duration
  sm_Error :: summary_error

definition first_unknown :: "'p executor \<Rightarrow> dag \<Rightarrow> node_def option" where
  "first_unknown e g =
     find (\<lambda>n. GetBySubtype (eng_registry e) (nd_Type n) (nd_Subtype n) = None) (Nodes g)"

definition make_summary ::
  "run_ids \<Rightarrow> (string \<rightharpoonup> 'p node_result) \<Rightarrow> instant \<Rightarrow> instant \<Rightarrow> 'p summary" where
  "make_summary ids rs t0 t1 =
     \<lparr>sm_RunID = ri_RunID ids, sm_StrategyID = ri_StrategyID ids, sm_Status = aggregateStatus rs,
      sm_DryRun = ri_DryRun ids, sm_NodeResults = rs, sm_StartedAt = t0, sm_FinishedAt = t1, sm_Duration = t1 - t0,
      sm_Error = (if aggregateStatus rs = StatusFailed then OneOrMoreFailed else NoSummaryError)\<rparr>"

definition all_cancelled :: "dag \<Rightarrow> instant \<Rightarrow> (string \<rightharpoonup> 'p node_result)" where
  "all_cancelled g now i =
     (if i \<in> set (node_ids g) then Some (skip_result i Cancelled now) else None)"

text \<open>
  The events of a run: \<open>run.started\<close> at \<open>ta\<close>, the workers' events, \<open>run.completed\<close> at \<open>tb\<close>,
  which is published before the summary's error string is set.
\<close>

definition run_events ::
  "run_ids \<Rightarrow> instant \<Rightarrow> node_event list \<Rightarrow> instant \<Rightarrow> 'p summary \<Rightarrow> exec_data event list" where
  "run_events ids ta evs tb sm =
     map (run_event ids)
       ([([], EventRunStarted, ta, RunStartedData (ri_StrategyID ids) (ri_DryRun ids))] @ evs @
        [([], EventRunCompleted, tb,
          RunCompletedData (sm_Status sm) (milliseconds (sm_Duration sm)) NoSummaryError)])"

text \<open>
  \<open>Execute e ids d ctx_done evs (summary, err)\<close>: a call on the graph \<open>d\<close>, with the context
  done when the scheduling loop would start or not, may publish \<open>evs\<close> and return \<open>summary\<close> and \<open>err\<close>.
\<close>

inductive Execute ::
  "'p executor \<Rightarrow> run_ids \<Rightarrow> dag option \<Rightarrow> bool \<Rightarrow> exec_data event list
   \<Rightarrow> 'p summary option \<times> orch_error option \<Rightarrow> bool"
  for e :: "'p executor" and ids :: run_ids
where
  exec_invalid: "Validate d = Some err \<Longrightarrow> Execute e ids d ctx_done [] (None, Some (ErrInvalidDAG err))"
| exec_unknown: "Validate (Some g) = None \<Longrightarrow> first_unknown e g = Some n \<Longrightarrow>
     err = ErrUnknownType (nd_Type n) (nd_Subtype n) (nd_ID n) \<Longrightarrow>
     Execute e ids (Some g) ctx_done []
       (Some ((make_summary ids Map.empty t0 t1)\<lparr>sm_Status := StatusFailed, sm_Error := RunAborted err\<rparr>),
        Some err)"
| exec_cancelled: "Validate (Some g) = None \<Longrightarrow> first_unknown e g = None \<Longrightarrow>
     sm = make_summary ids (all_cancelled g now) t0 t1 \<Longrightarrow>
     Execute e ids (Some g) True (run_events ids ta [] tb sm) (Some sm, None)"
| exec_run: "Validate (Some g) = None \<Longrightarrow> first_unknown e g = None \<Longrightarrow>
     reachable e g s \<Longrightarrow> final s \<Longrightarrow> sm = make_summary ids (results s) t0 t1 \<Longrightarrow>
     Execute e ids (Some g) False (run_events ids ta (published s) tb sm) (Some sm, first_err s)"

inductive_cases Execute_runE: "Execute e ids (Some g) False evs r"
inductive_cases Execute_nilE: "Execute e ids None ctx_done evs r"

text \<open>
  \<open>ExecuteToNode\<close>: the sub-DAG of the nodes the target depends on is executed, the other
  nodes are recorded as skipped, and an error that comes with a summary is dropped.
\<close>

definition add_out_of_path ::
  "dag \<Rightarrow> string set \<Rightarrow> instant \<Rightarrow> (string \<rightharpoonup> 'p node_result) \<Rightarrow> (string \<rightharpoonup> 'p node_result)" where
  "add_out_of_path g P now rs =
     fold (\<lambda>i m. if i \<in> P \<or> i \<in> dom m then m else m(i \<mapsto> skip_result i NotInPath now)) (node_ids g) rs"

inductive ExecuteToNode ::
  "'p executor \<Rightarrow> run_ids \<Rightarrow> dag option \<Rightarrow> string \<Rightarrow> bool \<Rightarrow> exec_data event list
   \<Rightarrow> 'p summary option \<times> orch_error option \<Rightarrow> bool"
  for e :: "'p executor" and ids :: run_ids
where
  to_node_nil: "ExecuteToNode e ids None target ctx_done [] (None, Some (ErrInvalidDAG NilDag))"
| to_node_missing: "\<not> HasNode (Some g) target \<Longrightarrow>
     ExecuteToNode e ids (Some g) target ctx_done [] (None, Some (ErrNodeNotFound target))"
| to_node_failed: "HasNode (Some g) target \<Longrightarrow>
     Execute e ids (Some (sub_dag g (in_path g target))) ctx_done evs (None, Some err) \<Longrightarrow>
     ExecuteToNode e ids (Some g) target ctx_done evs (None, Some err)"
| to_node_run: "HasNode (Some g) target \<Longrightarrow>
     Execute e ids (Some (sub_dag g (in_path g target))) ctx_done evs (Some sm, err) \<Longrightarrow>
     ExecuteToNode e ids (Some g) target ctx_done evs
       (Some (sm\<lparr>sm_NodeResults :=
          add_out_of_path g (in_path g target) now (sm_NodeResults sm)\<rparr>), None)"

end
