(* ===== verification/Exec_Inv.thy ===== *)
theory Exec_Inv
  imports Exec_Model
begin

text \<open>
  The core of the scheduling loop's invariant, for every valid graph, cyclic or not:
  \<open>core_inv\<close> relates the scheduler's own maps to the set of workers.
\<close>

section \<open>Effects of the closures\<close>

lemma fold_cascadeSkip:
  "completed (fold (cascadeSkip now) ids s) v =
     (if v \<in> set ids \<and> completed s v = None then Some StatusSkipped else completed s v)"
  "results (fold (cascadeSkip now) ids s) v =
     (if v \<in> set ids \<and> completed s v = None then Some (skip_result v UpstreamFailed now)
      else results s v)"
  "pending (fold (cascadeSkip now) ids s) = pending s"
  "ready (fold (cascadeSkip now) ids s) = ready s"
  "payloads (fold (cascadeSkip now) ids s) = payloads s"
  "workers (fold (cascadeSkip now) ids s) = workers s"
  "exiting (fold (cascadeSkip now) ids s) = exiting s"
  "first_err (fold (cascadeSkip now) ids s) = first_err s"
  "cancelled (fold (cascadeSkip now) ids s) = cancelled s"
  "published (fold (cascadeSkip now) ids s) = published s"
  by (induction ids arbitrary: s) (auto simp: cascadeSkip_def)

text \<open>Over counters that are large enough, \<open>enqueueChildren\<close> is \<open>relax\<close> on the open children.\<close>

lemma fold_enqueueChild:
  assumes "\<forall>v. completed s v = None \<longrightarrow> int (count_list cs v) \<le> pending s v"
  shows "fold enqueueChild cs s =
     (case relax (filter (\<lambda>c. completed s c = None) cs) (pending s) (ready s) of
        (p, r) \<Rightarrow> s\<lparr>pending := p, ready := r\<rparr>)"
  using assms
proof (induction cs arbitrary: s)
  case Nil
  then show ?case by simp
next
  case (Cons c cs)
  have comp: "completed (enqueueChild c s) = completed s"
    by (simp add: enqueueChild_def Let_def)
  have cnt: "\<forall>v. completed s v = None \<longrightarrow> int (count_list cs v) \<le> pending (enqueueChild c s) v"
  proof (intro allI impI)
    fix v assume "completed s v = None"
    with Cons.prems have "int (count_list (c # cs) v) \<le> pending s v" by blast
    then show "int (count_list cs v) \<le> pending (enqueueChild c s) v"
      by (auto simp: enqueueChild_def Let_def split: if_splits)
  qed
  note IH = Cons.IH [of "enqueueChild c s", unfolded comp, OF cnt]
  show ?case
  proof (cases "completed s c = None")
    case False
    then obtain c' where c': "completed s c = Some c'" by blast
    then have "enqueueChild c s = s" by (auto simp: enqueueChild_def)
    with IH c' show ?thesis by simp
  next
    case True
    then have "0 < pending s c" using Cons.prems [rule_format, of c] by simp
    with True have ec: "enqueueChild c s =
        s\<lparr>pending := (pending s)(c := pending s c - 1),
          ready := (if pending s c - 1 = 0 then insertSorted (ready s) c else ready s)\<rparr>"
      by (auto simp: enqueueChild_def Let_def domIff)
    let ?ind = "(pending s)(c := pending s c - 1)"
    let ?rdy = "if ?ind c = 0 then insertSorted (ready s) c else ready s"
    obtain p r where pr: "relax (filter (\<lambda>c. completed s c = None) cs) ?ind ?rdy = (p, r)"
      by fastforce
    have "pending (enqueueChild c s) = ?ind" "ready (enqueueChild c s) = ?rdy"
      by (simp_all add: ec)
    with IH pr have "fold enqueueChild cs (enqueueChild c s)
        = (enqueueChild c s)\<lparr>pending := p, ready := r\<rparr>"
      by (simp only: prod.case)
    also have "\<dots> = s\<lparr>pending := p, ready := r\<rparr>" by (simp add: ec)
    finally have "fold enqueueChild (c # cs) s = s\<lparr>pending := p, ready := r\<rparr>" by simp
    moreover have "relax (filter (\<lambda>c. completed s c = None) (c # cs)) (pending s) (ready s) = (p, r)"
      using True pr by (simp only: filter.simps if_True simp_thms relax.simps Let_def)
    ultimately show ?thesis by (simp only: prod.case)
  qed
qed

lemma drain_queue_all:
  "[] \<notin> set q \<Longrightarrow> drain_queue q ws = ([], ws @ map (\<lambda>i. (i, WQueued)) q)"
  by (induction q ws rule: drain_queue.induct) auto

lemma drainReady_all:
  "[] \<notin> set (ready s) \<Longrightarrow>
     drainReady s = s\<lparr>ready := [], workers := workers s @ map (\<lambda>i. (i, WQueued)) (ready s)\<rparr>"
  by (simp add: drainReady_def drain_queue_all)

section \<open>The invariant\<close>

definition in_flight :: "'p sched \<Rightarrow> string set" where
  "in_flight s = fst ` set (workers s)"

text \<open>Nodes whose own worker has reported, as opposed to nodes skipped by a cascade.\<close>

definition reported :: "'p sched \<Rightarrow> string set" where
  "reported s = {v. \<exists>r. results s v = Some r \<and> nr_SkipReason r \<noteq> UpstreamFailed}"

definition failed_at :: "'p sched \<Rightarrow> string \<Rightarrow> bool" where
  "failed_at s v \<longleftrightarrow> (\<exists>r. results s v = Some r \<and> nr_Status r = StatusFailed)"

definition cascaded :: "'p sched \<Rightarrow> string \<Rightarrow> bool" where
  "cascaded s v \<longleftrightarrow> (\<exists>r. results s v = Some r \<and> nr_SkipReason r = UpstreamFailed)"

text \<open>Results a worker may report: everything but a cascade's skip.\<close>

definition worker_result :: "string \<Rightarrow> 'p node_result \<Rightarrow> bool" where
  "worker_result i r \<longleftrightarrow>
     nr_NodeID r = i \<and> nr_SkipReason r \<noteq> UpstreamFailed
     \<and> (nr_Status r = StatusSuccess \<and> nr_SkipReason r = NoSkip
        \<or> nr_Status r = StatusFailed \<and> nr_SkipReason r = NoSkip \<and> nr_Payload r = None
        \<or> nr_Status r = StatusSkipped \<and> nr_SkipReason r = Cancelled \<and> nr_Payload r = None)"

definition cascade_result :: "string \<Rightarrow> 'p node_result \<Rightarrow> bool" where
  "cascade_result i r \<longleftrightarrow>
     nr_NodeID r = i \<and> nr_Status r = StatusSkipped \<and> nr_SkipReason r = UpstreamFailed
     \<and> nr_Payload r = None \<and> nr_Error r = NoError"

definition maps_inv :: "'p sched \<Rightarrow> bool" where
  "maps_inv s \<longleftrightarrow>
     (\<forall>v. completed s v = map_option nr_Status (results s v))
     \<and> (\<forall>v. payloads s v = Option.bind (results s v) nr_Payload)
     \<and> (\<forall>v r. results s v = Some r \<longrightarrow> worker_result v r \<or> cascade_result v r)
     \<and> (first_err s = None \<longleftrightarrow> (\<forall>v. \<not> failed_at s v))"

definition core_inv :: "dag \<Rightarrow> 'p sched \<Rightarrow> bool" where
  "core_inv g s \<longleftrightarrow>
     distinct (map fst (workers s)) \<and> in_flight s \<subseteq> set (node_ids g) \<and> ready s = []
     \<and> dom (results s) \<subseteq> set (node_ids g) \<and> in_flight s \<inter> dom (results s) = {}
     \<and> (\<forall>v. 0 \<le> pending s v)
     \<and> (\<forall>v. v \<notin> dom (results s) \<longrightarrow> pending s v = int (remaining g (reported s) v))
     \<and> (\<forall>u v. v \<in> in_flight s \<union> reported s \<longrightarrow> (u, v) \<in> edge_rel g \<longrightarrow>
            u \<in> reported s \<and> \<not> failed_at s u)
     \<and> (\<forall>u v. failed_at s u \<longrightarrow> (u, v) \<in> (edge_rel g)\<^sup>+ \<longrightarrow> cascaded s v)
     \<and> (\<forall>v. cascaded s v \<longrightarrow> (\<exists>u. failed_at s u \<and> (u, v) \<in> (edge_rel g)\<^sup>+))
     \<and> (\<forall>v\<in>set (node_ids g). v \<notin> dom (results s) \<longrightarrow> v \<notin> in_flight s \<longrightarrow>
            remaining g (reported s) v \<noteq> 0)
     \<and> maps_inv s"

lemma core_invD:
  assumes "core_inv g s"
  shows "distinct (map fst (workers s))" "in_flight s \<subseteq> set (node_ids g)" "ready s = []"
    and "dom (results s) \<subseteq> set (node_ids g)" "in_flight s \<inter> dom (results s) = {}"
    and "\<And>v. 0 \<le> pending s v"
    and "\<And>v. results s v = None \<Longrightarrow> pending s v = int (remaining g (reported s) v)"
    and "\<And>u v. v \<in> in_flight s \<or> v \<in> reported s \<Longrightarrow> (u, v) \<in> edge_rel g \<Longrightarrow> u \<in> reported s"
    and "\<And>u v. v \<in> in_flight s \<or> v \<in> reported s \<Longrightarrow> (u, v) \<in> edge_rel g \<Longrightarrow> \<not> failed_at s u"
    and "\<And>u v. failed_at s u \<Longrightarrow> (u, v) \<in> (edge_rel g)\<^sup>+ \<Longrightarrow> cascaded s v"
    and "\<And>v. cascaded s v \<Longrightarrow> \<exists>u. failed_at s u \<and> (u, v) \<in> (edge_rel g)\<^sup>+"
    and "\<And>v. v \<in> set (node_ids g) \<Longrightarrow> results s v = None \<Longrightarrow> v \<notin> in_flight s \<Longrightarrow>
           remaining g (reported s) v \<noteq> 0"
    and "maps_inv s"
  using assms by (auto simp: core_inv_def domIff)

lemma core_invI:
  assumes "distinct (map fst (workers s))" "in_flight s \<subseteq> set (node_ids g)" "ready s = []"
    and "dom (results s) \<subseteq> set (node_ids g)" "in_flight s \<inter> dom (results s) = {}"
    and "\<And>v. 0 \<le> pending s v"
    and "\<And>v. results s v = None \<Longrightarrow> pending s v = int (remaining g (reported s) v)"
    and "\<And>u v. v \<in> in_flight s \<or> v \<in> reported s \<Longrightarrow> (u, v) \<in> edge_rel g \<Longrightarrow> u \<in> reported s"
    and "\<And>u v. v \<in> in_flight s \<or> v \<in> reported s \<Longrightarrow> (u, v) \<in> edge_rel g \<Longrightarrow> \<not> failed_at s u"
    and "\<And>u v. failed_at s u \<Longrightarrow> (u, v) \<in> (edge_rel g)\<^sup>+ \<Longrightarrow> cascaded s v"
    and "\<And>v. cascaded s v \<Longrightarrow> \<exists>u. failed_at s u \<and> (u, v) \<in> (edge_rel g)\<^sup>+"
    and "\<And>v. v \<in> set (node_ids g) \<Longrightarrow> results s v = None \<Longrightarrow> v \<notin> in_flight s \<Longrightarrow>
           remaining g (reported s) v \<noteq> 0"
    and "maps_inv s"
  shows "core_inv g s"
  using assms unfolding core_inv_def domIff by auto

lemma maps_invD:
  assumes "maps_inv s"
  shows "\<And>v. completed s v = map_option nr_Status (results s v)"
    and "\<And>v. payloads s v = Option.bind (results s v) nr_Payload"
    and "\<And>v r. results s v = Some r \<Longrightarrow> worker_result v r \<or> cascade_result v r"
    and "first_err s = None \<longleftrightarrow> (\<forall>v. \<not> failed_at s v)"
  using assms by (auto simp: maps_inv_def)

text \<open>Every proper ancestor of a dispatched node has reported.\<close>

lemma ancestors_reported:
  assumes "core_inv g s" "(u, v) \<in> (edge_rel g)\<^sup>+" "v \<in> in_flight s \<or> v \<in> reported s"
  shows "u \<in> reported s"
  using assms(2,3)
proof (induction rule: trancl_induct)
  case (base v)
  then show ?case using core_invD(8) [OF assms(1)] by blast
next
  case (step v w)
  then show ?case using core_invD(8) [OF assms(1)] by blast
qed

lemma reported_results: "v \<in> reported s \<Longrightarrow> v \<in> dom (results s)"
  by (auto simp: reported_def)

lemma in_flight_not_reported:
  "core_inv g s \<Longrightarrow> v \<in> in_flight s \<Longrightarrow> v \<notin> reported s \<and> results s v = None"
  using core_invD(5) [of g s] reported_results [of v s] by (auto simp: domIff)

lemma in_flight_acyclic:
  "core_inv g s \<Longrightarrow> v \<in> in_flight s \<Longrightarrow> (v, v) \<notin> (edge_rel g)\<^sup>+"
  using ancestors_reported [of g s v v] in_flight_not_reported [of g s v] by blast

section \<open>Receiving a result\<close>

text \<open>The state after a received result, in closed form.\<close>

lemma receive_effect:
  assumes wf: "well_formed g" and inv: "core_inv g s"
    and k: "k < length (workers s)" "workers s ! k = (i, WDone res)" and res: "worker_result i res"
  defines "D \<equiv> (if nr_Status res = StatusFailed
                 then {v. (i, v) \<in> (edge_rel g)\<^sup>+ \<and> results s v = None} else {})"
  obtains p new where
    "receive g k now res s =
       s\<lparr>pending := p, ready := [],
         completed := (\<lambda>v. if v \<in> D then Some StatusSkipped
                            else ((completed s)(i \<mapsto> nr_Status res)) v),
         results := (\<lambda>v. if v \<in> D then Some (skip_result v UpstreamFailed now)
                          else ((results s)(i \<mapsto> res)) v),
         payloads := (case nr_Payload res of None \<Rightarrow> payloads s | Some q \<Rightarrow> (payloads s)(i \<mapsto> q)),
         workers := (take k (workers s) @ drop (Suc k) (workers s)) @ map (\<lambda>v. (v, WQueued)) new,
         exiting := Suc (exiting s),
         first_err := (if nr_Status res = StatusFailed \<and> first_err s = None
                       then Some (NodeFailed i (nr_Error res)) else first_err s)\<rparr>"
    "distinct new"
    "set new = {v. (i, v) \<in> edge_rel g \<and> v \<noteq> i \<and> results s v = None \<and> v \<notin> D
                   \<and> remaining g (insert i (reported s)) v = 0}"
    "\<forall>v. 0 \<le> p v"
    "\<forall>v. v \<noteq> i \<and> v \<notin> D \<and> results s v = None \<longrightarrow> p v = int (remaining g (insert i (reported s)) v)"
proof -
  have fl: "i \<in> in_flight s"
    using k by (force simp: in_flight_def in_set_conv_nth)
  then have iR: "i \<notin> reported s" and iN: "results s i = None" and iD: "i \<notin> D"
    using in_flight_not_reported [OF inv] in_flight_acyclic [OF inv fl] by (auto simp: D_def)
  have id: "nr_NodeID res = i" using res by (simp add: worker_result_def)
  let ?w = "take k (workers s) @ drop (Suc k) (workers s)"
  define s1 where "s1 = recordResult res
    (s\<lparr>workers := ?w, exiting := Suc (exiting s),
       first_err := (if nr_Status res = StatusFailed \<and> first_err s = None
                     then Some (NodeFailed (nr_NodeID res) (nr_Error res)) else first_err s)\<rparr>)"
  define s2 where "s2 = (if nr_Status res = StatusFailed
    then fold (cascadeSkip now) (collectDescendants i g) s1 else s1)"
  have comp: "completed s v = None \<longleftrightarrow> results s v = None" for v
    using maps_invD(1) [OF core_invD(13) [OF inv]] by simp
  have s2_comp: "completed s2 = (\<lambda>v. if v \<in> D then Some StatusSkipped
                                        else ((completed s)(i \<mapsto> nr_Status res)) v)"
    using iD comp
    by (auto simp: s2_def s1_def recordResult_def fold_cascadeSkip set_collectDescendants id D_def
        fun_eq_iff)
  have s2_res: "results s2 = (\<lambda>v. if v \<in> D then Some (skip_result v UpstreamFailed now)
                                     else ((results s)(i \<mapsto> res)) v)"
    using iD comp
    by (auto simp: s2_def s1_def recordResult_def fold_cascadeSkip set_collectDescendants id D_def
        fun_eq_iff)
  have s2_rest: "pending s2 = pending s" "ready s2 = []" "workers s2 = ?w"
    "payloads s2 = (case nr_Payload res of None \<Rightarrow> payloads s | Some q \<Rightarrow> (payloads s)(i \<mapsto> q))"
    "exiting s2 = Suc (exiting s)" "cancelled s2 = cancelled s"
    "first_err s2 = (if nr_Status res = StatusFailed \<and> first_err s = None
                     then Some (NodeFailed i (nr_Error res)) else first_err s)"
    using core_invD(3) [OF inv]
    by (cases "nr_Payload res"; simp add: s2_def s1_def recordResult_def fold_cascadeSkip id)+
  have s2_pub: "published s2 = published s"
    by (simp add: s2_def s1_def recordResult_def fold_cascadeSkip)
  let ?succ = "Successors (Some g) i" and ?R = "reported s"
  have rem: "remaining g ?R v = remaining g (insert i ?R) v + count_list ?succ v" for v
    by (rule remaining_insert [OF iR])
  have count_le: "int (count_list ?succ v) \<le> pending s v" if "results s v = None" for v
    using rem core_invD(7) [OF inv that] by simp
  let ?open = "filter (\<lambda>c. completed s2 c = None) ?succ"
  have open_iff: "completed s2 v = None \<longleftrightarrow> v \<noteq> i \<and> v \<notin> D \<and> results s v = None" for v
    using comp by (simp add: s2_comp)
  have cnt: "int (count_list ?open v) \<le> pending s v" for v
    using count_le [of v] core_invD(6) [OF inv, of v] by (simp add: count_list_filter open_iff)
  obtain p r where pr: "relax ?open (pending s) [] = (p, r)" by fastforce
  have spec: "p v = pending s v - int (count_list ?open v)"
    "set r = {v \<in> set ?open. pending s v = int (count_list ?open v)}"
    "sorted r" "distinct r" for v
    using relax_spec [OF _ _ _ _ pr] cnt by auto
  have pend: "\<forall>v. completed s2 v = None \<longrightarrow> int (count_list ?succ v) \<le> pending s2 v"
    using count_le s2_rest(1) open_iff by simp
  have enq: "enqueueChildren g i s2 = s2\<lparr>pending := p, ready := r\<rparr>"
    unfolding enqueueChildren_def fold_enqueueChild [OF pend] using pr s2_rest by simp
  have "set r \<subseteq> set (node_ids g)"
    using spec(2) well_formedD(3) [OF wf] by (auto simp: set_Successors)
  then have ne: "[] \<notin> set r" using well_formedD(4) [OF wf] by blast
  have "receive g k now res s = drainReady (enqueueChildren g i s2)"
    by (simp add: receive_def onNodeDone_def Let_def s1_def s2_def id)
  also have "\<dots> = s2\<lparr>pending := p, ready := [], workers := ?w @ map (\<lambda>v. (v, WQueued)) r\<rparr>"
    using ne s2_rest(3) by (simp add: enq drainReady_all)
  finally have eq: "receive g k now res s = s2\<lparr>pending := p, ready := [], workers := ?w @ map (\<lambda>v. (v, WQueued)) r\<rparr>" .
  show thesis
  proof (rule that [where new = r and p = p])
    show "receive g k now res s =
       s\<lparr>pending := p, ready := [],
         completed := (\<lambda>v. if v \<in> D then Some StatusSkipped
                            else ((completed s)(i \<mapsto> nr_Status res)) v),
         results := (\<lambda>v. if v \<in> D then Some (skip_result v UpstreamFailed now)
                          else ((results s)(i \<mapsto> res)) v),
         payloads := (case nr_Payload res of None \<Rightarrow> payloads s | Some q \<Rightarrow> (payloads s)(i \<mapsto> q)),
         workers := ?w @ map (\<lambda>v. (v, WQueued)) r,
         exiting := Suc (exiting s),
         first_err := (if nr_Status res = StatusFailed \<and> first_err s = None
                       then Some (NodeFailed i (nr_Error res)) else first_err s)\<rparr>"
      unfolding eq by (rule sched.equality) (simp_all add: s2_comp s2_res s2_rest s2_pub)
    show "distinct r" by (rule spec(4))
    show "set r = {v. (i, v) \<in> edge_rel g \<and> v \<noteq> i \<and> results s v = None \<and> v \<notin> D
                   \<and> remaining g (insert i ?R) v = 0}"
      unfolding spec(2)
      using rem core_invD(7) [OF inv] by (auto simp: set_Successors open_iff count_list_filter)
    show "\<forall>v. 0 \<le> p v"
      using spec(1) cnt by (metis diff_ge_0_iff_ge)
    show "\<forall>v. v \<noteq> i \<and> v \<notin> D \<and> results s v = None \<longrightarrow> p v = int (remaining g (insert i ?R) v)"
      using spec(1) rem core_invD(7) [OF inv] by (simp add: open_iff count_list_filter)
  qed
qed

section \<open>Preservation of the core invariant\<close>

lemma drain_workers_in_flight:
  "fst ` set (ws @ map (\<lambda>v. (v, WQueued)) new) = fst ` set ws \<union> set new"
  by (simp add: image_Un image_image)

lemma core_inv_start:
  assumes wf: "well_formed g"
  shows "core_inv g (start_sched g :: 'p sched)"
proof -
  define t :: "'p sched" where "t = start_sched g"
  let ?roots = "sortStrings (Roots (Some g))"
  have roots: "set ?roots = {v \<in> set (node_ids g). remaining g {} v = 0}"
    by (auto simp: str_sort.srt_set set_Roots remaining_0_iff)
  have dist: "distinct ?roots"
    using distinct_Roots well_formedD(2) [OF wf] by (simp add: str_sort.srt_distinct)
  have "[] \<notin> set ?roots"
    using roots well_formedD(4) [OF wf] by auto
  then have start: "t = (init_sched g)\<lparr>ready := [], workers := map (\<lambda>v. (v, WQueued)) ?roots\<rparr>"
    by (simp add: t_def start_sched_def drainReady_all init_sched_def)
  have fl: "in_flight t = set ?roots"
    by (auto simp: start in_flight_def image_iff)
  have none: "results t = Map.empty" "reported t = {}"
    by (simp_all add: start init_sched_def reported_def)
  have len: "int (length (Predecessors (Some g) v)) = int (remaining g {} v)" for v
    by (simp add: Predecessors_def remaining_def)
  have out: "remaining g {} v = 0" if "v \<notin> set (node_ids g)" for v
    using that well_formedD(3) [OF wf] by (auto simp: remaining_0_iff)
  have pend: "pending t v = int (remaining g {} v)" for v
    using len out by (simp add: start init_sched_def)
  have rdy: "ready t = []" by (simp add: start)
  show ?thesis
    unfolding t_def [symmetric]
  proof (rule core_invI)
    show "distinct (map fst (workers t))"
      using dist by (simp add: start comp_def)
    show "maps_inv t"
      by (simp add: maps_inv_def start init_sched_def failed_at_def)
    show "u \<in> reported t"
      if "v \<in> in_flight t \<or> v \<in> reported t" "(u, v) \<in> edge_rel g" for u v
      using that fl none roots by (auto simp: remaining_0_iff)
  qed (use fl none roots pend rdy in \<open>auto simp: failed_at_def cascaded_def\<close>)
qed

text \<open>Steps of a worker leave everything the core invariant speaks of as it was.\<close>

lemma core_inv_frame:
  assumes "core_inv g s" "map fst (workers t) = map fst (workers s)" "pending t = pending s"
    "ready t = ready s" "completed t = completed s" "results t = results s"
    "payloads t = payloads s" "first_err t = first_err s"
  shows "core_inv g t"
proof -
  have "in_flight t = in_flight s"
    using assms(2) by (metis in_flight_def list.set_map)
  moreover have "reported t = reported s" "failed_at t = failed_at s" "cascaded t = cascaded s"
    using assms(6) by (auto simp: reported_def failed_at_def cascaded_def fun_eq_iff)
  ultimately show ?thesis
    using assms by (simp add: core_inv_def maps_inv_def)
qed

lemma map_fst_set_phase [op_simps]: "map fst (workers (set_phase k ph s)) = map fst (workers s)"
  by (simp add: set_phase_def map_update flip: list_update_id)
     (metis list_update_beyond list_update_id length_map linorder_not_less nth_map)

lemma set_phase_frame [op_simps]:
  "pending (set_phase k ph s) = pending s" "ready (set_phase k ph s) = ready s"
  "completed (set_phase k ph s) = completed s" "results (set_phase k ph s) = results s"
  "payloads (set_phase k ph s) = payloads s" "first_err (set_phase k ph s) = first_err s"
  "exiting (set_phase k ph s) = exiting s" "cancelled (set_phase k ph s) = cancelled s"
  by (simp_all add: set_phase_def)

lemma publish_frame [op_simps]:
  "pending (publish evs s) = pending s" "ready (publish evs s) = ready s"
  "completed (publish evs s) = completed s" "results (publish evs s) = results s"
  "payloads (publish evs s) = payloads s" "first_err (publish evs s) = first_err s"
  "exiting (publish evs s) = exiting s" "cancelled (publish evs s) = cancelled s"
  "workers (publish evs s) = workers s" "published (publish evs s) = published s @ evs"
  by (simp_all add: publish_def)

lemma core_inv_publish [inv_intros]: "core_inv g s \<Longrightarrow> core_inv g (publish evs s)"
  by (erule core_inv_frame) (simp_all add: op_simps)

lemma core_inv_set_phase [inv_intros]: "core_inv g s \<Longrightarrow> core_inv g (set_phase k ph s)"
  by (erule core_inv_frame) (simp_all add: op_simps)

lemma core_inv_receive:
  assumes wf: "well_formed g" and inv: "core_inv g s"
    and k: "k < length (workers s)" "workers s ! k = (i, WDone res)" and res: "worker_result i res"
  shows "core_inv g (receive g k now res (s :: 'p sched))"
proof -
  define D where "D = (if nr_Status res = StatusFailed
                 then {v. (i, v) \<in> (edge_rel g)\<^sup>+ \<and> results s v = None} else {})"
  let ?w = "take k (workers s) @ drop (Suc k) (workers s)"
  obtain p new where eff: "receive g k now res s =
       s\<lparr>pending := p, ready := [],
         completed := (\<lambda>v. if v \<in> D then Some StatusSkipped
                            else ((completed s)(i \<mapsto> nr_Status res)) v),
         results := (\<lambda>v. if v \<in> D then Some (skip_result v UpstreamFailed now)
                          else ((results s)(i \<mapsto> res)) v),
         payloads := (case nr_Payload res of None \<Rightarrow> payloads s | Some q \<Rightarrow> (payloads s)(i \<mapsto> q)),
         workers := ?w @ map (\<lambda>v. (v, WQueued)) new,
         exiting := Suc (exiting s),
         first_err := (if nr_Status res = StatusFailed \<and> first_err s = None
                       then Some (NodeFailed i (nr_Error res)) else first_err s)\<rparr>"
    and new: "distinct new"
    "set new = {v. (i, v) \<in> edge_rel g \<and> v \<noteq> i \<and> results s v = None \<and> v \<notin> D
                   \<and> remaining g (insert i (reported s)) v = 0}"
    and p: "\<forall>v. 0 \<le> p v"
    "\<forall>v. v \<noteq> i \<and> v \<notin> D \<and> results s v = None \<longrightarrow> p v = int (remaining g (insert i (reported s)) v)"
    by (rule receive_effect [OF wf inv k res, folded D_def])
  define t where "t = receive g k now res s"
  have fl: "i \<in> in_flight s"
    using k by (force simp: in_flight_def in_set_conv_nth)
  have iR: "i \<notin> reported s" and iN: "results s i = None"
    using in_flight_not_reported [OF inv fl] by auto
  have iD: "i \<notin> D" using in_flight_acyclic [OF inv fl] by (auto simp: D_def)
  have res_t: "results t v = (if v \<in> D then Some (skip_result v UpstreamFailed now)
                              else if v = i then Some res else results s v)" for v
    by (simp add: t_def eff)
  have DN: "results s v = None" if "v \<in> D" for v using that by (auto simp: D_def split: if_splits)
  have rep_t: "reported t = insert i (reported s)"
    using res iD DN by (auto simp: reported_def res_t skip_result_def worker_result_def split: if_splits)
  have fail_t: "failed_at t v \<longleftrightarrow> failed_at s v \<or> v = i \<and> nr_Status res = StatusFailed" for v
    using iN iD DN by (auto simp: failed_at_def res_t skip_result_def split: if_splits)
  have casc_t: "cascaded t v \<longleftrightarrow> cascaded s v \<or> v \<in> D" for v
    using iN iD DN res by (auto simp: cascaded_def res_t skip_result_def worker_result_def split: if_splits)
  have dist: "distinct (map fst (workers s))" by (rule core_invD(1) [OF inv])
  have w_ids: "fst ` set ?w = in_flight s - {i}"
  proof -
    have "set (take k (map fst (workers s)) @ drop (Suc k) (map fst (workers s)))
        = set (map fst (workers s)) - {map fst (workers s) ! k}"
      using dist k(1) by (intro remove_nth_set) simp_all
    then show ?thesis
      using k by (simp add: in_flight_def take_map drop_map image_Un)
  qed
  have fl_t: "in_flight t = (in_flight s - {i}) \<union> set new"
  proof -
    have "workers t = ?w @ map (\<lambda>v. (v, WQueued)) new"
      by (simp add: t_def eff)
    then show ?thesis by (simp only: in_flight_def drain_workers_in_flight w_ids)
  qed
  have preds_new: "u \<in> insert i (reported s)" if "v \<in> set new" "(u, v) \<in> edge_rel g" for u v
    using that new(2) by (auto simp: remaining_0_iff)
  have new_fl: "set new \<inter> in_flight s = {}"
    using new(2) core_invD(8) [OF inv] iR by blast
  show ?thesis
    unfolding t_def [symmetric]
  proof (rule core_invI)
    show "distinct (map fst (workers t))"
    proof -
      have "distinct (map fst ?w)"
        using remove_nth_distinct [OF dist] by (simp add: take_map drop_map)
      moreover have "set (map fst ?w) \<inter> set new = {}" using w_ids new_fl by auto
      moreover have "map fst (map (\<lambda>v. (v, WQueued :: 'p wphase)) new) = new" by (simp add: comp_def)
      moreover have "workers t = ?w @ map (\<lambda>v. (v, WQueued)) new" by (simp add: t_def eff)
      ultimately show ?thesis using new(1) by (simp only: map_append [of fst ?w] distinct_append)
    qed
    show "in_flight t \<subseteq> set (node_ids g)"
      using fl_t new(2) core_invD(2) [OF inv] well_formedD(3) [OF wf] by blast
    show "ready t = []" by (simp add: t_def eff)
    show "dom (results t) \<subseteq> set (node_ids g)"
    proof -
      have "D \<subseteq> set (node_ids g)"
        using well_formedD(3) [OF wf] by (auto simp: D_def dest: tranclD2)
      then show ?thesis
        using core_invD(2,4) [OF inv] fl by (auto simp: dom_def res_t split: if_splits)
    qed
    show "in_flight t \<inter> dom (results t) = {}"
    proof -
      have "v \<notin> D" if "v \<in> in_flight s" for v
        using ancestors_reported [OF inv _ disjI1 [OF that]] iR by (auto simp: D_def split: if_splits)
      then show ?thesis
        using fl_t new(2) core_invD(5) [OF inv] by (auto simp: dom_def res_t split: if_splits)
    qed
    show "0 \<le> pending t v" for v using p(1) by (simp add: t_def eff)
    show "pending t v = int (remaining g (reported t) v)" if "results t v = None" for v
      using that p(2) rep_t by (auto simp: res_t t_def eff split: if_splits)
    show "u \<in> reported t" if "v \<in> in_flight t \<or> v \<in> reported t" "(u, v) \<in> edge_rel g" for u v
    proof (cases "v \<in> set new")
      case True
      then show ?thesis using preds_new that(2) rep_t by simp
    next
      case False
      then have "v \<in> in_flight s \<or> v \<in> reported s" using that(1) fl_t rep_t fl by auto
      then show ?thesis using core_invD(8) [OF inv _ that(2)] rep_t by simp
    qed
    show "\<not> failed_at t u" if "v \<in> in_flight t \<or> v \<in> reported t" "(u, v) \<in> edge_rel g" for u v
    proof (cases "v \<in> set new")
      case True
      have "results s v = None" "v \<notin> D" using True new(2) by auto
      then show ?thesis
        using that(2) core_invD(10) [OF inv, of u v] by (auto simp: fail_t D_def cascaded_def)
    next
      case False
      then have v: "v \<in> in_flight s \<or> v \<in> reported s" using that(1) fl_t rep_t fl by auto
      then have "u \<noteq> i" using core_invD(8) [OF inv _ that(2)] iR by blast
      then show ?thesis using core_invD(9) [OF inv v that(2)] by (simp add: fail_t)
    qed
    show "cascaded t v" if "failed_at t u" "(u, v) \<in> (edge_rel g)\<^sup>+" for u v
    proof (cases "failed_at s u")
      case True
      then show ?thesis using core_invD(10) [OF inv] that(2) by (simp add: casc_t)
    next
      case False
      then have u: "u = i" "nr_Status res = StatusFailed" using that(1) by (auto simp: fail_t)
      have "v \<notin> reported s" using ancestors_reported [OF inv that(2)] iR u(1) by blast
      then have "cascaded s v \<or> results s v = None"
        by (auto simp: cascaded_def reported_def)
      then show ?thesis using u that(2) by (auto simp: casc_t D_def)
    qed
    show "\<exists>u. failed_at t u \<and> (u, v) \<in> (edge_rel g)\<^sup>+" if "cascaded t v" for v
      using that core_invD(11) [OF inv, of v] by (auto simp: casc_t fail_t D_def split: if_splits)
    show "remaining g (reported t) v \<noteq> 0"
      if "v \<in> set (node_ids g)" "results t v = None" "v \<notin> in_flight t" for v
    proof
      assume z: "remaining g (reported t) v = 0"
      have v: "v \<noteq> i" "v \<notin> D" "results s v = None" "v \<notin> in_flight s"
        using that(2,3) fl_t by (auto simp: res_t split: if_splits)
      have "remaining g (reported s) v \<noteq> 0" using core_invD(12) [OF inv that(1) v(3,4)] .
      then have "(i, v) \<in> edge_rel g"
        using z by (auto simp: rep_t remaining_0_iff)
      then have "v \<in> set new" using v z rep_t new(2) by auto
      then show False using that(3) fl_t by simp
    qed
    show "maps_inv t"
    proof -
      have m: "maps_inv s" by (rule core_invD(13) [OF inv])
      have "payloads t v = Option.bind (results t v) nr_Payload" for v
        using maps_invD(2) [OF m] iD iN DN
        by (cases "nr_Payload res") (auto simp: t_def eff skip_result_def)
      moreover have "completed t v = map_option nr_Status (results t v)" for v
        using maps_invD(1) [OF m] by (simp add: t_def eff skip_result_def)
      moreover have "worker_result v r \<or> cascade_result v r" if "results t v = Some r" for v r
        using that maps_invD(3) [OF m] res
        by (auto simp: res_t cascade_result_def skip_result_def split: if_splits)
      moreover have "first_err t = None \<longleftrightarrow> (\<forall>v. \<not> failed_at t v)"
        using maps_invD(4) [OF m] by (auto simp: fail_t) (auto simp: t_def eff)
      ultimately show ?thesis by (simp add: maps_inv_def)
    qed
  qed
qed

end
