(* ===== verification/Exec_Phase.thy ===== *)
theory Exec_Phase
  imports Exec_Inv
begin

text \<open>
  What the workers of the executor hold and where recorded results come from; the invariant of
  every reachable state of the scheduling loop.
\<close>

section \<open>What the workers hold\<close>

text \<open>
  The result \<open>res\<close> came out of node \<open>i\<close>'s registered implementation, on inputs built from
  its predecessors' payloads, or is the skip of a cancelled context.
\<close>

definition produced :: "'p executor \<Rightarrow> dag \<Rightarrow> 'p sched \<Rightarrow> string \<Rightarrow> 'p node_result \<Rightarrow> bool" where
  "produced e g s i res \<longleftrightarrow>
     (cancelled s \<and> (\<exists>t0 t1. res = done_result i StatusSkipped Cancelled t0 t1))
     \<or> (\<exists>t0 b out t1 t2.
          node_run e g i (build_inputs g (node_def_of g i) (payloads s) i) out
          \<and> (b \<longrightarrow> cancelled s) \<and> res = finish_result i t0 b out t1 t2)"

fun phase_ok :: "'p executor \<Rightarrow> dag \<Rightarrow> 'p sched \<Rightarrow> string \<Rightarrow> 'p wphase \<Rightarrow> bool" where
  "phase_ok e g s i (WRunning t0 inp) = (inp = build_inputs g (node_def_of g i) (payloads s) i)"
| "phase_ok e g s i (WDone res) = produced e g s i res"
| "phase_ok e g s i _ = True"

definition phase_inv :: "'p executor \<Rightarrow> dag \<Rightarrow> 'p sched \<Rightarrow> bool" where
  "phase_inv e g s \<longleftrightarrow>
     slots s \<le> sem_capacity e
     \<and> (\<forall>(i, ph)\<in>set (workers s). phase_ok e g s i ph)
     \<and> (\<forall>i res. results s i = Some res \<longrightarrow> nr_SkipReason res \<noteq> UpstreamFailed \<longrightarrow>
            produced e g s i res)"

lemma phase_invD:
  assumes "phase_inv e g s"
  shows "slots s \<le> sem_capacity e"
    and "\<And>k. k < length (workers s) \<Longrightarrow> phase_ok e g s (fst (workers s ! k)) (snd (workers s ! k))"
    and "\<And>i res. results s i = Some res \<Longrightarrow> nr_SkipReason res \<noteq> UpstreamFailed \<Longrightarrow>
           produced e g s i res"
  using assms unfolding phase_inv_def by (auto simp: case_prod_beta)

lemma worker_result_finish: "worker_result i (finish_result i t0 b out t1 t2)"
  by (cases out) (simp_all add: worker_result_def finish_result_def done_result_def)

lemma produced_worker_result: "produced e g s i res \<Longrightarrow> worker_result i res"
  unfolding produced_def
  by (elim disjE conjE exE) (simp_all add: worker_result_finish, simp add: worker_result_def done_result_def)

lemma produced_finish:
  "node_run e g i (build_inputs g (node_def_of g i) (payloads s) i) out \<Longrightarrow>
     produced e g s i (finish_result i t0 (cancelled s) out t1 t2)"
  unfolding produced_def by blast

text \<open>The inputs of a node only depend on its predecessors' payloads.\<close>

lemma build_inputs_cong:
  assumes "\<forall>u. (u, i) \<in> edge_rel g \<longrightarrow> pay u = pay' u"
  shows "build_inputs g def pay i = build_inputs g def pay' i"
proof -
  have "fold (\<lambda>p m. case pay p of Some v \<Rightarrow> m(p \<mapsto> Payload v) | None \<Rightarrow> m) us m
      = fold (\<lambda>p m. case pay' p of Some v \<Rightarrow> m(p \<mapsto> Payload v) | None \<Rightarrow> m) us m"
    if "\<forall>u\<in>set us. pay u = pay' u" for us and m :: "string \<rightharpoonup> 'a input"
    using that by (induction us arbitrary: m) auto
  then show ?thesis
    using assms by (simp add: build_inputs_def set_Predecessors)
qed

lemma node_def_of_member:
  assumes "i \<in> set (node_ids g)"
  shows "node_def_of g i \<in> set (Nodes g) \<and> nd_ID (node_def_of g i) = i"
proof -
  obtain n where n: "find (\<lambda>n. nd_ID n = i) (Nodes g) = Some n"
    using assms by (cases "find (\<lambda>n. nd_ID n = i) (Nodes g)") (auto simp: find_None_iff node_ids_def)
  then have "node_def_of g i = n" by (simp add: node_def_of_def NodeByID_def)
  with n show ?thesis by (auto simp: find_Some_iff)
qed

lemma nd_ID_node_def_of: "i \<in> set (node_ids g) \<Longrightarrow> nd_ID (node_def_of g i) = i"
  using node_def_of_member by blast

lemma build_inputs_eq:
  assumes "i \<in> set (node_ids g)"
  shows "build_inputs g (node_def_of g i) pay i k =
     (if k = ''_id'' then Some (Text i)
      else if k = ''_subtype'' then Some (Text (nd_Subtype (node_def_of g i)))
      else if k = ''_type'' then Some (Text (nd_Type (node_def_of g i)))
      else if k = ''_params'' then Some (ParamBytes (nd_Params (node_def_of g i)))
      else if (k, i) \<in> edge_rel g then map_option Payload (pay k) else None)"
proof -
  have f: "fold (\<lambda>p m. case pay p of Some v \<Rightarrow> m(p \<mapsto> Payload v) | None \<Rightarrow> m) us m k
      = (if k \<in> set us \<and> pay k \<noteq> None then map_option Payload (pay k) else m k)"
    for us and m :: "string \<rightharpoonup> 'a input"
    by (induction us arbitrary: m) (auto split: option.splits)
  have "nd_ID (node_def_of g i) = i" by (rule nd_ID_node_def_of [OF assms(1)])
  then show ?thesis
    by (auto simp: build_inputs_def f set_Predecessors)
qed

lemma produced_mono:
  assumes "produced e g s i res" "cancelled s \<longrightarrow> cancelled t"
    "\<forall>u. (u, i) \<in> edge_rel g \<longrightarrow> payloads s u = payloads t u"
  shows "produced e g t i res"
  using assms build_inputs_cong [OF assms(3)] unfolding produced_def by metis

lemma phase_ok_mono:
  assumes "phase_ok e g s i ph" "cancelled s \<longrightarrow> cancelled t"
    "\<forall>u. (u, i) \<in> edge_rel g \<longrightarrow> payloads s u = payloads t u"
  shows "phase_ok e g t i ph"
  using assms produced_mono [OF _ assms(2,3)] build_inputs_cong [OF assms(3)]
  by (cases ph) auto

lemma sem_capacity_pos: "0 < sem_capacity e"
  by (simp add: sem_capacity_def)

section \<open>Preservation of the phase invariant\<close>

lemma phase_inv_start: "well_formed g \<Longrightarrow> phase_inv e g (start_sched g)"
  apply (subgoal_tac "[] \<notin> set (ready (init_sched g))")
   apply (simp add: phase_inv_def start_sched_def drainReady_all init_sched_def slots_def comp_def)
  apply (auto simp: init_sched_def str_sort.srt_set set_Roots dest: well_formedD(4))
  done

lemma slots_set_phase:
  assumes "k < length (workers s)"
  shows "slots (set_phase k ph s) =
    (slots s - of_bool (holds_slot (snd (workers s ! k)))) + of_bool (holds_slot ph)"
proof -
  let ?f = "holds_slot \<circ> snd"
  have split: "workers s = take k (workers s) @ workers s ! k # drop (Suc k) (workers s)"
    using assms by (rule id_take_nth_drop)
  have "workers (set_phase k ph s)
      = take k (workers s) @ (fst (workers s ! k), ph) # drop (Suc k) (workers s)"
    using assms by (simp add: set_phase_def upd_conv_take_nth_drop)
  moreover have "length (filter ?f (workers s)) =
      length (filter ?f (take k (workers s))) + of_bool (?f (workers s ! k))
      + length (filter ?f (drop (Suc k) (workers s)))"
    by (subst split) simp
  ultimately show ?thesis by (simp add: slots_def op_simps)
qed

lemma slots_pos: "k < length (workers s) \<Longrightarrow> holds_slot (snd (workers s ! k)) \<Longrightarrow> 0 < slots s"
  using nth_mem [of k "workers s"] by (force simp: slots_def filter_empty_conv)

lemma phase_inv_set_phase:
  assumes inv: "phase_inv e g s" and k: "k < length (workers s)"
    and ok: "phase_ok e g s (fst (workers s ! k)) ph"
    and sl: "holds_slot ph \<Longrightarrow> holds_slot (snd (workers s ! k)) \<or> slots s < sem_capacity e"
  shows "phase_inv e g (set_phase k ph s)"
proof -
  have keep: "phase_ok e g (set_phase k ph s) i q" if "phase_ok e g s i q" for i q
    using that by (rule phase_ok_mono) (simp_all add: op_simps)
  have keep2: "produced e g (set_phase k ph s) i q" if "produced e g s i q" for i q
    using that by (rule produced_mono) (simp_all add: op_simps)
  have "slots (set_phase k ph s) \<le> sem_capacity e"
    using phase_invD(1) [OF inv] sl slots_set_phase [OF k, of ph] slots_pos [OF k] by (auto simp: of_bool_def split: if_splits)
  moreover have "\<forall>(i, q)\<in>set (workers (set_phase k ph s)). phase_ok e g (set_phase k ph s) i q"
  proof -
    have "set (workers (set_phase k ph s)) \<subseteq> insert (fst (workers s ! k), ph) (set (workers s))"
      by (simp add: set_phase_def set_update_subset_insert)
    then show ?thesis using keep ok inv unfolding phase_inv_def by fastforce
  qed
  ultimately show ?thesis
    using keep2 phase_invD(3) [OF inv] by (auto simp: phase_inv_def op_simps)
qed

lemma phase_inv_receive:
  assumes wf: "well_formed g" and inv: "core_inv g s" and ph: "phase_inv e g s"
    and k: "k < length (workers s)" "workers s ! k = (i, WDone res)"
  shows "phase_inv e g (receive g k now res (s :: 'p sched))"
proof -
  have prod: "produced e g s i res" using phase_invD(2) [OF ph k(1)] k(2) by simp
  then have res: "worker_result i res" by (rule produced_worker_result)
  define t where "t = receive g k now res s"
  define D where "D = (if nr_Status res = StatusFailed
                 then {v. (i, v) \<in> (edge_rel g)\<^sup>+ \<and> results s v = None} else {})"
  let ?w = "take k (workers s) @ drop (Suc k) (workers s)"
  obtain new where eff: "workers t = ?w @ map (\<lambda>v. (v, WQueued)) new"
    "results t = (\<lambda>v. if v \<in> D then Some (skip_result v UpstreamFailed now)
                          else ((results s)(i \<mapsto> res)) v)"
    "exiting t = Suc (exiting s)" "cancelled t = cancelled s"
    "payloads t = (case nr_Payload res of None \<Rightarrow> payloads s | Some q \<Rightarrow> (payloads s)(i \<mapsto> q))"
    unfolding t_def D_def by (rule receive_effect [OF wf inv k res, where now = now]) simp
  have fl: "i \<in> in_flight s"
    using k by (force simp: in_flight_def in_set_conv_nth)
  have iR: "i \<notin> reported s" using in_flight_not_reported [OF inv fl] by blast
  have pay: "payloads s u = payloads t u"
    if "v \<in> in_flight s \<or> v \<in> reported s" "(u, v) \<in> edge_rel g" for u v
  proof -
    have "u \<noteq> i" using core_invD(8) [OF inv that] iR by blast
    then show ?thesis by (simp add: eff(5) split: option.splits)
  qed
  have slot: "slots t = slots s"
  proof -
    have "workers s = take k (workers s) @ (i, WDone res) # drop (Suc k) (workers s)"
      using id_take_nth_drop [OF k(1)] k(2) by simp
    from arg_cong [OF this, of "\<lambda>ws. length (filter (holds_slot \<circ> snd) ws)"]
    have "length (filter (holds_slot \<circ> snd) (workers s)) =
        Suc (length (filter (holds_slot \<circ> snd) ?w))"
      by simp
    then show ?thesis by (simp add: slots_def eff comp_def)
  qed
  have work: "phase_ok e g t v q" if "(v, q) \<in> set (workers t)" for v q
  proof (cases "(v, q) \<in> set ?w")
    case True
    then have mem: "(v, q) \<in> set (workers s)" by (auto dest: in_set_takeD in_set_dropD)
    then have "v \<in> in_flight s" by (force simp: in_flight_def)
    moreover have "phase_ok e g s v q" using mem ph by (auto simp: phase_inv_def)
    ultimately show ?thesis by (elim phase_ok_mono) (use pay eff(4) in blast)+
  next
    case False
    then show ?thesis using that by (auto simp: eff(1))
  qed
  have recd: "produced e g t v r" if "results t v = Some r" "nr_SkipReason r \<noteq> UpstreamFailed" for v r
  proof -
    have "(v \<in> in_flight s \<or> v \<in> reported s) \<and> produced e g s v r"
    proof (cases "v = i")
      case True
      with that show ?thesis
        using fl prod by (auto simp: eff(2) skip_result_def split: if_splits)
    next
      case False
      with that have "results s v = Some r"
        by (auto simp: eff(2) skip_result_def split: if_splits)
      then show ?thesis using that(2) phase_invD(3) [OF ph] by (auto simp: reported_def)
    qed
    then show ?thesis by (elim conjE, elim produced_mono) (use pay eff(4) in blast)+
  qed
  show ?thesis
    unfolding t_def [symmetric] phase_inv_def
  proof (intro conjI allI impI ballI)
    show "slots t \<le> sem_capacity e" using slot phase_invD(1) [OF ph] by simp
    show "case x of (v, q) \<Rightarrow> phase_ok e g t v q" if "x \<in> set (workers t)" for x
      using that work [of "fst x" "snd x"] by (simp add: case_prod_beta)
  qed (use recd in simp)
qed

section \<open>Every reachable state\<close>

definition sched_inv :: "'p executor \<Rightarrow> dag \<Rightarrow> 'p sched \<Rightarrow> bool" where
  "sched_inv e g s \<longleftrightarrow> core_inv g s \<and> phase_inv e g s"

lemma check_completed_open:
  assumes "core_inv g s" "k < length (workers s)"
  shows "check_completed (fst (workers s ! k)) t0 t1 s = WHolding t0"
proof -
  have "fst (workers s ! k) \<in> in_flight s" using assms(2) by (simp add: in_flight_def)
  then have "results s (fst (workers s ! k)) = None"
    using in_flight_not_reported [OF assms(1)] by blast
  then show ?thesis
    using maps_invD(1) [OF core_invD(13) [OF assms(1)]] by (simp add: check_completed_def)
qed

lemma phase_inv_frame:
  assumes "phase_inv e g s" "workers t = workers s" "exiting t \<le> exiting s"
    "results t = results s" "payloads t = payloads s" "cancelled s \<longrightarrow> cancelled t"
  shows "phase_inv e g t"
proof -
  have "slots t \<le> slots s" using assms(2,3) by (simp add: slots_def)
  moreover have "phase_ok e g t i q" if "phase_ok e g s i q" for i q
    using that by (rule phase_ok_mono) (use assms in simp_all)
  moreover have "produced e g t i r" if "produced e g s i r" for i r
    using that by (rule produced_mono) (use assms in simp_all)
  ultimately show ?thesis
    using assms(1) unfolding phase_inv_def assms(2,4) by (auto simp: case_prod_beta)
qed

lemma sched_inv_publish: "sched_inv e g s \<Longrightarrow> sched_inv e g (publish evs s)"
  using core_inv_publish phase_inv_frame [of e g s "publish evs s"]
  by (auto simp: sched_inv_def op_simps)

lemma sched_inv_step:
  assumes wf: "well_formed g" and inv: "sched_inv e g s" and step: "sched_step e g a s = Some s'"
  shows "sched_inv e g s'"
proof -
  have core: "core_inv g s" and ph: "phase_inv e g s" using inv by (simp_all add: sched_inv_def)
  have set_ok: "sched_inv e g (set_phase k q s)"
    if "k < length (workers s)" "phase_ok e g s (fst (workers s ! k)) q"
      "holds_slot q \<Longrightarrow> holds_slot (snd (workers s ! k)) \<or> slots s < sem_capacity e" for k q
    using core_inv_set_phase [OF core] phase_inv_set_phase [OF ph that] by (simp add: sched_inv_def)
  show ?thesis
  proof (cases a)
    case ACancel
    then have "s' = s\<lparr>cancelled := True\<rparr>" using step by (simp split: if_splits)
    then show ?thesis
      using core_inv_frame [OF core] phase_inv_frame [OF ph] by (simp add: sched_inv_def)
  next
    case (AAcquire k t0 t1)
    then have k: "k < length (workers s)" "slots s < sem_capacity e"
      and s': "s' = set_phase k (WHolding t0) s"
      using step check_completed_open [OF core] by (auto split: if_splits)
    show ?thesis unfolding s' by (rule set_ok) (use k in simp_all)
  next
    case (AEnter k t1)
    then obtain i t0 where k: "k < length (workers s)" "workers s ! k = (i, WHolding t0)"
      and s': "\<exists>evs. s' = publish evs (set_phase k (enter_run g i t0 t1 s) s)"
      using step by (auto split: if_splits prod.splits wphase.splits)
    have "phase_ok e g s i (enter_run g i t0 t1 s)"
      by (auto simp: enter_run_def produced_def)
    then show ?thesis using s' k by (auto intro!: sched_inv_publish set_ok)
  next
    case (AFinish k out t1 t2)
    then obtain i t0 inp where k: "k < length (workers s)" "workers s ! k = (i, WRunning t0 inp)"
      and run: "node_run e g i inp out"
      and s': "\<exists>evs. s' = publish evs (set_phase k (WDone (finish_result i t0 (cancelled s) out t1 t2)) s)"
      using step by (auto split: if_splits prod.splits wphase.splits)
    have "produced e g s i (finish_result i t0 (cancelled s) out t1 t2)"
      using phase_invD(2) [OF ph k(1)] k(2) run by (simp add: produced_finish)
    then show ?thesis using s' k by (auto intro!: sched_inv_publish set_ok)
  next
    case (AReceive k now)
    then obtain i res where k: "k < length (workers s)" "workers s ! k = (i, WDone res)"
      and s': "s' = receive g k now res s"
      using step by (auto split: if_splits prod.splits wphase.splits)
    have "worker_result i res"
      using phase_invD(2) [OF ph k(1)] k(2) by (simp add: produced_worker_result)
    then show ?thesis
      unfolding s' sched_inv_def using core_inv_receive [OF wf core k] phase_inv_receive [OF wf core ph k]
      by blast
  next
    case ARelease
    then obtain n where "exiting s = Suc n" "s' = s\<lparr>exiting := n\<rparr>"
      using step by (auto split: nat.splits)
    then show ?thesis
      using core_inv_frame [OF core] phase_inv_frame [OF ph] by (simp add: sched_inv_def)
  qed
qed

lemma sched_inv_reachable:
  assumes "well_formed g" "reachable e g s"
  shows "sched_inv e g s"
  using assms(2)
proof induction
  case reach_start
  then show ?case
    by (simp add: sched_inv_def core_inv_start phase_inv_start assms(1))
next
  case (reach_step s a s')
  then show ?case using sched_inv_step [OF assms(1)] by blast
qed

lemmas reachable_core = sched_inv_reachable [unfolded sched_inv_def, THEN conjunct1]
lemmas reachable_phase = sched_inv_reachable [unfolded sched_inv_def, THEN conjunct2]

end
