(* ===== verification/Exec_Props.thy ===== *)
theory Exec_Props
  imports Exec_Phase
begin

text \<open>
  The executor's guarantees: dispatch order, single dispatch, the concurrency bound, exact
  failure cascades, termination, the set of nodes that get a result, and independence of the
  results from the interleaving.
\<close>

section \<open>Running a list of actions\<close>

definition run_actions :: "'p executor \<Rightarrow> dag \<Rightarrow> 'p action list \<Rightarrow> 'p sched \<Rightarrow> 'p sched option" where
  "run_actions e g as s = fold (\<lambda>a r. Option.bind r (sched_step e g a)) as (Some s)"

lemma fold_bind_None: "fold (\<lambda>a r. Option.bind r (sched_step e g a)) as None = None"
  by (induction as) auto

lemma run_actions_Cons:
  "run_actions e g (a # as) s =
     (case sched_step e g a s of None \<Rightarrow> None | Some s' \<Rightarrow> run_actions e g as s')"
  by (simp add: run_actions_def fold_bind_None split: option.split)

lemma run_actions_Nil [simp]: "run_actions e g [] s = Some s"
  by (simp add: run_actions_def)

lemma run_actions_reachable:
  "reachable e g s \<Longrightarrow> run_actions e g as s = Some s' \<Longrightarrow> reachable e g s'"
  by (induction as arbitrary: s)
     (auto simp: run_actions_Cons split: option.splits intro: reach_step)

section \<open>A run that fails in the middle of a chain\<close>

definition ex_chain :: dag where
  "ex_chain = \<lparr>Nodes = map ex_node [''a'', ''b'', ''c''], Edges = [ex_edge ''a'' ''b'', ex_edge ''b'' ''c'']\<rparr>"

definition ex_filter :: "nat node" where
  "ex_filter = \<lparr>n_Type = ''filter'', n_Subtype = [],
     n_Run = (\<lambda>inp out. out = (if inp ''_id'' = Some (Text ''b'') then RunErr ''boom'' False
                               else RunOk (Some 7)))\<rparr>"

definition ex_exec :: "nat executor" where
  "ex_exec = NewExecutor (Some (snd (Register (Some ex_filter) NewRegistry))) 2 0"

definition ex_serve :: "nat outcome \<Rightarrow> nat action list" where
  "ex_serve out = [AAcquire 0 1 2, AEnter 0 3, AFinish 0 out 4 5, AReceive 0 6]"

text \<open>The state in the middle of the run: \<open>a\<close> has succeeded, \<open>b\<close> is dispatched.\<close>

definition ex_mid :: "nat sched" where
  "ex_mid = the (run_actions ex_exec ex_chain (ex_serve (RunOk (Some 7))) (start_sched ex_chain))"

definition ex_end :: "nat sched" where
  "ex_end = the (run_actions ex_exec ex_chain (ex_serve (RunErr ''boom'' False)) ex_mid)"

lemmas ex_exec_defs = ex_exec_def ex_filter_def NewExecutor_def NewRegistry_def Register_def
  positive_or_def sem_capacity_def

lemma ex_chain_valid: "Validate (Some ex_chain) = None"
  by (simp add: Validate_def ex_chain_def ex_node_def ex_edge_def)

lemma ex_chain_start:
  "start_sched ex_chain = (init_sched ex_chain)\<lparr>ready := [], workers := [(''a'', WQueued)]\<rparr>"
  by (simp add: start_sched_def drainReady_def init_sched_def Roots_def ex_chain_def ex_node_def
      ex_edge_def str_sort.srt_eq_sort)


lemmas ex_run_simps = run_actions_Cons ex_serve_def publish_def started_events_def
  finish_events_def set_phase_def slots_def check_completed_def
  enter_run_def build_inputs_def node_def_of_def NodeByID_def node_run_def GetBySubtype_def
  finish_result_def done_result_def receive_def onNodeDone_def recordResult_def enqueueChildren_def
  enqueueChild_def cascadeSkip_def drainReady_def Successors_def Predecessors_def
  collectDescendants_def Let_def insertSorted_eq_insort skip_result_def comp_def

definition ex_result_a :: "nat node_result" where
  "ex_result_a = (done_result ''a'' StatusSuccess NoSkip 1 4)\<lparr>nr_Payload := Some 7\<rparr>"

lemmas ex_run_defs = node_ids_def ex_run_simps ex_exec_defs ex_chain_def ex_node_def ex_edge_def ex_result_a_def

lemma ex_mid_run:
  "run_actions ex_exec ex_chain (ex_serve (RunOk (Some 7))) (start_sched ex_chain) = Some ex_mid"
  "workers ex_mid = [(''b'', WQueued)]" "results ex_mid = [''a'' \<mapsto> ex_result_a]"
  "completed ex_mid = [''a'' \<mapsto> StatusSuccess]" "payloads ex_mid = [''a'' \<mapsto> 7]"
  "exiting ex_mid = 1" "ready ex_mid = []" "cancelled ex_mid = False" "first_err ex_mid = None"
  "pending ex_mid ''c'' = 1"
  unfolding ex_mid_def ex_chain_start init_sched_def by (simp_all add: ex_run_defs)

lemma ex_end_run:
  "run_actions ex_exec ex_chain (ex_serve (RunErr ''boom'' False)) ex_mid = Some ex_end"
  "workers ex_end = []" "cancelled ex_end = False"
  "results ex_end = [''a'' \<mapsto> ex_result_a,
     ''b'' \<mapsto> (done_result ''b'' StatusFailed NoSkip 1 4)\<lparr>nr_Error := ErrorText ''boom''\<rparr>,
     ''c'' \<mapsto> skip_result ''c'' UpstreamFailed 6]"
  unfolding ex_end_def by (simp_all add: ex_run_defs ex_mid_run)

lemma ex_reachable: "reachable ex_exec ex_chain ex_mid" "reachable ex_exec ex_chain ex_end"
  using run_actions_reachable [OF reach_start ex_mid_run(1)] run_actions_reachable ex_end_run(1)
  by blast+


section \<open>Progress and termination\<close>

fun phase_weight :: "'p wphase \<Rightarrow> nat" where
  "phase_weight WQueued = 5"
| "phase_weight (WHolding _) = 4"
| "phase_weight (WRunning _ _) = 3"
| "phase_weight (WDone _) = 2"

definition idle_nodes :: "dag \<Rightarrow> 'p sched \<Rightarrow> string set" where
  "idle_nodes g s = set (node_ids g) - in_flight s - dom (results s)"

definition sched_measure :: "dag \<Rightarrow> 'p sched \<Rightarrow> nat" where
  "sched_measure g s =
     sum_list (map (phase_weight \<circ> snd) (workers s)) + exiting s + of_bool (\<not> cancelled s)
     + 6 * card (idle_nodes g s)"

lemma sched_measure_set_phase:
  assumes k: "k < length (workers s)" and "phase_weight ph < phase_weight (snd (workers s ! k))"
  shows "sched_measure g (set_phase k ph s) < sched_measure g s"
proof -
  have fl: "in_flight (set_phase k ph s) = in_flight s"
    using map_fst_set_phase [of k ph s] by (metis in_flight_def list.set_map)
  have "workers s = take k (workers s) @ workers s ! k # drop (Suc k) (workers s)"
    using k by (rule id_take_nth_drop)
  from arg_cong [OF this, of "\<lambda>ws. sum_list (map (phase_weight \<circ> snd) ws)"]
  have "sum_list (map (phase_weight \<circ> snd) (workers (set_phase k ph s)))
      < sum_list (map (phase_weight \<circ> snd) (workers s))"
    using assms by (simp add: set_phase_def upd_conv_take_nth_drop)
  then show ?thesis by (simp add: sched_measure_def idle_nodes_def fl op_simps)
qed

lemma sched_measure_receive:
  assumes wf: "well_formed g" and inv: "core_inv g s"
    and k: "k < length (workers s)" "workers s ! k = (i, WDone res)" and res: "worker_result i res"
  shows "sched_measure g (receive g k now res s) < sched_measure g (s :: 'p sched)"
proof -
  define t where "t = receive g k now res s"
  define D where "D = (if nr_Status res = StatusFailed
                 then {v. (i, v) \<in> (edge_rel g)\<^sup>+ \<and> results s v = None} else {})"
  let ?w = "take k (workers s) @ drop (Suc k) (workers s)"
  obtain new where eff: "workers t = ?w @ map (\<lambda>v. (v, WQueued)) new"
    "results t = (\<lambda>v. if v \<in> D then Some (skip_result v UpstreamFailed now)
                          else ((results s)(i \<mapsto> res)) v)"
    "exiting t = Suc (exiting s)" "cancelled t = cancelled s"
    and new: "distinct new"
    "set new = {v. (i, v) \<in> edge_rel g \<and> v \<noteq> i \<and> results s v = None \<and> v \<notin> D
                   \<and> remaining g (insert i (reported s)) v = 0}"
    unfolding t_def D_def by (rule receive_effect [OF wf inv k res, where now = now]) simp
  have fl: "i \<in> in_flight s"
    using k by (force simp: in_flight_def in_set_conv_nth)
  have iR: "i \<notin> reported s" using in_flight_not_reported [OF inv fl] by blast
  have idle: "set new \<subseteq> idle_nodes g s"
    using new(2) core_invD(8) [OF inv] iR well_formedD(3) [OF wf]
    by (auto simp: idle_nodes_def domIff)
  have fl_t: "in_flight t = fst ` set ?w \<union> set new"
    unfolding in_flight_def eff(1) by (rule drain_workers_in_flight)
  have "workers s = take k (workers s) @ (i, WDone res) # drop (Suc k) (workers s)"
    using id_take_nth_drop [OF k(1)] k(2) by simp
  then have "set (workers s) = insert (i, WDone res) (set ?w)"
    by (metis Un_insert_right list.simps(15) set_append)
  then have fs: "in_flight s = insert i (fst ` set ?w)" by (simp add: in_flight_def)
  have sub: "idle_nodes g t \<subseteq> idle_nodes g s - set new"
    unfolding idle_nodes_def fl_t fs by (auto simp: eff(2) domIff split: if_splits)
  have fin: "finite (idle_nodes g s)" by (simp add: idle_nodes_def)
  have "card (idle_nodes g t) \<le> card (idle_nodes g s - set new)"
    using sub fin by (intro card_mono) auto
  also have "\<dots> = card (idle_nodes g s) - length new"
    using idle new(1) by (simp add: card_Diff_subset distinct_card)
  finally have c: "card (idle_nodes g t) + length new \<le> card (idle_nodes g s)"
    using card_mono [OF fin idle] new(1) by (simp add: distinct_card)
  have w: "sum_list (map (phase_weight \<circ> snd) (workers s))
      = sum_list (map (phase_weight \<circ> snd) ?w) + 2"
    using arg_cong [OF \<open>workers s = _ @ _ # _\<close>, of "\<lambda>ws. sum_list (map (phase_weight \<circ> snd) ws)"]
    by simp
  have "sum_list (map (phase_weight \<circ> snd) (workers t))
      = sum_list (map (phase_weight \<circ> snd) ?w) + 5 * length new"
    by (simp add: eff(1) comp_def sum_list_triv)
  then show ?thesis
    unfolding t_def [symmetric] using w c by (simp add: sched_measure_def eff)
qed

lemma sched_measure_publish [op_simps]: "sched_measure g (publish evs s) = sched_measure g s"
  by (simp add: sched_measure_def idle_nodes_def in_flight_def op_simps)

lemma sched_measure_step:
  assumes wf: "well_formed g" and inv: "sched_inv e g s" and step: "sched_step e g a s = Some s'"
  shows "sched_measure g s' < sched_measure g s"
proof -
  have core: "core_inv g s" and ph: "phase_inv e g s" using inv by (simp_all add: sched_inv_def)
  show ?thesis
  proof (cases a)
    case ACancel
    then show ?thesis
      using step by (auto simp: sched_measure_def idle_nodes_def in_flight_def split: if_splits)
  next
    case (AAcquire k t0 t1)
    then have k: "k < length (workers s)" "snd (workers s ! k) = WQueued"
      and s': "s' = set_phase k (WHolding t0) s"
      using step check_completed_open [OF core] by (auto split: if_splits)
    show ?thesis unfolding s' by (rule sched_measure_set_phase) (use k in simp_all)
  next
    case (AEnter k t1)
    then obtain i t0 where k: "k < length (workers s)" "workers s ! k = (i, WHolding t0)"
      and s': "\<exists>evs. s' = publish evs (set_phase k (enter_run g i t0 t1 s) s)"
      using step by (auto split: if_splits prod.splits wphase.splits)
    have "sched_measure g (set_phase k (enter_run g i t0 t1 s) s) < sched_measure g s"
      by (rule sched_measure_set_phase) (use k in \<open>simp_all add: enter_run_def\<close>)
    then show ?thesis using s' by (auto simp: op_simps)
  next
    case (AFinish k out t1 t2)
    then obtain i t0 inp where k: "k < length (workers s)" "workers s ! k = (i, WRunning t0 inp)"
      and s': "\<exists>evs. s' = publish evs (set_phase k (WDone (finish_result i t0 (cancelled s) out t1 t2)) s)"
      using step by (auto split: if_splits prod.splits wphase.splits)
    have "sched_measure g (set_phase k (WDone (finish_result i t0 (cancelled s) out t1 t2)) s)
        < sched_measure g s"
      by (rule sched_measure_set_phase) (use k in simp_all)
    then show ?thesis using s' by (auto simp: op_simps)
  next
    case (AReceive k now)
    then obtain i res where k: "k < length (workers s)" "workers s ! k = (i, WDone res)"
      and s': "s' = receive g k now res s"
      using step by (auto split: if_splits prod.splits wphase.splits)
    have "worker_result i res"
      using phase_invD(2) [OF ph k(1)] k(2) by (simp add: produced_worker_result)
    then show ?thesis unfolding s' by (rule sched_measure_receive [OF wf core k])
  next
    case ARelease
    then obtain n where "exiting s = Suc n" "s' = s\<lparr>exiting := n\<rparr>"
      using step by (auto split: nat.splits)
    then show ?thesis by (simp add: sched_measure_def idle_nodes_def in_flight_def)
  qed
qed

text \<open>Every registered implementation returns on every input.\<close>

definition nodes_return :: "'p executor \<Rightarrow> bool" where
  "nodes_return e \<longleftrightarrow>
     (\<forall>t st n inp. GetBySubtype (eng_registry e) t st = Some n \<longrightarrow> (\<exists>out. n_Run n inp out))"

lemma sched_progress:
  assumes ret: "nodes_return e" and busy: "workers s \<noteq> []"
  shows "\<exists>a s'. a \<noteq> ACancel \<and> sched_step e g a s = Some s'"
proof (cases "\<exists>k<length (workers s). snd (workers s ! k) \<noteq> WQueued")
  case True
  then obtain k where k: "k < length (workers s)" "snd (workers s ! k) \<noteq> WQueued" by blast
  obtain i ph where w: "workers s ! k = (i, ph)" by (cases "workers s ! k")
  show ?thesis
  proof (cases ph)
    case WQueued
    then show ?thesis using k w by simp
  next
    case (WHolding t0)
    then have "sched_step e g (AEnter k 0) s \<noteq> None" using k w by simp
    then show ?thesis by blast
  next
    case (WRunning t0 inp)
    have "\<exists>out. node_run e g i inp out"
      using ret by (cases "GetBySubtype (eng_registry e) (nd_Type (node_def_of g i)) (nd_Subtype (node_def_of g i))")
        (auto simp: node_run_def nodes_return_def)
    then obtain out where "node_run e g i inp out" ..
    then have "sched_step e g (AFinish k out 0 0) s \<noteq> None" using k w WRunning by simp
    then show ?thesis by blast
  next
    case (WDone res)
    then have "sched_step e g (AReceive k 0) s \<noteq> None" using k w by simp
    then show ?thesis by blast
  qed
next
  case False
  then have q: "\<forall>w\<in>set (workers s). snd w = WQueued" by (metis in_set_conv_nth)
  then have sl: "slots s = exiting s" by (simp add: slots_def filter_empty_conv)
  show ?thesis
  proof (cases "exiting s")
    case 0
    then have "sched_step e g (AAcquire 0 0 0) s \<noteq> None"
      using busy q sl sem_capacity_pos [of e] by (cases "workers s") simp_all
    then show ?thesis by blast
  next
    case (Suc n)
    then have "sched_step e g ARelease s \<noteq> None" by simp
    then show ?thesis by blast
  qed
qed


section \<open>Final states\<close>

lemma reported_receive:
  assumes wf: "well_formed g" and inv: "core_inv g s"
    and k: "k < length (workers s)" "workers s ! k = (i, WDone res)" and res: "worker_result i res"
  shows "reported (receive g k now res s) = insert i (reported (s :: 'p sched))"
proof -
  define t where "t = receive g k now res s"
  define D where "D = (if nr_Status res = StatusFailed
                 then {v. (i, v) \<in> (edge_rel g)\<^sup>+ \<and> results s v = None} else {})"
  have r: "results t = (\<lambda>v. if v \<in> D then Some (skip_result v UpstreamFailed now)
                          else ((results s)(i \<mapsto> res)) v)"
    unfolding t_def D_def by (rule receive_effect [OF wf inv k res, where now = now]) simp
  have fl: "i \<in> in_flight s"
    using k by (force simp: in_flight_def in_set_conv_nth)
  have "i \<notin> D" "\<And>v. v \<in> D \<Longrightarrow> results s v = None"
    using in_flight_acyclic [OF inv fl] by (auto simp: D_def split: if_splits)
  then show ?thesis
    using res unfolding t_def [symmetric]
    by (auto simp: reported_def r skip_result_def worker_result_def split: if_splits)
qed

text \<open>A node on a cycle never reports.\<close>

lemma reported_frame: "results t = results s \<Longrightarrow> reported t = reported s"
  by (simp add: reported_def)

lemma reported_acyclic:
  assumes wf: "well_formed g" and "reachable e g s" "v \<in> reported s"
  shows "(v, v) \<notin> (edge_rel g)\<^sup>+"
  using assms(2,3)
proof (induction arbitrary: v)
  case reach_start
  have "reported (start_sched g :: 'a sched) = {}"
    by (auto simp: start_sched_def drainReady_def init_sched_def reported_def split: prod.splits)
  with reach_start show ?case by simp
next
  case (reach_step s a s')
  have core: "core_inv g s" and ph: "phase_inv e g s"
    using reach_step.hyps(1) wf by (simp_all add: reachable_core reachable_phase)
  show ?case
  proof (cases "v \<in> reported s")
    case True
    then show ?thesis by (rule reach_step.IH)
  next
    case False
    then obtain k now where a: "a = AReceive k now"
      using reach_step.prems reach_step.hyps(2)
      by (cases a) (auto simp: reported_def op_simps split: if_splits prod.splits wphase.splits nat.splits)
    then obtain i res where k: "k < length (workers s)" "workers s ! k = (i, WDone res)"
      and s': "s' = receive g k now res s"
      using reach_step.hyps(2) by (auto split: if_splits prod.splits wphase.splits)
    have "worker_result i res"
      using phase_invD(2) [OF ph k(1)] k(2) by (simp add: produced_worker_result)
    from reported_receive [OF wf core k this] have "v = i"
      using reach_step.prems False s' by simp
    moreover have "i \<in> in_flight s"
      using k by (force simp: in_flight_def in_set_conv_nth)
    ultimately show ?thesis using in_flight_acyclic [OF core] by blast
  qed
qed

text \<open>
  Without results and without workers, every open node waits for another open node, so a
  cycle is behind it.
\<close>

lemma finite_backward_cycle:
  assumes "finite S" "v \<in> S" "\<And>x. x \<in> S \<Longrightarrow> \<exists>y\<in>S. (y, x) \<in> R"
  shows "\<exists>c. (c, c) \<in> R\<^sup>+ \<and> (c, v) \<in> R\<^sup>*"
proof -
  define T where "T = {x \<in> S. (x, v) \<in> R\<^sup>*}"
  have T: "finite T" "v \<in> T" using assms by (auto simp: T_def)
  have step: "\<exists>y\<in>T. (y, x) \<in> R" if "x \<in> T" for x
    using that assms(3) [of x] by (auto simp: T_def intro: converse_rtrancl_into_rtrancl)
  have "\<not> acyclic (R \<inter> T \<times> T)"
  proof
    assume "acyclic (R \<inter> T \<times> T)"
    moreover have "finite (R \<inter> T \<times> T)" using T(1) by simp
    ultimately have "wf (R \<inter> T \<times> T)" by (simp add: finite_acyclic_wf)
    then obtain z where "z \<in> T" "\<And>y. (y, z) \<in> R \<inter> T \<times> T \<Longrightarrow> y \<notin> T"
      using wfE_min [OF _ T(2)] by metis
    with step show False by blast
  qed
  then obtain c where c: "(c, c) \<in> (R \<inter> T \<times> T)\<^sup>+" by (auto simp: acyclic_def)
  then have "c \<in> T" by (auto dest: tranclD)
  moreover have "(c, c) \<in> R\<^sup>+" using c by (rule trancl_mono) auto
  ultimately show ?thesis by (auto simp: T_def)
qed

lemma final_no_result_cycle:
  assumes inv: "core_inv g s" and fin: "final s" and v: "v \<in> set (node_ids g)" "results s v = None"
    and wf: "well_formed g"
  shows "\<exists>c. (c, c) \<in> (edge_rel g)\<^sup>+ \<and> (c, v) \<in> (edge_rel g)\<^sup>*"
proof (rule finite_backward_cycle)
  show "finite (set (node_ids g) - dom (results s))" by simp
  show "v \<in> set (node_ids g) - dom (results s)" using v by auto
  show "\<exists>y\<in>set (node_ids g) - dom (results s). (y, x) \<in> edge_rel g"
    if x: "x \<in> set (node_ids g) - dom (results s)" for x
  proof -
    have "remaining g (reported s) x \<noteq> 0"
      using core_invD(12) [OF inv] x fin by (auto simp: final_def in_flight_def domIff)
    then obtain u where u: "(u, x) \<in> edge_rel g" "u \<notin> reported s"
      by (auto simp: remaining_0_iff)
    have "u \<notin> dom (results s)"
    proof
      assume "u \<in> dom (results s)"
      then have "cascaded s u" using u(2) by (auto simp: reported_def cascaded_def)
      then obtain w where "failed_at s w" "(w, u) \<in> (edge_rel g)\<^sup>+"
        using core_invD(11) [OF inv] by blast
      then have "cascaded s x"
        using core_invD(10) [OF inv] u(1) by (meson trancl.trancl_into_trancl)
      then show False using x by (auto simp: cascaded_def)
    qed
    then show ?thesis using u(1) well_formedD(3) [OF wf] by blast
  qed
qed

lemma final_dom_results:
  assumes wf: "well_formed g" and r: "reachable e g s" and fin: "final s"
  shows "v \<in> dom (results s) \<longleftrightarrow>
     v \<in> set (node_ids g)
     \<and> ((\<forall>c. (c, c) \<in> (edge_rel g)\<^sup>+ \<longrightarrow> (c, v) \<notin> (edge_rel g)\<^sup>*)
        \<or> (\<exists>u. failed_at s u \<and> (u, v) \<in> (edge_rel g)\<^sup>+))" (is "?l = ?r")
proof
  have inv: "core_inv g s" using wf r by (rule reachable_core)
  assume ?l
  then have n: "v \<in> set (node_ids g)" using core_invD(4) [OF inv] by blast
  show ?r
  proof (cases "v \<in> reported s")
    case True
    have "(c, v) \<notin> (edge_rel g)\<^sup>*" if c: "(c, c) \<in> (edge_rel g)\<^sup>+" for c
    proof
      assume "(c, v) \<in> (edge_rel g)\<^sup>*"
      then have "c \<in> reported s"
        using ancestors_reported [OF inv] True by (auto simp: rtrancl_eq_or_trancl)
      with reported_acyclic [OF wf r] c show False by blast
    qed
    with n show ?thesis by blast
  next
    case False
    then have "cascaded s v" using \<open>?l\<close> by (auto simp: reported_def cascaded_def)
    with n show ?thesis using core_invD(11) [OF inv] by blast
  qed
next
  have inv: "core_inv g s" using wf r by (rule reachable_core)
  assume ?r
  show ?l
  proof (rule ccontr)
    assume v: "v \<notin> dom (results s)"
    then obtain c where "(c, c) \<in> (edge_rel g)\<^sup>+" "(c, v) \<in> (edge_rel g)\<^sup>*"
      using final_no_result_cycle [OF inv fin _ _ wf] \<open>?r\<close> by (auto simp: domIff)
    then obtain u where "failed_at s u" "(u, v) \<in> (edge_rel g)\<^sup>+" using \<open>?r\<close> by blast
    then have "cascaded s v" using core_invD(10) [OF inv] by blast
    with v show False by (auto simp: cascaded_def)
  qed
qed


section \<open>Independence of the interleaving\<close>

text \<open>What is left of a result when its times are dropped.\<close>

definition verdict :: "'p node_result \<Rightarrow> run_status \<times> node_error \<times> skip_reason \<times> 'p option" where
  "verdict r = (nr_Status r, nr_Error r, nr_SkipReason r, nr_Payload r)"

definition deterministic_nodes :: "'p executor \<Rightarrow> bool" where
  "deterministic_nodes e \<longleftrightarrow>
     (\<forall>t st n inp out out'. GetBySubtype (eng_registry e) t st = Some n \<longrightarrow>
        n_Run n inp out \<longrightarrow> n_Run n inp out' \<longrightarrow> out = out')"

lemma first_unknown_None:
  assumes "first_unknown e g = None" "i \<in> set (node_ids g)"
  obtains n where
    "GetBySubtype (eng_registry e) (nd_Type (node_def_of g i)) (nd_Subtype (node_def_of g i)) = Some n"
  using assms node_def_of_member [OF assms(2)] by (auto simp: first_unknown_def find_None_iff)

lemma verdict_finish_result:
  "verdict (finish_result i t0 False out t1 t2) = verdict (finish_result i u0 False out u1 u2)"
  by (cases out) (simp_all add: verdict_def finish_result_def done_result_def)

lemma verdict_produced:
  assumes "produced e g s i r" "\<not> cancelled s" "produced e g s' i r'" "\<not> cancelled s'"
    and pay: "\<forall>u. (u, i) \<in> edge_rel g \<longrightarrow> payloads s u = payloads s' u"
    and "deterministic_nodes e" "first_unknown e g = None" "i \<in> set (node_ids g)"
  shows "verdict r = verdict r'"
proof -
  obtain t0 out t1 t2 where 1: "r = finish_result i t0 False out t1 t2"
    "node_run e g i (build_inputs g (node_def_of g i) (payloads s) i) out"
    using assms(1,2) by (auto simp: produced_def)
  obtain u0 out' u1 u2 where 2: "r' = finish_result i u0 False out' u1 u2"
    "node_run e g i (build_inputs g (node_def_of g i) (payloads s') i) out'"
    using assms(3,4) by (auto simp: produced_def)
  obtain n where n:
    "GetBySubtype (eng_registry e) (nd_Type (node_def_of g i)) (nd_Subtype (node_def_of g i)) = Some n"
    by (rule first_unknown_None [OF assms(7,8)])
  have "n_Run n (build_inputs g (node_def_of g i) (payloads s') i) out"
    "n_Run n (build_inputs g (node_def_of g i) (payloads s') i) out'"
    using 1(2) 2(2) n by (simp_all add: node_run_def build_inputs_cong [OF pay])
  then have "out = out'"
    using assms(6) n unfolding deterministic_nodes_def by blast
  with 1 2 show ?thesis by (simp only: verdict_finish_result)
qed

lemma results_cases:
  assumes "sched_inv e g s" "results s v = Some r"
  shows "if cascaded s v then verdict r = (StatusSkipped, NoError, UpstreamFailed, None)
         else produced e g s v r"
proof (cases "nr_SkipReason r = UpstreamFailed")
  case True
  then have "cascade_result v r"
    using assms maps_invD(3) [of s v r] core_invD(13) [of g s]
    by (auto simp: sched_inv_def worker_result_def)
  with True assms(2) show ?thesis by (simp add: cascaded_def cascade_result_def verdict_def)
next
  case False
  with assms show ?thesis
    using phase_invD(3) [of e g s v r] by (auto simp: sched_inv_def cascaded_def)
qed

lemma failed_at_verdict:
  "map_option verdict (results s u) = map_option verdict (results s' u) \<Longrightarrow>
     failed_at s u = failed_at s' u"
  by (cases "results s u"; cases "results s' u") (auto simp: failed_at_def verdict_def)

lemma payloads_verdict:
  assumes "maps_inv s" "maps_inv s'"
    "map_option verdict (results s u) = map_option verdict (results s' u)"
  shows "payloads s u = payloads s' u"
  using assms(3) unfolding maps_invD(2) [OF assms(1)] maps_invD(2) [OF assms(2)]
  by (cases "results s u"; cases "results s' u") (auto simp: verdict_def)

lemma cascaded_iff:
  assumes "core_inv g s"
  shows "cascaded s v \<longleftrightarrow> (\<exists>u. failed_at s u \<and> (u, v) \<in> (edge_rel g)\<^sup>+)"
  using core_invD(10,11) [OF assms] by blast

lemma verdicts_agree:
  assumes wf: "well_formed g" and ac: "acyclic (edge_rel g)"
    and s: "reachable e g s" "final s" "\<not> cancelled s"
    and s': "reachable e g s'" "final s'" "\<not> cancelled s'"
    and det: "deterministic_nodes e" "first_unknown e g = None"
  shows "map_option verdict (results s v) = map_option verdict (results s' v)"
proof -
  have inv: "sched_inv e g s" "sched_inv e g s'"
    using sched_inv_reachable wf s(1) s'(1) by blast+
  then have core: "core_inv g s" "core_inv g s'" by (simp_all add: sched_inv_def)
  have "wf ((edge_rel g)\<^sup>+)" using ac by (simp add: finite_acyclic_wf wf_trancl)
  then show ?thesis
  proof (induction v rule: wf_induct_rule)
    case (less v)
    have dom: "v \<in> dom (results s) \<longleftrightarrow> v \<in> set (node_ids g)"
      "v \<in> dom (results s') \<longleftrightarrow> v \<in> set (node_ids g)"
      using final_dom_results [OF wf s(1,2)] final_dom_results [OF wf s'(1,2)] ac
      by (auto simp: acyclic_def)
    show ?case
    proof (cases "v \<in> set (node_ids g)")
      case False
      with dom show ?thesis by (simp add: domIff)
    next
      case True
      with dom obtain r r' where r: "results s v = Some r" "results s' v = Some r'" by blast
      have casc: "cascaded s v \<longleftrightarrow> cascaded s' v"
        unfolding cascaded_iff [OF core(1)] cascaded_iff [OF core(2)]
        using less.IH failed_at_verdict [of s _ s'] by blast
      show ?thesis
      proof (cases "cascaded s v")
        case True
        then show ?thesis
          using results_cases [OF inv(1) r(1)] results_cases [OF inv(2) r(2)] casc r by simp
      next
        case False
        then have p: "produced e g s v r" "produced e g s' v r'"
          using results_cases [OF inv(1) r(1)] results_cases [OF inv(2) r(2)] casc by simp_all
        have "\<forall>u. (u, v) \<in> edge_rel g \<longrightarrow> payloads s u = payloads s' u"
          using less.IH payloads_verdict core_invD(13) core by blast
        from verdict_produced [OF p(1) s(3) p(2) s'(3) this det True]
        show ?thesis using r by simp
      qed
    qed
  qed
qed


section \<open>Properties of the scheduling loop\<close>

lemma results_kept:
  assumes wf: "well_formed g" and inv: "sched_inv e g s" and step: "sched_step e g a s = Some s'"
  shows "results s \<subseteq>\<^sub>m results s'"
proof (cases "\<exists>k now. a = AReceive k now")
  case False
  then have "results s' = results s"
    using step by (cases a) (auto simp: op_simps split: if_splits prod.splits wphase.splits nat.splits)
  then show ?thesis by simp
next
  case True
  then obtain k now where a: "a = AReceive k now" by blast
  then obtain i res where k: "k < length (workers s)" "workers s ! k = (i, WDone res)"
    and s': "s' = receive g k now res s"
    using step by (auto split: if_splits prod.splits wphase.splits)
  have core: "core_inv g s" and ph: "phase_inv e g s" using inv by (simp_all add: sched_inv_def)
  have w: "worker_result i res"
    using phase_invD(2) [OF ph k(1)] k(2) by (simp add: produced_worker_result)
  define D where "D = (if nr_Status res = StatusFailed
                 then {v. (i, v) \<in> (edge_rel g)\<^sup>+ \<and> results s v = None} else {})"
  have r: "results s' = (\<lambda>v. if v \<in> D then Some (skip_result v UpstreamFailed now)
                          else ((results s)(i \<mapsto> res)) v)"
    unfolding s' D_def by (rule receive_effect [OF wf core k w, where now = now]) simp
  have "i \<in> in_flight s"
    using k by (force simp: in_flight_def in_set_conv_nth)
  then have "results s i = None" using in_flight_not_reported [OF core] by blast
  then show ?thesis
    by (auto simp: map_le_def r D_def)
qed

lemma TopoSort_Inr_acyclic:
  assumes "TopoSort (Some g) = Some (Inr out)"
  shows "acyclic (edge_rel g)"
  using topo_order_acyclic [OF greedy_topo_order TopoSort_Inr_wf [OF assms]]
    TopoSort_Inr_greedy [OF assms] by blast

lemma ex_chain_acyclic: "acyclic (edge_rel ex_chain)"
  by (rule TopoSort_Inr_acyclic [of _ "[''a'', ''b'', ''c'']"])
     (simp add: topo_eval ex_chain_def ex_node_def ex_edge_def)

lemma edge_rel_ex_chain: "edge_rel ex_chain = {(''a'', ''b''), (''b'', ''c'')}"
  by (simp add: edge_rel_def ex_chain_def ex_edge_def)

text \<open>C1: a node is handed to a worker only after every predecessor has reported a result that is
  not a failure: a success, or a node's own skip under a cancelled context.\<close>

theorem dispatch_after_predecessors:
  assumes "Validate (Some g) = None" "reachable e g s"
    and "(v, ph) \<in> set (workers s)" "(u, v) \<in> edge_rel g"
  shows "\<exists>r. results s u = Some r
           \<and> (nr_Status r = StatusSuccess
              \<or> nr_Status r = StatusSkipped \<and> nr_SkipReason r = Cancelled)"
proof -
  have inv: "core_inv g s"
    using assms(1,2) by (simp add: reachable_core Validate_None_iff)
  have "v \<in> in_flight s" using assms(3) by (force simp: in_flight_def)
  then have "u \<in> reported s" "\<not> failed_at s u"
    using core_invD(8,9) [OF inv _ assms(4)] by blast+
  then obtain r where "results s u = Some r" "nr_SkipReason r \<noteq> UpstreamFailed" "nr_Status r \<noteq> StatusFailed"
    by (auto simp: reported_def failed_at_def)
  with maps_invD(3) [OF core_invD(13) [OF inv], of u r] show ?thesis
    by (auto simp add: worker_result_def cascade_result_def)
qed

theorem dispatch_after_predecessors_witness:
  "\<exists>r. results ex_mid ''a'' = Some r
     \<and> (nr_Status r = StatusSuccess \<or> nr_Status r = StatusSkipped \<and> nr_SkipReason r = Cancelled)"
  by (rule dispatch_after_predecessors [OF ex_chain_valid ex_reachable(1), of "''b''" WQueued])
     (simp_all add: ex_mid_run edge_rel_ex_chain)

text \<open>C6: no node is dispatched twice: the workers carry different nodes, none of them has a result
  yet, and a recorded result is never changed by a later step.\<close>

theorem single_dispatch:
  assumes "Validate (Some g) = None" "reachable e g s"
  shows "distinct (map fst (workers s)) \<and> fst ` set (workers s) \<inter> dom (results s) = {}
         \<and> {s'. \<exists>a. sched_step e g a s = Some s'} \<subseteq> {s'. results s \<subseteq>\<^sub>m results s'}"
proof -
  have wf: "well_formed g" using assms(1) by (simp add: Validate_None_iff)
  have "sched_inv e g s" by (rule sched_inv_reachable [OF wf assms(2)])
  then show ?thesis
    using results_kept [OF wf] core_invD(1,5) [of g s] by (auto simp: sched_inv_def in_flight_def)
qed

theorem single_dispatch_witness:
  "distinct (map fst (workers ex_mid)) \<and> fst ` set (workers ex_mid) \<inter> dom (results ex_mid) = {}
   \<and> {s'. \<exists>a. sched_step ex_exec ex_chain a ex_mid = Some s'} \<subseteq> {s'. results ex_mid \<subseteq>\<^sub>m results s'}"
  by (rule single_dispatch [OF ex_chain_valid ex_reachable(1)])

text \<open>C7: at most \<open>maxConcurrency\<close> workers are past the semaphore at any time, and never more
  than that run their node's code.\<close>

theorem concurrency_bound:
  assumes "Validate (Some g) = None" "reachable (NewExecutor reg maxc timeout) g s"
  shows "int (length (filter (\<lambda>w. holds_slot (snd w)) (workers s)))
           \<le> (if maxc \<le> 0 then 4 else maxc)"
proof -
  have "slots s \<le> sem_capacity (NewExecutor reg maxc timeout)"
    using phase_invD(1) [OF reachable_phase [OF _ assms(2)]] assms(1)
    by (simp add: Validate_None_iff)
  then show ?thesis
    by (simp add: slots_def comp_def sem_capacity_def NewExecutor_def positive_or_def split: if_splits)
qed

theorem concurrency_bound_witness:
  "int (length (filter (\<lambda>w. holds_slot (snd w)) (workers ex_mid))) \<le> (if (2::int) \<le> 0 then 4 else 2)"
  by (rule concurrency_bound [OF ex_chain_valid ex_reachable(1) [unfolded ex_exec_def]])

text \<open>C2: at every moment, the nodes recorded as skipped because of an upstream failure are exactly
  the descendants of the nodes recorded as failed.\<close>

theorem cascade_exact:
  assumes "Validate (Some g) = None" "reachable e g s"
  shows "(\<exists>r. results s v = Some r \<and> nr_Status r = StatusSkipped \<and> nr_SkipReason r = UpstreamFailed)
     \<longleftrightarrow> (\<exists>u r. results s u = Some r \<and> nr_Status r = StatusFailed \<and> (u, v) \<in> (edge_rel g)\<^sup>+)"
proof -
  have inv: "core_inv g s"
    using assms by (simp add: reachable_core Validate_None_iff)
  have "cascaded s v \<longleftrightarrow>
      (\<exists>r. results s v = Some r \<and> nr_Status r = StatusSkipped \<and> nr_SkipReason r = UpstreamFailed)"
    using maps_invD(3) [OF core_invD(13) [OF inv], of v]
    by (cases "results s v") (auto simp: cascaded_def worker_result_def cascade_result_def)
  then show ?thesis using cascaded_iff [OF inv, of v] by (auto simp: failed_at_def)
qed

theorem cascade_exact_witness:
  "\<exists>r. results ex_end ''c'' = Some r \<and> nr_Status r = StatusSkipped \<and> nr_SkipReason r = UpstreamFailed"
  unfolding cascade_exact [OF ex_chain_valid ex_reachable(2)]
  by (rule exI [of _ "''b''"]) (auto simp: ex_end_run edge_rel_ex_chain done_result_def)

text \<open>C3: when the loop ends, the nodes without a result are exactly those that can be reached
  from a cycle and have no failed ancestor; on an acyclic graph every node has a result.\<close>

theorem final_results:
  assumes "Validate (Some g) = None" "reachable e g s" "final s"
  shows "v \<in> dom (results s) \<longleftrightarrow>
     v \<in> set (node_ids g)
     \<and> ((\<nexists>c. (c, c) \<in> (edge_rel g)\<^sup>+ \<and> (c, v) \<in> (edge_rel g)\<^sup>*)
        \<or> (\<exists>u r. results s u = Some r \<and> nr_Status r = StatusFailed \<and> (u, v) \<in> (edge_rel g)\<^sup>+))"
  unfolding final_dom_results [OF _ assms(2,3), unfolded failed_at_def, OF iffD1 [OF Validate_None_iff assms(1)]]
  by blast

theorem final_results_witness:
  "''c'' \<in> dom (results ex_end) \<longleftrightarrow>
     ''c'' \<in> set (node_ids ex_chain)
     \<and> ((\<nexists>c. (c, c) \<in> (edge_rel ex_chain)\<^sup>+ \<and> (c, ''c'') \<in> (edge_rel ex_chain)\<^sup>*)
        \<or> (\<exists>u r. results ex_end u = Some r \<and> nr_Status r = StatusFailed
                 \<and> (u, ''c'') \<in> (edge_rel ex_chain)\<^sup>+))"
  by (rule final_results [OF ex_chain_valid ex_reachable(2)]) (simp add: final_def ex_end_run)

text \<open>C4: when every node implementation returns, the scheduling loop ends: no infinite sequence of
  steps exists from any reachable state, and as long as a worker is left some step other than
  cancelling the context is possible.\<close>

theorem executor_terminates:
  assumes "Validate (Some g) = None" "nodes_return e"
  shows "wf {(s', s). reachable e g s \<and> (\<exists>a. sched_step e g a s = Some s')}
     \<and> {s. reachable e g s \<and> \<not> final s}
        \<subseteq> {s. \<exists>a s'. a \<noteq> ACancel \<and> sched_step e g a s = Some s'}"
proof
  have "well_formed g" using assms(1) by (simp add: Validate_None_iff)
  then have "{(s', s). reachable e g s \<and> (\<exists>a. sched_step e g a s = Some s')}
      \<subseteq> measure (sched_measure g)"
    by (clarsimp simp: in_measure) (rule sched_measure_step [OF _ sched_inv_reachable])
  then show "wf {(s', s). reachable e g s \<and> (\<exists>a. sched_step e g a s = Some s')}"
    by (rule wf_subset [OF wf_measure])
  show "{s. reachable e g s \<and> \<not> final s}
        \<subseteq> {s. \<exists>a s'. a \<noteq> ACancel \<and> sched_step e g a s = Some s'}"
    using sched_progress [OF assms(2)] by (auto simp: final_def)
qed

lemma ex_exec_lookup: "GetBySubtype (eng_registry ex_exec) t st = Some n \<Longrightarrow> n = ex_filter"
  by (simp add: GetBySubtype_def ex_exec_def NewExecutor_def NewRegistry_def Register_def Let_def
      split: if_splits option.splits)

lemma ex_exec_returns: "nodes_return ex_exec" "deterministic_nodes ex_exec"
  by (auto simp: nodes_return_def deterministic_nodes_def ex_filter_def dest!: ex_exec_lookup)

theorem executor_terminates_witness:
  "wf {(s', s). reachable ex_exec ex_chain s \<and> (\<exists>a. sched_step ex_exec ex_chain a s = Some s')}
     \<and> {s. reachable ex_exec ex_chain s \<and> \<not> final s}
        \<subseteq> {s. \<exists>a s'. a \<noteq> ACancel \<and> sched_step ex_exec ex_chain a s = Some s'}"
  by (rule executor_terminates [OF ex_chain_valid ex_exec_returns(1)])

text \<open>C5: on an acyclic graph whose nodes are deterministic, the outcome of an uncancelled run does
  not depend on the order in which goroutines move: any two complete runs give every node the same
  status, error, skip reason and payload.\<close>

theorem results_deterministic:
  assumes "Validate (Some g) = None" "acyclic (edge_rel g)" "first_unknown e g = None"
    and "deterministic_nodes e"
    and "reachable e g s" "final s" "\<not> cancelled s"
    and "reachable e g s'" "final s'" "\<not> cancelled s'"
  shows "map_option verdict (results s v) = map_option verdict (results s' v)"
  using assms by (intro verdicts_agree) (simp_all add: Validate_None_iff)

text \<open>A second run of the chain with other clock readings.\<close>

definition ex_serve' :: "nat outcome \<Rightarrow> nat action list" where
  "ex_serve' out = [AAcquire 0 10 20, AEnter 0 30, AFinish 0 out 40 50, AReceive 0 60, ARelease]"

definition ex_mid' :: "nat sched" where
  "ex_mid' = the (run_actions ex_exec ex_chain (ex_serve' (RunOk (Some 7))) (start_sched ex_chain))"

definition ex_end' :: "nat sched" where
  "ex_end' = the (run_actions ex_exec ex_chain (ex_serve' (RunErr ''boom'' False)) ex_mid')"

lemma ex_mid'_run:
  "run_actions ex_exec ex_chain (ex_serve' (RunOk (Some 7))) (start_sched ex_chain) = Some ex_mid'"
  "workers ex_mid' = [(''b'', WQueued)]"
  "completed ex_mid' = [''a'' \<mapsto> StatusSuccess]" "payloads ex_mid' = [''a'' \<mapsto> 7]"
  "exiting ex_mid' = 0" "ready ex_mid' = []" "cancelled ex_mid' = False" "first_err ex_mid' = None"
  "pending ex_mid' ''c'' = 1"
  unfolding ex_mid'_def ex_chain_start init_sched_def
  by (simp_all add: ex_run_defs ex_serve'_def)

lemma ex_end'_run:
  "run_actions ex_exec ex_chain (ex_serve' (RunErr ''boom'' False)) ex_mid' = Some ex_end'"
  "workers ex_end' = []" "cancelled ex_end' = False"
  unfolding ex_end'_def by (simp_all add: ex_run_defs ex_serve'_def ex_mid'_run)

lemma ex_reachable': "reachable ex_exec ex_chain ex_end'"
  using run_actions_reachable [OF reach_start ex_mid'_run(1)] run_actions_reachable ex_end'_run(1)
  by blast

theorem results_deterministic_witness:
  "map_option verdict (results ex_end ''b'') = map_option verdict (results ex_end' ''b'')"
  by (rule results_deterministic [OF ex_chain_valid ex_chain_acyclic _ ex_exec_returns(2)
        ex_reachable(2) _ _ ex_reachable'])
     (simp_all add: final_def ex_end_run ex_end'_run first_unknown_def ex_exec_defs
        GetBySubtype_def ex_chain_def ex_node_def)

end
