(* ===== verification/Execute_Props.thy ===== *)
theory Execute_Props
  imports Exec_Props
begin

text \<open>
  The guarantees of \<open>Engine.Execute\<close> and \<open>Engine.ExecuteToNode\<close>: status and error of a
  summary, cyclic graphs, what a node's \<open>Run\<close> is given, and partial runs.
\<close>

section \<open>Status and error\<close>

definition settled :: "run_status \<Rightarrow> bool" where
  "settled st \<longleftrightarrow> st = StatusSuccess \<or> st = StatusFailed \<or> st = StatusSkipped"

lemma aggregateStatus_iff:
  assumes "\<forall>r\<in>ran rs. settled (nr_Status r)"
  shows "aggregateStatus rs = StatusFailed \<longleftrightarrow> (\<exists>r\<in>ran rs. nr_Status r = StatusFailed)"
    and "aggregateStatus rs = StatusSuccess \<longleftrightarrow> (\<forall>r\<in>ran rs. nr_Status r = StatusSuccess)"
    and "aggregateStatus rs \<noteq> StatusSkipped"
  using assms by (auto simp: aggregateStatus_def settled_def)

lemma aggregateStatus_image:
  "aggregateStatus rs =
     (if StatusFailed \<in> nr_Status ` ran rs then StatusFailed
      else if StatusSkipped \<in> nr_Status ` ran rs then StatusPartial else StatusSuccess)"
proof -
  have "st \<in> nr_Status ` ran rs \<longleftrightarrow> (\<exists>r\<in>ran rs. nr_Status r = st)" for st by auto
  then show ?thesis by (cases "rs = Map.empty") (simp_all add: aggregateStatus_def)
qed

lemma reachable_settled:
  assumes "well_formed g" "reachable e g s" "r \<in> ran (results s)"
  shows "settled (nr_Status r)"
proof -
  obtain v where "results s v = Some r" using assms(3) by (auto simp: ran_def)
  then show ?thesis
    using maps_invD(3) [OF core_invD(13) [OF reachable_core [OF assms(1,2)]]]
    by (auto simp: settled_def worker_result_def cascade_result_def)
qed

lemma reachable_first_err:
  assumes "well_formed g" "reachable e g s"
  shows "first_err s = None \<longleftrightarrow> aggregateStatus (results s) \<noteq> StatusFailed"
proof -
  have "\<forall>r\<in>ran (results s). settled (nr_Status r)" using reachable_settled [OF assms] by blast
  then show ?thesis
    using maps_invD(4) [OF core_invD(13) [OF reachable_core [OF assms]]]
    by (auto simp: aggregateStatus_iff failed_at_def ran_def)
qed

lemma all_cancelled_settled: "r \<in> ran (all_cancelled g now) \<Longrightarrow> nr_Status r = StatusSkipped"
  by (auto simp: ran_def all_cancelled_def skip_result_def split: if_splits)

lemma make_summary_simps [op_simps]:
  "sm_Status (make_summary ids rs t0 t1) = aggregateStatus rs"
  "sm_NodeResults (make_summary ids rs t0 t1) = rs"
  "sm_Error (make_summary ids rs t0 t1) = NoSummaryError \<longleftrightarrow> aggregateStatus rs \<noteq> StatusFailed"
  by (simp_all add: make_summary_def)

text \<open>Every way \<open>Execute\<close> can return.\<close>

lemma Execute_cases [consumes 1, case_names invalid unknown cancelled run]:
  fixes e :: "'p executor"
  assumes "Execute e ids d c evs r"
  obtains err where "Validate d = Some err" "r = (None, Some (ErrInvalidDAG err))"
  | g err m where "d = Some g" "well_formed g" "first_unknown e g \<noteq> None" "r = (Some m, Some err)"
      "sm_Status m = StatusFailed" "sm_NodeResults m = Map.empty" "sm_Error m = RunAborted err"
  | g now t0 t1 ta tb where "d = Some g" "well_formed g" "first_unknown e g = None" "c"
      "r = (Some (make_summary ids (all_cancelled g now) t0 t1), None)"
      "evs = run_events ids ta [] tb (make_summary ids (all_cancelled g now) t0 t1 :: 'p summary)"
  | g s t0 t1 ta tb where "d = Some g" "well_formed g" "first_unknown e g = None" "\<not> c"
      "reachable e g s" "final s" "r = (Some (make_summary ids (results s) t0 t1), first_err s)"
      "evs = run_events ids ta (published s) tb (make_summary ids (results s) t0 t1 :: 'p summary)"
  using assms
proof (cases rule: Execute.cases)
  case (exec_invalid err)
  then show ?thesis by (intro that(1))
next
  case (exec_unknown g n err t0 t1)
  then show ?thesis by (intro that(2)) (auto simp: make_summary_def Validate_None_iff)
next
  case (exec_cancelled g sm now t0 t1 ta tb)
  then show ?thesis by (intro that(3) [where ta = ta and tb = tb]) (auto simp: Validate_None_iff)
next
  case (exec_run g s sm t0 t1 ta tb)
  then show ?thesis by (intro that(4) [where ta = ta and tb = tb]) (auto simp: Validate_None_iff)
qed

lemma Execute_results_settled:
  assumes "Execute e ids d c evs (Some m, err)" "r \<in> ran (sm_NodeResults m)"
  shows "settled (nr_Status r)"
  using assms(1)
proof (cases rule: Execute_cases)
  case (invalid err)
  then show ?thesis by simp
next
  case (unknown g err m)
  then show ?thesis using assms(2) by simp
next
  case (cancelled g now t0 t1 ta tb)
  then show ?thesis using assms(2) all_cancelled_settled by (auto simp: op_simps settled_def)
next
  case (run g s t0 t1 ta tb)
  then show ?thesis using assms(2) reachable_settled by (auto simp: op_simps)
qed

text \<open>C10: \<open>Execute\<close> gives no summary exactly when there is no graph or validation rejects it (its
  documentation promises one even then), and the error is then that of the validation; a summary it
  gives comes with an error exactly when its status is failed, which is also when it carries an
  error text; and without an unknown node type the status is success when no node failed or was
  skipped, failed when some node failed, and partial otherwise.\<close>

theorem Execute_outcome:
  assumes "Execute e ids d c evs (sm, err)"
  shows "(sm = None \<longleftrightarrow> Validate d \<noteq> None)
    \<and> (case sm of None \<Rightarrow> err = map_option ErrInvalidDAG (Validate d)
       | Some m \<Rightarrow>
          (err \<noteq> None \<longleftrightarrow> sm_Status m = StatusFailed)
          \<and> (sm_Error m \<noteq> NoSummaryError \<longleftrightarrow> sm_Status m = StatusFailed)
          \<and> (first_unknown e (the d) = None \<longleftrightarrow> sm_Status m =
               (if StatusFailed \<in> nr_Status ` ran (sm_NodeResults m) then StatusFailed
                else if StatusSkipped \<in> nr_Status ` ran (sm_NodeResults m) then StatusPartial
                else StatusSuccess)))"
  using assms
proof (cases rule: Execute_cases)
  case (invalid err')
  then show ?thesis by simp
next
  case (unknown g err' m)
  then show ?thesis by (auto simp: Validate_None_iff)
next
  case (cancelled g now t0 t1 ta tb)
  have "StatusFailed \<notin> nr_Status ` ran (all_cancelled g now)"
    using all_cancelled_settled [of _ g now] by force
  then show ?thesis
    using cancelled by (auto simp: op_simps Validate_None_iff aggregateStatus_image)
next
  case (run g s t0 t1 ta tb)
  then show ?thesis
    using reachable_first_err [of g e s]
    by (auto simp: op_simps Validate_None_iff aggregateStatus_image)
qed

definition ex_ids :: run_ids where
  "ex_ids = \<lparr>ri_RunID = 1, ri_StrategyID = 2, ri_DryRun = False\<rparr>"

lemma ex_chain_known: "first_unknown ex_exec ex_chain = None"
  by (simp add: first_unknown_def ex_exec_defs GetBySubtype_def ex_chain_def ex_node_def)

definition ex_summary :: "nat summary" where
  "ex_summary = make_summary ex_ids (results ex_end) 0 9"

lemma ex_execute:
  "Execute ex_exec ex_ids (Some ex_chain) False (run_events ex_ids 0 (published ex_end) 9 ex_summary)
     (Some ex_summary, first_err ex_end)"
  by (rule exec_run) (simp_all add: ex_summary_def ex_chain_valid ex_chain_known ex_reachable final_def ex_end_run)

theorem Execute_outcome_witness:
  "first_err ex_end \<noteq> None \<longleftrightarrow> sm_Status ex_summary = StatusFailed"
  using Execute_outcome [OF ex_execute] by simp

section \<open>What a node is given and what it gives\<close>

text \<open>C9: a node recorded as successful was run by the implementation registered for it, on exactly
  the payloads its predecessors have in the summary, under their IDs, and the four reserved keys,
  and its recorded payload is what that run gave.\<close>

theorem Execute_node_inputs:
  assumes "Execute e ids (Some g) False evs (Some m, err)"
    and "sm_NodeResults m v = Some r" "nr_Status r = StatusSuccess"
  shows "\<exists>n. GetBySubtype (eng_registry e) (nd_Type (node_def_of g v)) (nd_Subtype (node_def_of g v)) = Some n
     \<and> n_Run n
         (\<lambda>k. if k = ''_id'' then Some (Text v)
              else if k = ''_subtype'' then Some (Text (nd_Subtype (node_def_of g v)))
              else if k = ''_type'' then Some (Text (nd_Type (node_def_of g v)))
              else if k = ''_params'' then Some (ParamBytes (nd_Params (node_def_of g v)))
              else if (k, v) \<in> edge_rel g
              then map_option Payload (Option.bind (sm_NodeResults m k) nr_Payload) else None)
         (RunOk (nr_Payload r))"
  using assms(1)
proof (cases rule: Execute_cases)
  case (run g' s t0 t1 ta tb)
  then have g: "well_formed g" "reachable e g s" "first_unknown e g = None"
    and m: "sm_NodeResults m = results s" by (simp_all add: op_simps)
  have inv: "sched_inv e g s" by (rule sched_inv_reachable [OF g(1,2)])
  then have core: "core_inv g s" by (simp add: sched_inv_def)
  have v: "v \<in> set (node_ids g)"
    using core_invD(4) [OF core] assms(2) m by (auto simp: dom_def)
  have "\<not> cascaded s v" "produced e g s v r"
    using results_cases [OF inv assms(2) [unfolded m]] assms(3)
    by (auto simp: verdict_def split: if_splits)
  then obtain t0' b out t1' t2 where
    out: "node_run e g v (build_inputs g (node_def_of g v) (payloads s) v) out"
      "r = finish_result v t0' b out t1' t2"
    using assms(3) by (auto simp: produced_def done_result_def)
  have ok: "out = RunOk (nr_Payload r)"
    using out(2) assms(3) by (cases out) (auto simp: finish_result_def done_result_def split: if_splits)
  obtain n where n: "GetBySubtype (eng_registry e) (nd_Type (node_def_of g v)) (nd_Subtype (node_def_of g v)) = Some n"
    by (rule first_unknown_None [OF g(3) v])
  have pay: "payloads s k = Option.bind (sm_NodeResults m k) nr_Payload" for k
    using maps_invD(2) [OF core_invD(13) [OF core]] m by simp
  have "n_Run n (build_inputs g (node_def_of g v) (payloads s) v) (RunOk (nr_Payload r))"
    using out(1) ok n by (simp add: node_run_def)
  moreover have "build_inputs g (node_def_of g v) (payloads s) v =
      (\<lambda>k. if k = ''_id'' then Some (Text v)
            else if k = ''_subtype'' then Some (Text (nd_Subtype (node_def_of g v)))
            else if k = ''_type'' then Some (Text (nd_Type (node_def_of g v)))
            else if k = ''_params'' then Some (ParamBytes (nd_Params (node_def_of g v)))
            else if (k, v) \<in> edge_rel g
            then map_option Payload (Option.bind (sm_NodeResults m k) nr_Payload) else None)"
    unfolding pay [symmetric] by (rule ext) (rule build_inputs_eq [OF v])
  ultimately show ?thesis using n by simp
qed (use assms in \<open>auto simp: Validate_None_iff\<close>)

theorem Execute_node_inputs_witness:
  "\<exists>n inp. GetBySubtype (eng_registry ex_exec) (nd_Type (node_def_of ex_chain ''a''))
             (nd_Subtype (node_def_of ex_chain ''a'')) = Some n \<and> n_Run n inp (RunOk (Some 7))"
proof -
  have r: "sm_NodeResults ex_summary ''a'' = Some ex_result_a"
    by (simp add: ex_summary_def op_simps ex_end_run)
  have st: "nr_Status ex_result_a = StatusSuccess" and p: "nr_Payload ex_result_a = Some 7"
    by (simp_all add: ex_result_a_def done_result_def)
  show ?thesis using Execute_node_inputs [OF ex_execute r st] unfolding p by blast
qed

section \<open>Cyclic graphs\<close>

lemma cycle_behind_no_results:
  assumes wf: "well_formed g" and r: "reachable e g s" and fin: "final s"
    and cyc: "\<forall>v\<in>set (node_ids g). \<exists>c. (c, c) \<in> (edge_rel g)\<^sup>+ \<and> (c, v) \<in> (edge_rel g)\<^sup>*"
  shows "results s = Map.empty"
proof -
  have core: "core_inv g s" by (rule reachable_core [OF wf r])
  have no: "v \<notin> reported s" for v
  proof
    assume v: "v \<in> reported s"
    then have "v \<in> set (node_ids g)" using core_invD(4) [OF core] reported_results [OF v] by blast
    then obtain c where "(c, c) \<in> (edge_rel g)\<^sup>+" "(c, v) \<in> (edge_rel g)\<^sup>*" using cyc by blast
    moreover from this have "c \<in> reported s"
      using ancestors_reported [OF core] v by (auto simp: rtrancl_eq_or_trancl)
    ultimately show False using reported_acyclic [OF wf r] by blast
  qed
  have "results s v = None" for v
  proof (rule ccontr)
    assume "results s v \<noteq> None"
    then have "cascaded s v" using no [of v] by (auto simp: reported_def cascaded_def)
    then obtain u where "failed_at s u" using cascaded_iff [OF core] by blast
    moreover then have "u \<in> reported s"
      using maps_invD(3) [OF core_invD(13) [OF core]]
      by (fastforce simp: failed_at_def reported_def worker_result_def cascade_result_def)
    ultimately show False using no by blast
  qed
  then show ?thesis by blast
qed

text \<open>C12: \<open>Execute\<close> does not reject a graph with a cycle, though \<open>TopoSort\<close> does: when a graph passes
  validation, every node type of it is registered, the context is not done when the scheduling loop
  would start and every node lies on or behind a cycle, then \<open>Execute\<close> returns a summary without a
  single node result, with status success and no error.\<close>

theorem Execute_cyclic_success:
  assumes "Validate (Some g) = None" "first_unknown e g = None"
    and "\<forall>v\<in>set (node_ids g). \<exists>c. (c, c) \<in> (edge_rel g)\<^sup>+ \<and> (c, v) \<in> (edge_rel g)\<^sup>*"
    and "Execute e ids (Some g) False evs (sm, err)"
  shows "\<exists>m. sm = Some m \<and> sm_NodeResults m = Map.empty \<and> sm_Status m = StatusSuccess
           \<and> sm_Error m = NoSummaryError \<and> err = None
           \<and> (\<nexists>out. TopoSort (Some g) = Some (Inr out))"
  using assms(4)
proof (cases rule: Execute_cases)
  case (run g' s t0 t1 ta tb)
  then have g: "well_formed g" "reachable e g s" "final s" by simp_all
  have r: "results s = Map.empty"
    by (rule cycle_behind_no_results [OF g assms(3)])
  then have st: "aggregateStatus (results s) = StatusSuccess" by (simp add: aggregateStatus_def)
  obtain v where "v \<in> set (node_ids g)"
    using well_formedD(1) [OF g(1)] by (cases "Nodes g") (auto simp: node_ids_def)
  then have "\<not> acyclic (edge_rel g)" using assms(3) by (auto simp: acyclic_def)
  then have "\<nexists>out. TopoSort (Some g) = Some (Inr out)" using TopoSort_Inr_acyclic by blast
  then show ?thesis
    using run r st reachable_first_err [OF g(1,2)] by (simp add: op_simps make_summary_def)
qed (use assms in auto)

definition ex_loop_summary :: "nat summary" where
  "ex_loop_summary = make_summary ex_ids Map.empty 0 1"

definition ex_loop :: dag where
  "ex_loop = \<lparr>Nodes = map ex_node [''a'', ''b''], Edges = [ex_edge ''a'' ''b'', ex_edge ''b'' ''a'']\<rparr>"

lemma ex_loop_start:
  "start_sched ex_loop = (init_sched ex_loop :: 'p sched)"
  by (simp add: start_sched_def drainReady_def init_sched_def Roots_def ex_loop_def ex_node_def
      ex_edge_def str_sort.srt_eq_sort)

lemma ex_loop_execute:
  "Execute ex_exec ex_ids (Some ex_loop) False
     (run_events ex_ids 0 (published (start_sched ex_loop :: nat sched)) 1 ex_loop_summary)
     (Some ex_loop_summary, first_err (start_sched ex_loop :: nat sched))"
proof (rule exec_run)
  show "ex_loop_summary = make_summary ex_ids (results (start_sched ex_loop)) 0 1"
    by (simp add: ex_loop_summary_def ex_loop_start init_sched_def)
  show "Validate (Some ex_loop) = None" by (simp add: Validate_def ex_loop_def ex_node_def ex_edge_def)
  show "first_unknown ex_exec ex_loop = None"
    by (simp add: first_unknown_def ex_exec_defs GetBySubtype_def ex_loop_def ex_node_def)
  show "reachable ex_exec ex_loop (start_sched ex_loop)" by (rule reach_start)
  show "final (start_sched ex_loop :: nat sched)" by (simp add: final_def ex_loop_start init_sched_def)
qed

theorem Execute_cyclic_success_witness:
  "sm_Status ex_loop_summary = StatusSuccess
   \<and> (\<nexists>out. TopoSort (Some ex_loop) = Some (Inr out))"
proof -
  have e: "edge_rel ex_loop = {(''a'', ''b''), (''b'', ''a'')}"
    by (simp add: edge_rel_def ex_loop_def ex_edge_def)
  have ab: "(''a'', ''b'') \<in> edge_rel ex_loop" "(''b'', ''a'') \<in> edge_rel ex_loop" by (simp_all add: e)
  have cyc: "\<forall>v\<in>set (node_ids ex_loop).
      \<exists>c. (c, c) \<in> (edge_rel ex_loop)\<^sup>+ \<and> (c, v) \<in> (edge_rel ex_loop)\<^sup>*"
  proof
    fix v assume "v \<in> set (node_ids ex_loop)"
    then have "v = ''a'' \<or> v = ''b''" by (simp add: node_ids_def ex_loop_def ex_node_def)
    then have "(v, v) \<in> (edge_rel ex_loop)\<^sup>+" using ab by (auto intro: trancl_into_trancl)
    then show "\<exists>c. (c, c) \<in> (edge_rel ex_loop)\<^sup>+ \<and> (c, v) \<in> (edge_rel ex_loop)\<^sup>*" by blast
  qed
  have "Validate (Some ex_loop) = None" "first_unknown ex_exec ex_loop = None"
    by (simp_all add: Validate_def first_unknown_def ex_exec_defs GetBySubtype_def ex_loop_def
        ex_node_def ex_edge_def)
  from Execute_cyclic_success [OF this cyc ex_loop_execute] show ?thesis by simp
qed

section \<open>ExecuteToNode\<close>

lemma add_out_of_path_eq:
  "add_out_of_path g P now rs v =
     (if v \<in> set (node_ids g) \<and> v \<notin> P \<and> rs v = None then Some (skip_result v NotInPath now)
      else rs v)"
proof -
  have "fold (\<lambda>i m. if i \<in> P \<or> i \<in> dom m then m else m(i \<mapsto> skip_result i NotInPath now)) is m v
      = (if v \<in> set is \<and> v \<notin> P \<and> m v = None then Some (skip_result v NotInPath now) else m v)"
    for "is" and m :: "string \<rightharpoonup> 'a node_result"
    by (induction "is" arbitrary: m) (auto simp: domIff)
  then show ?thesis by (simp add: add_out_of_path_def)
qed

lemma Execute_results_dom:
  assumes "Execute e ids (Some g) c evs (Some m, err)" "sm_NodeResults m v = Some r"
  shows "v \<in> set (node_ids g) \<and> nr_SkipReason r \<noteq> NotInPath"
  using assms(1)
proof (cases rule: Execute_cases)
  case (cancelled g' now t0 t1 ta tb)
  then show ?thesis using assms(2)
    by (auto simp: op_simps all_cancelled_def skip_result_def split: if_splits)
next
  case (run g' s t0 t1 ta tb)
  then have g: "well_formed g" "reachable e g s" "results s v = Some r"
    using assms(2) by (simp_all add: op_simps)
  have core: "core_inv g s" by (rule reachable_core [OF g(1,2)])
  show ?thesis
    using core_invD(4) [OF core] g(3) maps_invD(3) [OF core_invD(13) [OF core] g(3)]
    by (auto simp: dom_def worker_result_def cascade_result_def)
qed (use assms in auto)

lemma Execute_complete:
  assumes "Execute e ids (Some g) c evs (Some m, err)" "first_unknown e g = None"
    and "acyclic (edge_rel g)" "v \<in> set (node_ids g)"
  shows "v \<in> dom (sm_NodeResults m)"
  using assms(1)
proof (cases rule: Execute_cases)
  case (run g' s t0 t1 ta tb)
  then show ?thesis
    using final_dom_results [of g e s v] assms by (auto simp: op_simps acyclic_def)
qed (use assms in \<open>auto simp: op_simps all_cancelled_def\<close>)

text \<open>C11: a summary of \<open>ExecuteToNode\<close> comes without an error; it records as \<open>not-in-path\<close> exactly
  the nodes the target does not depend on; and if the graph is acyclic and the nodes on the path have
  known types, every node of the graph has a result.\<close>

theorem ExecuteToNode_scope:
  assumes "Validate (Some g) = None" "ExecuteToNode e ids (Some g) target c evs (Some m, err)"
  shows "err = None
    \<and> (v \<in> set (node_ids g) \<and> (v, target) \<notin> (edge_rel g)\<^sup>* \<longleftrightarrow>
         (\<exists>r. sm_NodeResults m v = Some r \<and> nr_SkipReason r = NotInPath))
    \<and> (acyclic (edge_rel g) \<and> first_unknown e (sub_dag g (in_path g target)) = None
         \<longrightarrow> dom (sm_NodeResults m) = set (node_ids g))"
proof -
  let ?P = "in_path g target"
  have wf: "well_formed g" using assms(1) by (simp add: Validate_None_iff)
  obtain sm err' now where run: "Execute e ids (Some (sub_dag g ?P)) c evs (Some sm, err')"
    "sm_NodeResults m = add_out_of_path g ?P now (sm_NodeResults sm)" "err = None"
    using assms(2) by (cases rule: ExecuteToNode.cases) auto
  have P: "w \<in> ?P \<longleftrightarrow> (w, target) \<in> (edge_rel g)\<^sup>*" for w by (simp add: in_path_correct)
  have sub: "w \<in> set (node_ids g) \<and> w \<in> ?P \<and> nr_SkipReason r \<noteq> NotInPath"
    if "sm_NodeResults sm w = Some r" for w r
    using Execute_results_dom [OF run(1) that] by (simp add: node_ids_sub_dag)
  have scope: "v \<in> set (node_ids g) \<and> v \<notin> ?P \<longleftrightarrow>
      (\<exists>r. sm_NodeResults m v = Some r \<and> nr_SkipReason r = NotInPath)"
  proof (cases "sm_NodeResults sm v")
    case None
    then show ?thesis by (simp add: run(2) add_out_of_path_eq skip_result_def)
  next
    case (Some r)
    then show ?thesis using sub [OF Some] by (simp add: run(2) add_out_of_path_eq)
  qed
  have all: "dom (sm_NodeResults m) = set (node_ids g)"
    if "acyclic (edge_rel g)" "first_unknown e (sub_dag g ?P) = None"
  proof -
    have "acyclic (edge_rel (sub_dag g ?P))"
      by (rule acyclic_subset [OF that(1)]) (auto simp: edge_rel_sub_dag)
    from Execute_complete [OF run(1) that(2) this]
    have full: "w \<in> dom (sm_NodeResults sm)" if "w \<in> set (node_ids g)" "w \<in> ?P" for w
      using that by (simp add: node_ids_sub_dag)
    have "w \<in> dom (sm_NodeResults m) \<longleftrightarrow> w \<in> set (node_ids g)" for w
      using sub [of w] full [of w] by (cases "sm_NodeResults sm w") (auto simp: run(2) add_out_of_path_eq domIff)
    then show ?thesis by blast
  qed
  show ?thesis using run(3) scope all P by simp
qed

text \<open>A partial run of the chain up to its first node.\<close>

definition ex_single :: dag where
  "ex_single = \<lparr>Nodes = [ex_node ''a''], Edges = []\<rparr>"

definition ex_single_end :: "nat sched" where
  "ex_single_end = the (run_actions ex_exec ex_single (ex_serve (RunOk (Some 7))) (start_sched ex_single))"

lemma ex_single_start:
  "start_sched ex_single = (init_sched ex_single)\<lparr>ready := [], workers := [(''a'', WQueued)]\<rparr>"
  by (simp add: start_sched_def drainReady_def init_sched_def Roots_def ex_single_def ex_node_def
      str_sort.srt_eq_sort)

lemma ex_single_run:
  "run_actions ex_exec ex_single (ex_serve (RunOk (Some 7))) (start_sched ex_single) = Some ex_single_end"
  "workers ex_single_end = []" "results ex_single_end = [''a'' \<mapsto> ex_result_a]"
  unfolding ex_single_end_def ex_single_start init_sched_def
  by (simp_all add: ex_run_defs ex_single_def)

lemma ex_sub_chain: "sub_dag ex_chain (in_path ex_chain ''a'') = ex_single"
  by (simp add: in_path_def Predecessors_def ex_chain_def ex_edge_def ex_node_def sub_dag_def
      ex_single_def)

definition ex_single_summary :: "nat summary" where
  "ex_single_summary = make_summary ex_ids (results ex_single_end) 0 9"

lemma ex_to_node:
  "ExecuteToNode ex_exec ex_ids (Some ex_chain) ''a'' False
     (run_events ex_ids 0 (published ex_single_end) 9 ex_single_summary)
     (Some (ex_single_summary\<lparr>sm_NodeResults :=
        add_out_of_path ex_chain (in_path ex_chain ''a'') 10
          (sm_NodeResults ex_single_summary)\<rparr>), None)"
proof (rule to_node_run)
  show "HasNode (Some ex_chain) ''a''" by (simp add: HasNode_def ex_chain_def ex_node_def)
  show "Execute ex_exec ex_ids (Some (sub_dag ex_chain (in_path ex_chain ''a''))) False
     (run_events ex_ids 0 (published ex_single_end) 9 ex_single_summary)
     (Some ex_single_summary, first_err ex_single_end)"
    unfolding ex_sub_chain
  proof (rule exec_run)
    show "ex_single_summary = make_summary ex_ids (results ex_single_end) 0 9"
      by (rule ex_single_summary_def)
    show "Validate (Some ex_single) = None" by (simp add: Validate_def ex_single_def ex_node_def)
    show "first_unknown ex_exec ex_single = None"
      by (simp add: first_unknown_def ex_exec_defs GetBySubtype_def ex_single_def ex_node_def)
    show "reachable ex_exec ex_single ex_single_end"
      using run_actions_reachable [OF reach_start ex_single_run(1)] .
    show "final ex_single_end" by (simp add: final_def ex_single_run)
  qed
qed

theorem ExecuteToNode_scope_witness:
  "\<exists>r. add_out_of_path ex_chain (in_path ex_chain ''a'') 10
         (sm_NodeResults ex_single_summary) ''c'' = Some r
       \<and> nr_SkipReason r = NotInPath"
proof -
  have "(''c'', ''a'') \<notin> (edge_rel ex_chain)\<^sup>*"
    by (rule notI, erule converse_rtranclE) (simp_all add: edge_rel_ex_chain)
  moreover have "''c'' \<in> set (node_ids ex_chain)" by (simp add: node_ids_def ex_chain_def ex_node_def)
  ultimately show ?thesis
    using ExecuteToNode_scope [OF ex_chain_valid ex_to_node, of "''c''"] by simp
qed

end
