(* ===== verification/Exec_Events.thy ===== *)
theory Exec_Events
  imports Execute_Props
begin

text \<open>
  The event stream of a run: which events \<open>Execute\<close> publishes for a node, in which order, as a
  function of the node's recorded result.
\<close>

section \<open>The events of one node\<close>

definition trace :: "string \<Rightarrow> node_event list \<Rightarrow> node_event list" where
  "trace i evs = filter (\<lambda>ev. fst ev = i) evs"

lemma trace_simps [op_simps]:
  "trace i [] = []" "trace i (xs @ ys) = trace i xs @ trace i ys"
  "trace i (ev # xs) = (if fst ev = i then ev # trace i xs else trace i xs)"
  by (simp_all add: trace_def)

text \<open>The event that goes with a result, if any.\<close>

definition closing_events :: "'p node_result \<Rightarrow> node_event list" where
  "closing_events r =
     (case nr_Status r of
        StatusSuccess \<Rightarrow> [(nr_NodeID r, EventNodeSuccess, nr_FinishedAt r,
                          NodeDurationData (milliseconds (nr_Duration r)))]
      | StatusFailed \<Rightarrow>
          (case nr_Error r of
             Panicked _ _ \<Rightarrow> []
           | _ \<Rightarrow> [(nr_NodeID r, EventNodeFailed, nr_FinishedAt r,
                   NodeErrorData (nr_Error r) (milliseconds (nr_Duration r)))])
      | _ \<Rightarrow> [])"

definition started :: "dag \<Rightarrow> string \<Rightarrow> instant \<Rightarrow> node_event" where
  "started g i t = (i, EventNodeStarted, t,
     NodeKindData (nd_Type (node_def_of g i)) (nd_Subtype (node_def_of g i)))"

definition trace_ok :: "dag \<Rightarrow> string \<Rightarrow> 'p node_result \<Rightarrow> node_event list \<Rightarrow> bool" where
  "trace_ok g i r tr \<longleftrightarrow>
     (\<exists>t. tr = started g i t # closing_events r) \<and> nr_SkipReason r \<noteq> UpstreamFailed
     \<or> tr = [] \<and> nr_Status r = StatusSkipped"

fun phase_trace :: "dag \<Rightarrow> string \<Rightarrow> 'p wphase \<Rightarrow> node_event list \<Rightarrow> bool" where
  "phase_trace g i WQueued tr = (tr = [])"
| "phase_trace g i (WHolding _) tr = (tr = [])"
| "phase_trace g i (WRunning _ _) tr = (\<exists>t. tr = [started g i t])"
| "phase_trace g i (WDone r) tr = trace_ok g i r tr"

fun stage_trace ::
  "dag \<Rightarrow> string \<Rightarrow> 'p wphase option \<Rightarrow> 'p node_result option \<Rightarrow> node_event list \<Rightarrow> bool" where
  "stage_trace g i (Some ph) _ tr = phase_trace g i ph tr"
| "stage_trace g i None None tr = (tr = [])"
| "stage_trace g i None (Some r) tr = trace_ok g i r tr"

definition event_inv :: "dag \<Rightarrow> 'p sched \<Rightarrow> bool" where
  "event_inv g s \<longleftrightarrow>
     (\<forall>i. stage_trace g i (map_of (workers s) i) (results s i) (trace i (published s)))"

section \<open>The workers as a map\<close>

lemma map_of_set_phase:
  assumes "distinct (map fst (workers s))" "k < length (workers s)"
  shows "map_of (workers (set_phase k ph s)) = (map_of (workers s))(fst (workers s ! k) \<mapsto> ph)"
proof -
  have "map_of (ws[k := (fst (ws ! k), ph)]) = (map_of ws)(fst (ws ! k) \<mapsto> ph)"
    if "distinct (map fst ws)" "k < length ws" for ws :: "(string \<times> 'a wphase) list"
    using that
  proof (induction ws arbitrary: k)
    case (Cons w ws)
    then show ?case
      by (cases k) (auto simp: fun_eq_iff nth_mem image_iff dest!: nth_mem split: prod.splits)
  qed simp
  then show ?thesis using assms by (simp add: set_phase_def)
qed

lemma map_of_nth:
  assumes "distinct (map fst ws)" "k < length ws" "ws ! k = (i, ph)"
  shows "map_of ws i = Some ph"
  using assms by (metis map_of_eq_Some_iff nth_mem)

lemma map_of_remove_nth:
  assumes "distinct (map fst ws)" "k < length ws" "ws ! k = (i, ph)"
  shows "map_of (take k ws @ drop (Suc k) ws) = (map_of ws)(i := None)"
proof -
  have ws: "ws = take k ws @ (i, ph) # drop (Suc k) ws"
    using id_take_nth_drop [OF assms(2)] assms(3) by simp
  have "i \<notin> fst ` set (take k ws)" "i \<notin> fst ` set (drop (Suc k) ws)"
    using assms(1) ws by (metis (no_types, lifting) distinct_append distinct.simps(2) disjoint_iff
        image_set list.set_intros(1) list.simps(9) map_append fst_conv)+
  then have "map_of (take k ws) i = None" "map_of (drop (Suc k) ws) i = None"
    by (simp_all add: map_of_eq_None_iff)
  then have "map_of (take k ws @ drop (Suc k) ws)
      = (map_of (take k ws @ (i, ph) # drop (Suc k) ws))(i := None)"
    by (auto simp: fun_eq_iff map_add_def split: option.splits)
  then show ?thesis using ws by simp
qed

lemma map_of_queued: "map_of (map (\<lambda>v. (v, WQueued)) new) = (\<lambda>v. if v \<in> set new then Some WQueued else None)"
  by (induction new) (auto simp: fun_eq_iff)

section \<open>Preservation\<close>

lemma closing_finish:
  "finish_events out (finish_result i t0 c out t1 t2) = closing_events (finish_result i t0 c out t1 t2)"
  by (cases out) (auto simp: finish_events_def finish_result_def closing_events_def done_result_def)

lemma event_inv_frame:
  assumes "event_inv g s" "workers t = workers s" "results t = results s" "published t = published s"
  shows "event_inv g t"
  using assms by (simp add: event_inv_def)

lemma event_inv_set_phase:
  assumes "event_inv g s" "distinct (map fst (workers s))" "k < length (workers s)"
    and "workers s ! k = (i, q)"
    and "phase_trace g i q (trace i (published s)) \<Longrightarrow> phase_trace g i ph (trace i (published s @ evs))"
    and "\<forall>ev\<in>set evs. fst ev = i"
  shows "event_inv g (publish evs (set_phase k ph s))"
  unfolding event_inv_def
proof (rule allI)
  fix j
  have ev: "phase_trace g i q (trace i (published s))"
    using assms(1) map_of_nth [OF assms(2,3,4)] by (force simp: event_inv_def dest: spec [of _ i])
  have tr: "trace j evs = []" if "j \<noteq> i" using that assms(6) by (auto simp: trace_def filter_empty_conv)
  have pub: "published (set_phase k ph s) = published s" by (simp add: set_phase_def)
  show "stage_trace g j (map_of (workers (publish evs (set_phase k ph s))) j) (results (publish evs (set_phase k ph s)) j)
     (trace j (published (publish evs (set_phase k ph s))))"
    using assms(5) [OF ev] tr assms(1) [unfolded event_inv_def, rule_format, of j]
    by (cases "j = i") (simp_all add: op_simps pub map_of_set_phase [OF assms(2,3)] assms(4))
qed

lemma event_inv_receive:
  assumes wf: "well_formed g" and inv: "core_inv g s" and ev: "event_inv g (s :: 'p sched)"
    and k: "k < length (workers s)" "workers s ! k = (i, WDone res)" and res: "worker_result i res"
  shows "event_inv g (receive g k now res s)"
proof -
  define D where "D = (if nr_Status res = StatusFailed
                 then {v. (i, v) \<in> (edge_rel g)\<^sup>+ \<and> results s v = None} else {})"
  let ?w = "take k (workers s) @ drop (Suc k) (workers s)"
  obtain new where eff: "workers (receive g k now res s) = ?w @ map (\<lambda>v. (v, WQueued)) new"
    "results (receive g k now res s) = (\<lambda>v. if v \<in> D then Some (skip_result v UpstreamFailed now)
                          else ((results s)(i \<mapsto> res)) v)"
    "published (receive g k now res s) = published s"
    and new: "set new = {v. (i, v) \<in> edge_rel g \<and> v \<noteq> i \<and> results s v = None \<and> v \<notin> D
                   \<and> remaining g (insert i (reported s)) v = 0}"
    unfolding D_def by (rule receive_effect [OF wf inv k res, where now = now]) simp
  have dist: "distinct (map fst (workers s))" by (rule core_invD(1) [OF inv])
  have fl: "v \<in> in_flight s \<longleftrightarrow> map_of (workers s) v \<noteq> None" for v
    by (auto simp: in_flight_def map_of_eq_None_iff)
  have i: "i \<in> in_flight s" using fl map_of_nth [OF dist k] by simp
  have iR: "i \<notin> reported s" using in_flight_not_reported [OF inv i] by blast
  have newD: "map_of (workers s) v = None" "results s v = None" if "v \<in> set new" for v
    using that new iR core_invD(8) [OF inv] fl by blast+
  have DD: "map_of (workers s) v = None" "results s v = None" if "v \<in> D" for v
    using that iR ancestors_reported [OF inv] fl unfolding D_def
    by (auto split: if_splits) (metis not_None_eq)
  have iD: "i \<notin> D" using DD i fl by blast
  have mp: "map_of (workers (receive g k now res s)) v
      = (if v \<in> set new then Some WQueued else if v = i then None else map_of (workers s) v)" for v
    unfolding eff map_of_append [of ?w] map_of_remove_nth [OF dist k] map_of_queued
    using newD(1) by (auto simp: map_add_def split: option.splits)
  note ev' = ev [unfolded event_inv_def, rule_format]
  show ?thesis
    unfolding event_inv_def
  proof (rule allI)
    fix j
    consider (new) "j \<in> set new" | (self) "j = i" "j \<notin> set new" | (casc) "j \<in> D" "j \<notin> set new" "j \<noteq> i"
      | (other) "j \<notin> set new" "j \<noteq> i" "j \<notin> D" by blast
    then show "stage_trace g j (map_of (workers (receive g k now res s)) j) (results (receive g k now res s) j)
     (trace j (published (receive g k now res s)))"
    proof cases
      case new
      then show ?thesis using ev' [of j] newD by (simp add: mp eff(3))
    next
      case self
      then show ?thesis using ev' [of i] iD map_of_nth [OF dist k] by (simp add: mp eff(2,3))
    next
      case casc
      then show ?thesis using ev' [of j] DD [of j]
        by (simp add: mp eff(2,3) trace_ok_def skip_result_def)
    next
      case other
      then show ?thesis using ev' [of j] by (simp add: mp eff(2,3))
    qed
  qed
qed

lemma event_inv_reachable:
  assumes wf: "well_formed g" and "reachable e g s"
  shows "event_inv g (s :: 'p sched)"
  using assms(2)
proof induction
  case reach_start
  have "results (start_sched g) = Map.empty" "published (start_sched g) = []"
    by (simp_all add: start_sched_def drainReady_def init_sched_def split: prod.splits)
  moreover have "ph = WQueued" if "(i, ph) \<in> set (workers (start_sched g :: 'p sched))"
    for i and ph :: "'p wphase"
  proof -
    have "\<forall>(i, ph)\<in>set (snd (drain_queue is ws)). ph = WQueued \<or> (i, ph) \<in> set ws"
      for "is" and ws :: "(string \<times> 'p wphase) list"
      by (induction "is" ws rule: drain_queue.induct) auto
    from this [of "ready (init_sched g)" "[]"] show ?thesis
      using that by (auto simp: start_sched_def drainReady_def init_sched_def split: prod.splits)
  qed
  moreover have "stage_trace g i q None []" if "q = None \<or> q = Some WQueued"
    for i and q :: "'p wphase option"
    using that by auto
  ultimately show ?case
    unfolding event_inv_def by (metis map_of_SomeD not_None_eq trace_simps(1))
next
  case (reach_step s a s')
  have core: "core_inv g s" and ph: "phase_inv e g s"
    using reach_step.hyps(1) wf by (simp_all add: reachable_core reachable_phase)
  have dist: "distinct (map fst (workers s))" by (rule core_invD(1) [OF core])
  note set_ok = event_inv_set_phase [OF reach_step.IH dist]
  show ?case
  proof (cases a)
    case ACancel
    then show ?thesis using reach_step event_inv_frame [OF reach_step.IH] by (auto split: if_splits)
  next
    case (AAcquire k t0 t1)
    then have k: "k < length (workers s)" "workers s ! k = (fst (workers s ! k), WQueued)"
      and s': "s' = publish [] (set_phase k (WHolding t0) s)"
      using reach_step.hyps(2) check_completed_open [OF core]
      by (auto simp: publish_def prod_eq_iff split: if_splits)
    show ?thesis unfolding s' by (rule set_ok [OF k]) (simp_all add: op_simps)
  next
    case (AEnter k t1)
    then obtain i t0 where k: "k < length (workers s)" "workers s ! k = (i, WHolding t0)"
      and s': "s' = publish (started_events g i (cancelled s) t1) (set_phase k (enter_run g i t0 t1 s) s)"
      using reach_step.hyps(2) by (auto split: if_splits prod.splits wphase.splits)
    show ?thesis unfolding s'
      by (rule set_ok [OF k])
        (auto simp: started_events_def enter_run_def trace_ok_def done_result_def started_def op_simps)
  next
    case (AFinish k out t1 t2)
    define r where "r i t0 = finish_result i t0 (cancelled s) out t1 t2" for i t0
    obtain i t0 inp where k: "k < length (workers s)" "workers s ! k = (i, WRunning t0 inp)"
      and s': "s' = publish (finish_events out (r i t0)) (set_phase k (WDone (r i t0)) s)"
      using reach_step.hyps(2) AFinish by (auto simp: r_def split: if_splits prod.splits wphase.splits)
    have fe: "finish_events out (r i t0) = closing_events (r i t0)"
      unfolding r_def by (rule closing_finish)
    have w: "worker_result i (r i t0)" unfolding r_def by (rule worker_result_finish)
    have own: "\<forall>ev\<in>set (closing_events (r i t0)). fst ev = i"
      using w by (auto simp: closing_events_def worker_result_def
          split: run_status.splits node_error.splits)
    then have "trace i (closing_events (r i t0)) = closing_events (r i t0)"
      by (simp add: trace_def filter_id_conv)
    then show ?thesis unfolding s' fe
      by (intro set_ok [OF k] own) (use w in \<open>auto simp: trace_ok_def op_simps worker_result_def\<close>)
  next
    case (AReceive k now)
    then obtain i res where k: "k < length (workers s)" "workers s ! k = (i, WDone res)"
      and s': "s' = receive g k now res s"
      using reach_step.hyps(2) by (auto split: if_splits prod.splits wphase.splits)
    have "worker_result i res"
      using phase_invD(2) [OF ph k(1)] k(2) by (simp add: produced_worker_result)
    then show ?thesis unfolding s' by (rule event_inv_receive [OF wf core reach_step.IH k])
  next
    case ARelease
    then show ?thesis
      using reach_step.hyps(2) event_inv_frame [OF reach_step.IH] by (auto split: nat.splits)
  qed
qed

text \<open>A walk publishes no event but these three about its nodes.\<close>

lemma closing_types: "ev \<in> set (closing_events r) \<Longrightarrow> fst (snd ev) \<in> {EventNodeSuccess, EventNodeFailed}"
  by (auto simp: closing_events_def split: run_status.splits node_error.splits)

lemma published_types:
  assumes "well_formed g" "reachable e g s" "ev \<in> set (published s)"
  shows "fst (snd ev) \<in> {EventNodeStarted, EventNodeSuccess, EventNodeFailed}"
proof -
  have phase: "fst (snd ev) \<in> {EventNodeStarted, EventNodeSuccess, EventNodeFailed}"
    if "phase_trace g i ph tr" "ev \<in> set tr" for i ph tr
    using that closing_types [of ev] by (cases ph) (auto simp: trace_ok_def started_def)
  have result: "fst (snd ev) \<in> {EventNodeStarted, EventNodeSuccess, EventNodeFailed}"
    if "trace_ok g i r tr" "ev \<in> set tr" for i r tr
    using phase [of i "WDone r" tr] that by simp
  have tr: "ev \<in> set (trace (fst ev) (published s))" using assms(3) by (simp add: trace_def)
  have st: "stage_trace g (fst ev) (map_of (workers s) (fst ev)) (results s (fst ev)) (trace (fst ev) (published s))"
    using event_inv_reachable [OF assms(1,2)] by (simp add: event_inv_def)
  then show ?thesis
  proof (cases "map_of (workers s) (fst ev)")
    case None
    then show ?thesis using st tr result by (cases "results s (fst ev)") (simp, auto)
  next
    case (Some ph)
    then show ?thesis using st tr phase by simp
  qed
qed

text \<open>So a run with known node types publishes exactly one completion.\<close>

lemma Execute_publishes_completion:
  assumes "Execute e ids (Some g) c evs r" "well_formed g" "first_unknown e g = None"
  shows "length (filter (\<lambda>ev. ev_Type ev = EventRunCompleted) evs) = 1"
proof -
  have none: "filter (\<lambda>ev. ev_Type ev = EventRunCompleted) (map (run_event ids) (published s)) = []"
    if "reachable e g s" for s
  proof -
    have "ev_Type (run_event ids ev) \<noteq> EventRunCompleted" if "ev \<in> set (published s)" for ev
      using published_types [OF assms(2) \<open>reachable e g s\<close> that] by (cases ev) (auto simp: run_event_def)
    then show ?thesis by (auto simp: filter_empty_conv)
  qed
  show ?thesis
    using assms(1)
  proof (cases rule: Execute_cases)
    case (invalid err)
    then show ?thesis using assms(2) by (simp flip: Validate_None_iff)
  next
    case (cancelled g' now t0 t1 ta tb)
    then show ?thesis by (simp add: run_events_def) (simp add: run_event_def)
  next
    case (run g' s t0 t1 ta tb)
    then show ?thesis using none [of s] by (simp add: run_events_def) (simp add: run_event_def)
  qed (use assms(3) in auto)
qed

section \<open>Property\<close>

text \<open>The node events of one node, as they appear on the bus.\<close>

definition events_of :: "string \<Rightarrow> exec_data event list \<Rightarrow> exec_data event list" where
  "events_of i evs = filter (\<lambda>ev. ev_NodeID ev = i) evs"

lemma events_of_run_events:
  assumes "v \<noteq> []"
  shows "events_of v (run_events ids ta evs tb sm) = map (run_event ids) (trace v evs)"
proof -
  have "ev_NodeID (run_event ids ne) = fst ne" for ne
    by (cases ne) (simp add: run_event_def)
  then show ?thesis using assms by (simp add: events_of_def run_events_def trace_def filter_map comp_def)
qed

text \<open>C8: the event stream of a run with known node types opens with \<open>run.started\<close> and closes with
  \<open>run.completed\<close>, which carries the summary's status but an empty error string even for a failed
  run; and in between a node's own events are decided by its result: a node that ran has
  \<open>node.started\<close>, followed by \<open>node.success\<close> or \<open>node.failed\<close> stamped with its finish time
  unless it panicked or was cancelled; a node that never ran was skipped and has no event, not even
  \<open>node.skipped\<close>.\<close>

theorem Execute_events:
  assumes "Execute e ids (Some g) c evs (Some m, err)" "first_unknown e g = None"
  shows "(\<exists>ta tb mid. evs =
       run_event ids ([], EventRunStarted, ta, RunStartedData (ri_StrategyID ids) (ri_DryRun ids))
       # mid @ [run_event ids ([], EventRunCompleted, tb,
           RunCompletedData (sm_Status m) (milliseconds (sm_Duration m)) NoSummaryError)])
    \<and> (sm_NodeResults m v = Some r \<longrightarrow>
         events_of v evs = [] \<and> nr_Status r = StatusSkipped
         \<or> (\<exists>t. events_of v evs = map (run_event ids) (started g v t # closing_events r)
              \<and> nr_SkipReason r \<noteq> UpstreamFailed))
    \<and> (v \<noteq> [] \<and> sm_NodeResults m v = None \<longrightarrow> events_of v evs = [])"
  using assms(1)
proof (cases rule: Execute_cases)
  case (cancelled g' now t0 t1 ta tb)
  then have g: "g' = g" "well_formed g" by simp_all
  have "r \<in> ran (all_cancelled g now)" if "sm_NodeResults m v = Some r"
    using that cancelled by (auto simp: op_simps ran_def)
  moreover have "v \<noteq> []" if "sm_NodeResults m v = Some r"
    using that Execute_results_dom [OF assms(1)] well_formedD(4) [OF g(2)] by blast
  moreover have "events_of v evs = []" if "v \<noteq> []"
    using that cancelled by (simp add: events_of_run_events op_simps)
  ultimately show ?thesis
    using cancelled all_cancelled_settled [of r g now] by (auto simp: run_events_def)
next
  case (run g' s t0 t1 ta tb)
  then have g: "g' = g" "well_formed g" "reachable e g s" and m: "sm_NodeResults m = results s"
    and ws: "workers s = []" by (simp_all add: op_simps final_def)
  have st: "stage_trace g v None (results s v) (trace v (published s))"
    using event_inv_reachable [OF g(2,3)] ws by (auto simp: event_inv_def dest: spec [of _ v])
  have "v \<noteq> []" if "sm_NodeResults m v = Some r"
    using that Execute_results_dom [OF assms(1)] well_formedD(4) [OF g(2)] by blast
  moreover have "events_of v evs = map (run_event ids) (trace v (published s))" if "v \<noteq> []"
    using that run by (simp add: events_of_run_events)
  moreover have "tr = [] \<and> nr_Status r = StatusSkipped
      \<or> (\<exists>t. map (run_event ids) tr = map (run_event ids) (started g v t # closing_events r)
           \<and> nr_SkipReason r \<noteq> UpstreamFailed)" if "trace_ok g v r tr" for tr
    using that unfolding trace_ok_def by blast
  moreover have "\<exists>ta tb mid. evs =
       run_event ids ([], EventRunStarted, ta, RunStartedData (ri_StrategyID ids) (ri_DryRun ids))
       # mid @ [run_event ids ([], EventRunCompleted, tb,
           RunCompletedData (sm_Status m) (milliseconds (sm_Duration m)) NoSummaryError)]"
    using run(7,8) by (auto simp: run_events_def)
  ultimately show ?thesis using st by (cases "results s v") (auto simp: m)
qed (use assms in auto)

theorem Execute_events_witness:
  "events_of ''c'' (run_events ex_ids 0 (published ex_end) 9 ex_summary) = []
   \<and> (\<exists>t. events_of ''b'' (run_events ex_ids 0 (published ex_end) 9 ex_summary)
        = [run_event ex_ids (''b'', EventNodeStarted, t, NodeKindData ''filter'' []),
           run_event ex_ids (''b'', EventNodeFailed, 4, NodeErrorData (ErrorText ''boom'') 0)])"
proof -
  let ?r = "(done_result ''b'' StatusFailed NoSkip 1 4)\<lparr>nr_Error := ErrorText ''boom''\<rparr> :: nat node_result"
  have r: "sm_NodeResults ex_summary ''b'' = Some ?r"
    "sm_NodeResults ex_summary ''c'' = Some (skip_result ''c'' UpstreamFailed 6)"
    by (simp_all add: ex_summary_def op_simps ex_end_run)
  have "closing_events ?r = [(''b'', EventNodeFailed, 4, NodeErrorData (ErrorText ''boom'') 0)]"
    by (simp add: closing_events_def done_result_def milliseconds_def)
  moreover have "started ex_chain ''b'' t = (''b'', EventNodeStarted, t, NodeKindData ''filter'' [])" for t
    by (simp add: started_def node_def_of_def NodeByID_def ex_chain_def ex_node_def)
  moreover have "nr_Status ?r = StatusFailed" by (simp add: done_result_def)
  moreover note Execute_events [OF ex_execute ex_chain_known, of "''b''" ?r]
    Execute_events [OF ex_execute ex_chain_known, of "''c''" "skip_result ''c'' UpstreamFailed 6"]
  ultimately show ?thesis using r by (simp add: skip_result_def)
qed

end
