(* ===== verification/Node_Persist.thy ===== *)
theory Node_Persist
  imports Node_Indicator
begin

text \<open>
  The session-tag node and the persist node, \<open>executor/nodes/session_tag.go\<close> and \<open>persist.go\<close>.
  The recommendation tables are the state of a transaction; a statement that fails is given by
  its number, and the identifiers the database assigns are an argument.
\<close>

section \<open>Session tags\<close>

definition SessionTagMorning :: string where "SessionTagMorning = ''MORNING''"
definition SessionTagAfternoon :: string where "SessionTagAfternoon = ''AFTERNOON''"
definition SessionTagNoPost :: string where "SessionTagNoPost = ''NO_POST''"
definition SessionTagReview :: string where "SessionTagReview = ''REVIEW''"

definition VarKeySessionTag :: string where "VarKeySessionTag = ''session_tag''"

definition deriveSessionTag :: "location \<Rightarrow> instant \<Rightarrow> string" where
  "deriveSessionTag loc now =
     (let hm = minute_of loc now
      in if 9 * 60 \<le> hm \<and> hm \<le> 11 * 60 + 30 then SessionTagMorning
         else if 13 * 60 \<le> hm \<and> hm < 15 * 60 then SessionTagAfternoon
         else if 15 * 60 \<le> hm \<and> hm < 17 * 60 then SessionTagReview
         else SessionTagNoPost)"

record session_params =
  sp_Force :: string
  sp_Timezone :: string

definition zero_session_params :: session_params where
  "zero_session_params = \<lparr>sp_Force = [], sp_Timezone = []\<rparr>"

text \<open>\<open>zone\<close> is \<open>time.LoadLocation\<close>; \<open>now\<close> and \<open>now'\<close> are the two readings of the run's clock.\<close>

definition session_Run ::
  "(string \<Rightarrow> location option) \<Rightarrow> (string \<Rightarrow> string + session_params) \<Rightarrow> instant \<Rightarrow> instant
   \<Rightarrow> run_ctx \<Rightarrow> payload \<Rightarrow> node_out \<times> run_ctx" where
  "session_Run zone unmarshal now now' rc ins =
     (case decode_params ''session_tag'' unmarshal zero_session_params ins of
        Inl e \<Rightarrow> (Inl e, rc)
      | Inr p \<Rightarrow>
          let loc = (case zone (or_default ''Asia/Shanghai'' (sp_Timezone p)) of None \<Rightarrow> 0 | Some l \<Rightarrow> l);
              tag = (if sp_Force p = [] then deriveSessionTag loc now else sp_Force p)
          in (Inr [(''session_tag'', VStr tag), (''derived_at'', VTime now')],
              SetVar rc VarKeySessionTag (VStr tag)))"

section \<open>Dates\<close>

text \<open>The day number of a civil date, and \<open>time.Parse\<close> of a date written year-month-day.\<close>

definition days_of_civil :: "int \<Rightarrow> int \<Rightarrow> int \<Rightarrow> int" where
  "days_of_civil y m d =
     (let y' = (if m \<le> 2 then y - 1 else y);
          era = y' div 400; yoe = y' mod 400;
          mp = (if m > 2 then m - 3 else m + 9);
          doy = (153 * mp + 2) div 5 + d - 1;
          doe = yoe * 365 + yoe div 4 - yoe div 100 + doy
      in era * 146097 + doe - 719468)"

definition digits_val :: "string \<Rightarrow> int" where
  "digits_val s = foldl (\<lambda>n c. n * 10 + (of_char c - 48)) 0 s"

definition parse_date :: "string \<Rightarrow> int option" where
  "parse_date s =
     (let ys = take 4 s; ms = take 2 (drop 5 s); ds = drop 8 s
      in if length s = 10 \<and> s ! 4 = CHR ''-'' \<and> s ! 7 = CHR ''-'' \<and> list_all digit_char (ys @ ms @ ds)
         then let n = days_of_civil (digits_val ys) (digits_val ms) (digits_val ds)
              in if civil n = (digits_val ys, digits_val ms, digits_val ds) then Some n else None
         else None)"

section \<open>The recommendation tables\<close>

record recommendation =
  rec_ID :: nat
  rec_RunID :: nat
  rec_Date :: int
  rec_StockCode :: string
  rec_StockName :: string
  rec_EntryPriceLow :: f64
  rec_EntryPriceHigh :: f64
  rec_StrategyCode :: string
  rec_StrategyName :: string
  rec_NodeSnapshot :: string

record rec_tag =
  rt_RecommendationID :: nat
  rt_Tag :: string
  rt_Source :: string
  rt_TaggedAt :: instant

record rec_db =
  db_recs :: "recommendation list"
  db_tags :: "rec_tag list"

text \<open>What a run gives the node: its identifiers, the statements that fail, the identifiers the
  database assigns, the clock of \<open>attachTags\<close> and the encoder of \<open>marshalSnapshot\<close>.\<close>

record persist_env =
  pe_RunID :: nat
  pe_StrategyCode :: string
  pe_StrategyName :: string
  pe_fails :: "nat \<Rightarrow> string option"
  pe_ids :: "nat \<Rightarrow> nat"
  pe_tag_time :: "nat \<Rightarrow> instant"
  pe_marshal :: "payload \<Rightarrow> string option"

section \<open>Writing\<close>

definition marshalSnapshot :: "persist_env \<Rightarrow> payload \<Rightarrow> string" where
  "marshalSnapshot env m = (case pe_marshal env m of None \<Rightarrow> [] | Some s \<Rightarrow> s)"

definition entry_prices :: "payload \<Rightarrow> f64 \<times> f64" where
  "entry_prices m =
     (let lo = floatOf (get_any m ''entry_price_low''); hi = floatOf (get_any m ''entry_price_high'');
          cl = floatOf (get_any m ''close'')
      in if f_eq lo (Fin 0) \<and> f_eq hi (Fin 0) \<and> f_lt (Fin 0) cl then (cl, cl) else (lo, hi))"

definition rec_of :: "persist_env \<Rightarrow> int \<Rightarrow> nat \<Rightarrow> payload \<Rightarrow> recommendation" where
  "rec_of env date ident m =
     \<lparr>rec_ID = ident, rec_RunID = pe_RunID env, rec_Date = date,
      rec_StockCode = stringOf (get_any m ''stock_code''), rec_StockName = stringOf (get_any m ''stock_name''),
      rec_EntryPriceLow = fst (entry_prices m), rec_EntryPriceHigh = snd (entry_prices m),
      rec_StrategyCode = pe_StrategyCode env, rec_StrategyName = pe_StrategyName env,
      rec_NodeSnapshot = marshalSnapshot env m\<rparr>"

text \<open>A transaction in progress: its view of the tables, the statements sent so far and the
  identifiers of the rows created.\<close>

record txn =
  tx_db :: rec_db
  tx_stmts :: nat
  tx_ids :: "nat list"

definition tx_exec :: "persist_env \<Rightarrow> (rec_db \<Rightarrow> rec_db) \<Rightarrow> txn \<Rightarrow> string + txn" where
  "tx_exec env f tx =
     (case pe_fails env (tx_stmts tx) of
        Some e \<Rightarrow> Inl e
      | None \<Rightarrow> Inr (tx\<lparr>tx_db := f (tx_db tx), tx_stmts := Suc (tx_stmts tx)\<rparr>))"

definition tag_rows :: "persist_env \<Rightarrow> nat \<Rightarrow> nat \<Rightarrow> string list \<Rightarrow> rec_tag list" where
  "tag_rows env k ident tags =
     map (\<lambda>t. \<lparr>rt_RecommendationID = ident, rt_Tag = t, rt_Source = ''AUTO_NODE'', rt_TaggedAt = pe_tag_time env k\<rparr>)
       (merge_loop tags {} [])"

definition attachTags :: "persist_env \<Rightarrow> nat \<Rightarrow> nat \<Rightarrow> string list \<Rightarrow> txn \<Rightarrow> string + txn" where
  "attachTags env k ident tags tx =
     (if tag_rows env k ident tags = [] then Inr tx
      else tx_exec env (\<lambda>db. db\<lparr>db_tags := db_tags db @ tag_rows env k ident tags\<rparr>) tx)"

fun write_loop :: "persist_env \<Rightarrow> int \<Rightarrow> string list \<Rightarrow> val list \<Rightarrow> txn \<Rightarrow> string + txn" where
  "write_loop env date tags [] tx = Inr tx"
| "write_loop env date tags (it # its) tx =
     (case as_map it of
        None \<Rightarrow> write_loop env date tags its tx
      | Some m \<Rightarrow>
          if stringOf (get_any m ''stock_code'') = [] then write_loop env date tags its tx
          else
            let k = length (tx_ids tx); ident = pe_ids env k
            in case tx_exec env (\<lambda>db. db\<lparr>db_recs := db_recs db @ [rec_of env date ident m]\<rparr>) tx of
                 Inl e \<Rightarrow> Inl e
               | Inr tx1 \<Rightarrow>
                   (case attachTags env k ident tags (tx1\<lparr>tx_ids := tx_ids tx1 @ [ident]\<rparr>) of
                      Inl e \<Rightarrow> Inl e
                    | Inr tx2 \<Rightarrow> write_loop env date tags its tx2))"

text \<open>\<open>writeRecommendations\<close>: every return but the last rolls the transaction back, which leaves
  the tables as they were.\<close>

definition writeRecommendations ::
  "persist_env \<Rightarrow> rec_db \<Rightarrow> val list \<Rightarrow> string list \<Rightarrow> int \<Rightarrow> (string + nat list) \<times> rec_db" where
  "writeRecommendations env db items tags date =
     (case tx_exec env id \<lparr>tx_db = db, tx_stmts = 0, tx_ids = []\<rparr> of
        Inl e \<Rightarrow> (Inl e, db)
      | Inr tx \<Rightarrow>
          (case write_loop env date tags items tx of
             Inl e \<Rightarrow> (Inl e, db)
           | Inr tx' \<Rightarrow>
               (case tx_exec env id tx' of
                  Inl e \<Rightarrow> (Inl e, db)
                | Inr tx'' \<Rightarrow> (Inr (tx_ids tx''), tx_db tx''))))"

section \<open>The node\<close>

record persist_params =
  pp_ExtraTags :: "string list"
  pp_Date :: string

definition zero_persist_params :: persist_params where
  "zero_persist_params = \<lparr>pp_ExtraTags = [], pp_Date = []\<rparr>"

definition rec_date :: "instant \<Rightarrow> string \<Rightarrow> int" where
  "rec_date now s =
     (if s = [] then day_of 0 now else case parse_date s of None \<Rightarrow> day_of 0 now | Some d \<Rightarrow> d)"

definition persist_tags :: "run_ctx \<Rightarrow> string list \<Rightarrow> string list" where
  "persist_tags rc extra =
     (case GetVar rc VarKeySessionTag of
        Some (VStr s) \<Rightarrow> if s = [] then extra else s # extra
      | _ \<Rightarrow> extra)"

definition ids_val :: "nat list \<Rightarrow> val" where
  "ids_val ids = VOther (bracketed (map dec_nat ids))"

definition persist_Run ::
  "persist_env \<Rightarrow> (string \<Rightarrow> string + persist_params) \<Rightarrow> instant \<Rightarrow> run_ctx \<Rightarrow> payload \<Rightarrow> rec_db option
   \<Rightarrow> node_out \<times> rec_db option" where
  "persist_Run env unmarshal now rc ins db =
     (case decode_params ''persist'' unmarshal zero_persist_params ins of
        Inl e \<Rightarrow> (Inl e, db)
      | Inr p \<Rightarrow>
          (case findFirstSlice ins of
             None \<Rightarrow> (Inr [(''persisted'', VInt 0), (''recommendation_ids'', ids_val []),
                          (''skipped_reason'', VStr ''no items'')], db)
           | Some items \<Rightarrow>
               let date = rec_date now (pp_Date p); tags = persist_tags rc (pp_ExtraTags p)
               in case db of
                    None \<Rightarrow>
                      (Inr [(''dry_run'', VBool True), (''persisted'', VInt (int (length items))),
                            (''recommendation_ids'', ids_val []), (''tags'', VStrs tags)], None)
                  | Some d \<Rightarrow>
                      (case writeRecommendations env d items tags date of
                         (Inl e, d') \<Rightarrow> (Inl (NodeFailure (''persist: '' @ e)), Some d')
                       | (Inr ids, d') \<Rightarrow>
                           (Inr [(''persisted'', VInt (int (length ids))), (''recommendation_ids'', ids_val ids),
                                 (''tags'', VStrs tags), (''date'', VStr (format_date date))], Some d'))))"

section \<open>All or nothing\<close>

definition picked :: "val list \<Rightarrow> payload list" where
  "picked items = filter (\<lambda>m. stringOf (get_any m ''stock_code'') \<noteq> []) (List.map_filter as_map items)"

lemma picked_Cons:
  "picked (it # its) =
     (case as_map it of
        None \<Rightarrow> picked its
      | Some m \<Rightarrow> if stringOf (get_any m ''stock_code'') = [] then picked its else m # picked its)"
  by (cases it) (simp_all add: picked_def List.map_filter_def)

lemma tx_exec_Inr:
  "tx_exec env f tx = Inr tx' \<Longrightarrow> tx_db tx' = f (tx_db tx) \<and> tx_ids tx' = tx_ids tx"
  by (auto simp: tx_exec_def split: option.splits)

lemma attachTags_Inr:
  "attachTags env k ident tags tx = Inr tx' \<Longrightarrow>
   db_recs (tx_db tx') = db_recs (tx_db tx) \<and> tx_ids tx' = tx_ids tx
   \<and> db_tags (tx_db tx') = db_tags (tx_db tx) @ tag_rows env k ident tags"
  by (auto simp: attachTags_def split: if_splits dest: tx_exec_Inr)

lemma write_loop_Inr:
  "write_loop env date tags items tx = Inr tx' \<Longrightarrow>
     db_recs (tx_db tx') = db_recs (tx_db tx)
       @ map (\<lambda>(k, m). rec_of env date (pe_ids env k) m) (enumerate (length (tx_ids tx)) (picked items))
   \<and> db_tags (tx_db tx') = db_tags (tx_db tx)
       @ concat (map (\<lambda>(k, m). tag_rows env k (pe_ids env k) tags) (enumerate (length (tx_ids tx)) (picked items)))
   \<and> tx_ids tx' = tx_ids tx @ map (\<lambda>(k, m). pe_ids env k) (enumerate (length (tx_ids tx)) (picked items))"
proof (induction items arbitrary: tx)
  case (Cons it items)
  show ?case
  proof (cases "\<exists>m. it = VMap m \<and> stringOf (get_any m ''stock_code'') \<noteq> []")
    case False
    then have "picked (it # items) = picked items" "write_loop env date tags items tx = Inr tx'"
      using Cons.prems by (cases "as_map it"; simp add: picked_Cons)+
    then show ?thesis using Cons.IH [of tx] by simp
  next
    case True
    then obtain m where m: "it = VMap m" "stringOf (get_any m ''stock_code'') \<noteq> []" by blast
    define k where "k = length (tx_ids tx)"
    obtain tx1 where tx1: "tx_exec env (\<lambda>db. db\<lparr>db_recs := db_recs db @ [rec_of env date (pe_ids env k) m]\<rparr>) tx = Inr tx1"
      using Cons.prems m by (auto simp: Let_def k_def split: sum.splits)
    obtain tx2 where tx2: "attachTags env k (pe_ids env k) tags (tx1\<lparr>tx_ids := tx_ids tx1 @ [pe_ids env k]\<rparr>) = Inr tx2"
      "write_loop env date tags items tx2 = Inr tx'"
      using Cons.prems m tx1 by (auto simp: Let_def k_def split: sum.splits)
    show ?thesis
      using tx_exec_Inr [OF tx1] attachTags_Inr [OF tx2(1)] Cons.IH [OF tx2(2)] m
      by (simp add: picked_Cons k_def)
  qed
qed (simp add: picked_def List.map_filter_def)

text \<open>C30: When the database is there, a persist node either fails and leaves the recommendation
  tables as they were, whichever statement failed, or succeeds and appends exactly one
  recommendation per row with a stock code, in order, each with one tag row for every distinct
  non-empty tag; the identifiers it reports are those of the rows it added.\<close>

theorem persist_all_or_nothing:
  assumes "decode_params ''persist'' unmarshal zero_persist_params ins = Inr p"
    and "findFirstSlice ins = Some items" "persist_Run env unmarshal now rc ins (Some db) = (out, Some db')"
    and "date = rec_date now (pp_Date p)" "tags = persist_tags rc (pp_ExtraTags p)"
    and "tagged = (\<lambda>ident time. map (\<lambda>t. \<lparr>rt_RecommendationID = ident, rt_Tag = t, rt_Source = ''AUTO_NODE'', rt_TaggedAt = time\<rparr>)
           (first_occs (filter (\<lambda>t. t \<noteq> []) tags)))"
    and "n = length (picked items)"
  shows "case out of
           Inl e \<Rightarrow> db' = db
         | Inr res \<Rightarrow>
             db_recs db' = db_recs db @ map (\<lambda>k. rec_of env date (pe_ids env k) (picked items ! k)) [0..<n]
           \<and> db_tags db' = db_tags db @ concat (map (\<lambda>k. tagged (pe_ids env k) (pe_tag_time env k)) [0..<n])
           \<and> map_of res ''persisted'' = Some (VInt (int n))
           \<and> map_of res ''recommendation_ids'' = Some (ids_val (map (pe_ids env) [0..<n]))"
proof -
  have rows: "tag_rows env k ident tags = tagged ident (pe_tag_time env k)" for k ident
    by (simp add: tag_rows_def merge_loop_eq first_occs_def assms(6))
  have enum: "map (\<lambda>(k, m). f k m) (enumerate 0 (picked items)) = map (\<lambda>k. f k (picked items ! k)) [0..<n]" for f
    by (rule nth_equalityI) (simp_all add: nth_enumerate_eq assms(7))
  obtain r where r: "writeRecommendations env db items tags date = (r, db')"
    "out = (case r of Inl e \<Rightarrow> Inl (NodeFailure (''persist: '' @ e))
            | Inr ids \<Rightarrow> Inr [(''persisted'', VInt (int (length ids))), (''recommendation_ids'', ids_val ids),
                (''tags'', VStrs tags), (''date'', VStr (format_date date))])"
    using assms(1-5) by (auto simp: persist_Run_def Let_def split: prod.splits sum.splits)
  show ?thesis
  proof (cases r)
    case (Inl e)
    then show ?thesis using r by (auto simp: writeRecommendations_def split: sum.splits)
  next
    case (Inr ids)
    then obtain tx tx' tx'' where tx: "tx_exec env id \<lparr>tx_db = db, tx_stmts = 0, tx_ids = []\<rparr> = Inr tx"
      "write_loop env date tags items tx = Inr tx'" "tx_exec env id tx' = Inr tx''"
      "ids = tx_ids tx''" "db' = tx_db tx''"
      using r(1) by (auto simp: writeRecommendations_def split: sum.splits)
    show ?thesis
      using tx_exec_Inr [OF tx(1)] write_loop_Inr [OF tx(2)] tx_exec_Inr [OF tx(3)] tx(4,5) r(2) Inr
      by (simp add: enum rows assms(7) [symmetric])
  qed
qed

definition demo_persist_env :: persist_env where
  "demo_persist_env =
     \<lparr>pe_RunID = 1, pe_StrategyCode = ''s'', pe_StrategyName = ''n'', pe_fails = (\<lambda>_. None), pe_ids = (\<lambda>k. 10 + k),
      pe_tag_time = (\<lambda>_. 0), pe_marshal = (\<lambda>_. None)\<rparr>"

theorem persist_all_or_nothing_witness:
  "\<exists>res db'. persist_Run demo_persist_env (\<lambda>_. Inr zero_persist_params) 0 \<lparr>rc_Vars = Map.empty\<rparr> demo_ins
       (Some \<lparr>db_recs = [], db_tags = []\<rparr>) = (Inr res, Some db')
     \<and> length (db_recs db') = 3 \<and> db_tags db' = []
     \<and> map_of res ''recommendation_ids'' = Some (ids_val [10, 11, 12])"
proof -
  let ?rc = "\<lparr>rc_Vars = Map.empty\<rparr> :: run_ctx" and ?db = "\<lparr>db_recs = [], db_tags = []\<rparr> :: rec_db"
  have dec: "decode_params ''persist'' (\<lambda>_. Inr zero_persist_params) zero_persist_params demo_ins = Inr zero_persist_params"
    "findFirstSlice demo_ins = Some demo_rows"
    by (simp_all add: decode_params_def demo_ins_def reserved_keys_def)
  have n: "length (picked demo_rows) = 3"
    by (simp add: picked_def demo_rows_def List.map_filter_def get_any_def)
  have tags: "persist_tags ?rc (pp_ExtraTags zero_persist_params) = []"
    by (simp add: persist_tags_def GetVar_def zero_persist_params_def)
  obtain ids db' where w: "writeRecommendations demo_persist_env ?db demo_rows []
      (rec_date 0 (pp_Date zero_persist_params)) = (Inr ids, db')"
    by (simp add: writeRecommendations_def tx_exec_def demo_persist_env_def demo_rows_def get_any_def
        attachTags_def tag_rows_def Let_def)
  then obtain res where run: "persist_Run demo_persist_env (\<lambda>_. Inr zero_persist_params) 0 ?rc demo_ins (Some ?db) = (Inr res, Some db')"
    using dec tags by (simp add: persist_Run_def Let_def)
  have "[0..<3] = [0, 1, 2 :: nat]" by (simp add: upt_rec)
  with persist_all_or_nothing [OF dec run refl refl refl refl, unfolded n tags] run show ?thesis
    by (simp add: first_occs_def demo_persist_env_def)
qed

end
