(* ===== verification/Run_Lifecycle.thy ===== *)
theory Run_Lifecycle
  imports Strategy_Props Exec_Events Node_Persist
begin

text \<open>
  Runs, \<open>executor/executor.go\<close> with the trigger of \<open>executor/handler.go\<close>: a run is a row of the runs
  table, its node results are rows of the log table.  The walk of the graph is the relation \<open>Execute\<close>
  of the orchestrator; the statements of a call succeed or fail as the environment says.
\<close>

section \<open>State\<close>

record run_row =
  rn_StrategyID :: nat
  rn_TriggerType :: string
  rn_Status :: string
  rn_StartedAt :: "instant option"
  rn_FinishedAt :: "instant option"
  rn_SkipReason :: string
  rn_Error :: string
  rn_LogURL :: string
  rn_Attempts :: int
  rn_CreatedAt :: instant

record run_log =
  lg_RunID :: nat
  lg_NodeKey :: string
  lg_Status :: string
  lg_StartedAt :: instant
  lg_FinishedAt :: instant
  lg_PayloadIn :: string
  lg_PayloadOut :: string
  lg_Error :: string

record run_db =
  rd_runs :: "run_row table"
  rd_logs :: "(nat \<times> run_log) list"
  rd_next_log :: nat

definition RunStatusRunning :: string where "RunStatusRunning = ''running''"
definition RunStatusSuccess :: string where "RunStatusSuccess = ''success''"
definition RunStatusFailed :: string where "RunStatusFailed = ''failed''"
definition RunStatusPartial :: string where "RunStatusPartial = ''partial''"
definition RunStatusSkipped :: string where "RunStatusSkipped = ''skipped''"
definition RunTriggerManual :: string where "RunTriggerManual = ''manual''"
definition RunTriggerCron :: string where "RunTriggerCron = ''cron''"

lemmas run_text_defs = RunStatusRunning_def RunStatusSuccess_def RunStatusFailed_def RunStatusPartial_def
  RunStatusSkipped_def RunTriggerManual_def RunTriggerCron_def

text \<open>The orchestrator's statuses have the same texts.\<close>

fun status_text :: "run_status \<Rightarrow> string" where
  "status_text StatusSuccess = RunStatusSuccess"
| "status_text StatusFailed = RunStatusFailed"
| "status_text StatusSkipped = RunStatusSkipped"
| "status_text StatusPartial = RunStatusPartial"

text \<open>The environment of a call: the statements of \<open>Get\<close> are those of \<open>xe_strat\<close>; then the errors of
  creating the run row, of the log rows and of the final save, the clock at those points, and how
  payloads and errors print.\<close>

record 'p run_env =
  xe_wired :: bool
  xe_engine :: "'p executor"
  xe_strat :: strat_env
  xe_create :: "string option"
  xe_logs :: "string option"
  xe_save :: "string option"
  xe_created_at :: instant
  xe_finalized_at :: instant
  xe_published_at :: instant
  xe_empty :: "'p \<Rightarrow> bool"
  xe_marshal :: "'p \<Rightarrow> string + string"
  xe_error_text :: "orch_error \<Rightarrow> string"

record run_request =
  rq_StrategyID :: nat
  rq_TriggerType :: string
  rq_DryRun :: bool
  rq_ExistingRun :: "(nat \<times> run_row) option"

datatype run_error = Service service_error | Engine orch_error

section \<open>Helpers\<close>

definition triggerOrDefault :: "string \<Rightarrow> string" where
  "triggerOrDefault t = (if t = [] then RunTriggerManual else t)"

definition runIDOrZero :: "(nat \<times> run_row) option \<Rightarrow> nat" where
  "runIDOrZero r = (case r of None \<Rightarrow> 0 | Some (i, _) \<Rightarrow> i)"

definition marshalPayload :: "'p run_env \<Rightarrow> 'p option \<Rightarrow> string" where
  "marshalPayload env p =
     (case p of
        None \<Rightarrow> []
      | Some m \<Rightarrow> if xe_empty env m then []
                  else case xe_marshal env m of Inl e \<Rightarrow> ''marshal error: '' @ e | Inr t \<Rightarrow> t)"

definition node_error_text :: "'p run_env \<Rightarrow> Dag.node_error \<Rightarrow> string" where
  "node_error_text env e =
     (case e of
        NoError \<Rightarrow> []
      | ErrorText t \<Rightarrow> t
      | Panicked i r \<Rightarrow> ''node '' @ se_quote (xe_strat env) i @ '' panicked: '' @ r)"

definition summary_error_text :: "'p run_env \<Rightarrow> summary_error \<Rightarrow> string" where
  "summary_error_text env e =
     (case e of
        NoSummaryError \<Rightarrow> []
      | RunAborted err \<Rightarrow> xe_error_text env err
      | OneOrMoreFailed \<Rightarrow> ''one or more nodes failed'')"

definition new_run :: "'p run_env \<Rightarrow> nat \<Rightarrow> string \<Rightarrow> run_row" where
  "new_run env sid trigger =
     \<lparr>rn_StrategyID = sid, rn_TriggerType = triggerOrDefault trigger, rn_Status = RunStatusRunning, rn_StartedAt = None,
      rn_FinishedAt = None, rn_SkipReason = [], rn_Error = [], rn_LogURL = [], rn_Attempts = 1,
      rn_CreatedAt = xe_created_at env\<rparr>"

definition create_run :: "'p run_env \<Rightarrow> nat \<Rightarrow> string \<Rightarrow> run_db \<Rightarrow> service_error + (nat \<times> run_row) \<times> run_db" where
  "create_run env sid trigger db =
     and_then (stmt (wrapped CodeInternal ''executor: create run'') (xe_create env) ()) (\<lambda>_.
       let run = new_run env sid trigger
       in case tb_create run (rd_runs db) of (i, t) \<Rightarrow> Inr ((i, run), db\<lparr>rd_runs := t\<rparr>))"

definition no_run_db :: service_error where
  "no_run_db = Biz (Unavailable ''executor: db not configured'')"

definition CreateRunRow ::
  "'p run_env \<Rightarrow> nat \<Rightarrow> string \<Rightarrow> run_db option \<Rightarrow> service_error + (nat \<times> run_row) \<times> run_db option" where
  "CreateRunRow env sid trigger db_opt =
     (case db_opt of
        None \<Rightarrow> Inl no_run_db
      | Some db \<Rightarrow> map_sum id (map_prod id Some) (create_run env sid trigger db))"

section \<open>Finishing a run\<close>

text \<open>The log rows, in the order the map of results was visited.\<close>

definition log_row :: "'p run_env \<Rightarrow> nat \<Rightarrow> string \<Rightarrow> 'p node_result \<Rightarrow> run_log" where
  "log_row env rid i r =
     \<lparr>lg_RunID = rid, lg_NodeKey = i, lg_Status = status_text (nr_Status r), lg_StartedAt = nr_StartedAt r,
      lg_FinishedAt = nr_FinishedAt r, lg_PayloadIn = [], lg_PayloadOut = marshalPayload env (nr_Payload r),
      lg_Error = node_error_text env (nr_Error r)\<rparr>"

definition persistLogs :: "'p run_env \<Rightarrow> nat \<Rightarrow> 'p summary option \<Rightarrow> string list \<Rightarrow> run_db \<Rightarrow> run_db" where
  "persistLogs env rid sm order db =
     (case sm of
        None \<Rightarrow> db
      | Some m \<Rightarrow>
          let rows = map (\<lambda>i. log_row env rid i (the (sm_NodeResults m i))) order
          in if rows = [] \<or> xe_logs env \<noteq> None then db
             else db\<lparr>rd_logs := rd_logs db @ zip [rd_next_log db..<rd_next_log db + length rows] rows,
                    rd_next_log := rd_next_log db + length rows\<rparr>)"

definition finalizeRun :: "'p run_env \<Rightarrow> 'p summary option \<Rightarrow> orch_error option \<Rightarrow> run_row \<Rightarrow> run_row" where
  "finalizeRun env sm err run =
     (let r1 = (case sm of
                  None \<Rightarrow> run
                | Some m \<Rightarrow> run\<lparr>rn_StartedAt := Some (sm_StartedAt m), rn_FinishedAt := Some (sm_FinishedAt m),
                              rn_Status := status_text (sm_Status m), rn_Error := summary_error_text env (sm_Error m)\<rparr>);
          r2 = (case err of
                  Some e \<Rightarrow> if rn_Status r1 = [] then r1\<lparr>rn_Status := RunStatusFailed, rn_Error := xe_error_text env e\<rparr> else r1
                | None \<Rightarrow> r1)
      in if rn_FinishedAt r2 = None then r2\<lparr>rn_FinishedAt := Some (xe_finalized_at env)\<rparr> else r2)"

datatype run_data =
    NodeData exec_data
  | CompletedData nat string string "string option" "duration option"

definition lift_event :: "exec_data event \<Rightarrow> run_data event" where
  "lift_event ev = \<lparr>ev_RunID = ev_RunID ev, ev_NodeID = ev_NodeID ev, ev_Type = ev_Type ev, ev_Timestamp = ev_Timestamp ev,
     ev_Data = NodeData (ev_Data ev)\<rparr>"

definition publishRunCompleted ::
  "'p run_env \<Rightarrow> nat \<times> run_row \<Rightarrow> 'p summary option \<Rightarrow> orch_error option \<Rightarrow> run_data event" where
  "publishRunCompleted env run sm err =
     \<lparr>ev_RunID = fst run, ev_NodeID = [], ev_Type = EventRunCompleted, ev_Timestamp = xe_published_at env,
      ev_Data = CompletedData (rn_StrategyID (snd run)) (rn_Status (snd run)) (rn_TriggerType (snd run))
        (map_option (xe_error_text env) err) (map_option sm_Duration sm)\<rparr>"

definition finish_run ::
  "'p run_env \<Rightarrow> nat \<times> run_row \<Rightarrow> 'p summary option \<Rightarrow> orch_error option \<Rightarrow> string list \<Rightarrow> run_db
   \<Rightarrow> (nat \<times> run_row) \<times> run_db" where
  "finish_run env run sm err order db =
     (let db1 = persistLogs env (fst run) sm order db;
          run' = finalizeRun env sm err (snd run)
      in ((fst run, run'),
          if xe_save env = None then db1\<lparr>rd_runs := tb_save (fst run) run' (rd_runs db1)\<rparr> else db1))"

section \<open>Execute\<close>

text \<open>What happens before the walk: the strategy, its graph and the run row.\<close>

definition load_graph :: "'p run_env \<Rightarrow> strategy_db option \<Rightarrow> nat \<Rightarrow> service_error + strategy_detail \<times> dag" where
  "load_graph env sdb sid =
     (if \<not> xe_wired env then Inl (Biz (Unavailable ''executor: orchestrator not wired''))
      else
        and_then (strat_Get (xe_strat env) sid sdb) (\<lambda>detail.
        and_then (map_sum (\<lambda>e. wrapped CodeInvalidArg ''executor: parse dag'' (se_parse_text (xe_strat env) e)) id
            (ParseDAG (se_json (xe_strat env)) (dt_CurrentVersionDAG detail))) (\<lambda>g.
          (case Validate (Some g) of
             Some e \<Rightarrow> Inl (wrapped CodeInvalidArg ''executor: invalid dag'' (se_parse_text (xe_strat env) (BadGraph e)))
           | None \<Rightarrow> Inr (detail, g)))))"

definition prepare_run ::
  "'p run_env \<Rightarrow> strategy_db option \<Rightarrow> run_request \<Rightarrow> run_db
   \<Rightarrow> service_error + (nat \<times> dag \<times> (nat \<times> run_row) option) \<times> run_db" where
  "prepare_run env sdb req db =
     and_then (load_graph env sdb (rq_StrategyID req)) (\<lambda>(detail, g).
       if rq_DryRun req then Inr ((dt_ID detail, g, None), db)
       else case rq_ExistingRun req of
              Some run \<Rightarrow> Inr ((dt_ID detail, g, Some run), db)
            | None \<Rightarrow>
                and_then (create_run env (dt_ID detail) (rq_TriggerType req) db) (\<lambda>(run, db').
                  Inr ((dt_ID detail, g, Some run), db')))"

definition ids_of :: "run_request \<Rightarrow> nat \<Rightarrow> (nat \<times> run_row) option \<Rightarrow> run_ids" where
  "ids_of req sid run = \<lparr>ri_RunID = runIDOrZero run, ri_StrategyID = sid, ri_DryRun = rq_DryRun req\<rparr>"

text \<open>The transient run of a dry run.\<close>

definition dry_run_row :: "'p run_env \<Rightarrow> nat \<Rightarrow> run_request \<Rightarrow> 'p summary \<Rightarrow> run_row" where
  "dry_run_row env sid req m =
     \<lparr>rn_StrategyID = sid, rn_TriggerType = triggerOrDefault (rq_TriggerType req), rn_Status = status_text (sm_Status m),
      rn_StartedAt = Some (sm_StartedAt m), rn_FinishedAt = Some (sm_FinishedAt m), rn_SkipReason = [],
      rn_Error = summary_error_text env (sm_Error m), rn_LogURL = [], rn_Attempts = 0, rn_CreatedAt = wt_instant zero_wall_time\<rparr>"

text \<open>\<open>run_Execute env sdb req ctx_done db evs (run, err) db'\<close>: a call may publish \<open>evs\<close>, return
  \<open>run\<close> and \<open>err\<close> and leave the tables as \<open>db'\<close>.\<close>

inductive run_Execute ::
  "'p run_env \<Rightarrow> strategy_db option \<Rightarrow> run_request \<Rightarrow> bool \<Rightarrow> run_db \<Rightarrow> run_data event list
   \<Rightarrow> (nat \<times> run_row) option \<times> run_error option \<Rightarrow> run_db \<Rightarrow> bool"
  for env :: "'p run_env" and sdb :: "strategy_db option" and req :: run_request and ctx_done :: bool and db :: run_db
where
  run_rejected: "prepare_run env sdb req db = Inl e \<Longrightarrow> run_Execute env sdb req ctx_done db [] (None, Some (Service e)) db"
| run_dry: "prepare_run env sdb req db = Inr ((sid, g, None), db1) \<Longrightarrow>
     Execute (xe_engine env) (ids_of req sid None) (Some g) ctx_done evs (sm, err) \<Longrightarrow>
     run_Execute env sdb req ctx_done db (map lift_event evs)
       (map_option (\<lambda>m. (0, dry_run_row env sid req m)) sm, map_option Engine err) db1"
| run_real: "prepare_run env sdb req db = Inr ((sid, g, Some run), db1) \<Longrightarrow>
     Execute (xe_engine env) (ids_of req sid (Some run)) (Some g) ctx_done evs (sm, err) \<Longrightarrow>
     distinct order \<Longrightarrow> set order = (case sm of None \<Rightarrow> {} | Some m \<Rightarrow> dom (sm_NodeResults m)) \<Longrightarrow>
     finish_run env run sm err order db1 = (run', db2) \<Longrightarrow>
     run_Execute env sdb req ctx_done db (map lift_event evs @ [publishRunCompleted env run' sm err])
       (Some run', map_option Engine err) db2"

section \<open>Queries and triggers\<close>

definition GetRun :: "string option \<Rightarrow> nat \<Rightarrow> run_db option \<Rightarrow> service_error + nat \<times> run_row" where
  "GetRun fail i db_opt =
     (case db_opt of
        None \<Rightarrow> Inl no_run_db
      | Some db \<Rightarrow>
          and_then (stmt (wrapped CodeInternal ''executor: get run'') fail ()) (\<lambda>_.
            (case tb_first i (rd_runs db) of None \<Rightarrow> Inl (Biz (NotFound ''run not found'')) | Some r \<Rightarrow> Inr (i, r))))"

definition GetRunLogs :: "string option \<Rightarrow> nat \<Rightarrow> run_db option \<Rightarrow> service_error + (nat \<times> run_log) list" where
  "GetRunLogs fail i db_opt =
     (case db_opt of
        None \<Rightarrow> Inl no_run_db
      | Some db \<Rightarrow>
          stmt (wrapped CodeInternal ''executor: list logs'') fail
            (sort_key (\<lambda>(j, l). (lg_StartedAt l, j)) (filter (\<lambda>(j, l). lg_RunID l = i) (rd_logs db))))"

record run_list_filter =
  rf_StrategyID :: nat
  rf_Status :: string
  rf_From :: "instant option"
  rf_To :: "instant option"
  rf_Page :: int
  rf_PageSize :: int

definition run_matches :: "run_list_filter \<Rightarrow> run_row \<Rightarrow> bool" where
  "run_matches f r \<longleftrightarrow>
     (0 < rf_StrategyID f \<longrightarrow> rn_StrategyID r = rf_StrategyID f)
     \<and> (rf_Status f \<noteq> [] \<longrightarrow> rn_Status r = rf_Status f)
     \<and> (\<forall>t\<in>set_option (rf_From f). t \<le> rn_CreatedAt r) \<and> (\<forall>t\<in>set_option (rf_To f). rn_CreatedAt r < t)"

definition ListRuns ::
  "(nat \<Rightarrow> string option) \<Rightarrow> run_list_filter \<Rightarrow> run_db option \<Rightarrow> service_error + (nat \<times> run_row) list \<times> nat" where
  "ListRuns fail f db_opt =
     (case db_opt of
        None \<Rightarrow> Inl no_run_db
      | Some db \<Rightarrow>
          let rows = rev (tb_where (run_matches f) (rd_runs db))
          in and_then (stmt (wrapped CodeInternal ''executor: count runs'') (fail 0) ()) (\<lambda>_.
               stmt (wrapped CodeInternal ''executor: list runs'') (fail 1)
                 (page_of (positive_or 1 (rf_Page f)) (page_size (rf_PageSize f)) rows, length rows)))"

text \<open>\<open>Retry\<close>: the identifier it returns and the request it starts in the background.\<close>

definition Retry_run :: "string option \<Rightarrow> nat \<Rightarrow> run_db option \<Rightarrow> service_error + nat \<times> run_request" where
  "Retry_run fail i db_opt =
     and_then (GetRun fail i db_opt) (\<lambda>(i, src).
       Inr (i, \<lparr>rq_StrategyID = rn_StrategyID src, rq_TriggerType = RunTriggerManual, rq_DryRun = False,
              rq_ExistingRun = None\<rparr>))"

definition strategyIDByCode :: "string option \<Rightarrow> string \<Rightarrow> strategy_db option \<Rightarrow> service_error + nat" where
  "strategyIDByCode fail code sdb =
     (case sdb of
        None \<Rightarrow> Inl no_run_db
      | Some db \<Rightarrow>
          and_then (stmt (wrapped CodeInternal ''executor: lookup strategy'') fail ()) (\<lambda>_.
            (case tb_where (\<lambda>s. st_Code s = code) (sd_strategies db) of
               [] \<Rightarrow> Inl (Biz (NotFound (''strategy not found: '' @ code)))
             | (i, _) # _ \<Rightarrow> Inr i)))"

record trigger_request =
  tq_StrategyID :: nat
  tq_StrategyCode :: string

text \<open>The handler \<open>Trigger\<close>: a run row is created before anything is known of the strategy.\<close>

definition Trigger ::
  "'p run_env \<Rightarrow> string option \<Rightarrow> trigger_request \<Rightarrow> strategy_db option \<Rightarrow> run_db option
   \<Rightarrow> service_error + (nat \<times> run_row) \<times> run_db option" where
  "Trigger env fail inp sdb db_opt =
     and_then (if tq_StrategyID inp = 0 \<and> tq_StrategyCode inp \<noteq> [] then strategyIDByCode fail (tq_StrategyCode inp) sdb
               else Inr (tq_StrategyID inp)) (\<lambda>sid.
     and_then (check (Biz (InvalidArg ''strategy_id or strategy_code is required'')) (sid \<noteq> 0)) (\<lambda>_.
       CreateRunRow env sid RunTriggerManual db_opt))"

text \<open>The goroutine \<open>dispatch\<close>.\<close>

inductive dispatch ::
  "'p run_env \<Rightarrow> string option \<Rightarrow> nat \<Rightarrow> nat \<Rightarrow> strategy_db option \<Rightarrow> bool \<Rightarrow> run_db \<Rightarrow> run_db \<Rightarrow> bool"
  for env fail rid sid sdb ctx_done db
where
  dispatch_lost: "GetRun fail rid (Some db) = Inl e \<Longrightarrow> dispatch env fail rid sid sdb ctx_done db db"
| dispatch_run: "GetRun fail rid (Some db) = Inr run \<Longrightarrow>
     run_Execute env sdb \<lparr>rq_StrategyID = sid, rq_TriggerType = RunTriggerManual, rq_DryRun = False,
        rq_ExistingRun = Some run\<rparr> ctx_done db evs r db' \<Longrightarrow>
     dispatch env fail rid sid sdb ctx_done db db'"

section \<open>Every walk ends in a summary\<close>

lemma reaches_final:
  assumes "well_formed g" "nodes_return e" "reachable e g s"
  shows "\<exists>s'. reachable e g s' \<and> final s'"
  using assms(3)
proof (induction "sched_measure g s" arbitrary: s rule: less_induct)
  case less
  show ?case
  proof (cases "final s")
    case False
    then obtain a s' where s': "sched_step e g a s = Some s'"
      using sched_progress [OF assms(2), of s g] by (auto simp: final_def)
    have "sched_measure g s' < sched_measure g s"
      by (rule sched_measure_step [OF assms(1) sched_inv_reachable [OF assms(1) less.prems] s'])
    moreover have "reachable e g s'" using less.prems s' by (auto intro: reachable.intros)
    ultimately show ?thesis using less.hyps by blast
  qed (use less.prems in blast)
qed

lemma Execute_exists:
  assumes "well_formed g" "nodes_return e"
  shows "\<exists>evs r. Execute e ids (Some g) c evs r"
proof -
  have v: "Validate (Some g) = None" using assms(1) by (simp add: Validate_None_iff)
  show ?thesis
  proof (cases "first_unknown e g")
    case (Some n)
    then show ?thesis using exec_unknown [OF v Some refl] by blast
  next
    case None
    show ?thesis
    proof (cases c)
      case True
      show ?thesis using True by (intro exI) (simp, rule exec_cancelled [OF v None refl])
    next
      case False
      have "reachable e g (start_sched g)" by (rule reachable.intros)
      then obtain s where s: "reachable e g s" "final s" using reaches_final [OF assms] by blast
      show ?thesis using False by (intro exI) (simp, rule exec_run [OF v None s refl])
    qed
  qed
qed

lemma Execute_summary:
  assumes "Execute e ids (Some g) c evs (sm, err)" "well_formed g"
  shows "\<exists>m. sm = Some m \<and> sm_Status m \<noteq> StatusSkipped \<and> (err \<noteq> None \<longleftrightarrow> sm_Status m = StatusFailed)
    \<and> dom (sm_NodeResults m) \<subseteq> set (node_ids g)"
  using assms(1)
proof (cases rule: Execute_cases)
  case (invalid err')
  then show ?thesis using assms(2) by (simp flip: Validate_None_iff)
next
  case (unknown g' err' m)
  then show ?thesis by simp
next
  case (cancelled g' now t0 t1 ta tb)
  have "\<forall>r\<in>ran (all_cancelled g now). settled (nr_Status r)" "dom (all_cancelled g now) \<subseteq> set (node_ids g)"
    "\<forall>r\<in>ran (all_cancelled g now). nr_Status r \<noteq> StatusFailed"
    using all_cancelled_settled [of _ g now] by (force simp: settled_def all_cancelled_def dom_def split: if_splits)+
  moreover have "aggregateStatus (all_cancelled g now) \<noteq> StatusSkipped" "aggregateStatus (all_cancelled g now) \<noteq> StatusFailed"
    using calculation aggregateStatus_iff [of "all_cancelled g now"] by blast+
  ultimately show ?thesis using cancelled by (auto simp: op_simps)
next
  case (run g' s t0 t1 ta tb)
  have "\<forall>r\<in>ran (results s). settled (nr_Status r)" using reachable_settled run by blast
  moreover have "dom (results s) \<subseteq> set (node_ids g)" using core_invD(4) [OF reachable_core] run by blast
  ultimately show ?thesis using run reachable_first_err [of g e s] by (auto simp: op_simps aggregateStatus_iff)
qed

lemma summary_failed_iff:
  assumes "Execute e ids (Some g) c evs (Some m, err)" "first_unknown e g = None"
  shows "sm_Status m = StatusFailed \<longleftrightarrow> (\<exists>r\<in>ran (sm_NodeResults m). nr_Status r = StatusFailed)"
  using assms(1)
proof (cases rule: Execute_cases)
  case (cancelled g' now t0 t1 ta tb)
  then show ?thesis using Execute_results_settled [OF assms(1)] by (simp add: op_simps aggregateStatus_iff)
next
  case (run g' s t0 t1 ta tb)
  then show ?thesis using Execute_results_settled [OF assms(1)] by (simp add: op_simps aggregateStatus_iff)
qed (use assms in auto)

section \<open>The row of a run\<close>

lemma load_graph_wf: "load_graph env sdb sid = Inr (detail, g) \<Longrightarrow> well_formed g"
  by (auto simp: load_graph_def and_then_Inr split: if_splits option.splits simp flip: Validate_None_iff)

definition final_row :: "run_row \<Rightarrow> orch_error option \<Rightarrow> bool" where
  "final_row r err \<longleftrightarrow>
     rn_Status r \<in> {RunStatusSuccess, RunStatusFailed, RunStatusPartial} \<and> rn_FinishedAt r \<noteq> None
     \<and> (rn_Status r = RunStatusFailed \<longleftrightarrow> err \<noteq> None)"

lemma finalizeRun_final:
  assumes "sm_Status m \<noteq> StatusSkipped" "err \<noteq> None \<longleftrightarrow> sm_Status m = StatusFailed"
  shows "final_row (finalizeRun env (Some m) err run) err"
  using assms by (cases "sm_Status m"; cases err) (auto simp: finalizeRun_def final_row_def run_text_defs)

lemma persistLogs_runs [simp]: "rd_runs (persistLogs env i sm order db) = rd_runs db"
  by (auto simp: persistLogs_def Let_def split: option.split)

lemma finish_run_effect:
  assumes "finish_run env (i, run) sm err order db = (run', db')"
  shows "run' = (i, finalizeRun env sm err run)"
    "rd_runs db' = (if xe_save env = None then tb_save i (snd run') (rd_runs db) else rd_runs db)"
    "rd_logs db' = rd_logs (persistLogs env i sm order db)"
  using assms by (auto simp: finish_run_def Let_def)

lemma prepare_run_real:
  assumes "prepare_run env sdb req db = Inr ((sid, g, Some (i, run)), db1)" "tb_ok (rd_runs db)"
    and "\<forall>j r. rq_ExistingRun req = Some (j, r) \<longrightarrow> tb_first j (rd_runs db) \<noteq> None"
  shows "well_formed g" "tb_ok (rd_runs db1)" "tb_first i (rd_runs db1) \<noteq> None" "rd_logs db1 = rd_logs db"
    "rd_next_log db1 = rd_next_log db" "j \<noteq> i \<Longrightarrow> tb_first j (rd_runs db1) = tb_first j (rd_runs db)"
proof -
  obtain detail where lg: "load_graph env sdb (rq_StrategyID req) = Inr (detail, g)"
    using assms(1) by (auto simp: prepare_run_def and_then_Inr split: if_splits option.splits)
  show "well_formed g" by (rule load_graph_wf [OF lg])
  have "(rq_ExistingRun req = Some (i, run) \<and> db1 = db)
      \<or> (\<exists>r. db1 = db\<lparr>rd_runs := snd (tb_create r (rd_runs db))\<rparr> \<and> i = fst (tb_create r (rd_runs db)))"
    using assms(1) by (auto simp: prepare_run_def and_then_Inr lg create_run_def Let_def tb_create_def split: if_splits option.splits)
  then show "tb_ok (rd_runs db1)" "tb_first i (rd_runs db1) \<noteq> None" "rd_logs db1 = rd_logs db"
    "rd_next_log db1 = rd_next_log db" "j \<noteq> i \<Longrightarrow> tb_first j (rd_runs db1) = tb_first j (rd_runs db)"
    using assms(2,3) by (auto simp: tbl.first_create tbl.ok_create)
qed

lemma prepare_run_exists:
  assumes "load_graph env sdb (rq_StrategyID req) = Inr (detail, g)" "\<not> rq_DryRun req" "xe_create env = None"
  obtains sid run db1 where "prepare_run env sdb req db = Inr ((sid, g, Some run), db1)"
  using assms by (cases "rq_ExistingRun req") (auto simp: prepare_run_def create_run_def Let_def stmt_def tb_create_def)

lemma run_Execute_exists:
  assumes "load_graph env sdb (rq_StrategyID req) = Inr (detail, g)" "\<not> rq_DryRun req" "nodes_return (xe_engine env)"
    and "xe_create env = None"
  shows "\<exists>evs run err db'. run_Execute env sdb req c db evs (Some run, err) db'"
proof -
  obtain sid run db1 where prep: "prepare_run env sdb req db = Inr ((sid, g, Some run), db1)"
    by (rule prepare_run_exists [OF assms(1,2,4)])
  have wf: "well_formed g" by (rule load_graph_wf [OF assms(1)])
  obtain evs sm err where ex: "Execute (xe_engine env) (ids_of req sid (Some run)) (Some g) c evs (sm, err)"
    using Execute_exists [OF wf assms(3)] by (metis prod.collapse)
  obtain m where m: "sm = Some m" "dom (sm_NodeResults m) \<subseteq> set (node_ids g)"
    using Execute_summary [OF ex wf] by blast
  then obtain order where "set order = dom (sm_NodeResults m)" "distinct order"
    using finite_distinct_list [OF finite_subset [OF m(2) finite_set]] by blast
  then have "run_Execute env sdb req c db (map lift_event evs @
      [publishRunCompleted env (fst (finish_run env run sm err order db1)) sm err])
      (Some (fst (finish_run env run sm err order db1)), map_option Engine err) (snd (finish_run env run sm err order db1))"
    by (intro run_real [OF prep ex]) (simp_all add: m(1))
  then show ?thesis by blast
qed

text \<open>C13: A run whose strategy can be loaded ends: when the nodes return and the statements
  succeed, \<open>Execute\<close> can finish, and however it finishes the run's row, new or created before by the
  trigger, is in the table with a final status and a finishing time, failed exactly when an error is
  returned, and the rows of the other runs are as they were.\<close>

theorem run_reaches_final_status:
  assumes "load_graph env sdb (rq_StrategyID req) = Inr (detail, g)" "\<not> rq_DryRun req" "nodes_return (xe_engine env)"
    and "xe_create env = None" "xe_logs env = None" "xe_save env = None" "tb_ok (rd_runs db)"
    and known: "\<forall>j r. rq_ExistingRun req = Some (j, r) \<longrightarrow> tb_first j (rd_runs db) \<noteq> None"
  shows "(\<exists>evs r db'. run_Execute env sdb req c db evs r db')
    \<and> (\<forall>evs r err db'. run_Execute env sdb req c db evs (r, err) db' \<longrightarrow>
         (\<exists>i run. r = Some (i, run) \<and> tb_first i (rd_runs db') = Some run
            \<and> rn_Status run \<in> {RunStatusSuccess, RunStatusFailed, RunStatusPartial} \<and> rn_FinishedAt run \<noteq> None
            \<and> (rn_Status run = RunStatusFailed \<longleftrightarrow> err \<noteq> None)
            \<and> (\<forall>j. j \<noteq> i \<longrightarrow> tb_first j (rd_runs db') = tb_first j (rd_runs db))))"
proof
  show "\<exists>evs r db'. run_Execute env sdb req c db evs r db'"
    using run_Execute_exists [OF assms(1-4), of c db] by blast
  show "\<forall>evs r err db'. run_Execute env sdb req c db evs (r, err) db' \<longrightarrow>
         (\<exists>i run. r = Some (i, run) \<and> tb_first i (rd_runs db') = Some run
            \<and> rn_Status run \<in> {RunStatusSuccess, RunStatusFailed, RunStatusPartial} \<and> rn_FinishedAt run \<noteq> None
            \<and> (rn_Status run = RunStatusFailed \<longleftrightarrow> err \<noteq> None)
            \<and> (\<forall>j. j \<noteq> i \<longrightarrow> tb_first j (rd_runs db') = tb_first j (rd_runs db)))"
  proof (intro allI impI)
    fix evs r err db' assume "run_Execute env sdb req c db evs (r, err) db'"
    then show "\<exists>i run. r = Some (i, run) \<and> tb_first i (rd_runs db') = Some run
            \<and> rn_Status run \<in> {RunStatusSuccess, RunStatusFailed, RunStatusPartial} \<and> rn_FinishedAt run \<noteq> None
            \<and> (rn_Status run = RunStatusFailed \<longleftrightarrow> err \<noteq> None)
            \<and> (\<forall>j. j \<noteq> i \<longrightarrow> tb_first j (rd_runs db') = tb_first j (rd_runs db))"
    proof (cases rule: run_Execute.cases)
      case (run_real sid' g' run' db1' evs' sm err' order run'')
      obtain i row where i: "run' = (i, row)" by force
      note p = prepare_run_real [OF run_real(4) [unfolded i] assms(7) known]
      obtain m where m: "sm = Some m" "sm_Status m \<noteq> StatusSkipped" "err' \<noteq> None \<longleftrightarrow> sm_Status m = StatusFailed"
        using Execute_summary [OF run_real(5) p(1)] by blast
      note f = finish_run_effect [OF run_real(8) [unfolded i]]
      have "final_row (finalizeRun env sm err' row) err'"
        unfolding m(1) by (rule finalizeRun_final [OF m(2,3)])
      moreover have "tb_first i (rd_runs db') = Some (finalizeRun env sm err' row)"
        using p(2,3) f assms(6) by (simp add: tbl.first_save)
      moreover have "tb_first j (rd_runs db') = tb_first j (rd_runs db)" if "j \<noteq> i" for j
        using that p(2) p(6) [OF that] f assms(6) by (simp add: tbl.first_save)
      ultimately show ?thesis using run_real(2,3) f(1) unfolding final_row_def by auto
    next
      case (run_rejected e)
      then show ?thesis using prepare_run_exists [OF assms(1,2,4)] by (metis Inl_Inr_False)
    next
      case (run_dry sid g evs sm err)
      then show ?thesis using assms(2) by (auto simp: prepare_run_def and_then_Inr split: if_splits option.splits)
    qed
  qed
qed

definition demo_node :: "nat node" where
  "demo_node = \<lparr>n_Type = ''indicator'', n_Subtype = ''ma'', n_Run = (\<lambda>inp out. out = RunOk None)\<rparr>"

definition demo_engine :: "nat executor" where
  "demo_engine = NewExecutor (Some (snd (Register (Some demo_node) NewRegistry))) 2 0"

lemma demo_lookup: "GetBySubtype (eng_registry demo_engine) t st = Some n \<Longrightarrow> n = demo_node"
  by (simp add: GetBySubtype_def demo_engine_def NewExecutor_def NewRegistry_def Register_def demo_node_def Let_def
      split: if_splits option.splits)

lemma demo_returns: "nodes_return demo_engine"
  by (auto simp: nodes_return_def demo_node_def dest!: demo_lookup)

lemma demo_known: "first_unknown demo_engine demo_sorted_dag = None"
  by (simp add: first_unknown_def demo_sorted_dag_def GetBySubtype_def demo_engine_def NewExecutor_def NewRegistry_def
      Register_def demo_node_def)

definition demo_run_env :: "nat run_env" where
  "demo_run_env =
     \<lparr>xe_wired = True, xe_engine = demo_engine, xe_strat = demo_env, xe_create = None, xe_logs = None, xe_save = None,
      xe_created_at = 1, xe_finalized_at = 2, xe_published_at = 3, xe_empty = (\<lambda>_. False), xe_marshal = (\<lambda>_. Inr ''{}''),
      xe_error_text = (\<lambda>_. ''error'')\<rparr>"

definition no_runs :: run_db where
  "no_runs = \<lparr>rd_runs = empty_table, rd_logs = [], rd_next_log = 1\<rparr>"

definition demo_request :: run_request where
  "demo_request = \<lparr>rq_StrategyID = 1, rq_TriggerType = [], rq_DryRun = False, rq_ExistingRun = None\<rparr>"

definition demo_detail :: strategy_detail where
  "demo_detail = \<lparr>dt_ID = 1, dt_Strategy = demo_strategy, dt_CurrentVersionDAG = ''stored'', dt_CurrentVersionNote = ''sorted''\<rparr>"

lemma demo_load: "load_graph demo_run_env (Some demo_db) (rq_StrategyID demo_request) = Inr (demo_detail, demo_sorted_dag)"
proof -
  have "strat_Get demo_env 1 (Some demo_db) = Inr demo_detail"
    by (simp add: strat_Get_def load_strategy_def stmt_def tb_first_def demo_env_def demo_db_def demo_strategy_def demo_detail_def)
  moreover have "se_json demo_env = demo_json" by (simp add: demo_env_def)
  ultimately show ?thesis
    using demo_sorted_parse ParseDAG_Inr [OF demo_sorted_parse]
    by (simp add: load_graph_def demo_run_env_def demo_request_def demo_detail_def)
qed

lemma demo_request_facts:
  "\<not> rq_DryRun demo_request" "nodes_return (xe_engine demo_run_env)" "xe_create demo_run_env = None"
  "xe_logs demo_run_env = None" "xe_save demo_run_env = None" "tb_ok (rd_runs no_runs)"
  "\<forall>j r. rq_ExistingRun demo_request = Some (j, r) \<longrightarrow> tb_first j (rd_runs no_runs) \<noteq> None"
  using demo_returns tb_ok_empty by (simp_all add: demo_request_def demo_run_env_def no_runs_def)

theorem run_reaches_final_status_witness:
  "\<exists>evs i run err db'. run_Execute demo_run_env (Some demo_db) demo_request False no_runs evs (Some (i, run), err) db'
     \<and> tb_first i (rd_runs db') = Some run \<and> rn_FinishedAt run \<noteq> None
     \<and> (rn_Status run = RunStatusFailed) = (err \<noteq> None)"
proof -
  note final = run_reaches_final_status [OF demo_load demo_request_facts, where c = False]
  obtain evs r err db' where ran: "run_Execute demo_run_env (Some demo_db) demo_request False no_runs evs (r, err) db'"
    using final by fast
  then obtain i run where "r = Some (i, run)" "tb_first i (rd_runs db') = Some run" "rn_FinishedAt run \<noteq> None"
    "rn_Status run = RunStatusFailed \<longleftrightarrow> err \<noteq> None"
    using final by blast
  with ran show ?thesis by blast
qed

section \<open>Logs and events\<close>

lemma run_Execute_real:
  assumes "run_Execute env sdb req c db evs (Some (i, run), err) db'" "\<not> rq_DryRun req" "tb_ok (rd_runs db)"
    and "\<forall>j r. rq_ExistingRun req = Some (j, r) \<longrightarrow> tb_first j (rd_runs db) \<noteq> None"
    and "load_graph env sdb (rq_StrategyID req) = Inr (detail, g)"
  obtains row evs' m err' order where
    "Execute (xe_engine env) (ids_of req (dt_ID detail) (Some (i, row))) (Some g) c evs' (Some m, err')"
    "distinct order" "set order = dom (sm_NodeResults m)" "run = finalizeRun env (Some m) err' row"
    "rd_logs db' = rd_logs (persistLogs env i (Some m) order db)" "sm_Status m \<noteq> StatusSkipped"
    "evs = map lift_event evs' @ [publishRunCompleted env (i, run) (Some m) err']"
  using assms(1)
proof (cases rule: run_Execute.cases)
  case (run_real sid g' run' db1 evs' sm err' order)
  obtain row where i: "run' = (i, row)"
    using finish_run_effect(1) [of env "fst run'" "snd run'" sm err' order db1 "(i, run)" db'] run_real(7)
    by (cases run') simp
  note p = prepare_run_real [OF run_real(3) [unfolded i] assms(3,4)]
  have sg: "g' = g" "sid = dt_ID detail"
    using run_real(3) assms(5) by (auto simp: prepare_run_def and_then_Inr split: if_splits option.splits)
  obtain m where m: "sm = Some m" "sm_Status m \<noteq> StatusSkipped"
    using Execute_summary [OF run_real(4) p(1)] by blast
  note f = finish_run_effect [OF run_real(7) [unfolded i]]
  have "rd_logs db' = rd_logs (persistLogs env i (Some m) order db)"
    using f(3) p(4,5) by (simp add: m(1) persistLogs_def Let_def)
  then show ?thesis
    using run_real(1,4,5,6) f(1) m(2) unfolding m(1) i sg
    by (intro that [of row evs' m err' order]) auto
next
  case (run_dry sid g evs sm err)
  then show ?thesis using assms(2) by (auto simp: prepare_run_def and_then_Inr split: if_splits option.splits)
qed

text \<open>C14: When every node type is registered and the graph, which loads and parses, has no cycle, a
  run on a well-formed table that is not a dry run, whose row, if it was made beforehand, is still
  in the table, and whose
  log statement succeeds, leaves exactly one log row per node of the graph, under the next free
  identifiers, with the run's identifier and a status among success, failed and skipped, and the run
  is failed exactly when one of these rows is; \<open>run.completed\<close> is published exactly twice, by the
  orchestrator and by the executor around it.\<close>

theorem run_logs_every_node:
  assumes "run_Execute env sdb req c db evs (Some (i, run), err) db'" "\<not> rq_DryRun req" "tb_ok (rd_runs db)"
    and "\<forall>j r. rq_ExistingRun req = Some (j, r) \<longrightarrow> tb_first j (rd_runs db) \<noteq> None"
    and "load_graph env sdb (rq_StrategyID req) = Inr (detail, g)"
    and "first_unknown (xe_engine env) g = None" "acyclic (edge_rel g)" "xe_logs env = None"
  shows "\<exists>new. rd_logs db' = rd_logs db @ zip [rd_next_log db..<rd_next_log db + length new] new
    \<and> mset (map lg_NodeKey new) = mset (node_ids g)
    \<and> (\<forall>l\<in>set new. lg_RunID l = i \<and> lg_Status l \<in> {RunStatusSuccess, RunStatusFailed, RunStatusSkipped})
    \<and> (rn_Status run = RunStatusFailed \<longleftrightarrow> (\<exists>l\<in>set new. lg_Status l = RunStatusFailed))
    \<and> length (filter (\<lambda>ev. ev_Type ev = EventRunCompleted) evs) = 2"
proof -
  obtain row evs' m err' order where
    ex: "Execute (xe_engine env) (ids_of req (dt_ID detail) (Some (i, row))) (Some g) c evs' (Some m, err')"
    and order: "distinct order" "set order = dom (sm_NodeResults m)" and run: "run = finalizeRun env (Some m) err' row"
    and logs: "rd_logs db' = rd_logs (persistLogs env i (Some m) order db)" "sm_Status m \<noteq> StatusSkipped"
    and evs: "evs = map lift_event evs' @ [publishRunCompleted env (i, run) (Some m) err']"
    by (rule run_Execute_real [OF assms(1-5)])
  have wf: "well_formed g" by (rule load_graph_wf [OF assms(5)])
  have dom: "dom (sm_NodeResults m) = set (node_ids g)"
    using Execute_complete [OF ex assms(6,7)] Execute_summary [OF ex wf] by blast
  define new where "new = map (\<lambda>k. log_row env i k (the (sm_NodeResults m k))) order"
  have keys: "map lg_NodeKey new = order" by (simp add: new_def log_row_def comp_def)
  have settled_all: "settled (nr_Status r)" if "sm_NodeResults m k = Some r" for k r
    using Execute_results_settled [OF ex] that by (auto simp: ran_def)
  have "new \<noteq> []"
    using wf order dom by (auto simp: new_def well_formed_def node_ids_def)
  then have "rd_logs db' = rd_logs db @ zip [rd_next_log db..<rd_next_log db + length new] new"
    using assms(8) logs(1) by (simp add: persistLogs_def Let_def new_def)
  moreover have "mset (map lg_NodeKey new) = mset (node_ids g)"
    unfolding keys using order dom wf by (simp add: set_eq_iff_mset_eq_distinct well_formed_def)
  moreover have "\<forall>l\<in>set new. lg_RunID l = i \<and> lg_Status l \<in> {RunStatusSuccess, RunStatusFailed, RunStatusSkipped}"
    using order(2) settled_all by (fastforce simp: new_def log_row_def settled_def)
  moreover have "rn_Status run = RunStatusFailed \<longleftrightarrow> (\<exists>l\<in>set new. lg_Status l = RunStatusFailed)"
  proof -
    have "rn_Status run = status_text (sm_Status m)"
      using logs(2) by (cases "sm_Status m"; cases err') (simp_all add: run finalizeRun_def run_text_defs)
    then have "rn_Status run = RunStatusFailed \<longleftrightarrow> sm_Status m = StatusFailed"
      by (cases "sm_Status m") (simp_all add: run_text_defs)
    moreover have "sm_Status m = StatusFailed \<longleftrightarrow> (\<exists>r\<in>ran (sm_NodeResults m). nr_Status r = StatusFailed)"
      using summary_failed_iff [OF ex assms(6)] .
    moreover have "(\<exists>r\<in>ran (sm_NodeResults m). nr_Status r = StatusFailed) \<longleftrightarrow> (\<exists>l\<in>set new. lg_Status l = RunStatusFailed)"
    proof -
      have "lg_Status (log_row env i k r) = RunStatusFailed \<longleftrightarrow> nr_Status r = StatusFailed" for k and r
        by (cases "nr_Status r") (simp_all add: log_row_def run_text_defs)
      then show ?thesis using order(2) by (force simp: new_def ran_def)
    qed
    ultimately show ?thesis by simp
  qed
  moreover have "length (filter (\<lambda>ev. ev_Type ev = EventRunCompleted) evs) = 2"
    using Execute_publishes_completion [OF ex wf assms(6)]
    by (auto simp: evs publishRunCompleted_def lift_event_def filter_map comp_def)
  ultimately show ?thesis by blast
qed

theorem run_logs_every_node_witness:
  "\<exists>evs i run err db'. run_Execute demo_run_env (Some demo_db) demo_request False no_runs evs (Some (i, run), err) db'
     \<and> (\<exists>l. rd_logs db' = [(1, l)] \<and> lg_NodeKey l = ''a'' \<and> lg_RunID l = i)"
proof -
  obtain evs i run err db' where r: "run_Execute demo_run_env (Some demo_db) demo_request False no_runs evs (Some (i, run), err) db'"
    using run_Execute_exists [OF demo_load demo_request_facts(1-3)] by (metis prod.collapse)
  have known: "first_unknown (xe_engine demo_run_env) demo_sorted_dag = None" by (simp add: demo_run_env_def demo_known)
  have ac: "acyclic (edge_rel demo_sorted_dag)" by (simp add: edge_rel_def demo_sorted_dag_def acyclic_def)
  obtain new where new: "rd_logs db' = rd_logs no_runs @ zip [rd_next_log no_runs..<rd_next_log no_runs + length new] new"
    "mset (map lg_NodeKey new) = mset (node_ids demo_sorted_dag)" "\<forall>l\<in>set new. lg_RunID l = i"
    using run_logs_every_node [OF r demo_request_facts(1,6,7) demo_load known ac demo_request_facts(4)] by blast
  have "mset (map lg_NodeKey new) = {#''a''#}" using new(2) by (simp add: node_ids_def demo_sorted_dag_def)
  then have "map lg_NodeKey new = [''a'']" by (simp only: mset_single_iff)
  then obtain l where "new = [l]" "lg_NodeKey l = ''a''" by auto
  then have "rd_logs db' = [(1, l)] \<and> lg_NodeKey l = ''a'' \<and> lg_RunID l = i" using new(1,3) by (simp add: no_runs_def)
  with r show ?thesis by blast
qed

section \<open>Runs that never end\<close>

text \<open>What the background execution leaves in the table, when the strategy is not there or the final
  save fails.\<close>

lemma dispatch_keeps_runs:
  assumes "dispatch env' fail' i sid sdb' c db1 db'"
    and "xe_save env' \<noteq> None \<or> (\<forall>sd. sdb' = Some sd \<longrightarrow> tb_first sid (sd_strategies sd) = None)"
  shows "rd_runs db' = rd_runs db1"
  using assms(1)
proof (cases rule: dispatch.cases)
  case dispatch_lost
  then show ?thesis by simp
next
  case (dispatch_run row evs r)
  define req where "req = \<lparr>rq_StrategyID = sid, rq_TriggerType = RunTriggerManual, rq_DryRun = False, rq_ExistingRun = Some row\<rparr>"
  from dispatch_run(2) [folded req_def] show ?thesis
  proof (cases rule: run_Execute.cases)
    case (run_real sid' g run' db2 evs' sm err order run'')
    then have "load_graph env' sdb' sid = Inr (d, g) \<Longrightarrow> db2 = db1" for d
      by (auto simp: prepare_run_def and_then_Inr req_def split: if_splits)
    obtain d where d: "load_graph env' sdb' sid = Inr (d, g)" "db2 = db1"
      using run_real(3) by (auto simp: prepare_run_def and_then_Inr req_def)
    then have "\<exists>sd s. sdb' = Some sd \<and> tb_first sid (sd_strategies sd) = Some s"
      by (auto simp: load_graph_def and_then_Inr strat_Get_def dest!: load_strategy_Inr split: if_splits option.splits)
    then have "xe_save env' \<noteq> None" using assms(2) by auto
    then show ?thesis
      using finish_run_effect(2) [of env' "fst run'" "snd run'" sm err order db2 run'' db'] run_real(7) d(2) by (auto split: if_splits)
  next
    case (run_rejected e)
    then show ?thesis by simp
  next
    case (run_dry sid g evs sm err)
    then show ?thesis by (auto simp: prepare_run_def and_then_Inr req_def)
  qed
qed

text \<open>C15: A trigger with a strategy identifier other than 0 does not look for the strategy: if the
  insert into a well-formed table does not fail it answers with a new running run, whatever the strategy tables hold.  If no
  strategy has that identifier when the background execution starts, or if its final save fails (as
  it does when the context of the run has expired, for the save is sent with that context), the
  background execution leaves the row running, with no finishing time.\<close>

theorem trigger_leaves_running:
  assumes "sid \<noteq> 0" "xe_create env = None" "tb_ok (rd_runs db)"
    and "run = new_run env sid RunTriggerManual" "i = fst (tb_create run (rd_runs db))"
    and "db1 = db\<lparr>rd_runs := snd (tb_create run (rd_runs db))\<rparr>"
  shows "Trigger env fail \<lparr>tq_StrategyID = sid, tq_StrategyCode = code\<rparr> sdb (Some db) = Inr ((i, run), Some db1)
    \<and> rn_Status run = RunStatusRunning \<and> rn_FinishedAt run = None
    \<and> tb_first i (rd_runs db) = None \<and> tb_first i (rd_runs db1) = Some run
    \<and> (\<forall>env' fail' sdb' c db'. dispatch env' fail' i sid sdb' c db1 db' \<longrightarrow>
         xe_save env' \<noteq> None \<or> (\<forall>sd. sdb' = Some sd \<longrightarrow> tb_first sid (sd_strategies sd) = None) \<longrightarrow>
         tb_first i (rd_runs db') = Some run)"
proof -
  have "Trigger env fail \<lparr>tq_StrategyID = sid, tq_StrategyCode = code\<rparr> sdb (Some db) = Inr ((i, run), Some db1)"
    using assms by (simp add: Trigger_def CreateRunRow_def create_run_def Let_def check_def stmt_def split: prod.split)
  moreover have first: "tb_first i (rd_runs db1) = Some run"
    by (simp add: assms(5,6) tbl.first_create [OF assms(3)])
  moreover have "tb_first i (rd_runs db) = None"
    unfolding assms(5) by (rule tbl.create_fresh [OF assms(3)])
  moreover have "tb_first i (rd_runs db') = Some run"
    if "dispatch env' fail' i sid sdb' c db1 db'"
      "xe_save env' \<noteq> None \<or> (\<forall>sd. sdb' = Some sd \<longrightarrow> tb_first sid (sd_strategies sd) = None)" for env' fail' sdb' c db'
    using dispatch_keeps_runs [OF that] first by simp
  moreover have "rn_Status run = RunStatusRunning" "rn_FinishedAt run = None" by (simp_all add: assms(4) new_run_def)
  ultimately show ?thesis by blast
qed

theorem trigger_leaves_running_witness:
  "\<exists>run db1 db'. Trigger demo_run_env None \<lparr>tq_StrategyID = 5, tq_StrategyCode = []\<rparr> (Some demo_db) (Some no_runs)
       = Inr ((1, run), Some db1)
     \<and> tb_first 5 (sd_strategies demo_db) = None
     \<and> dispatch demo_run_env None 1 5 (Some demo_db) False db1 db'
     \<and> rn_Status (the (tb_first 1 (rd_runs db'))) = ''running''"
proof -
  define run where "run = new_run demo_run_env 5 RunTriggerManual"
  define db1 where "db1 = no_runs\<lparr>rd_runs := snd (tb_create run (rd_runs no_runs))\<rparr>"
  have i: "1 = fst (tb_create run (rd_runs no_runs))" by (simp add: tb_create_def no_runs_def empty_table_def)
  have none: "tb_first 5 (sd_strategies demo_db) = None" by (simp add: tb_first_def demo_db_def)
  have g: "GetRun None 1 (Some db1) = Inr (1, run)"
    by (simp add: GetRun_def stmt_def db1_def tb_create_def tb_first_def no_runs_def empty_table_def)
  have "load_graph demo_run_env (Some demo_db) 5 = Inl (Biz (NotFound (strategy_text 5)))"
    by (simp add: load_graph_def strat_Get_def load_strategy_def stmt_def none) (simp add: demo_run_env_def demo_env_def)
  then have "run_Execute demo_run_env (Some demo_db) \<lparr>rq_StrategyID = 5, rq_TriggerType = RunTriggerManual, rq_DryRun = False,
      rq_ExistingRun = Some (1, run)\<rparr> False db1 [] (None, Some (Service (Biz (NotFound (strategy_text 5))))) db1"
    by (intro run_rejected) (simp add: prepare_run_def)
  then have d: "dispatch demo_run_env None 1 5 (Some demo_db) False db1 db1"
    by (rule dispatch_run [OF g])
  have "(5::nat) \<noteq> 0" by simp
  note t = trigger_leaves_running [OF this demo_request_facts(3,6) run_def i db1_def, of None "[]" "Some demo_db"]
  have "tb_first 1 (rd_runs db1) = Some run \<and> rn_Status run = RunStatusRunning" using t d none by blast
  then have "rn_Status (the (tb_first 1 (rd_runs db1))) = ''running''" by (simp add: RunStatusRunning_def)
  then show ?thesis using t d none by blast
qed

end
