(* ===== verification/Cron_Scheduler.thy ===== *)
theory Cron_Scheduler
  imports Schedule_Sync Run_Lifecycle Calendar
begin

text \<open>
  The scheduler, \<open>executor/scheduler.go\<close>: the entries of the cron runner by strategy, their firing
  behind the trading calendar, and the runs they start.  The cron library is the argument \<open>lib\<close>; the
  job of an entry is \<open>fire\<close> of a strategy, so it is named by the strategy.
\<close>

section \<open>The cron runner\<close>

record ('c, 'p) cron_lib =
  cr_new :: 'c
  cr_Parse :: "string \<Rightarrow> string + 'p"
  cr_Schedule :: "'p \<Rightarrow> nat \<Rightarrow> 'c \<Rightarrow> nat \<times> 'c"
  cr_Remove :: "nat \<Rightarrow> 'c \<Rightarrow> 'c"
  cr_entries :: "'c \<Rightarrow> nat \<Rightarrow> ('p \<times> nat) option"

text \<open>What the library documents: a new runner has no entries, \<open>Schedule\<close> adds an entry under a new
  identifier, \<open>Remove\<close> removes the entry of the identifier, if there is one.\<close>

definition cron_laws :: "('c, 'p) cron_lib \<Rightarrow> bool" where
  "cron_laws lib \<longleftrightarrow>
     (\<forall>e. cr_entries lib (cr_new lib) e = None)
     \<and> (\<forall>p i c. cr_entries lib c (fst (cr_Schedule lib p i c)) = None
          \<and> cr_entries lib (snd (cr_Schedule lib p i c)) = (cr_entries lib c)(fst (cr_Schedule lib p i c) \<mapsto> (p, i)))
     \<and> (\<forall>e c. cr_entries lib (cr_Remove lib e c) = (cr_entries lib c)(e := None))"

section \<open>The scheduler\<close>

record 'c scheduler =
  sc_runner :: 'c
  sc_active :: "nat \<Rightarrow> nat option"
  sc_location :: location

text \<open>\<open>LoadLocation\<close> is called only without a configured location.\<close>

definition NewScheduler ::
  "('c, 'p) cron_lib \<Rightarrow> location option \<Rightarrow> string + location \<Rightarrow> string + 'c scheduler" where
  "NewScheduler lib loc loaded =
     (case (case loc of Some l \<Rightarrow> Inr l | None \<Rightarrow> loaded) of
        Inl e \<Rightarrow> Inl (''scheduler: load timezone: '' @ e)
      | Inr l \<Rightarrow> Inr \<lparr>sc_runner = cr_new lib, sc_active = Map.empty, sc_location = l\<rparr>)"

text \<open>The sections of \<open>Add\<close> between which the mutex is free: remove the old entry, schedule, record.\<close>

definition drop_old :: "('c, 'p) cron_lib \<Rightarrow> nat \<Rightarrow> 'c scheduler \<Rightarrow> 'c scheduler" where
  "drop_old lib i sc =
     (case sc_active sc i of
        None \<Rightarrow> sc
      | Some e \<Rightarrow> sc\<lparr>sc_runner := cr_Remove lib e (sc_runner sc)\<rparr>)"

definition schedule_new :: "('c, 'p) cron_lib \<Rightarrow> 'p \<Rightarrow> nat \<Rightarrow> 'c scheduler \<Rightarrow> nat \<times> 'c scheduler" where
  "schedule_new lib p i sc =
     (case cr_Schedule lib p i (sc_runner sc) of (e, c) \<Rightarrow> (e, sc\<lparr>sc_runner := c\<rparr>))"

definition record_entry :: "nat \<Rightarrow> nat \<Rightarrow> 'c scheduler \<Rightarrow> 'c scheduler" where
  "record_entry i e sc = sc\<lparr>sc_active := (sc_active sc)(i \<mapsto> e)\<rparr>"

definition sched_Add ::
  "('c, 'p) cron_lib \<Rightarrow> (string \<Rightarrow> string) \<Rightarrow> nat \<Rightarrow> string \<Rightarrow> 'c scheduler \<Rightarrow> string option \<times> 'c scheduler" where
  "sched_Add lib q i expr sc =
     (if expr = [] then (Some ''scheduler: empty cron expression'', sc)
      else case cr_Parse lib expr of
        Inl e \<Rightarrow> (Some (''scheduler: parse '' @ q expr @ '': '' @ e), sc)
      | Inr p \<Rightarrow>
          (case schedule_new lib p i (drop_old lib i sc) of (e, sc') \<Rightarrow> (None, record_entry i e sc')))"

definition sched_Remove :: "('c, 'p) cron_lib \<Rightarrow> nat \<Rightarrow> 'c scheduler \<Rightarrow> 'c scheduler" where
  "sched_Remove lib i sc =
     (case sc_active sc i of
        None \<Rightarrow> sc
      | Some e \<Rightarrow> sc\<lparr>sc_runner := cr_Remove lib e (sc_runner sc), sc_active := (sc_active sc)(i := None)\<rparr>)"

text \<open>The errors of the single \<open>Add\<close> calls are only logged.\<close>

definition LoadFromDB ::
  "('c, 'p) cron_lib \<Rightarrow> (string \<Rightarrow> string) \<Rightarrow> string option \<Rightarrow> strategy_db option \<Rightarrow> 'c scheduler \<Rightarrow> string option \<times> 'c scheduler" where
  "LoadFromDB lib q fail db_opt sc =
     (case db_opt of
        None \<Rightarrow> (None, sc)
      | Some db \<Rightarrow>
          (case fail of
             Some e \<Rightarrow> (Some (''scheduler: load strategies: '' @ e), sc)
           | None \<Rightarrow>
               (None, fold (\<lambda>(i, s) sc. snd (sched_Add lib q i (st_CronExpression s) sc))
                  (tb_where (\<lambda>s. st_Status s = StrategyStatusActive \<and> st_CronExpression s \<noteq> []) (sd_strategies db)) sc)))"

text \<open>The order of the identifiers is that of a Go map.\<close>

definition is_ActiveEntries :: "'c scheduler \<Rightarrow> nat list \<Rightarrow> bool" where
  "is_ActiveEntries sc out \<longleftrightarrow> distinct out \<and> set out = dom (sc_active sc)"

section \<open>Firing\<close>

datatype fire_result =
    NonTradingDay
  | OutsideSession
  | OnFire nat string
  | NotWired
  | Started duration

definition cfgExecutorTimeout :: "duration option \<Rightarrow> duration" where
  "cfgExecutorTimeout exec = (case exec of None \<Rightarrow> 5 * 60 * nano_second | Some d \<Rightarrow> d)"

text \<open>\<open>exec\<close> is the \<open>DefaultRunTimeout\<close> of the executor, if one is wired; \<open>hook\<close> tells whether \<open>onFire\<close>
  is set; \<open>now\<close> is read by \<open>fire\<close>, \<open>clock\<close> by the calendar.\<close>

definition fire ::
  "bool \<Rightarrow> duration option \<Rightarrow> calendar_db option \<Rightarrow> instant \<Rightarrow> instant \<Rightarrow> nat \<Rightarrow> calendar option
   \<Rightarrow> fire_result \<times> calendar option" where
  "fire hook exec db clock now i cal =
     (case (case cal of None \<Rightarrow> (True, None) | Some s \<Rightarrow> map_prod id Some (IsTradingDay db clock now s)) of
        (trading, cal') \<Rightarrow>
          (if \<not> trading then NonTradingDay
           else if \<exists>s\<in>set_option cal'. \<not> IsInTradingSession s now then OutsideSession
           else if hook then OnFire i RunTriggerCron
           else if exec = None then NotWired
           else Started (cfgExecutorTimeout exec), cal'))"

definition cron_request :: "nat \<Rightarrow> run_request" where
  "cron_request i = \<lparr>rq_StrategyID = i, rq_TriggerType = RunTriggerCron, rq_DryRun = False, rq_ExistingRun = None\<rparr>"

text \<open>The run that a firing starts, when the goroutine has ended.\<close>

inductive cron_run ::
  "'p run_env \<Rightarrow> bool \<Rightarrow> duration option \<Rightarrow> calendar_db option \<Rightarrow> instant \<Rightarrow> instant \<Rightarrow> nat \<Rightarrow> calendar option
   \<Rightarrow> strategy_db option \<Rightarrow> bool \<Rightarrow> run_db \<Rightarrow> run_db \<Rightarrow> bool"
  for env hook exec cdb clock now i cal sdb ctx_done db
where
  cron_skipped: "fst (fire hook exec cdb clock now i cal) = res \<Longrightarrow> (\<And>d. res \<noteq> Started d) \<Longrightarrow>
     cron_run env hook exec cdb clock now i cal sdb ctx_done db db"
| cron_started: "fst (fire hook exec cdb clock now i cal) = Started d \<Longrightarrow>
     run_Execute env sdb (cron_request i) ctx_done db evs r db' \<Longrightarrow>
     cron_run env hook exec cdb clock now i cal sdb ctx_done db db'"

section \<open>The entries of the runner\<close>

definition planned :: "('c, 'p) cron_lib \<Rightarrow> 'c scheduler \<Rightarrow> nat \<Rightarrow> 'p option" where
  "planned lib sc i =
     (case sc_active sc i of None \<Rightarrow> None | Some e \<Rightarrow> map_option fst (cr_entries lib (sc_runner sc) e))"

definition sched_ok :: "('c, 'p) cron_lib \<Rightarrow> 'c scheduler \<Rightarrow> bool" where
  "sched_ok lib sc \<longleftrightarrow>
     cron_laws lib
     \<and> (\<forall>e p i. cr_entries lib (sc_runner sc) e = Some (p, i) \<longrightarrow> sc_active sc i = Some e)
     \<and> (\<forall>i e. sc_active sc i = Some e \<longrightarrow> (\<exists>p. cr_entries lib (sc_runner sc) e = Some (p, i)))"

lemma sched_entry:
  assumes "sched_ok lib sc" "sc_active sc i = Some e"
  obtains p where "cr_entries lib (sc_runner sc) e = Some (p, i)"
proof -
  have "\<exists>p. cr_entries lib (sc_runner sc) e = Some (p, i)" using assms unfolding sched_ok_def by blast
  then show thesis using that by blast
qed

lemma sched_active: "sched_ok lib sc \<Longrightarrow> cr_entries lib (sc_runner sc) e = Some (p, i) \<Longrightarrow> sc_active sc i = Some e"
  by (simp add: sched_ok_def)

lemma sched_inj:
  assumes "sched_ok lib sc" "sc_active sc i = Some e" "sc_active sc j = Some e"
  shows "i = j"
proof -
  obtain p where "cr_entries lib (sc_runner sc) e = Some (p, i)" by (rule sched_entry [OF assms(1,2)])
  moreover obtain p' where "cr_entries lib (sc_runner sc) e = Some (p', j)" by (rule sched_entry [OF assms(1,3)])
  ultimately show ?thesis by simp
qed

lemma planned_iff: "sched_ok lib sc \<Longrightarrow> planned lib sc i = Some p \<longleftrightarrow> (\<exists>e. cr_entries lib (sc_runner sc) e = Some (p, i))"
  by (fastforce simp: sched_ok_def planned_def split: option.splits)

lemma NewScheduler_ok:
  "cron_laws lib \<Longrightarrow> NewScheduler lib loc loaded = Inr sc \<Longrightarrow> sched_ok lib sc \<and> (\<forall>i. planned lib sc i = None)"
  by (auto simp: NewScheduler_def sched_ok_def planned_def cron_laws_def split: sum.splits option.splits)

text \<open>The runner after the three sections of \<open>Add\<close>.\<close>

lemma cron_lawsD:
  assumes "cron_laws lib"
  shows "cr_entries lib c (fst (cr_Schedule lib p i c)) = None"
    "cr_entries lib (snd (cr_Schedule lib p i c)) = (cr_entries lib c)(fst (cr_Schedule lib p i c) \<mapsto> (p, i))"
    "cr_entries lib (cr_Remove lib e c) = (cr_entries lib c)(e := None)"
  using assms by (simp_all add: cron_laws_def)

lemma drop_old_entries:
  assumes "sched_ok lib sc"
  shows "cr_entries lib (sc_runner (drop_old lib i sc)) e =
    (if sc_active sc i = Some e then None else cr_entries lib (sc_runner sc) e)"
  using assms by (auto simp: drop_old_def sched_ok_def cron_lawsD split: option.splits)

lemma sched_Add_state:
  assumes "sched_ok lib sc" "expr \<noteq> []" "cr_Parse lib expr = Inr p"
  shows "\<exists>e sc'. sched_Add lib q i expr sc = (None, sc') \<and> cr_entries lib (sc_runner (drop_old lib i sc)) e = None
    \<and> cr_entries lib (sc_runner sc') = (cr_entries lib (sc_runner (drop_old lib i sc)))(e \<mapsto> (p, i))
    \<and> sc_active sc' = (sc_active sc)(i \<mapsto> e)"
proof -
  have "cron_laws lib" using assms(1) by (simp add: sched_ok_def)
  then show ?thesis
    using assms(2,3) cron_lawsD(1,2) [where lib = lib and c = "sc_runner (drop_old lib i sc)" and p = p and i = i]
    by (auto simp: sched_Add_def schedule_new_def record_entry_def drop_old_def split: prod.split option.splits)
qed

lemma sched_Add_ok: "sched_ok lib sc \<Longrightarrow> sched_ok lib (snd (sched_Add lib q i expr sc))"
proof (cases "expr = [] \<or> (\<exists>e. cr_Parse lib expr = Inl e)")
  case False
  assume ok: "sched_ok lib sc"
  obtain p where p: "cr_Parse lib expr = Inr p" using False by (cases "cr_Parse lib expr") auto
  obtain e sc' where "sched_Add lib q i expr sc = (None, sc')" "cr_entries lib (sc_runner (drop_old lib i sc)) e = None"
    "cr_entries lib (sc_runner sc') = (cr_entries lib (sc_runner (drop_old lib i sc)))(e \<mapsto> (p, i))"
    "sc_active sc' = (sc_active sc)(i \<mapsto> e)"
    using sched_Add_state [OF ok _ p] False by blast
  moreover have "sc_active sc j \<noteq> Some d" if "cr_entries lib (sc_runner sc) d = None" for j d
    using sched_entry [OF ok, of j d] that by fastforce
  ultimately show ?thesis using ok sched_inj [OF ok] unfolding sched_ok_def
    by (auto simp: drop_old_entries [OF ok] split: if_splits)
qed (auto simp: sched_Add_def)

lemma planned_Add:
  assumes "sched_ok lib sc" "expr \<noteq> []" "cr_Parse lib expr = Inr p"
  shows "planned lib (snd (sched_Add lib q i expr sc)) = (planned lib sc)(i \<mapsto> p)"
proof -
  obtain e sc' where e: "sched_Add lib q i expr sc = (None, sc')" "cr_entries lib (sc_runner (drop_old lib i sc)) e = None"
    "cr_entries lib (sc_runner sc') = (cr_entries lib (sc_runner (drop_old lib i sc)))(e \<mapsto> (p, i))"
    "sc_active sc' = (sc_active sc)(i \<mapsto> e)"
    using sched_Add_state [OF assms] by blast
  have "planned lib sc' j = ((planned lib sc)(i \<mapsto> p)) j" for j
  proof (cases "sc_active sc j")
    case (Some d)
    obtain x where "cr_entries lib (sc_runner sc) d = Some (x, j)" by (rule sched_entry [OF assms(1) Some])
    moreover have "j \<noteq> i \<longrightarrow> sc_active sc i \<noteq> Some d" using sched_inj [OF assms(1) Some] by auto
    ultimately show ?thesis
      using e(2) Some by (auto simp: planned_def e(3,4) drop_old_entries [OF assms(1)] split: if_splits)
  qed (auto simp: planned_def e(3,4))
  then show ?thesis by (auto simp: e(1))
qed

lemma sched_Remove_ok: "sched_ok lib sc \<Longrightarrow> sched_ok lib (sched_Remove lib i sc)"
  using sched_inj [of lib sc]
  by (auto simp: sched_Remove_def sched_ok_def cron_lawsD split: option.splits if_splits)

lemma planned_Remove:
  assumes "sched_ok lib sc"
  shows "planned lib (sched_Remove lib i sc) = (planned lib sc)(i := None)"
proof -
  have "sc_active sc j \<noteq> Some e" if "sc_active sc i = Some e" "j \<noteq> i" for e j
    using sched_inj [OF assms that(1)] that(2) by auto
  then show ?thesis
    using assms by (auto simp: planned_def sched_Remove_def fun_eq_iff sched_ok_def cron_lawsD split: option.splits)
qed

text \<open>The scheduler as the schedule that the strategy service needs.\<close>

definition scheduler_ops :: "('c, 'p) cron_lib \<Rightarrow> (string \<Rightarrow> string) \<Rightarrow> 'c scheduler reloader" where
  "scheduler_ops lib q = \<lparr>rl_Add = sched_Add lib q, rl_Remove = sched_Remove lib\<rparr>"

interpretation cron: reloading "scheduler_ops lib q" "cr_Parse lib" "planned lib" "sched_ok lib"
  for lib :: "('c, 'p) cron_lib" and q
  by unfold_locales (simp_all add: scheduler_ops_def planned_Add planned_Remove sched_Add_ok sched_Remove_ok)

lemma planned_load:
  assumes "sched_ok lib sc" "distinct (map fst xs)"
    and "\<forall>(i, s)\<in>set xs. st_CronExpression s \<noteq> [] \<and> is_ok (cr_Parse lib (st_CronExpression s))"
  shows "sched_ok lib (fold (\<lambda>(i, s) sc. snd (sched_Add lib q i (st_CronExpression s) sc)) xs sc)
    \<and> (planned lib (fold (\<lambda>(i, s) sc. snd (sched_Add lib q i (st_CronExpression s) sc)) xs sc) j = Some p \<longleftrightarrow>
        (if j \<in> fst ` set xs then \<exists>s. (j, s) \<in> set xs \<and> cr_Parse lib (st_CronExpression s) = Inr p
         else planned lib sc j = Some p))"
  using assms
proof (induction xs arbitrary: sc)
  case (Cons x xs)
  obtain i s where x: "x = (i, s)" by force
  obtain y where y: "cr_Parse lib (st_CronExpression s) = Inr y" "st_CronExpression s \<noteq> []"
    using Cons.prems(3) by (auto simp: x is_ok_def split: sum.splits)
  have "sched_ok lib (snd (sched_Add lib q i (st_CronExpression s) sc))" by (rule sched_Add_ok [OF Cons.prems(1)])
  from Cons.IH [OF this] Cons.prems(2,3) show ?case
    using planned_Add [OF Cons.prems(1) y(2,1), of q i] y(1) by (force simp: x image_iff)
qed simp

text \<open>C18: Whatever requests the strategy service has served since the tables and the schedule were
  empty, with whatever statement failures: the cron runner has exactly one entry, that of the current
  expression, for a strategy that is active and has an expression, and none for any other strategy
  in the table; and a restart, that is a new scheduler that loads the table, makes the same entries.
  (The entry of a deleted strategy is not removed: the statement is about the table.)\<close>

theorem schedule_follows_table:
  assumes "cron_laws lib" "NewScheduler lib loc loaded = Inr sc0"
    and "\<forall>(env, req)\<in>set reqs. \<forall>e. se_cron env e = (case cr_Parse lib e of Inl t \<Rightarrow> Some t | Inr _ \<Rightarrow> None)"
    and "fold (strategy_step (Some (scheduler_ops lib q))) reqs (Some empty_strategies, sc0) = (Some db, sc)"
    and "tb_first i (sd_strategies db) = Some s"
    and "due = (\<lambda>p. st_Status s = StrategyStatusActive \<and> st_CronExpression s \<noteq> []
            \<and> cr_Parse lib (st_CronExpression s) = Inr p)"
  shows "(\<forall>p. (\<exists>e. cr_entries lib (sc_runner sc) e = Some (p, i)) \<longleftrightarrow> due p)
    \<and> (\<forall>e e' p p'. cr_entries lib (sc_runner sc) e = Some (p, i) \<and> cr_entries lib (sc_runner sc) e' = Some (p', i) \<longrightarrow> e = e')
    \<and> (\<forall>p. (\<exists>e. cr_entries lib (sc_runner (snd (LoadFromDB lib q None (Some db) sc0))) e = Some (p, i)) \<longleftrightarrow> due p)"
proof -
  let ?wanted = "reloading.wanted (cr_Parse lib)" and ?parsed = "reloading.parsed (cr_Parse lib)"
  let ?in_sync = "reloading.in_sync (cr_Parse lib) (planned lib) (sched_ok lib)"
  note sc0 = NewScheduler_ok [OF assms(1,2)]
  have "reloading.synced (cr_Parse lib) (planned lib) (sched_ok lib) (Some empty_strategies, sc0)" using sc0 by (intro cron.synced_empty) auto
  moreover have "\<forall>er\<in>set reqs. reloading.same_parser (cr_Parse lib) (fst er)"
    using assms(3) by (auto simp: cron.same_parser_def)
  ultimately have "reloading.synced (cr_Parse lib) (planned lib) (sched_ok lib)
      (fold (strategy_step (Some (scheduler_ops lib q))) reqs (Some empty_strategies, sc0))"
    by (rule cron.synced_fold)
  then have sync: "?in_sync db sc" by (simp add: assms(4) cron.synced_def)
  have rows: "planned lib sc j = ?wanted r" "?parsed r" if "tb_first j (sd_strategies db) = Some r" for j r
    using sync that by (auto simp: cron.in_sync_def tbl.all_rows_def)
  have ok: "sched_ok lib sc" and t: "tb_ok (sd_strategies db)"
    using sync by (simp_all add: cron.in_sync_def tbl.all_rows_def)
  have wanted: "?wanted s = Some p \<longleftrightarrow> due p" for p
    by (auto simp: cron.wanted_def assms(6) split: sum.splits)
  define xs where "xs = tb_where (\<lambda>s. st_Status s = StrategyStatusActive \<and> st_CronExpression s \<noteq> []) (sd_strategies db)"
  have xs: "(j, r) \<in> set xs \<longleftrightarrow> tb_first j (sd_strategies db) = Some r \<and> st_Status r = StrategyStatusActive
      \<and> st_CronExpression r \<noteq> []" for j r
    by (auto simp: xs_def tb_where_def tb_rows_first [OF t])
  have "distinct (map fst (tb_rows (sd_strategies db)))" using t by (simp add: tb_ok_def strict_sorted_iff)
  then have d: "distinct (map fst xs)" unfolding xs_def tb_where_def by (rule distinct_map_filter)
  have "\<forall>(i, s)\<in>set xs. st_CronExpression s \<noteq> [] \<and> is_ok (cr_Parse lib (st_CronExpression s))"
    using rows(2) xs by (auto simp: cron.parsed_def)
  note load = planned_load [OF conjunct1 [OF sc0] d this, of q]
  have "planned lib (snd (LoadFromDB lib q None (Some db) sc0)) i = Some p \<longleftrightarrow> due p" for p
    using load [of i p] sc0 xs assms(5) by (force simp: LoadFromDB_def xs_def [symmetric] assms(6) image_iff)
  moreover have loaded: "sched_ok lib (snd (LoadFromDB lib q None (Some db) sc0))"
    using load by (simp add: LoadFromDB_def xs_def [symmetric])
  moreover have "\<forall>e e' p p'. cr_entries lib (sc_runner sc) e = Some (p, i) \<and> cr_entries lib (sc_runner sc) e' = Some (p', i) \<longrightarrow> e = e'"
    using sched_active [OF ok] by (metis option.inject)
  ultimately show ?thesis using planned_iff [OF ok, of i] planned_iff [OF loaded, of i] rows(1) [OF assms(5)] wanted by simp
qed

section \<open>Concurrent calls of Add\<close>

text \<open>A goroutine inside \<open>Add\<close>, between two sections.\<close>

datatype 'p add_pc =
    Add_remove nat 'p
  | Add_schedule nat 'p
  | Add_record nat nat
  | Add_returned

fun add_section :: "('c, 'p) cron_lib \<Rightarrow> 'p add_pc \<Rightarrow> 'c scheduler \<Rightarrow> 'p add_pc \<times> 'c scheduler" where
  "add_section lib (Add_remove i p) sc = (Add_schedule i p, drop_old lib i sc)"
| "add_section lib (Add_schedule i p) sc = map_prod (Add_record i) id (schedule_new lib p i sc)"
| "add_section lib (Add_record i e) sc = (Add_returned, record_entry i e sc)"
| "add_section lib Add_returned sc = (Add_returned, sc)"

text \<open>Goroutines that take turns: \<open>turns\<close> lists which one runs its next section.\<close>

fun add_turn ::
  "('c, 'p) cron_lib \<Rightarrow> nat \<Rightarrow> 'p add_pc list \<times> 'c scheduler \<Rightarrow> 'p add_pc list \<times> 'c scheduler" where
  "add_turn lib t (pcs, sc) = map_prod (\<lambda>pc. pcs[t := pc]) id (add_section lib (pcs ! t) sc)"

definition add_turns ::
  "('c, 'p) cron_lib \<Rightarrow> nat list \<Rightarrow> 'p add_pc list \<times> 'c scheduler \<Rightarrow> 'p add_pc list \<times> 'c scheduler" where
  "add_turns lib turns = fold (add_turn lib) turns"

lemma add_alone:
  "expr \<noteq> [] \<Longrightarrow> cr_Parse lib expr = Inr p \<Longrightarrow>
   add_turns lib [0, 0, 0] ([Add_remove i p], sc) = ([Add_returned], snd (sched_Add lib q i expr sc))"
  by (simp add: add_turns_def sched_Add_def map_prod_def split: prod.splits)

lemma add_alone_entries:
  assumes "sched_ok lib sc"
  shows "\<exists>e. \<forall>e' x. cr_entries lib (sc_runner (snd (add_turns lib [0, 0, 0] ([Add_remove i p], sc)))) e' = Some (x, i)
    \<longleftrightarrow> e' = e \<and> x = p"
proof -
  have laws: "cron_laws lib" using assms by (simp add: sched_ok_def)
  obtain e sc1 where e: "schedule_new lib p i (drop_old lib i sc) = (e, sc1)" by force
  then have run: "snd (add_turns lib [0, 0, 0] ([Add_remove i p], sc)) = record_entry i e sc1"
    by (simp add: add_turns_def)
  have "cr_entries lib (sc_runner sc1) = (cr_entries lib (sc_runner (drop_old lib i sc)))(e \<mapsto> (p, i))"
    using e cron_lawsD(2) [OF laws, where c = "sc_runner (drop_old lib i sc)" and p = p and i = i]
    by (auto simp: schedule_new_def split: prod.splits)
  then show ?thesis
    unfolding run using assms
    by (intro exI [of _ e]) (auto simp: record_entry_def drop_old_entries [OF assms] sched_ok_def)
qed

text \<open>A further call, by one goroutine at a time.\<close>

datatype sched_call =
    Call_Add nat string
  | Call_Remove nat

fun sched_calls :: "('c, 'p) cron_lib \<Rightarrow> (string \<Rightarrow> string) \<Rightarrow> sched_call list \<Rightarrow> 'c scheduler \<Rightarrow> 'c scheduler" where
  "sched_calls lib q [] sc = sc"
| "sched_calls lib q (Call_Add i expr # cs) sc = sched_calls lib q cs (snd (sched_Add lib q i expr sc))"
| "sched_calls lib q (Call_Remove i # cs) sc = sched_calls lib q cs (sched_Remove lib i sc)"

text \<open>An entry that the scheduler does not know stays.\<close>

definition orphan :: "('c, 'p) cron_lib \<Rightarrow> 'c scheduler \<Rightarrow> nat \<Rightarrow> 'p \<times> nat \<Rightarrow> bool" where
  "orphan lib sc e x \<longleftrightarrow> cr_entries lib (sc_runner sc) e = Some x \<and> (\<forall>j. sc_active sc j \<noteq> Some e)"

lemma orphan_Remove: "cron_laws lib \<Longrightarrow> orphan lib sc e x \<Longrightarrow> orphan lib (sched_Remove lib i sc) e x"
  by (auto simp: orphan_def sched_Remove_def cron_lawsD(3) split: option.splits)

lemma orphan_Add:
  assumes "cron_laws lib" "orphan lib sc e x"
  shows "orphan lib (snd (sched_Add lib q i expr sc)) e x"
proof -
  have dropped: "orphan lib (drop_old lib i sc) e x"
    using assms by (auto simp: orphan_def drop_old_def cron_lawsD(3) split: option.splits)
  have "orphan lib (record_entry i e' sc') e x" if "schedule_new lib p i (drop_old lib i sc) = (e', sc')" for p e' sc'
    using that dropped cron_lawsD(1,2) [OF assms(1), where c = "sc_runner (drop_old lib i sc)" and p = p and i = i]
    by (auto simp: orphan_def schedule_new_def record_entry_def split: prod.splits)
  then show ?thesis using assms(2) by (auto simp: sched_Add_def split: sum.splits prod.splits)
qed

lemma orphan_stays: "cron_laws lib \<Longrightarrow> orphan lib sc e x \<Longrightarrow> orphan lib (sched_calls lib q cs sc) e x"
  by (induction lib q cs sc rule: sched_calls.induct) (simp_all add: orphan_Add orphan_Remove)

text \<open>C19: \<open>Add\<close> is documented to be safe to call concurrently.  From a consistent state, one call alone
  leaves exactly one entry for the strategy, that of its expression; but when the sections of two
  calls for the same strategy alternate, both return with an entry of their own in the runner, of
  which the scheduler knows only the later: the other one keeps firing the strategy, whatever calls
  of \<open>Add\<close> and \<open>Remove\<close>, for whatever strategies, are made one after the other from then on.\<close>

theorem concurrent_Add_leaks:
  assumes "sched_ok lib sc" "add_turns lib [0, 1, 0, 1, 0, 1] ([Add_remove i p, Add_remove i p'], sc) = (pcs, sc')"
  shows "pcs = [Add_returned, Add_returned]
    \<and> (\<exists>e. \<forall>e' x. cr_entries lib (sc_runner (snd (add_turns lib [0, 0, 0] ([Add_remove i p], sc)))) e' = Some (x, i)
         \<longleftrightarrow> e' = e \<and> x = p)
    \<and> (\<exists>e e'. e \<noteq> e' \<and> cr_entries lib (sc_runner sc') e = Some (p, i) \<and> cr_entries lib (sc_runner sc') e' = Some (p', i)
         \<and> sc_active sc' i = Some e'
         \<and> sc_active (sched_Remove lib i sc') i = None
         \<and> (\<forall>q calls. cr_entries lib (sc_runner (sched_calls lib q calls sc')) e = Some (p, i)))"
proof -
  have laws: "cron_laws lib" using assms(1) by (simp add: sched_ok_def)
  define sc2 where "sc2 = drop_old lib i (drop_old lib i sc)"
  obtain e sc3 where e: "schedule_new lib p i sc2 = (e, sc3)" by force
  obtain e' sc4 where e': "schedule_new lib p' i sc3 = (e', sc4)" by force
  have run: "pcs = [Add_returned, Add_returned]" "sc' = record_entry i e' (record_entry i e sc4)"
    using assms(2) e e' by (simp_all add: add_turns_def sc2_def)
  have entries: "cr_entries lib (sc_runner sc3) e = Some (p, i)" "e' \<noteq> e"
    "cr_entries lib (sc_runner sc4) = (cr_entries lib (sc_runner sc3))(e' \<mapsto> (p', i))"
    and fresh: "cr_entries lib (sc_runner sc2) e = None" and active: "sc_active sc4 = sc_active sc"
    using e e' cron_lawsD(1,2) [OF laws, where c = "sc_runner sc2" and p = p and i = i]
      cron_lawsD(1,2) [OF laws, where c = "sc_runner sc3" and p = p' and i = i]
    by (auto simp: schedule_new_def sc2_def drop_old_def split: prod.splits option.splits)
  have "sc_active sc j \<noteq> Some e" if "j \<noteq> i" for j
  proof
    assume j: "sc_active sc j = Some e"
    obtain x where "cr_entries lib (sc_runner sc) e = Some (x, j)" by (rule sched_entry [OF assms(1) j])
    moreover have "sc_active sc i \<noteq> Some e" using sched_inj [OF assms(1) j] that by auto
    ultimately show False
      using fresh by (auto simp: sc2_def drop_old_def cron_lawsD(3) [OF laws] split: option.splits)
  qed
  then have "orphan lib sc' e (p, i)" using entries active by (simp add: orphan_def run(2) record_entry_def)
  then have "orphan lib (sched_calls lib q calls sc') e (p, i)" for q calls by (rule orphan_stays [OF laws])
  then have stays: "\<forall>q calls. cr_entries lib (sc_runner (sched_calls lib q calls sc')) e = Some (p, i)"
    by (simp add: orphan_def)
  have now: "cr_entries lib (sc_runner sc') e = Some (p, i)" "cr_entries lib (sc_runner sc') e' = Some (p', i)"
    "sc_active sc' i = Some e'" "sc_active (sched_Remove lib i sc') i = None"
    using entries by (simp_all add: run(2) record_entry_def sched_Remove_def)
  show ?thesis
    by (intro conjI run(1) add_alone_entries [OF assms(1)], rule exI [of _ e], rule exI [of _ e'], intro conjI)
      (use entries(2) now stays in simp_all)
qed

section \<open>Runs that are fired\<close>

lemma fire_Started:
  "fst (fire hook exec cdb clock now i (Some s)) = Started d \<Longrightarrow>
   \<not> hook \<and> exec = Some d \<and> fst (IsTradingDay cdb clock now s) \<and> IsInTradingSession s now"
  using IsTradingDay_cfg [of cdb clock now s]
  by (cases "IsTradingDay cdb clock now s") (auto simp: fire_def cfgExecutorTimeout_def IsInTradingSession_def Let_def split: prod.splits if_splits option.splits)

text \<open>What an execution that cron asked for does to the runs.\<close>

lemma cron_execution:
  assumes "run_Execute env sdb (cron_request i) c db evs (ir, err) db'" "tb_ok (rd_runs db)"
  shows "ir = None \<and> db' = db \<or>
    (\<exists>j r. tb_first j (rd_runs db) = None \<and> tb_first j (rd_runs db') = Some r \<and> rn_StrategyID r = i
       \<and> rn_TriggerType r = RunTriggerCron \<and> (\<forall>k. k \<noteq> j \<longrightarrow> tb_first k (rd_runs db') = tb_first k (rd_runs db)))"
  using assms(1)
proof (cases rule: run_Execute.cases)
  case (run_real sid g run db1 evs' sm err' order run')
  obtain j row where j: "run = (j, row)" by force
  have "load_graph env sdb i = Inr (detail, g) \<Longrightarrow> dt_ID detail = i" for detail
    by (auto simp: load_graph_def strat_Get_def and_then_Inr Let_def split: if_splits option.splits)
  then have c: "rd_runs db1 = snd (tb_create row (rd_runs db))" "j = fst (tb_create row (rd_runs db))"
    "rn_StrategyID row = i" "rn_TriggerType row = RunTriggerCron"
    using run_real(4)
    by (auto simp: j cron_request_def prepare_run_def and_then_Inr create_run_def new_run_def triggerOrDefault_def
        run_text_defs Let_def tb_create_def split: prod.splits)
  note f = finish_run_effect [OF run_real(8) [unfolded j]]
  have keep: "rn_StrategyID (finalizeRun env sm err' row) = i" "rn_TriggerType (finalizeRun env sm err' row) = RunTriggerCron"
    using c(3,4) by (auto simp: finalizeRun_def Let_def split: option.splits)
  show ?thesis
    using f keep c tbl.create_fresh [OF assms(2), of row]
    by (intro disjI2 exI [of _ j] exI [of _ "if xe_save env = None then finalizeRun env sm err' row else row"])
      (auto simp: tbl.first_create [OF assms(2)] tbl.first_save tbl.ok_create [OF assms(2)])
next
  case (run_rejected e)
  then show ?thesis by simp
next
  case (run_dry sid g evs sm err)
  then show ?thesis by (auto simp: cron_request_def prepare_run_def and_then_Inr split: option.splits)
qed

text \<open>C20: A firing of the scheduler changes the runs only on a trading day and inside a trading session,
  as the calendar sees them, with an executor wired and no test hook; then it adds one run, of that
  strategy and triggered by cron, and leaves all other runs as they were.\<close>

theorem cron_run_gated:
  assumes "cron_run env hook exec cdb clock now i (Some s) sdb ctx_done db db'" "rd_runs db' \<noteq> rd_runs db" "tb_ok (rd_runs db)"
  shows "fst (IsTradingDay cdb clock now s) \<and> IsInTradingSession s now \<and> \<not> hook \<and> exec \<noteq> None
    \<and> (\<exists>j r. tb_first j (rd_runs db) = None \<and> tb_first j (rd_runs db') = Some r \<and> rn_StrategyID r = i
         \<and> rn_TriggerType r = RunTriggerCron
         \<and> (\<forall>k. k \<noteq> j \<longrightarrow> tb_first k (rd_runs db') = tb_first k (rd_runs db)))"
  using assms(1)
proof (cases rule: cron_run.cases)
  case (cron_skipped res)
  then show ?thesis using assms(2) by simp
next
  case (cron_started d evs r)
  obtain ir err where r: "r = (ir, err)" by force
  show ?thesis
    using fire_Started [OF cron_started(1)] assms(2)
      cron_execution [OF cron_started(2) [unfolded r] assms(3)] by auto
qed

section \<open>A concrete runner\<close>

definition demo_cron :: "((nat \<times> string \<times> nat) list, string) cron_lib" where
  "demo_cron = \<lparr>cr_new = [], cr_Parse = Inr,
     cr_Schedule = (\<lambda>p i c. let e = Suc (sum_list (map fst c)) in (e, (e, p, i) # c)),
     cr_Remove = (\<lambda>e. filter (\<lambda>x. fst x \<noteq> e)), cr_entries = map_of\<rparr>"

lemma demo_cron_laws: "cron_laws demo_cron"
proof -
  have fresh: "map_of c (Suc (sum_list (map fst c))) = None" for c :: "(nat \<times> string \<times> nat) list"
  proof -
    have "e \<le> sum_list (map fst c)" if "e \<in> set (map fst c)" for e using member_le_sum_list that by blast
    then show ?thesis unfolding map_of_eq_None_iff using not_less_eq_eq by auto
  qed
  have "map_of (filter (\<lambda>x. fst x \<noteq> e) c) = (map_of c)(e := None)" for e and c :: "(nat \<times> string \<times> nat) list"
    by (induction c) auto
  then show ?thesis by (simp add: cron_laws_def demo_cron_def Let_def fresh)
qed

definition demo_scheduler :: "(nat \<times> string \<times> nat) list scheduler" where
  "demo_scheduler = \<lparr>sc_runner = [], sc_active = Map.empty, sc_location = 0\<rparr>"

lemma demo_scheduler_new: "NewScheduler demo_cron (Some 0) (Inl ''unused'') = Inr demo_scheduler"
  by (simp add: NewScheduler_def demo_cron_def demo_scheduler_def)

lemma strategy_step_db: "fst (strategy_step rl er st) = fst (strategy_step None er (fst st, ()))"
  by (cases "(rl, er, st)" rule: strategy_step.cases)
    (auto simp: strat_Update_def map_prod_def split: prod.splits option.splits sum.splits)

lemma strategy_fold_db: "fst (fold (strategy_step rl) reqs st) = fst (fold (strategy_step None) reqs (fst st, ()))"
proof (induction reqs arbitrary: st)
  case (Cons er reqs)
  show ?case
    using Cons.IH [of "strategy_step rl er st"] strategy_step_db [of rl er st]
    by (metis fold_simps(2) prod.collapse unit_eq)
qed simp

theorem schedule_follows_table_witness:
  "\<exists>sc. fold (strategy_step (Some (scheduler_ops demo_cron id))) demo_requests (Some empty_strategies, demo_scheduler)
      = (Some demo_db, sc) \<and> (\<exists>e. cr_entries demo_cron (sc_runner sc) e = Some (''@daily'', 1))"
proof -
  obtain sc where run: "fold (strategy_step (Some (scheduler_ops demo_cron id))) demo_requests (Some empty_strategies, demo_scheduler)
      = (Some demo_db, sc)"
    using strategy_fold_db [of "Some (scheduler_ops demo_cron id)" demo_requests "(Some empty_strategies, demo_scheduler)"]
      demo_requests_run by (metis fst_conv prod.collapse)
  have "\<forall>(env, req)\<in>set demo_requests. \<forall>e. se_cron env e = (case cr_Parse demo_cron e of Inl t \<Rightarrow> Some t | Inr _ \<Rightarrow> None)"
    by (simp add: demo_requests_def demo_env_def demo_cron_def)
  from schedule_follows_table [OF demo_cron_laws demo_scheduler_new this run demo_first refl]
  show ?thesis using run by (intro exI [of _ sc]) (simp add: demo_strategy_def status_defs demo_cron_def)
qed

theorem concurrent_Add_leaks_witness:
  "\<exists>sc' e. add_turns demo_cron [0, 1, 0, 1, 0, 1] ([Add_remove 7 ''a'', Add_remove 7 ''b''], demo_scheduler)
      = ([Add_returned, Add_returned], sc')
    \<and> sc_active (sched_Remove demo_cron 7 sc') 7 = None
    \<and> map_of (sc_runner (sched_calls demo_cron id [Call_Remove 7, Call_Add 7 ''c'', Call_Remove 7] sc')) e = Some (''a'', 7)"
proof -
  obtain pcs sc' where run: "add_turns demo_cron [0, 1, 0, 1, 0, 1]
     ([Add_remove 7 ''a'', Add_remove 7 ''b''], demo_scheduler) = (pcs, sc')" by force
  have entries: "cr_entries demo_cron = map_of" by (simp add: demo_cron_def)
  have "sched_ok demo_cron demo_scheduler" using NewScheduler_ok [OF demo_cron_laws demo_scheduler_new] by simp
  note leak = concurrent_Add_leaks [OF this run, unfolded entries]
  from leak have "pcs = [Add_returned, Add_returned]" by (rule conjunct1)
  moreover from leak obtain e where "sc_active (sched_Remove demo_cron 7 sc') 7 = None"
    "\<forall>q calls. map_of (sc_runner (sched_calls demo_cron q calls sc')) e = Some (''a'', 7)"
    by (elim conjE exE) (rule that)
  ultimately show ?thesis using run by (intro exI [of _ sc'] exI [of _ e]) (simp only: simp_thms)
qed

text \<open>A firing at ten o'clock on the day of the epoch, which the calendar lists as a trading day.\<close>

definition demo_calendar :: calendar where
  "demo_calendar = \<lparr>cal_cache = Map.empty, cal_cfg = \<lparr>timezone = 0, morningStart = 570, morningEnd = 690,
     afternoonStart = 780, afternoonEnd = 900, reviewStart = 900, reviewEnd = 960\<rparr>\<rparr>"

definition demo_fired_at :: instant where
  "demo_fired_at = 10 * nano_hour"

lemma demo_fire:
  "fst (fire False (Some 300) (Some (DbRows [(0, True)])) 0 demo_fired_at 1 (Some demo_calendar)) = Started 300"
  by (simp add: fire_def demo_calendar_def demo_fired_at_def IsTradingDay_def cal_lookup_def cal_key_def day_of_def
      midnight_def IsInTradingSession_def minute_of_def cfgExecutorTimeout_def no_day_def day_unit_defs Let_def)

theorem cron_run_gated_witness:
  "\<exists>db'. cron_run demo_run_env False (Some 300) (Some (DbRows [(0, True)])) 0 demo_fired_at 1 (Some demo_calendar)
      (Some demo_db) False no_runs db'
    \<and> (\<exists>j r. tb_first j (rd_runs db') = Some r \<and> rn_TriggerType r = ''cron'')"
proof -
  have load: "load_graph demo_run_env (Some demo_db) (rq_StrategyID (cron_request 1)) = Inr (demo_detail, demo_sorted_dag)"
    using demo_load by (simp add: cron_request_def demo_request_def)
  have "\<not> rq_DryRun (cron_request 1)" by (simp add: cron_request_def)
  from run_Execute_exists [OF load this demo_request_facts(2,3)] obtain evs ir err db' where
    run: "run_Execute demo_run_env (Some demo_db) (cron_request 1) False no_runs evs (Some ir, err) db'" by blast
  have changed: "rd_runs db' \<noteq> rd_runs no_runs"
    using cron_execution [OF run demo_request_facts(6)] by auto
  have fired: "cron_run demo_run_env False (Some 300) (Some (DbRows [(0, True)])) 0 demo_fired_at 1 (Some demo_calendar)
      (Some demo_db) False no_runs db'"
    by (rule cron_started [OF demo_fire run])
  from cron_run_gated [OF fired changed demo_request_facts(6)] show ?thesis
    using fired by (intro exI [of _ db']) (auto simp: run_text_defs)
qed

end
