(* ===== verification/Llm_Settings.thy ===== *)
theory Llm_Settings
  imports Llm_Client App_Error Row_Table
begin

text \<open>
  The runtime settings of the language model, \<open>settings/service.go\<close>: the legacy single row, the ordered
  chain of providers that replaced it, and the live client.  \<open>fail n\<close> is the error of the \<open>n\<close>-th statement
  of a call.  A read for which the code only tests the error finds nothing when it fails.  Rows of equal
  priority, which no operation here creates, are taken in the order of their identifiers.
\<close>

section \<open>State\<close>

record llm_setting =
  ls_Enabled :: bool
  ls_Provider :: string
  ls_BaseURL :: string
  ls_APIKey :: string
  ls_Model :: string

record llm_provider = llm_setting +
  lp_Priority :: int

record settings_db =
  sg_setting :: "llm_setting option"
  sg_providers :: "llm_provider table"

record settings =
  sv_db :: "settings_db option"
  sv_provider :: "client option"
  sv_timeout :: duration

definition NewSettings :: "settings_db option \<Rightarrow> client option \<Rightarrow> duration \<Rightarrow> settings" where
  "NewSettings db p timeout = \<lparr>sv_db = db, sv_provider = p, sv_timeout = positive_or (30 * nano_second) timeout\<rparr>"

type_synonym failures = "nat \<Rightarrow> string option"

definition no_settings_db :: biz_error where
  "no_settings_db = Unavailable ''settings: db not configured''"

definition mask :: "string \<Rightarrow> string" where
  "mask s =
     (if s = [] then []
      else if length s \<le> 8 then ''****''
      else take 4 s @ bytes [226, 128, 166] @ drop (length s - 4) s)"

definition build :: "('a llm_setting_scheme) \<Rightarrow> duration \<Rightarrow> string + client" where
  "build r timeout = BuildClient (ls_Provider r) (ls_BaseURL r) (ls_APIKey r) (ls_Model r) timeout"

section \<open>The single row\<close>

record llm_view =
  lv_Enabled :: bool
  lv_Provider :: string
  lv_BaseURL :: string
  lv_APIKeySet :: bool
  lv_APIKeyMasked :: string
  lv_Model :: string
  lv_Active :: string

definition first_setting :: "failures \<Rightarrow> nat \<Rightarrow> settings_db \<Rightarrow> llm_setting option" where
  "first_setting fail k db = (if fail k = None then sg_setting db else None)"

definition settings_Get :: "failures \<Rightarrow> nat \<Rightarrow> settings \<Rightarrow> biz_error + llm_view" where
  "settings_Get fail k s =
     (case sv_db s of
        None \<Rightarrow> Inl no_settings_db
      | Some db \<Rightarrow>
          let active = provider_Name (sv_provider s)
          in Inr (case first_setting fail k db of
               None \<Rightarrow> \<lparr>lv_Enabled = False, lv_Provider = [], lv_BaseURL = [], lv_APIKeySet = False,
                        lv_APIKeyMasked = [], lv_Model = [], lv_Active = active\<rparr>
             | Some row \<Rightarrow> \<lparr>lv_Enabled = ls_Enabled row, lv_Provider = ls_Provider row, lv_BaseURL = ls_BaseURL row,
                            lv_APIKeySet = (ls_APIKey row \<noteq> []), lv_APIKeyMasked = mask (ls_APIKey row),
                            lv_Model = ls_Model row, lv_Active = active\<rparr>))"

text \<open>\<open>apply\<close> swaps the live client.\<close>

definition settings_apply :: "llm_setting \<Rightarrow> settings \<Rightarrow> settings" where
  "settings_apply row s =
     s\<lparr>sv_provider :=
         (if \<not> ls_Enabled row then None
          else case build row (sv_timeout s) of Inl _ \<Rightarrow> None | Inr c \<Rightarrow> Some c)\<rparr>"

text \<open>An input is a row, the key it has and whether an empty key means the stored one.\<close>

record save_input = llm_setting +
  si_KeepKey :: bool

definition kept_key :: "save_input \<Rightarrow> string \<Rightarrow> string" where
  "kept_key inp stored = (if si_KeepKey inp \<and> ls_APIKey inp = [] then stored else ls_APIKey inp)"

definition settings_Save :: "failures \<Rightarrow> save_input \<Rightarrow> settings \<Rightarrow> (biz_error + llm_view) \<times> settings" where
  "settings_Save fail inp s =
     (case sv_db s of
        None \<Rightarrow> (Inl no_settings_db, s)
      | Some db \<Rightarrow>
          let stored = (case first_setting fail 0 db of None \<Rightarrow> [] | Some row \<Rightarrow> ls_APIKey row);
              row = (llm_setting.truncate inp)\<lparr>ls_APIKey := kept_key inp stored\<rparr>
          in case (if ls_Enabled inp then build row (sv_timeout s) else Inr MockClient) of
               Inl msg \<Rightarrow> (Inl (InvalidArg msg), s)
             | Inr _ \<Rightarrow>
                 (case fail 1 of
                    Some e \<Rightarrow> (Inl (wrap_error CodeInternal ''settings: save'' e), s)
                  | None \<Rightarrow>
                      let s' = settings_apply row (s\<lparr>sv_db := Some (db\<lparr>sg_setting := Some row\<rparr>)\<rparr>)
                      in (settings_Get fail 2 s', s')))"

definition LoadOnStart :: "failures \<Rightarrow> settings \<Rightarrow> settings" where
  "LoadOnStart fail s =
     (case sv_db s of
        None \<Rightarrow> s
      | Some db \<Rightarrow> (case first_setting fail 0 db of None \<Rightarrow> s | Some row \<Rightarrow> settings_apply row s))"

definition test_call :: "'w llm_env \<Rightarrow> string + client \<Rightarrow> 'w \<Rightarrow> biz_error option \<times> 'w" where
  "test_call env built w =
     (case built of
        Inl msg \<Rightarrow> (Some (InvalidArg msg), w)
      | Inr c \<Rightarrow>
          (case client_ask env (AskSummary (bytes [228, 189, 160, 230, 152, 175, 232, 191, 158, 230, 142, 165, 230,
            181, 139, 232, 175, 149, 229, 138, 169, 230, 137, 139, 227, 128, 130]) (bytes [229, 155, 158, 229, 164,
            141, 32, 79, 75, 32, 228, 184, 164, 228, 184, 170, 229, 173, 151, 229, 141, 179, 229, 143, 175, 227,
            128, 130])) c w of
             (Inl e, w') \<Rightarrow> (Some (wrap_error CodeInternal ''settings: test connection failed'' e), w')
           | (Inr _, w') \<Rightarrow> (None, w')))"

definition settings_Test :: "'w llm_env \<Rightarrow> failures \<Rightarrow> save_input \<Rightarrow> settings \<Rightarrow> 'w \<Rightarrow> biz_error option \<times> 'w" where
  "settings_Test env fail inp s w =
     (let stored = (case Option.bind (sv_db s) (first_setting fail 0) of None \<Rightarrow> [] | Some row \<Rightarrow> ls_APIKey row)
      in test_call env (build (inp\<lparr>ls_APIKey := kept_key inp stored\<rparr>) (sv_timeout s)) w)"

section \<open>The chain\<close>

record provider_input = save_input +
  pi_ID :: nat

record provider_view =
  pv_ID :: nat
  pv_Priority :: int
  pv_Enabled :: bool
  pv_Provider :: string
  pv_BaseURL :: string
  pv_APIKeySet :: bool
  pv_APIKeyMasked :: string
  pv_Model :: string

record chain_view =
  cv_Providers :: "provider_view list"
  cv_Active :: string

definition view_row :: "nat \<times> llm_provider \<Rightarrow> provider_view" where
  "view_row ir =
     (case ir of (i, r) \<Rightarrow>
        \<lparr>pv_ID = i, pv_Priority = lp_Priority r, pv_Enabled = ls_Enabled r, pv_Provider = ls_Provider r,
         pv_BaseURL = ls_BaseURL r, pv_APIKeySet = (ls_APIKey r \<noteq> []), pv_APIKeyMasked = mask (ls_APIKey r),
         pv_Model = ls_Model r\<rparr>)"

definition by_priority :: "llm_provider table \<Rightarrow> (nat \<times> llm_provider) list" where
  "by_priority t = sort_key (\<lambda>(i, r). lp_Priority r) (tb_rows t)"

definition legacy_row :: "llm_setting \<Rightarrow> llm_provider" where
  "legacy_row r = llm_setting.extend r (llm_provider.fields 0)"

text \<open>An empty table is filled from the legacy row, as far as the statements succeed.\<close>

definition loadProviderRows ::
  "failures \<Rightarrow> nat \<Rightarrow> settings_db \<Rightarrow> (biz_error + (nat \<times> llm_provider) list) \<times> settings_db" where
  "loadProviderRows fail k db =
     (case fail k of
        Some e \<Rightarrow> (Inl (wrap_error CodeInternal ''settings: load providers'' e), db)
      | None \<Rightarrow>
          if tb_rows (sg_providers db) \<noteq> [] then (Inr (by_priority (sg_providers db)), db)
          else (case first_setting fail (k + 1) db of
                  Some legacy \<Rightarrow>
                    if fail (k + 2) = None
                    then (case tb_create (legacy_row legacy) (sg_providers db) of
                            (i, t) \<Rightarrow> (Inr [(i, legacy_row legacy)], db\<lparr>sg_providers := t\<rparr>))
                    else (Inr [], db)
                | None \<Rightarrow> (Inr [], db)))"

definition GetChain :: "failures \<Rightarrow> nat \<Rightarrow> settings \<Rightarrow> (biz_error + chain_view) \<times> settings" where
  "GetChain fail k s =
     (case sv_db s of
        None \<Rightarrow> (Inl no_settings_db, s)
      | Some db \<Rightarrow>
          (case loadProviderRows fail k db of
             (r, db') \<Rightarrow>
               (map_sum id (\<lambda>rows. \<lparr>cv_Providers = map view_row rows, cv_Active = provider_Name (sv_provider s)\<rparr>) r,
                s\<lparr>sv_db := Some db'\<rparr>)))"

text \<open>The client of a list of rows; a row that no client can be built from is left out.\<close>

definition row_client :: "duration \<Rightarrow> llm_provider \<Rightarrow> client option" where
  "row_client timeout r =
     (if \<not> ls_Enabled r then None else case build r timeout of Inl _ \<Rightarrow> None | Inr c \<Rightarrow> Some c)"

definition applyChain :: "llm_provider list \<Rightarrow> settings \<Rightarrow> settings" where
  "applyChain rows s =
     s\<lparr>sv_provider := NewChainClient (map Some (List.map_filter (row_client (sv_timeout s)) rows))\<rparr>"

text \<open>The rows of the inputs from index \<open>n\<close> on, or the message for the first that is enabled and cannot be
  built.\<close>

fun chain_rows :: "(nat \<Rightarrow> string) \<Rightarrow> duration \<Rightarrow> nat \<Rightarrow> provider_input list \<Rightarrow> string + llm_provider list" where
  "chain_rows existing timeout n [] = Inr []"
| "chain_rows existing timeout n (inp # inps) =
     (let row = llm_setting.extend
            ((llm_setting.truncate inp)\<lparr>ls_APIKey := kept_key (save_input.truncate inp) (existing (pi_ID inp))\<rparr>)
            (llm_provider.fields (int n))
      in case (if ls_Enabled inp then build row timeout else Inr MockClient) of
           Inl msg \<Rightarrow> Inl (bytes [231, 172, 172, 32] @ dec_nat (n + 1) @ bytes [32, 228, 184, 170, 230,
             156, 141, 229, 138, 161, 229, 149, 134, 58, 32] @ msg)
         | Inr _ \<Rightarrow> map_sum id ((#) row) (chain_rows existing timeout (n + 1) inps))"

definition stored_keys :: "failures \<Rightarrow> nat \<Rightarrow> settings_db \<Rightarrow> nat \<Rightarrow> string" where
  "stored_keys fail k db i =
     (if fail k = None then (case tb_first i (sg_providers db) of None \<Rightarrow> [] | Some r \<Rightarrow> ls_APIKey r) else [])"

text \<open>Deleting every row, and inserting several.\<close>

definition delete_all :: "'r table \<Rightarrow> 'r table" where
  "delete_all t = fold tb_delete (map fst (tb_rows t)) t"

definition create_all :: "'r list \<Rightarrow> 'r table \<Rightarrow> 'r table" where
  "create_all rs t = fold (\<lambda>r t. snd (tb_create r t)) rs t"

text \<open>The transaction: begin, delete, insert unless there is nothing to insert, commit.\<close>

definition replace_chain :: "failures \<Rightarrow> nat \<Rightarrow> llm_provider list \<Rightarrow> settings_db \<Rightarrow> string + settings_db" where
  "replace_chain fail k rows db =
     and_then (stmt id (fail k) ()) (\<lambda>_.
     and_then (stmt id (fail (k + 1)) ()) (\<lambda>_.
     and_then (stmt id (if rows = [] then None else fail (k + 2)) ()) (\<lambda>_.
       stmt id (fail (k + 3)) (db\<lparr>sg_providers := create_all rows (delete_all (sg_providers db))\<rparr>))))"

definition SaveChain :: "failures \<Rightarrow> provider_input list \<Rightarrow> settings \<Rightarrow> (biz_error + chain_view) \<times> settings" where
  "SaveChain fail inputs s =
     (case sv_db s of
        None \<Rightarrow> (Inl no_settings_db, s)
      | Some db \<Rightarrow>
          (case chain_rows (stored_keys fail 0 db) (sv_timeout s) 0 inputs of
             Inl msg \<Rightarrow> (Inl (InvalidArg msg), s)
           | Inr rows \<Rightarrow>
               (case replace_chain fail 1 rows db of
                  Inl e \<Rightarrow> (Inl (wrap_error CodeInternal ''settings: save chain'' e), s)
                | Inr db' \<Rightarrow> GetChain fail 5 (applyChain rows (s\<lparr>sv_db := Some db'\<rparr>)))))"

definition stored_key :: "failures \<Rightarrow> provider_input \<Rightarrow> settings \<Rightarrow> string" where
  "stored_key fail inp s =
     (case sv_db s of None \<Rightarrow> [] | Some db \<Rightarrow> if 0 < pi_ID inp then stored_keys fail 0 db (pi_ID inp) else [])"

definition TestProvider :: "'w llm_env \<Rightarrow> failures \<Rightarrow> provider_input \<Rightarrow> settings \<Rightarrow> 'w \<Rightarrow> biz_error option \<times> 'w" where
  "TestProvider env fail inp s w =
     test_call env (build (inp\<lparr>ls_APIKey := kept_key (save_input.truncate inp) (stored_key fail inp s)\<rparr>) (sv_timeout s)) w"

definition ListProviderModels ::
  "'w llm_env \<Rightarrow> failures \<Rightarrow> provider_input \<Rightarrow> settings \<Rightarrow> 'w \<Rightarrow> (biz_error + string list) \<times> 'w" where
  "ListProviderModels env fail inp s w =
     (case ListModels env (fst (ResolveEndpoint (ls_Provider inp) (ls_BaseURL inp) []))
             (kept_key (save_input.truncate inp) (stored_key fail inp s)) (sv_timeout s) w of
        (Inl e, w') \<Rightarrow> (Inl (wrap_error CodeInternal (bytes [230, 139, 137, 229, 143, 150, 230, 168,
          161, 229, 158, 139, 229, 136, 151, 232, 161, 168, 229, 164, 177, 232, 180, 165]) e), w')
      | (Inr ids, w') \<Rightarrow> (Inr ids, w'))"

definition LoadChainOnStart :: "failures \<Rightarrow> settings \<Rightarrow> settings" where
  "LoadChainOnStart fail s =
     (case sv_db s of
        None \<Rightarrow> s
      | Some db \<Rightarrow>
          (case loadProviderRows fail 0 db of
             (Inl _, db') \<Rightarrow> s\<lparr>sv_db := Some db'\<rparr>
           | (Inr rows, db') \<Rightarrow>
               let s' = s\<lparr>sv_db := Some db'\<rparr> in if rows = [] then s' else applyChain (map snd rows) s'))"

section \<open>Saving a chain\<close>

lemma foldl_tb_delete: "tb_rows (fold tb_delete is t) = filter (\<lambda>(j, x). j \<notin> set is) (tb_rows t)
    \<and> tb_next (fold tb_delete is t) = tb_next t"
proof (induction "is" arbitrary: t)
  case (Cons i "is")
  then show ?case by (auto simp: tb_delete_def intro!: filter_cong)
qed simp

lemma delete_all_simps [simp]: "tb_rows (delete_all t) = []" "tb_next (delete_all t) = tb_next t"
  using foldl_tb_delete [of "map fst (tb_rows t)" t] by (auto simp: delete_all_def filter_empty_conv rev_image_eqI)

lemma upt_Cons: "[n..<n + length (x # xs)] = n # [Suc n..<Suc n + length xs]"
  using upt_conv_Cons [of n "n + length (x # xs)"] by (simp del: upt_Suc)

lemma create_all_simps: "create_all [] t = t" "create_all (r # rs) t = create_all rs (snd (tb_create r t))"
  by (simp_all add: create_all_def)

lemma create_all_rows:
  "tb_rows (create_all rs t) = tb_rows t @ zip [tb_next t..<tb_next t + length rs] rs"
proof (induction rs arbitrary: t)
  case (Cons r rs)
  show ?case unfolding upt_Cons create_all_simps Cons by (simp add: tb_create_def del: upt_Suc)
qed (simp add: create_all_simps)

text \<open>The row an input at index \<open>n\<close> becomes.\<close>

definition row_of :: "(nat \<Rightarrow> string) \<Rightarrow> nat \<Rightarrow> provider_input \<Rightarrow> llm_provider" where
  "row_of stored n inp =
     \<lparr>ls_Enabled = ls_Enabled inp, ls_Provider = ls_Provider inp, ls_BaseURL = ls_BaseURL inp,
      ls_APIKey = (if si_KeepKey inp \<and> ls_APIKey inp = [] then stored (pi_ID inp) else ls_APIKey inp),
      ls_Model = ls_Model inp, lp_Priority = int n\<rparr>"

lemma extend_row: "llm_setting.extend ((llm_setting.truncate inp)\<lparr>ls_APIKey := kept_key (save_input.truncate inp) (f (pi_ID inp))\<rparr>)
    (llm_provider.fields (int n)) = row_of f n inp"
  by (simp add: row_of_def kept_key_def llm_setting.defs llm_provider.defs save_input.defs)

lemma chain_rows_Inr:
  "chain_rows f timeout n inputs = Inr rows \<Longrightarrow>
   rows = map (\<lambda>(m, inp). row_of f m inp) (enumerate n inputs)
   \<and> (\<forall>r\<in>set rows. ls_Enabled r \<longrightarrow> row_client timeout r \<noteq> None)"
proof (induction inputs arbitrary: n rows)
  case (Cons inp inps)
  have same: "ls_Enabled (row_of f n inp) = ls_Enabled inp" by (simp add: row_of_def)
  obtain rest where r: "chain_rows f timeout (n + 1) inps = Inr rest" "rows = row_of f n inp # rest"
    "ls_Enabled inp \<longrightarrow> is_ok (build (row_of f n inp) timeout)"
    using Cons.prems by (cases "chain_rows f timeout (n + 1) inps")
      (auto simp: extend_row Let_def is_ok_iff split: sum.splits if_splits)
  show ?case using Cons.IH [OF r(1)] r(2,3) same by (auto simp: row_client_def is_ok_iff split: sum.split)
qed simp

lemma sorted_priorities: "sorted (map lp_Priority (map (\<lambda>(m, inp). row_of f m inp) (enumerate n inputs)))"
proof -
  have "map lp_Priority (map (\<lambda>(m, inp). row_of f m inp) (enumerate n inputs)) = map int [n..<n + length inputs]"
  proof (induction inputs arbitrary: n)
    case (Cons inp inps)
    show ?case unfolding upt_Cons using Cons [of "Suc n"] by (simp add: row_of_def del: upt_Suc)
  qed simp
  then show ?thesis by (simp add: sorted_map mono_onI)
qed

lemma by_priority_sorted: "sorted (map lp_Priority (map snd (tb_rows t))) \<Longrightarrow> by_priority t = tb_rows t"
  unfolding by_priority_def by (intro sort_key_id_if_sorted) (simp add: comp_def case_prod_unfold)

lemma replace_chain_Inr:
  "replace_chain fail k rows db = Inr db' \<longleftrightarrow>
   fail k = None \<and> fail (k + 1) = None \<and> (rows \<noteq> [] \<longrightarrow> fail (k + 2) = None) \<and> fail (k + 3) = None
   \<and> db' = db\<lparr>sg_providers := create_all rows (delete_all (sg_providers db))\<rparr>"
  by (auto simp: replace_chain_def and_then_Inr)

lemma SaveChain_cases:
  assumes "sv_db s = Some db"
  obtains (kept) e where "SaveChain fail inputs s = (Inl e, s)"
  | (saved) rows db' where "chain_rows (stored_keys fail 0 db) (sv_timeout s) 0 inputs = Inr rows"
      "replace_chain fail 1 rows db = Inr db'"
      "SaveChain fail inputs s = GetChain fail 5 (applyChain rows (s\<lparr>sv_db := Some db'\<rparr>))"
proof (cases "chain_rows (stored_keys fail 0 db) (sv_timeout s) 0 inputs")
  case (Inl msg)
  then show ?thesis using assms by (intro kept) (simp add: SaveChain_def)
next
  case rows: (Inr rows)
  show ?thesis
  proof (cases "replace_chain fail 1 rows db")
    case (Inl e)
    then show ?thesis using assms rows by (intro kept) (simp add: SaveChain_def)
  next
    case (Inr db')
    then show ?thesis using assms rows by (intro saved) (simp_all add: SaveChain_def)
  qed
qed

text \<open>C33: A chain of at least one entry that is saved is stored whole, in the order of the inputs; where
  an input says so its empty key is replaced by the key that was read before the save, which is the
  stored one if that read succeeded and empty if it failed.  The live client is the chain of the
  enabled entries, each of which was built; and a start of the server after that, with whatever
  client the configuration gave it, ends in the very same state, if its read of the rows succeeds.
  (Saving an empty chain is not covered: while the legacy row exists it does not stick.)\<close>

theorem SaveChain_restart:
  assumes "SaveChain fail inputs s = (Inr v, s')" "sv_db s = Some db" "inputs \<noteq> []"
  shows "\<exists>db'. sv_db s' = Some db'
    \<and> map snd (by_priority (sg_providers db')) = map (\<lambda>(n, inp). row_of (stored_keys fail 0 db) n inp) (enumerate 0 inputs)
    \<and> (\<forall>r\<in>set (map snd (by_priority (sg_providers db'))). ls_Enabled r \<longrightarrow> row_client (sv_timeout s) r \<noteq> None)
    \<and> sv_provider s' = NewChainClient (map Some (List.map_filter (row_client (sv_timeout s)) (map snd (by_priority (sg_providers db')))))
    \<and> v = \<lparr>cv_Providers = map view_row (by_priority (sg_providers db')), cv_Active = provider_Name (sv_provider s')\<rparr>
    \<and> (\<forall>fail' p. fail' 0 = None \<longrightarrow> LoadChainOnStart fail' (s'\<lparr>sv_provider := p\<rparr>) = s')"
proof (cases rule: SaveChain_cases [OF assms(2), of fail inputs, case_names kept saved])
  case (saved rows db')
  note rows = chain_rows_Inr [OF saved(1)]
  have db': "tb_rows (sg_providers db') = zip [tb_next (sg_providers db)..<tb_next (sg_providers db) + length rows] rows"
    using saved(2) by (auto simp: replace_chain_Inr create_all_rows)
  then have snds: "map snd (tb_rows (sg_providers db')) = rows" by simp
  have ne: "rows \<noteq> []" using rows assms(3) by (simp add: enumerate_eq_zip)
  then have "tb_rows (sg_providers db') \<noteq> []" using db' by (auto simp: zip_eq_Nil_iff)
  moreover have "by_priority (sg_providers db') = tb_rows (sg_providers db')"
    using sorted_priorities rows by (intro by_priority_sorted) (simp add: snds)
  ultimately have load: "fail' k = None \<Longrightarrow>
      loadProviderRows fail' k db' = (Inr (by_priority (sg_providers db')), db')" for fail' k
    by (simp add: loadProviderRows_def)
  have "fail 5 = None"
    using assms(1) saved(3) by (auto simp: GetChain_def applyChain_def loadProviderRows_def split: option.splits)
  then have s': "s' = applyChain rows (s\<lparr>sv_db := Some db'\<rparr>)"
    "v = \<lparr>cv_Providers = map view_row (by_priority (sg_providers db')), cv_Active = provider_Name (sv_provider s')\<rparr>"
    using assms(1) saved(3) load by (auto simp: GetChain_def applyChain_def)
  have got: "map snd (by_priority (sg_providers db')) = rows"
    using \<open>by_priority (sg_providers db') = tb_rows (sg_providers db')\<close> snds by simp
  moreover from this ne have bp: "by_priority (sg_providers db') \<noteq> []" by auto
  moreover have "LoadChainOnStart fail' (s'\<lparr>sv_provider := p\<rparr>) = s'" if "fail' 0 = None" for fail' p
    using load [of fail' 0, OF that] bp by (simp add: LoadChainOnStart_def s'(1) applyChain_def Let_def got)
  ultimately show ?thesis using s' rows by (intro exI [of _ db']) (simp add: applyChain_def)
qed (use assms in simp)

definition no_fail :: failures where "no_fail = (\<lambda>_. None)"

definition demo_settings :: "llm_setting option \<Rightarrow> settings" where
  "demo_settings legacy = NewSettings (Some \<lparr>sg_setting = legacy, sg_providers = empty_table\<rparr>) None 0"

definition demo_input :: provider_input where
  "demo_input = \<lparr>ls_Enabled = True, ls_Provider = ''mock'', ls_BaseURL = [], ls_APIKey = [], ls_Model = [], si_KeepKey = True,
     pi_ID = 7\<rparr>"

definition demo_row :: llm_provider where
  "demo_row = row_of (\<lambda>_. []) 0 demo_input"

lemma demo_save:
  "SaveChain no_fail [demo_input] (demo_settings None) =
     (Inr \<lparr>cv_Providers = [view_row (1, demo_row)], cv_Active = ''mock''\<rparr>,
      NewSettings (Some \<lparr>sg_setting = None, sg_providers = \<lparr>tb_rows = [(1, demo_row)], tb_next = 2\<rparr>\<rparr>) (Some MockClient) 0)"
  by code_simp

theorem SaveChain_restart_witness:
  "LoadChainOnStart no_fail ((snd (SaveChain no_fail [demo_input] (demo_settings None)))\<lparr>sv_provider := None\<rparr>)
     = snd (SaveChain no_fail [demo_input] (demo_settings None))"
proof -
  have db: "sv_db (demo_settings None) = Some \<lparr>sg_setting = None, sg_providers = empty_table\<rparr>"
    by (simp add: demo_settings_def NewSettings_def)
  have "no_fail 0 = None" by (simp add: no_fail_def)
  then show ?thesis using SaveChain_restart [OF demo_save db] unfolding demo_save snd_conv by blast
qed

text \<open>When it reports an error, nothing has changed, unless the very last read failed.\<close>

theorem SaveChain_all_or_nothing:
  "SaveChain fail inputs s = (Inl e, s') \<Longrightarrow> s' = s \<or> fail 5 = Some (the (be_cause e))"
proof (cases "sv_db s")
  case (Some db)
  assume *: "SaveChain fail inputs s = (Inl e, s')"
  show ?thesis
  proof (cases rule: SaveChain_cases [OF Some, of fail inputs, case_names kept saved])
    case kept
    then show ?thesis using * by simp
  next
    case (saved rows db')
    then show ?thesis using *
      by (cases "fail 5") (auto simp: GetChain_def applyChain_def loadProviderRows_def wrap_error_def
          split: prod.splits if_splits option.splits)
  qed
qed (auto simp: SaveChain_def)

section \<open>The legacy row\<close>

lemma legacy_row_simps [simp]:
  "ls_Enabled (legacy_row r) = ls_Enabled r" "build (legacy_row r) t = build r t" "lp_Priority (legacy_row r) = 0"
  by (simp_all add: legacy_row_def build_def llm_setting.defs llm_provider.defs)

lemma applyChain_single [simp]: "sv_provider (applyChain [x] s) = row_client (sv_timeout s) x"
  by (simp add: applyChain_def NewChainClient_def List.map_filter_simps split: option.split)

text \<open>A server that only has the legacy row gets the same live client from the chain as it got from the
  row.\<close>

theorem migration_same_client:
  assumes "sv_db s = Some db" "tb_rows (sg_providers db) = []" "\<forall>n. fail n = None"
  shows "sv_provider (LoadChainOnStart fail s) = sv_provider (LoadOnStart fail s)"
proof (cases "sg_setting db")
  case None
  then show ?thesis using assms
    by (simp add: LoadChainOnStart_def LoadOnStart_def loadProviderRows_def first_setting_def)
next
  case (Some r)
  obtain i t where c: "tb_create (legacy_row r) (sg_providers db) = (i, t)" by fastforce
  have "loadProviderRows fail 0 db = (Inr [(i, legacy_row r)], db\<lparr>sg_providers := t\<rparr>)"
    using assms Some c by (simp add: loadProviderRows_def first_setting_def)
  then show ?thesis using assms Some
    by (simp add: LoadChainOnStart_def LoadOnStart_def first_setting_def Let_def settings_apply_def row_client_def)
qed

text \<open>Saving an empty chain switches the assistant off, but while the legacy row exists the very
  response of that request shows one entry again: reading the empty table has put the legacy row back
  into it, and the next start of the server switches the legacy backend on.\<close>

theorem SaveChain_empty_resurrects:
  assumes "sv_db s = Some db" "sg_setting db = Some legacy" "\<forall>n. fail n = None"
  shows "\<exists>v s' i. SaveChain fail [] s = (Inr v, s') \<and> sv_provider s' = None
    \<and> cv_Providers v = [view_row (i, legacy_row legacy)]
    \<and> sv_provider (LoadChainOnStart fail s') = row_client (sv_timeout s) (legacy_row legacy)"
proof -
  let ?t = "delete_all (sg_providers db)"
  obtain i t where c: "tb_create (legacy_row legacy) ?t = (i, t)" by fastforce
  have t: "tb_rows t = [(i, legacy_row legacy)]" using c by (auto simp: tb_create_def)
  have save: "SaveChain fail [] s = (Inr \<lparr>cv_Providers = [view_row (i, legacy_row legacy)], cv_Active = ''disabled''\<rparr>,
      s\<lparr>sv_db := Some (db\<lparr>sg_providers := t\<rparr>), sv_provider := None\<rparr>)" (is "_ = (_, ?s')")
    using assms c
    by (simp add: SaveChain_def replace_chain_def GetChain_def applyChain_def loadProviderRows_def first_setting_def
        List.map_filter_simps NewChainClient_def provider_Name_def create_all_simps stmt_def)
  have "loadProviderRows fail 0 (db\<lparr>sg_providers := t\<rparr>) = (Inr [(i, legacy_row legacy)], db\<lparr>sg_providers := t\<rparr>)"
    using assms(3) by (simp add: loadProviderRows_def t by_priority_def)
  then have "sv_provider (LoadChainOnStart fail ?s') = row_client (sv_timeout s) (legacy_row legacy)"
    by (simp add: LoadChainOnStart_def)
  then show ?thesis using save by auto
qed

section \<open>What the responses show of a key\<close>

text \<open>Two keys the responses may not tell apart: both short, or both long with the same first and last four
  bytes.\<close>

definition alike :: "string \<Rightarrow> string \<Rightarrow> bool" where
  "alike a b \<longleftrightarrow>
     a = b \<or> (a \<noteq> [] \<and> b \<noteq> [] \<and> length a \<le> 8 \<and> length b \<le> 8)
     \<or> (8 < length a \<and> 8 < length b \<and> take 4 a = take 4 b \<and> drop (length a - 4) a = drop (length b - 4) b)"

lemma alike_view: "alike a b \<Longrightarrow> mask a = mask b \<and> (a = [] \<longleftrightarrow> b = [])"
  by (auto simp: alike_def mask_def)

lemma alike_refl [simp]: "alike a a"
  by (simp add: alike_def)

definition same_row :: "'a llm_setting_scheme \<Rightarrow> 'a llm_setting_scheme \<Rightarrow> bool" where
  "same_row r r' \<longleftrightarrow> r' = r\<lparr>ls_APIKey := ls_APIKey r'\<rparr> \<and> alike (ls_APIKey r) (ls_APIKey r')"

definition same_entry :: "nat \<times> llm_provider \<Rightarrow> nat \<times> llm_provider \<Rightarrow> bool" where
  "same_entry e e' \<longleftrightarrow> fst e = fst e' \<and> same_row (snd e) (snd e')"

definition same_table :: "llm_provider table \<Rightarrow> llm_provider table \<Rightarrow> bool" where
  "same_table t t' \<longleftrightarrow> tb_next t = tb_next t' \<and> list_all2 same_entry (tb_rows t) (tb_rows t')"

definition same_db :: "settings_db \<Rightarrow> settings_db \<Rightarrow> bool" where
  "same_db d d' \<longleftrightarrow> rel_option same_row (sg_setting d) (sg_setting d') \<and> same_table (sg_providers d) (sg_providers d')"

definition same_settings :: "settings \<Rightarrow> settings \<Rightarrow> bool" where
  "same_settings s s' \<longleftrightarrow>
     rel_option same_db (sv_db s) (sv_db s') \<and> sv_timeout s = sv_timeout s'
     \<and> provider_Name (sv_provider s) = provider_Name (sv_provider s')"

lemmas same_defs = same_row_def same_entry_def same_table_def same_db_def same_settings_def

lemma same_rowD:
  "same_row r r' \<Longrightarrow> ls_Enabled r' = ls_Enabled r \<and> ls_Provider r' = ls_Provider r \<and> ls_BaseURL r' = ls_BaseURL r
    \<and> ls_Model r' = ls_Model r \<and> llm_setting.more r' = llm_setting.more r \<and> alike (ls_APIKey r) (ls_APIKey r')
    \<and> mask (ls_APIKey r) = mask (ls_APIKey r') \<and> (ls_APIKey r = [] \<longleftrightarrow> ls_APIKey r' = [])"
  using alike_view by (cases r; cases r') (auto simp: same_row_def)

lemma same_priority: "same_row r r' \<Longrightarrow> lp_Priority r = lp_Priority r'" for r :: llm_provider
  by (cases r; cases r') (auto simp: same_row_def)

text \<open>Clients built from alike settings have the same name.\<close>

lemma same_build: "same_row r r' \<Longrightarrow> rel_sum (=) (\<lambda>c c'. client_Name c = client_Name c') (build r t) (build r' t)"
  by (auto dest!: same_rowD simp: build_def BuildClient_def NewOpenAIClient_def split: prod.split)

lemma same_row_client:
  "same_row r r' \<Longrightarrow> rel_option (\<lambda>c c'. client_Name c = client_Name c') (row_client t r) (row_client t r')"
  using same_build [of r r' t] same_rowD [of r r']
  by (auto simp: row_client_def elim: rel_sum.cases split: sum.split)

lemma same_chain:
  assumes "list_all2 same_row rs rs'"
  shows "provider_Name (NewChainClient (map Some (List.map_filter (row_client t) rs)))
    = provider_Name (NewChainClient (map Some (List.map_filter (row_client t) rs')))"
proof -
  have names: "list_all2 (\<lambda>c c'. client_Name c = client_Name c')
      (List.map_filter (row_client t) rs) (List.map_filter (row_client t) rs')"
    using assms
    by (induction rule: list_all2_induct)
      (auto simp: List.map_filter_simps dest: same_row_client [of _ _ t] split: option.split)
  have ids: "List.map_filter id (map Some cs) = cs" for cs :: "client list"
    by (induction cs) (simp_all add: List.map_filter_simps)
  have eq: "map fst (map (\<lambda>c. (client_Name c, c)) cs) = map client_Name cs" for cs :: "client list"
    by simp
  have "map client_Name (List.map_filter (row_client t) rs) = map client_Name (List.map_filter (row_client t) rs')"
    using names by (induction rule: list_all2_induct) auto
  then show ?thesis
    unfolding NewChainClient_def ids
    by (cases "List.map_filter (row_client t) rs"; cases "List.map_filter (row_client t) rs'"; simp)
      (auto simp: provider_Name_def neq_Nil_conv comp_def split: list.split)
qed

lemma list_all2_insort:
  "list_all2 R xs ys \<Longrightarrow> R x y \<Longrightarrow> (\<And>x y. R x y \<Longrightarrow> f x = f y) \<Longrightarrow> list_all2 R (insort_key f x xs) (insort_key f y ys)"
proof (induction rule: list_all2_induct)
  case (Cons a as b bs)
  then have "f x = f y" "f a = f b" by blast+
  then show ?case using Cons by simp
qed simp

lemma list_all2_sort:
  "list_all2 R xs ys \<Longrightarrow> (\<And>x y. R x y \<Longrightarrow> f x = f y) \<Longrightarrow> list_all2 R (sort_key f xs) (sort_key f ys)"
  by (induction rule: list_all2_induct) (simp_all add: list_all2_insort)

lemma same_by_priority: "same_table t t' \<Longrightarrow> list_all2 same_entry (by_priority t) (by_priority t')"
  unfolding by_priority_def same_table_def
  by (elim conjE, erule list_all2_sort) (auto simp: same_entry_def case_prod_unfold dest: same_priority)

lemma same_views: "list_all2 same_entry es es' \<Longrightarrow> map view_row es = map view_row es'"
  by (induction rule: list_all2_induct)
    (auto simp: same_entry_def view_row_def split: prod.splits dest: same_rowD same_priority)

lemma same_legacy: "same_row r r' \<Longrightarrow> same_row (legacy_row r) (legacy_row r')"
  by (cases r; cases r') (auto simp: same_row_def legacy_row_def llm_setting.defs llm_provider.defs)

lemma same_create: "same_table t t' \<Longrightarrow> same_row r r' \<Longrightarrow>
    fst (tb_create r t) = fst (tb_create r' t') \<and> same_table (snd (tb_create r t)) (snd (tb_create r' t'))"
  by (auto simp: same_table_def tb_create_def same_entry_def intro: list_all2_appendI)

lemma same_create_all: "list_all2 same_row rs rs' \<Longrightarrow> same_table t t' \<Longrightarrow> same_table (create_all rs t) (create_all rs' t')"
  by (induction arbitrary: t t' rule: list_all2_induct) (simp_all add: create_all_simps same_create)

lemma same_rows_Nil: "same_table t t' \<Longrightarrow> tb_rows t = [] \<longleftrightarrow> tb_rows t' = []"
  by (auto simp: same_table_def)

lemma same_first_setting: "same_db d d' \<Longrightarrow> rel_option same_row (first_setting fail k d) (first_setting fail k d')"
  by (simp add: first_setting_def same_db_def)

lemma same_load:
  assumes "same_db d d'"
  shows "rel_prod (rel_sum (=) (list_all2 same_entry)) same_db (loadProviderRows fail k d) (loadProviderRows fail k d')"
proof -
  note t = assms [unfolded same_db_def, THEN conjunct2]
  note l = same_first_setting [OF assms, of fail "k + 1"]
  show ?thesis
  proof (cases "first_setting fail (k + 1) d")
    case None
    then show ?thesis using assms t l same_by_priority [OF t] same_rows_Nil [OF t]
      by (auto simp: loadProviderRows_def split: option.split)
  next
    case (Some r)
    then obtain r' where r': "first_setting fail (k + 1) d' = Some r'" "same_row r r'" using l by (auto simp: option_rel_Some1)
    note c = same_create [OF t same_legacy [OF r'(2)]]
    show ?thesis using assms t Some r'(1) c same_by_priority [OF t] same_rows_Nil [OF t] same_legacy [OF r'(2)]
      by (auto simp: loadProviderRows_def same_db_def same_entry_def split: option.split prod.split)
  qed
qed

lemma same_GetChain:
  assumes "same_settings s s'"
  shows "fst (GetChain fail k s) = fst (GetChain fail k s') \<and> same_settings (snd (GetChain fail k s)) (snd (GetChain fail k s'))"
proof (cases "sv_db s")
  case None
  then show ?thesis using assms by (auto simp: GetChain_def same_settings_def)
next
  case (Some d)
  then obtain d' where d': "sv_db s' = Some d'" "same_db d d'" using assms by (auto simp: same_settings_def option_rel_Some1)
  show ?thesis using same_load [OF d'(2), of fail k] Some d'(1) assms same_views
    by (auto simp: GetChain_def same_settings_def rel_prod_conv elim!: rel_sum.cases split: prod.splits)
qed

lemma same_Get: "same_settings s s' \<Longrightarrow> settings_Get fail k s = settings_Get fail k s'"
proof (cases "sv_db s")
  case (Some d)
  assume same: "same_settings s s'"
  with Some obtain d' where d': "sv_db s' = Some d'" "same_db d d'" by (auto simp: same_settings_def option_rel_Some1)
  show ?thesis using same_first_setting [OF d'(2), of fail k] Some d'(1) same
    by (cases "first_setting fail k d")
      (auto simp: settings_Get_def same_settings_def option_rel_Some1 dest: same_rowD)
qed (auto simp: settings_Get_def same_settings_def)

lemma same_apply: "same_settings s s' \<Longrightarrow> same_row r r' \<Longrightarrow> same_settings (settings_apply r s) (settings_apply r' s')"
  using same_build [of r r' "sv_timeout s'"] same_rowD [of r r']
  by (auto simp: same_settings_def settings_apply_def provider_Name_def elim!: rel_sum.cases split: option.split)

lemma same_kept: "alike a b \<Longrightarrow> alike (kept_key inp a) (kept_key inp b)"
  by (simp add: kept_key_def)

lemma same_updated: "alike a b \<Longrightarrow> same_row (r\<lparr>ls_APIKey := a\<rparr>) (r\<lparr>ls_APIKey := b\<rparr>)"
  by (cases r) (simp add: same_row_def)

lemma same_Save:
  assumes "same_settings s s'"
  shows "fst (settings_Save fail inp s) = fst (settings_Save fail inp s')
    \<and> same_settings (snd (settings_Save fail inp s)) (snd (settings_Save fail inp s'))"
proof (cases "sv_db s")
  case None
  then show ?thesis using assms by (auto simp: settings_Save_def same_settings_def)
next
  case (Some d)
  then obtain d' where d': "sv_db s' = Some d'" "same_db d d'" using assms by (auto simp: same_settings_def option_rel_Some1)
  let ?key = "\<lambda>d. case first_setting fail 0 d of None \<Rightarrow> [] | Some row \<Rightarrow> ls_APIKey row"
  let ?row = "\<lambda>d. (llm_setting.truncate inp)\<lparr>ls_APIKey := kept_key inp (?key d)\<rparr>"
  have "alike (?key d) (?key d')" using same_first_setting [OF d'(2), of fail 0]
    by (cases "first_setting fail 0 d") (auto simp: option_rel_Some1 dest: same_rowD)
  then have row: "same_row (?row d) (?row d')" by (intro same_updated same_kept)
  have t: "sv_timeout s' = sv_timeout s" using assms by (simp add: same_settings_def)
  have same: "same_settings (settings_apply (?row d) (s\<lparr>sv_db := Some (d\<lparr>sg_setting := Some (?row d)\<rparr>)\<rparr>))
      (settings_apply (?row d') (s'\<lparr>sv_db := Some (d'\<lparr>sg_setting := Some (?row d')\<rparr>)\<rparr>))"
    using assms d' row by (intro same_apply) (auto simp: same_settings_def same_db_def)
  show ?thesis
    using same_build [OF row, of "sv_timeout s"] same same_Get [OF same, of fail 2] assms
    by (cases "fail 1") (auto simp: settings_Save_def Some d'(1) Let_def t elim!: rel_sum.cases split: sum.splits)
qed

lemma same_map_of: "list_all2 same_entry es es' \<Longrightarrow> rel_option same_row (map_of es i) (map_of es' i)"
  by (induction rule: list_all2_induct) (auto simp: same_entry_def)

lemma same_stored: "same_db d d' \<Longrightarrow> alike (stored_keys fail k d i) (stored_keys fail k d' i)"
  using same_map_of [of "tb_rows (sg_providers d)" "tb_rows (sg_providers d')" i]
  by (cases "map_of (tb_rows (sg_providers d)) i")
    (auto simp: stored_keys_def tb_first_def same_db_def same_table_def option_rel_Some1 dest: same_rowD)

lemma same_row_of: "(\<And>i. alike (f i) (g i)) \<Longrightarrow> same_row (row_of f n inp) (row_of g n inp)"
  by (simp add: row_of_def same_row_def)

lemma same_chain_rows:
  assumes "\<And>i. alike (f i) (g i)"
  shows "rel_sum (=) (list_all2 same_row) (chain_rows f t n inputs) (chain_rows g t n inputs)"
proof (induction inputs arbitrary: n)
  case (Cons inp inps)
  have row: "same_row (row_of f n inp) (row_of g n inp)" using assms by (rule same_row_of)
  show ?case using Cons [of "n + 1"] row same_build [OF row, of t]
    by (auto simp: extend_row Let_def elim!: rel_sum.cases split: sum.splits)
qed simp

lemma same_SaveChain:
  assumes "same_settings s s'"
  shows "fst (SaveChain fail inputs s) = fst (SaveChain fail inputs s')
    \<and> same_settings (snd (SaveChain fail inputs s)) (snd (SaveChain fail inputs s'))"
proof (cases "sv_db s")
  case None
  then show ?thesis using assms by (auto simp: SaveChain_def same_settings_def)
next
  case (Some d)
  then obtain d' where d': "sv_db s' = Some d'" "same_db d d'" using assms by (auto simp: same_settings_def option_rel_Some1)
  have t: "sv_timeout s' = sv_timeout s" using assms by (simp add: same_settings_def)
  have rows: "rel_sum (=) (list_all2 same_row) (chain_rows (stored_keys fail 0 d) (sv_timeout s) 0 inputs)
      (chain_rows (stored_keys fail 0 d') (sv_timeout s) 0 inputs)"
    by (rule same_chain_rows) (rule same_stored [OF d'(2)])
  show ?thesis
  proof (cases "chain_rows (stored_keys fail 0 d) (sv_timeout s) 0 inputs")
    case (Inl e)
    then show ?thesis using rows assms Some d'(1) t by (auto simp: SaveChain_def elim: rel_sum.cases)
  next
    case (Inr rs)
    then obtain rs' where rs': "chain_rows (stored_keys fail 0 d') (sv_timeout s) 0 inputs = Inr rs'" "list_all2 same_row rs rs'"
      using rows by (auto elim: rel_sum.cases)
    have nil: "rs = [] \<longleftrightarrow> rs' = []" using rs'(2) by auto
    have "same_table (delete_all (sg_providers d)) (delete_all (sg_providers d'))"
      using d'(2) by (simp add: same_db_def same_table_def)
    then have db: "same_db (d\<lparr>sg_providers := create_all rs (delete_all (sg_providers d))\<rparr>)
        (d'\<lparr>sg_providers := create_all rs' (delete_all (sg_providers d'))\<rparr>)"
      using d'(2) same_create_all [OF rs'(2)] by (simp add: same_db_def)
    have same: "same_settings
        (applyChain rs (s\<lparr>sv_db := Some (d\<lparr>sg_providers := create_all rs (delete_all (sg_providers d))\<rparr>)\<rparr>))
        (applyChain rs' (s'\<lparr>sv_db := Some (d'\<lparr>sg_providers := create_all rs' (delete_all (sg_providers d'))\<rparr>)\<rparr>))"
      using db same_chain [OF rs'(2)] t by (simp add: same_settings_def applyChain_def)
    show ?thesis
    proof (cases "replace_chain fail 1 rs d")
      case (Inl e)
      then have "replace_chain fail 1 rs' d' = Inl e" using nil
        by (auto simp: replace_chain_def stmt_def split: option.splits if_splits)
      then show ?thesis using Inl Inr rs'(1) Some d'(1) t assms by (simp add: SaveChain_def)
    next
      case ok: (Inr d1)
      then have "replace_chain fail 1 rs' d' = Inr (d'\<lparr>sg_providers := create_all rs' (delete_all (sg_providers d'))\<rparr>)"
        "d1 = d\<lparr>sg_providers := create_all rs (delete_all (sg_providers d))\<rparr>"
        using nil by (simp_all add: replace_chain_Inr)
      then show ?thesis using same_GetChain [OF same, of fail 5] ok Inr rs'(1) Some d'(1) t by (simp add: SaveChain_def)
    qed
  qed
qed

text \<open>The requests that read and save the settings; \<open>Test\<close>, \<open>TestProvider\<close> and \<open>ListProviderModels\<close> ask
  a vendor over the network and are not among them.\<close>

datatype settings_request =
    Get_setting
  | Save_setting save_input
  | Get_chain
  | Save_chain "provider_input list"
  | Restart "client option"

datatype settings_response =
    SettingReply "biz_error + llm_view"
  | ChainReply "biz_error + chain_view"
  | NoReply

fun settings_step :: "failures \<times> settings_request \<Rightarrow> settings \<Rightarrow> settings_response \<times> settings" where
  "settings_step (fail, Get_setting) s = (SettingReply (settings_Get fail 0 s), s)"
| "settings_step (fail, Save_setting inp) s = map_prod SettingReply id (settings_Save fail inp s)"
| "settings_step (fail, Get_chain) s = map_prod ChainReply id (GetChain fail 0 s)"
| "settings_step (fail, Save_chain inputs) s = map_prod ChainReply id (SaveChain fail inputs s)"
| "settings_step (fail, Restart p) s = (NoReply, LoadChainOnStart fail (s\<lparr>sv_provider := p\<rparr>))"

fun settings_replies :: "(failures \<times> settings_request) list \<Rightarrow> settings \<Rightarrow> settings_response list" where
  "settings_replies [] s = []"
| "settings_replies (q # qs) s = (case settings_step q s of (r, s') \<Rightarrow> r # settings_replies qs s')"

lemma same_restart:
  assumes "same_settings s s'"
  shows "same_settings (LoadChainOnStart fail (s\<lparr>sv_provider := p\<rparr>)) (LoadChainOnStart fail (s'\<lparr>sv_provider := p\<rparr>))"
proof (cases "sv_db s")
  case None
  then show ?thesis using assms by (auto simp: LoadChainOnStart_def same_settings_def)
next
  case (Some d)
  then obtain d' where d': "sv_db s' = Some d'" "same_db d d'" using assms by (auto simp: same_settings_def option_rel_Some1)
  have t: "sv_timeout s' = sv_timeout s" using assms by (simp add: same_settings_def)
  obtain r1 d1 where l1: "loadProviderRows fail 0 d = (r1, d1)" by fastforce
  obtain r2 d2 where l2: "loadProviderRows fail 0 d' = (r2, d2)" by fastforce
  have l: "rel_sum (=) (list_all2 same_entry) r1 r2" "same_db d1 d2"
    using same_load [OF d'(2), of fail 0] by (simp_all add: l1 l2)
  show ?thesis
  proof (cases r1)
    case (Inl e)
    then show ?thesis using l l1 l2 Some d'(1) t by (auto simp: LoadChainOnStart_def same_settings_def elim: rel_sum.cases)
  next
    case (Inr es)
    then obtain es' where es': "r2 = Inr es'" "list_all2 same_entry es es'" using l(1) by (auto elim: rel_sum.cases)
    have "list_all2 same_row (map snd es) (map snd es')"
      using es'(2) by (induction rule: list_all2_induct) (simp_all add: same_entry_def)
    note same_chain [OF this, of "sv_timeout s"]
    moreover have "es = [] \<longleftrightarrow> es' = []" using es'(2) by auto
    ultimately show ?thesis using l(2) l1 l2 Inr es'(1) Some d'(1) t
      by (auto simp: LoadChainOnStart_def same_settings_def applyChain_def Let_def)
  qed
qed

lemma same_step:
  "same_settings s s' \<Longrightarrow> fst (settings_step q s) = fst (settings_step q s')
    \<and> same_settings (snd (settings_step q s)) (snd (settings_step q s'))"
  by (induction q s rule: settings_step.induct)
    (simp_all add: same_Get same_Save same_GetChain same_SaveChain same_restart)

text \<open>C32: In every sequence of reads and saves of the legacy setting and of the chain, and of restarts
  of the server, whatever statements fail, no response depends on a stored API key beyond whether it
  is set, whether it is longer than eight bytes and, if it is, its first and last four bytes: two
  services whose keys differ in nothing else give the same responses, also when saves keep stored
  keys.  The connection tests and the list of models, which send the stored key to the vendor and
  answer with what comes back, are not among these requests.\<close>

theorem settings_hide_keys:
  assumes "same_settings s s'"
  shows "settings_replies qs s = settings_replies qs s'"
  using assms
proof (induction qs arbitrary: s s')
  case (Cons q qs)
  then show ?case using same_step [OF Cons.prems, of q] by (simp add: case_prod_beta)
qed simp

definition demo_legacy :: "string \<Rightarrow> llm_setting" where
  "demo_legacy k = \<lparr>ls_Enabled = True, ls_Provider = ''glm'', ls_BaseURL = [], ls_APIKey = k, ls_Model = []\<rparr>"

definition demo_requests_made :: "(failures \<times> settings_request) list" where
  "demo_requests_made = [(no_fail, Get_chain), (no_fail, Restart None), (no_fail, Get_setting)]"

theorem settings_hide_keys_witness:
  "settings_replies demo_requests_made (demo_settings (Some (demo_legacy ''sk-1aaaaaaaaaaaa9xyz'')))
     = settings_replies demo_requests_made (demo_settings (Some (demo_legacy ''sk-1bbbb9xyz'')))"
  by (rule settings_hide_keys)
    (simp add: demo_settings_def NewSettings_def same_settings_def same_db_def same_table_def same_row_def demo_legacy_def
      alike_def empty_table_def)

end
