(* ===== verification/Node_Data_Source.thy ===== *)
theory Node_Data_Source
  imports Node_Select
begin

text \<open>
  The data-source node, \<open>executor/nodes/data_source.go\<close>, with the row projections of
  \<open>datasource/rows.go\<close>.  The data source is a set of functions of its own state; batch quotes and
  universes are optional interfaces of it.  The panic or the exhaustion of memory that a very large
  number of days causes, through the capacity of the result, is not modelled.
\<close>

section \<open>Rows\<close>

definition quote_row :: "quote \<Rightarrow> val" where
  "quote_row q = VMap [(''stock_code'', VStr (q_StockCode q)), (''stock_name'', VStr (q_StockName q)),
     (''price'', VNum (q_Price q)), (''close'', VNum (q_Price q)), (''open'', VNum (q_Open q)), (''high'', VNum (q_High q)),
     (''low'', VNum (q_Low q)), (''prev_close'', VNum (q_PrevClose q)), (''volume'', VInt (q_Volume q)),
     (''amount'', VNum (q_Amount q))]"

definition fundamental_row :: "fundamental \<Rightarrow> val" where
  "fundamental_row f = VMap [(''stock_code'', VStr (fd_StockCode f)), (''stock_name'', VStr (fd_StockName f)),
     (''pe'', VNum (fd_PE f)), (''pb'', VNum (fd_PB f)), (''roe'', VNum (fd_ROE f)),
     (''dividend_yield'', VNum (fd_DividendYield f)), (''revenue'', VNum (fd_Revenue f)), (''net_profit'', VNum (fd_NetProfit f))]"

definition news_row :: "news \<Rightarrow> val" where
  "news_row n = VMap [(''stock_code'', VStr (nw_StockCode n)), (''title'', VStr (nw_Title n)), (''content'', VStr (nw_Content n)),
     (''url'', VStr (nw_URL n)), (''published_at'', VTime (wt_instant (nw_PublishedAt n))), (''source'', VStr (nw_Source n))]"

definition ToRows :: "('a \<Rightarrow> val) \<Rightarrow> 'a list \<Rightarrow> val list" where
  "ToRows row xs = map row xs"

section \<open>The data source\<close>

record 's data_source =
  dm_GetQuote :: "string \<Rightarrow> 's \<Rightarrow> (string + quote option) \<times> 's"
  dm_GetKLine :: "string \<Rightarrow> string \<Rightarrow> instant \<Rightarrow> instant \<Rightarrow> 's \<Rightarrow> (string + kline list) \<times> 's"
  dm_GetFundamental :: "string \<Rightarrow> 's \<Rightarrow> (string + fundamental option) \<times> 's"
  dm_GetNews :: "string \<Rightarrow> int \<Rightarrow> 's \<Rightarrow> (string + news list) \<times> 's"
  dm_BatchQuote :: "(string list \<Rightarrow> 's \<Rightarrow> (string + quote list) \<times> 's) option"
  dm_ListUniverse :: "(string \<Rightarrow> int \<Rightarrow> 's \<Rightarrow> (string + string list) \<times> 's) option"

text \<open>The loop over the codes: what a call gives is collected, a failed call is logged and skipped.\<close>

fun fetch_each :: "(string \<Rightarrow> 's \<Rightarrow> (string + 'a list) \<times> 's) \<Rightarrow> string list \<Rightarrow> 's \<Rightarrow> 'a list \<times> 's" where
  "fetch_each call [] s = ([], s)"
| "fetch_each call (c # cs) s =
     (case call c s of
        (Inl e, s') \<Rightarrow> fetch_each call cs s'
      | (Inr xs, s') \<Rightarrow> map_prod ((@) xs) id (fetch_each call cs s'))"

text \<open>A nil pointer gives nothing.\<close>

definition pointer :: "('b \<Rightarrow> 's \<Rightarrow> (string + 'a option) \<times> 's) \<Rightarrow> 'b \<Rightarrow> 's \<Rightarrow> (string + 'a list) \<times> 's" where
  "pointer call c s = map_prod (map_sum id (\<lambda>x. case x of None \<Rightarrow> [] | Some y \<Rightarrow> [y])) id (call c s)"

definition envelope :: "val list \<Rightarrow> payload" where
  "envelope items = [(''items'', VArr items), (''count'', VInt (int (length items)))]"

definition fetchQuotes :: "'s data_source \<Rightarrow> string list \<Rightarrow> 's \<Rightarrow> payload \<times> 's" where
  "fetchQuotes ds codes s =
     (let each = (\<lambda>s. case fetch_each (pointer (dm_GetQuote ds)) codes s of (qs, s') \<Rightarrow> (envelope (ToRows quote_row qs), s'))
      in case dm_BatchQuote ds of
           None \<Rightarrow> each s
         | Some bq \<Rightarrow>
             (case bq codes s of
                (Inr quotes, s') \<Rightarrow> (envelope (ToRows quote_row quotes), s')
              | (Inl e, s') \<Rightarrow> each s'))"

definition fetchKLines :: "'s data_source \<Rightarrow> instant \<Rightarrow> string list \<Rightarrow> string \<Rightarrow> int \<Rightarrow> 's \<Rightarrow> payload \<times> 's" where
  "fetchKLines ds now codes period days s =
     (let start = add_days (- days) now
      in case fetch_each (\<lambda>c. dm_GetKLine ds c period start now) codes s of
           (ks, s') \<Rightarrow> ([(''klines'', VBars ks), (''count'', VInt (int (length ks))), (''period'', VStr period),
                        (''start'', VTime start), (''end'', VTime now)], s'))"

definition fetchFundamentals :: "'s data_source \<Rightarrow> string list \<Rightarrow> 's \<Rightarrow> payload \<times> 's" where
  "fetchFundamentals ds codes s =
     (case fetch_each (pointer (dm_GetFundamental ds)) codes s of (fs, s') \<Rightarrow> (envelope (ToRows fundamental_row fs), s'))"

definition fetchNews :: "'s data_source \<Rightarrow> string list \<Rightarrow> int \<Rightarrow> 's \<Rightarrow> payload \<times> 's" where
  "fetchNews ds codes limit s =
     (case fetch_each (\<lambda>c. dm_GetNews ds c limit) codes s of (ns, s') \<Rightarrow> (envelope (ToRows news_row ns), s'))"

section \<open>The node\<close>

record data_source_params =
  dp_Subtype :: string
  dp_StockCodes :: "string list"
  dp_Universe :: string
  dp_UniverseLimit :: int
  dp_Period :: string
  dp_Days :: int
  dp_NewsLimit :: int

definition zero_data_source_params :: data_source_params where
  "zero_data_source_params = \<lparr>dp_Subtype = [], dp_StockCodes = [], dp_Universe = [], dp_UniverseLimit = 0, dp_Period = [],
     dp_Days = 0, dp_NewsLimit = 0\<rparr>"

definition data_source_defaults :: "data_source_params \<Rightarrow> data_source_params" where
  "data_source_defaults p =
     p\<lparr>dp_Subtype := (if dp_Subtype p = [] then ''quote'' else dp_Subtype p), dp_Days := positive_or 30 (dp_Days p),
       dp_NewsLimit := positive_or 10 (dp_NewsLimit p), dp_Period := (if dp_Period p = [] then ''1d'' else dp_Period p)\<rparr>"

text \<open>The codes, or what the node returns instead of fetching.\<close>

definition resolve_codes ::
  "'s data_source option \<Rightarrow> data_source_params \<Rightarrow> 's \<Rightarrow> (node_out + string list) \<times> 's" where
  "resolve_codes ds p s =
     (let (r, s') =
        (if dp_Universe p = [] then (Inr (dp_StockCodes p), s)
         else case ds of
           None \<Rightarrow> (Inl (Inr [(''dry_run'', VBool True), (''subtype'', VStr (dp_Subtype p)), (''universe'', VStr (dp_Universe p)),
                            (''count'', VInt 0)]), s)
         | Some d \<Rightarrow>
             (case dm_ListUniverse d of
                None \<Rightarrow> (Inl (Inl (ParamError ''data_source'' ''universe'' ''universe resolution not available'')), s)
              | Some lister \<Rightarrow>
                  (case lister (dp_Universe p) (dp_UniverseLimit p) s of
                     (Inl e, s1) \<Rightarrow> (Inl (Inl (ParamError ''data_source'' ''universe'' e)), s1)
                   | (Inr resolved, s1) \<Rightarrow> (Inr (mergeCodes (dp_StockCodes p) resolved), s1))))
      in (if r = Inr [] then Inl (Inl (ParamError ''data_source'' ''stock_codes'' ''provide stock_codes or a universe'')) else r, s'))"

definition data_source_Run ::
  "(string \<Rightarrow> string + data_source_params) \<Rightarrow> instant \<Rightarrow> 's data_source option \<Rightarrow> payload \<Rightarrow> 's \<Rightarrow> node_out \<times> 's" where
  "data_source_Run unmarshal now ds ins s =
     (case decode_params ''data_source'' unmarshal zero_data_source_params ins of
        Inl e \<Rightarrow> (Inl e, s)
      | Inr p0 \<Rightarrow>
          let p = data_source_defaults p0
          in case resolve_codes ds p s of
               (Inl out, s') \<Rightarrow> (out, s')
             | (Inr codes, s') \<Rightarrow>
                 (case ds of
                    None \<Rightarrow> (Inr [(''dry_run'', VBool True), (''subtype'', VStr (dp_Subtype p)), (''stock_codes'', VStrs codes),
                                 (''count'', VInt 0)], s')
                  | Some d \<Rightarrow>
                      if dp_Subtype p = ''quote'' then map_prod Inr id (fetchQuotes d codes s')
                      else if dp_Subtype p = ''kline'' then map_prod Inr id (fetchKLines d now codes (dp_Period p) (dp_Days p) s')
                      else if dp_Subtype p = ''fundamental'' then map_prod Inr id (fetchFundamentals d codes s')
                      else if dp_Subtype p = ''news'' then map_prod Inr id (fetchNews d codes (dp_NewsLimit p) s')
                      else (Inl (ParamError ''data_source'' ''subtype'' (''unknown: '' @ dp_Subtype p)), s')))"

section \<open>What the node gives\<close>

lemma fetch_each_stateless:
  assumes "\<And>c. call c s = (f c, s)"
  shows "fetch_each call codes s = (concat (map (\<lambda>c. case f c of Inl _ \<Rightarrow> [] | Inr xs \<Rightarrow> xs) codes), s)"
  by (induction codes) (simp_all add: assms split: sum.split)

lemma found_items: "findFirstSlice [(k, VMap (envelope rows))] = (if k \<in> set reserved_keys then None else Some rows)"
  by (simp add: envelope_def)

text \<open>The texts of the codes of the rows.\<close>

definition row_code :: "val \<Rightarrow> string" where
  "row_code row = (case row of VMap m \<Rightarrow> stringOf (lookupField m ''stock_code'') | _ \<Rightarrow> [])"

lemma row_codes [simp]:
  "row_code (quote_row q) = q_StockCode q" "row_code (fundamental_row f) = fd_StockCode f" "row_code (news_row n) = nw_StockCode n"
  by (simp_all add: row_code_def quote_row_def fundamental_row_def news_row_def lookupField_plain)

text \<open>With a data source wired, a known subtype and codes to fetch, the node never fails, not even
  when every single call fails (it is documented to fail then): the calls that fail are left out,
  and without a batch the quotes, in the order of the codes, are exactly those the other calls gave.
  Except for bars the result is one list of rows, which is what the filter, rank, dedupe, persist and
  notify nodes find in it, with its length; a universe is merged behind the explicit codes without
  repetition.\<close>

theorem data_source_soft:
  assumes "decode_params ''data_source'' unmarshal zero_data_source_params ins = Inr p0" "p = data_source_defaults p0"
    and "resolve_codes (Some ds) p s = (Inr codes, s')" "dp_Subtype p \<in> {''quote'', ''kline'', ''fundamental'', ''news''}"
  shows "\<exists>out s''. data_source_Run unmarshal now (Some ds) ins s = (Inr out, s'')
    \<and> (dp_Subtype p \<noteq> ''kline'' \<longrightarrow> (\<exists>rows. out = envelope rows \<and> findFirstSlice [(''upstream'', VMap out)] = Some rows
         \<and> (dp_Subtype p = ''quote'' \<and> dm_BatchQuote ds = None \<longrightarrow>
              rows = map quote_row (fst (fetch_each (pointer (dm_GetQuote ds)) codes s')))))
    \<and> (dp_Universe p \<noteq> [] \<longrightarrow> distinct codes \<and> [] \<notin> set codes)
    \<and> ((\<forall>c s. \<exists>e s'. dm_GetQuote ds c s = (Inl e, s')) \<and> dp_Subtype p = ''quote'' \<and> dm_BatchQuote ds = None \<longrightarrow>
         out = [(''items'', VArr []), (''count'', VInt 0)])"
proof -
  have codes: "distinct codes \<and> [] \<notin> set codes" if "dp_Universe p \<noteq> []"
    using assms(3) that by (auto simp: resolve_codes_def mergeCodes_def merge_loop_eq split: option.splits prod.splits sum.splits if_splits)
  have up: "''upstream'' \<notin> set reserved_keys" by (simp add: reserved_keys_def)
  have failing: "fetch_each (pointer (dm_GetQuote ds)) cs s = ([], snd (fetch_each (pointer (dm_GetQuote ds)) cs s))"
    if down: "\<forall>c s. \<exists>e s'. dm_GetQuote ds c s = (Inl e, s')" for cs s
  proof (induction cs arbitrary: s)
    case (Cons c cs)
    obtain e s1 where "dm_GetQuote ds c s = (Inl e, s1)" using down by blast
    then show ?case using Cons by (simp add: pointer_def)
  qed simp
  have run: "data_source_Run unmarshal now (Some ds) ins s = map_prod Inr id
      (if dp_Subtype p = ''quote'' then fetchQuotes ds codes s' else if dp_Subtype p = ''kline'' then fetchKLines ds now codes (dp_Period p) (dp_Days p) s'
       else if dp_Subtype p = ''fundamental'' then fetchFundamentals ds codes s' else fetchNews ds codes (dp_NewsLimit p) s')"
    using assms(4) by (auto simp: data_source_Run_def assms(1,3) assms(2) [symmetric] Let_def)
  have quotes: "\<exists>rows s1. fetchQuotes ds codes s' = (envelope rows, s1)
      \<and> (dm_BatchQuote ds = None \<longrightarrow> rows = map quote_row (fst (fetch_each (pointer (dm_GetQuote ds)) codes s')))"
    by (auto simp: fetchQuotes_def ToRows_def Let_def split: option.splits prod.splits sum.splits)
  from assms(4) consider "dp_Subtype p = ''quote''" | "dp_Subtype p = ''kline''" | "dp_Subtype p = ''fundamental''" | "dp_Subtype p = ''news''"
    by blast
  then show ?thesis
  proof cases
    case 1
    obtain rows s1 where q: "fetchQuotes ds codes s' = (envelope rows, s1)"
      "dm_BatchQuote ds = None \<longrightarrow> rows = map quote_row (fst (fetch_each (pointer (dm_GetQuote ds)) codes s'))"
      using quotes by (elim exE conjE) (rule that)
    have "rows = []" if "\<forall>c s. \<exists>e s'. dm_GetQuote ds c s = (Inl e, s')" "dm_BatchQuote ds = None"
    proof -
      have "fst (fetch_each (pointer (dm_GetQuote ds)) codes s') = []" by (subst failing [OF that(1)]) simp
      then show ?thesis using q(2) that(2) by simp
    qed
    then show ?thesis
      using codes found_items [of "''upstream''" rows] up 1 q
      by (intro exI [of _ "envelope rows"] exI [of _ s1] conjI) (simp_all add: run envelope_def)
  next
    case 2
    then show ?thesis using codes by (simp add: run fetchKLines_def Let_def split: prod.split)
  next
    case 3
    then show ?thesis using codes found_items [of "''upstream''"] up by (simp add: run fetchFundamentals_def split: prod.split)
  next
    case 4
    then show ?thesis using codes found_items [of "''upstream''"] up by (simp add: run fetchNews_def split: prod.split)
  qed
qed

definition dead_source :: "unit data_source" where
  "dead_source = \<lparr>dm_GetQuote = (\<lambda>_ s. (Inl ''down'', s)), dm_GetKLine = (\<lambda>_ _ _ _ s. (Inl ''down'', s)),
     dm_GetFundamental = (\<lambda>_ s. (Inl ''down'', s)), dm_GetNews = (\<lambda>_ _ s. (Inl ''down'', s)), dm_BatchQuote = None,
     dm_ListUniverse = None\<rparr>"

definition demo_ds_params :: data_source_params where
  "demo_ds_params = zero_data_source_params\<lparr>dp_StockCodes := [''600000.SH'']\<rparr>"

theorem data_source_soft_witness:
  "fst (data_source_Run (\<lambda>_. Inr demo_ds_params) 0 (Some dead_source) [(''_params'', VBytes ''{}'')] ())
     = Inr [(''items'', VArr []), (''count'', VInt 0)]"
proof -
  have p: "decode_params ''data_source'' (\<lambda>_. Inr demo_ds_params) zero_data_source_params [(''_params'', VBytes ''{}'')] = Inr demo_ds_params"
    by (simp add: decode_params_def)
  have d: "dp_Subtype (data_source_defaults demo_ds_params) = ''quote''" "dp_Universe (data_source_defaults demo_ds_params) = []"
    "dp_StockCodes (data_source_defaults demo_ds_params) = [''600000.SH'']"
    by (simp_all add: data_source_defaults_def demo_ds_params_def zero_data_source_params_def)
  have r: "resolve_codes (Some dead_source) (data_source_defaults demo_ds_params) () = (Inr [''600000.SH''], ())"
    by (simp add: resolve_codes_def d)
  have "\<forall>c s. \<exists>e s'. dm_GetQuote dead_source c s = (Inl e, s')" "dm_BatchQuote dead_source = None"
    by (simp_all add: dead_source_def)
  with data_source_soft [OF p refl r, of 0] show ?thesis by (auto simp: d)
qed

end
