(* ===== verification/Breaker_Spec.thy ===== *)
theory Breaker_Spec
  imports AF_Prelude
begin

text \<open>
  What a circuit breaker promises, independently of how it keeps its history: an abstract
  machine with three states, and the contract \<open>breaker_contract\<close> that an implementation has
  to meet.  \<open>datasource.Breaker\<close> and \<open>notify.CircuitBreaker\<close> are two separate
  implementations in the code; both are interpretations of the contract.
\<close>

section \<open>The abstract machine\<close>

record breaker_params =
  bp_threshold :: int
  bp_window :: duration
  bp_cooldown :: duration

datatype breaker_view = Closed "instant list" | Open instant | HalfOpen bool

definition recent :: "duration \<Rightarrow> instant \<Rightarrow> instant list \<Rightarrow> instant list" where
  "recent window now fs = filter (\<lambda>t. now - window < t) fs"

fun spec_allow :: "breaker_params \<Rightarrow> instant \<Rightarrow> breaker_view \<Rightarrow> bool \<times> breaker_view" where
  "spec_allow p now (Closed fs) = (True, Closed (recent (bp_window p) now fs))"
| "spec_allow p now (Open t) =
     (if bp_cooldown p \<le> now - t then (True, HalfOpen True) else (False, Open t))"
| "spec_allow p now (HalfOpen busy) = (\<not> busy, HalfOpen True)"

fun spec_success :: "breaker_view \<Rightarrow> breaker_view" where
  "spec_success (HalfOpen _) = Closed []"
| "spec_success v = v"

fun spec_failure :: "breaker_params \<Rightarrow> instant \<Rightarrow> breaker_view \<Rightarrow> breaker_view" where
  "spec_failure p now (Closed fs) =
     (let fs' = recent (bp_window p) now (fs @ [now])
      in if bp_threshold p \<le> int (length fs') then Open now else Closed fs')"
| "spec_failure p now (Open t) = Open t"
| "spec_failure p now (HalfOpen _) = Open now"

fun spec_state :: "breaker_params \<Rightarrow> instant \<Rightarrow> breaker_view \<Rightarrow> breaker_view" where
  "spec_state p now (Open t) = (if bp_cooldown p \<le> now - t then HalfOpen False else Open t)"
| "spec_state p now v = v"

section \<open>The contract\<close>

text \<open>The calls of a breaker's user, with the clock reading each one gets.\<close>

datatype breaker_op = Ask instant | Succeeded | Failed instant | Look instant

locale breaker_contract =
  fixes params :: "'b \<Rightarrow> breaker_params"
    and view :: "'b \<Rightarrow> breaker_view"
    and allow :: "instant \<Rightarrow> 'b \<Rightarrow> bool \<times> 'b"
    and success :: "'b \<Rightarrow> 'b"
    and failure :: "instant \<Rightarrow> 'b \<Rightarrow> 'b"
    and look :: "instant \<Rightarrow> 'b \<Rightarrow> 'b"
  assumes params_allow: "params (snd (allow now b)) = params b"
    and params_success: "params (success b) = params b"
    and params_failure: "params (failure now b) = params b"
    and params_look: "params (look now b) = params b"
    and allow_answer: "fst (allow now b) = fst (spec_allow (params b) now (view b))"
    and allow_view: "view (snd (allow now b)) = snd (spec_allow (params b) now (view b))"
    and success_view: "view (success b) = spec_success (view b)"
    and failure_view: "view (failure now b) = spec_failure (params b) now (view b)"
    and look_view: "view (look now b) = spec_state (params b) now (view b)"
begin

definition apply_op :: "breaker_op \<Rightarrow> 'b \<Rightarrow> bool option \<times> 'b" where
  "apply_op c b =
     (case c of
        Ask now \<Rightarrow> (case allow now b of (ok, b') \<Rightarrow> (Some ok, b'))
      | Succeeded \<Rightarrow> (None, success b)
      | Failed now \<Rightarrow> (None, failure now b)
      | Look now \<Rightarrow> (None, look now b))"

text \<open>A sequence of calls: the answers of its \<open>Ask\<close>s, in order, and the final state.\<close>

fun apply_ops :: "breaker_op list \<Rightarrow> 'b \<Rightarrow> bool list \<times> 'b" where
  "apply_ops [] b = ([], b)"
| "apply_ops (c # cs) b =
     (case apply_op c b of (a, b') \<Rightarrow>
        case apply_ops cs b' of (as, b'') \<Rightarrow> (case a of None \<Rightarrow> as | Some x \<Rightarrow> x # as, b''))"

lemma apply_op_params: "params (snd (apply_op c b)) = params b"
  by (cases c) (simp_all add: apply_op_def params_allow [simplified] params_success params_failure
      params_look split: prod.split, metis params_allow snd_conv)

end

text \<open>The same sequence on the abstract machine.\<close>

fun spec_op :: "breaker_params \<Rightarrow> breaker_op \<Rightarrow> breaker_view \<Rightarrow> bool option \<times> breaker_view" where
  "spec_op p (Ask now) v = (case spec_allow p now v of (ok, v') \<Rightarrow> (Some ok, v'))"
| "spec_op p Succeeded v = (None, spec_success v)"
| "spec_op p (Failed now) v = (None, spec_failure p now v)"
| "spec_op p (Look now) v = (None, spec_state p now v)"

fun spec_ops :: "breaker_params \<Rightarrow> breaker_op list \<Rightarrow> breaker_view \<Rightarrow> bool list \<times> breaker_view" where
  "spec_ops p [] v = ([], v)"
| "spec_ops p (c # cs) v =
     (case spec_op p c v of (a, v') \<Rightarrow>
        case spec_ops p cs v' of (as, v'') \<Rightarrow> (case a of None \<Rightarrow> as | Some x \<Rightarrow> x # as, v''))"

context breaker_contract begin

lemma apply_op_refines:
  "fst (apply_op c b) = fst (spec_op (params b) c (view b))"
  "view (snd (apply_op c b)) = snd (spec_op (params b) c (view b))"
  using allow_answer allow_view
  by (cases c; simp add: apply_op_def success_view failure_view look_view split: prod.split;
      metis fst_conv snd_conv)+

text \<open>The implementation answers as the abstract machine does, whatever the calls.\<close>

lemma apply_ops_refines:
  "fst (apply_ops cs b) = fst (spec_ops (params b) cs (view b))
   \<and> view (snd (apply_ops cs b)) = snd (spec_ops (params b) cs (view b))"
proof (induction cs arbitrary: b)
  case (Cons c cs)
  show ?case
    using Cons.IH [of "snd (apply_op c b)"] apply_op_refines [of c b] apply_op_params [of c b]
    by (simp add: case_prod_beta split: option.split)
qed simp

end

section \<open>Properties of the abstract machine\<close>

text \<open>The clock reading of a call, when it takes one.\<close>

fun op_time :: "breaker_op \<Rightarrow> instant option" where
  "op_time (Ask now) = Some now"
| "op_time (Failed now) = Some now"
| "op_time (Look now) = Some now"
| "op_time Succeeded = None"

lemma spec_open_blocks:
  "\<forall>c\<in>set cs. \<forall>now. op_time c = Some now \<longrightarrow> now - t < bp_cooldown p \<Longrightarrow>
     snd (spec_ops p cs (Open t)) = Open t \<and> True \<notin> set (fst (spec_ops p cs (Open t)))"
proof (induction cs)
  case (Cons c cs)
  then have "spec_op p c (Open t) = (case c of Ask now \<Rightarrow> Some False | _ \<Rightarrow> None, Open t)"
    by (cases c) auto
  with Cons show ?case by (auto simp: case_prod_beta split: breaker_op.splits option.splits)
qed simp

lemma spec_single_probe:
  "\<forall>c\<in>set cs. \<exists>now. c = Ask now \<or> c = Look now \<Longrightarrow>
     snd (spec_ops p cs (HalfOpen True)) = HalfOpen True
     \<and> True \<notin> set (fst (spec_ops p cs (HalfOpen True)))"
proof (induction cs)
  case (Cons c cs)
  then have "spec_op p c (HalfOpen True) = (case c of Ask now \<Rightarrow> Some False | _ \<Rightarrow> None, HalfOpen True)"
    by (auto split: breaker_op.splits)
  with Cons show ?case by (auto simp: case_prod_beta split: breaker_op.splits option.splits)
qed simp

text \<open>A closed breaker holds fewer failures than the threshold.\<close>

definition below_threshold :: "breaker_params \<Rightarrow> breaker_view \<Rightarrow> bool" where
  "below_threshold p v = (case v of Closed fs \<Rightarrow> int (length fs) < bp_threshold p | _ \<Rightarrow> True)"

lemma below_threshold_op:
  assumes "below_threshold p v" "0 < bp_threshold p"
  shows "below_threshold p (snd (spec_op p c v))"
proof -
  have "int (length (recent w now fs)) < n" if "int (length fs) < n" for w now fs n
    unfolding recent_def using that length_filter_le [of "\<lambda>t. now - w < t" fs] by linarith
  then show ?thesis
    using assms by (cases c; cases v) (auto simp: below_threshold_def Let_def not_le)
qed

lemma below_threshold_ops:
  "below_threshold p v \<Longrightarrow> 0 < bp_threshold p \<Longrightarrow> below_threshold p (snd (spec_ops p cs v))"
proof (induction cs arbitrary: v)
  case (Cons c cs)
  show ?case
    using Cons.IH [OF below_threshold_op [OF Cons.prems]] Cons.prems(2) by (simp add: case_prod_beta)
qed simp


text \<open>
  From a fresh history, a sequence of failures at non-decreasing times trips the breaker exactly
  when at some failure the window that ends there holds as many failures as the threshold.
\<close>

definition tripped :: "breaker_params \<Rightarrow> instant list \<Rightarrow> bool" where
  "tripped p ts \<longleftrightarrow>
     (\<exists>k<length ts. bp_threshold p \<le> int (length (recent (bp_window p) (ts ! k) (take (Suc k) ts))))"

lemma recent_recent:
  "u \<le> now \<Longrightarrow> recent w now (recent w u fs @ [now]) = recent w now (fs @ [now])"
  by (auto simp: recent_def intro!: filter_cong)

lemma tripped_snoc:
  "tripped p (ts @ [t]) \<longleftrightarrow>
     tripped p ts \<or> bp_threshold p \<le> int (length (recent (bp_window p) t (ts @ [t])))"
proof
  assume "tripped p (ts @ [t])"
  then obtain k where k: "k < Suc (length ts)"
    "bp_threshold p \<le> int (length (recent (bp_window p) ((ts @ [t]) ! k) (take (Suc k) (ts @ [t]))))"
    by (auto simp: tripped_def)
  then show "tripped p ts \<or> bp_threshold p \<le> int (length (recent (bp_window p) t (ts @ [t])))"
    by (cases "k = length ts") (auto simp: tripped_def nth_append intro!: exI [of _ k])
next
  assume "tripped p ts \<or> bp_threshold p \<le> int (length (recent (bp_window p) t (ts @ [t])))"
  then show "tripped p (ts @ [t])"
  proof
    assume "tripped p ts"
    then obtain k where "k < length ts"
      "bp_threshold p \<le> int (length (recent (bp_window p) (ts ! k) (take (Suc k) ts)))"
      by (auto simp: tripped_def)
    then show ?thesis by (auto simp: tripped_def nth_append intro!: exI [of _ k])
  next
    assume "bp_threshold p \<le> int (length (recent (bp_window p) t (ts @ [t])))"
    then show ?thesis by (auto simp: tripped_def intro!: exI [of _ "length ts"])
  qed
qed

lemma spec_ops_snd_append:
  "snd (spec_ops p (cs @ ds) v) = snd (spec_ops p ds (snd (spec_ops p cs v)))"
  by (induction cs arbitrary: v) (auto simp: case_prod_beta)

lemma spec_failures:
  assumes "sorted ts"
  shows "if tripped p ts then \<exists>u. snd (spec_ops p (map Failed ts) (Closed [])) = Open u
         else snd (spec_ops p (map Failed ts) (Closed [])) = Closed (recent (bp_window p) (last ts) ts)"
  using assms
proof (induction ts rule: rev_induct)
  case Nil
  then show ?case by (simp add: tripped_def recent_def)
next
  case (snoc t ts)
  then have s: "sorted ts" and last: "ts \<noteq> [] \<Longrightarrow> last ts \<le> t"
    by (auto simp: sorted_append)
  show ?case
  proof (cases "tripped p ts")
    case True
    with snoc.IH [OF s] show ?thesis by (auto simp: spec_ops_snd_append tripped_snoc)
  next
    case False
    then have IH: "snd (spec_ops p (map Failed ts) (Closed [])) = Closed (recent (bp_window p) (last ts) ts)"
      using snoc.IH [OF s] by simp
    have "recent (bp_window p) t (recent (bp_window p) (last ts) ts @ [t]) = recent (bp_window p) t (ts @ [t])"
      using recent_recent last by (cases "ts = []") (auto simp: recent_def)
    with IH False show ?thesis
      by (simp add: spec_ops_snd_append tripped_snoc Let_def)
  qed
qed

end
