(* ===== verification/Breaker.thy ===== *)
theory Breaker
  imports Breaker_Spec
begin

text \<open>
  \<open>datasource/breaker.go\<close>: the circuit breaker the data-source manager keeps for every source.
  The clock reading of a method call is an argument of its model.
\<close>

datatype BreakerState = StateClosed | StateOpen | StateHalfOpen

definition BreakerState_String :: "BreakerState \<Rightarrow> string" where
  "BreakerState_String s =
     (case s of StateClosed \<Rightarrow> ''closed'' | StateOpen \<Rightarrow> ''open'' | StateHalfOpen \<Rightarrow> ''half-open'')"

record 's breaker =
  br_source :: 's
  br_threshold :: int
  br_window :: duration
  br_cooldown :: duration
  br_state :: BreakerState
  br_failures :: "instant list"
  br_openedAt :: instant
  br_halfOpenIn :: bool

text \<open>\<open>NewBreaker\<close>: \<^const>\<open>None\<close> is the panic on a nil source.\<close>

definition NewBreaker :: "'s option \<Rightarrow> int \<Rightarrow> duration \<Rightarrow> duration \<Rightarrow> 's breaker option" where
  "NewBreaker src threshold window cooldown =
     (case src of
        None \<Rightarrow> None
      | Some s \<Rightarrow> Some
          \<lparr>br_source = s, br_threshold = positive_or 5 threshold,
           br_window = positive_or (5 * nano_minute) window,
           br_cooldown = positive_or (10 * nano_minute) cooldown,
           br_state = StateClosed, br_failures = [], br_openedAt = 0, br_halfOpenIn = False\<rparr>)"

definition br_gcLocked :: "instant \<Rightarrow> 's breaker \<Rightarrow> 's breaker" where
  "br_gcLocked now b =
     (let cutoff = now + (- br_window b)
      in b\<lparr>br_failures := filter (\<lambda>t. cutoff < t) (br_failures b)\<rparr>)"

definition br_Allow :: "instant \<Rightarrow> 's breaker \<Rightarrow> bool \<times> 's breaker" where
  "br_Allow now b0 =
     (let b = (if br_state b0 = StateClosed then br_gcLocked now b0 else b0)
      in case br_state b of
           StateClosed \<Rightarrow> (True, b)
         | StateOpen \<Rightarrow>
             if now - br_openedAt b \<ge> br_cooldown b
             then (True, b\<lparr>br_state := StateHalfOpen, br_halfOpenIn := True\<rparr>)
             else (False, b)
         | StateHalfOpen \<Rightarrow>
             if br_halfOpenIn b then (False, b) else (True, b\<lparr>br_halfOpenIn := True\<rparr>))"

definition br_RecordSuccess :: "'s breaker \<Rightarrow> 's breaker" where
  "br_RecordSuccess b =
     (case br_state b of
        StateHalfOpen \<Rightarrow> b\<lparr>br_state := StateClosed, br_halfOpenIn := False, br_failures := []\<rparr>
      | StateClosed \<Rightarrow> b
      | StateOpen \<Rightarrow> b)"

definition br_RecordFailure :: "instant \<Rightarrow> 's breaker \<Rightarrow> 's breaker" where
  "br_RecordFailure now b =
     (case br_state b of
        StateHalfOpen \<Rightarrow>
          b\<lparr>br_state := StateOpen, br_openedAt := now, br_halfOpenIn := False,
            br_failures := br_failures b @ [now]\<rparr>
      | StateClosed \<Rightarrow>
          let b' = br_gcLocked now (b\<lparr>br_failures := br_failures b @ [now]\<rparr>)
          in if int (length (br_failures b')) \<ge> br_threshold b'
             then b'\<lparr>br_state := StateOpen, br_openedAt := now\<rparr> else b'
      | StateOpen \<Rightarrow> b)"

definition br_State :: "instant \<Rightarrow> 's breaker \<Rightarrow> BreakerState \<times> 's breaker" where
  "br_State now b =
     (let b' = (if br_state b = StateOpen \<and> now - br_openedAt b \<ge> br_cooldown b
                then b\<lparr>br_state := StateHalfOpen, br_halfOpenIn := False\<rparr> else b)
      in (br_state b', b'))"

definition br_StateName :: "instant \<Rightarrow> 's breaker \<Rightarrow> string \<times> 's breaker" where
  "br_StateName now b = (case br_State now b of (s, b') \<Rightarrow> (BreakerState_String s, b'))"

definition br_FailureCount :: "instant \<Rightarrow> 's breaker \<Rightarrow> nat \<times> 's breaker" where
  "br_FailureCount now b = (let b' = br_gcLocked now b in (length (br_failures b'), b'))"

section \<open>The contract\<close>

definition br_params :: "'s breaker \<Rightarrow> breaker_params" where
  "br_params b = \<lparr>bp_threshold = br_threshold b, bp_window = br_window b, bp_cooldown = br_cooldown b\<rparr>"

definition br_view :: "'s breaker \<Rightarrow> breaker_view" where
  "br_view b =
     (case br_state b of
        StateClosed \<Rightarrow> Closed (br_failures b)
      | StateOpen \<Rightarrow> Open (br_openedAt b)
      | StateHalfOpen \<Rightarrow> HalfOpen (br_halfOpenIn b))"

lemmas br_defs = br_params_def br_view_def br_Allow_def br_RecordSuccess_def br_RecordFailure_def
  br_State_def br_gcLocked_def recent_def Let_def

interpretation source_breaker:
  breaker_contract br_params br_view br_Allow br_RecordSuccess br_RecordFailure "\<lambda>now b. snd (br_State now b)"
  by unfold_locales (simp_all add: br_defs split: BreakerState.split)


section \<open>Properties\<close>

definition ex_breaker :: "nat breaker" where
  "ex_breaker = \<lparr>br_source = 0, br_threshold = 2, br_window = 100, br_cooldown = 50,
     br_state = StateClosed, br_failures = [], br_openedAt = 0, br_halfOpenIn = False\<rparr>"

text \<open>C25: a fresh breaker that only sees failures, at non-decreasing times, is open afterwards
  exactly when at some failure the trailing window held at least \<open>threshold\<close> of them.\<close>

theorem breaker_trips:
  assumes "NewBreaker src threshold window cooldown = Some b" "sorted ts"
  shows "br_state (snd (source_breaker.apply_ops (map Failed ts) b)) = StateOpen
          \<longleftrightarrow> (\<exists>k<length ts. br_threshold b
                 \<le> int (length (filter (\<lambda>t. ts ! k - br_window b < t) (take (Suc k) ts))))"
proof -
  have b: "br_view b = Closed []"
    using assms(1) by (auto simp: NewBreaker_def br_view_def split: option.splits)
  have "(if tripped (br_params b) ts
         then \<exists>u. br_view (snd (source_breaker.apply_ops (map Failed ts) b)) = Open u
         else br_view (snd (source_breaker.apply_ops (map Failed ts) b))
                = Closed (recent (bp_window (br_params b)) (last ts) ts))"
    using spec_failures [OF assms(2), of "br_params b"]
    by (simp add: source_breaker.apply_ops_refines b)
  then have "br_state (snd (source_breaker.apply_ops (map Failed ts) b)) = StateOpen
          \<longleftrightarrow> tripped (br_params b) ts"
    by (auto simp: br_view_def split: BreakerState.splits if_splits)
  then show ?thesis by (simp add: tripped_def br_params_def recent_def)
qed

theorem breaker_trips_witness:
  "br_state (snd (source_breaker.apply_ops (map Failed [1, 2, 3])
      \<lparr>br_source = (0 :: nat), br_threshold = 2, br_window = 100, br_cooldown = 50,
       br_state = StateClosed, br_failures = [], br_openedAt = 0, br_halfOpenIn = False\<rparr>)) = StateOpen"
  by (subst breaker_trips [where src = "Some 0" and threshold = 2 and window = 100 and cooldown = 50])
     (auto simp: NewBreaker_def intro!: exI [of _ 1])

text \<open>An open breaker whose cooldown has not elapsed at any clock reading, and a half-open one
  whose probe is in flight and only sees \<open>Allow\<close> and \<open>State\<close> calls, admit no call at all and stay as
  they are: at most one probe goes to a source that is down.\<close>

theorem breaker_blocks:
  assumes "br_state b = StateOpen \<and> (\<forall>c\<in>set cs. \<forall>now. op_time c = Some now \<longrightarrow> now - br_openedAt b < br_cooldown b)
         \<or> br_state b = StateHalfOpen \<and> br_halfOpenIn b \<and> (\<forall>c\<in>set cs. \<exists>now. c = Ask now \<or> c = Look now)"
  shows "True \<notin> set (fst (source_breaker.apply_ops cs b))
         \<and> br_view (snd (source_breaker.apply_ops cs b)) = br_view b"
  using assms
proof
  assume "br_state b = StateOpen \<and> (\<forall>c\<in>set cs. \<forall>now. op_time c = Some now \<longrightarrow> now - br_openedAt b < br_cooldown b)"
  then show ?thesis
    using spec_open_blocks [of cs "br_openedAt b" "br_params b"] source_breaker.apply_ops_refines [of cs b]
    by (auto simp: br_view_def br_params_def)
next
  assume "br_state b = StateHalfOpen \<and> br_halfOpenIn b \<and> (\<forall>c\<in>set cs. \<exists>now. c = Ask now \<or> c = Look now)"
  then show ?thesis
    using spec_single_probe [of cs "br_params b"] source_breaker.apply_ops_refines [of cs b]
    by (auto simp: br_view_def)
qed

theorem breaker_blocks_witness:
  "True \<notin> set (fst (source_breaker.apply_ops [Ask 10, Failed 20, Ask 49]
     \<lparr>br_source = (0 :: nat), br_threshold = 2, br_window = 100, br_cooldown = 50,
       br_state = StateOpen, br_failures = [], br_openedAt = 0, br_halfOpenIn = False\<rparr>))"
  by (rule breaker_blocks [THEN conjunct1]) auto

end
