(* ===== verification/Notify_Circuit.thy ===== *)
theory Notify_Circuit
  imports Breaker
begin

text \<open>
  \<open>notify/circuit.go\<close>: the second circuit breaker of the code base, one per notification
  channel, and the health report of \<open>notify/handlers.go\<close>.
\<close>

datatype CircuitState = CircuitClosed | CircuitOpen | CircuitHalfOpen

definition CircuitState_String :: "CircuitState \<Rightarrow> string" where
  "CircuitState_String s =
     (case s of CircuitClosed \<Rightarrow> ''closed'' | CircuitOpen \<Rightarrow> ''open'' | CircuitHalfOpen \<Rightarrow> ''half-open'')"

record circuit_config =
  FailureThreshold :: int
  Window :: duration
  Cooldown :: duration

definition circuit_withDefaults :: "circuit_config \<Rightarrow> circuit_config" where
  "circuit_withDefaults c =
     \<lparr>FailureThreshold = positive_or 5 (FailureThreshold c),
      Window = positive_or (5 * nano_minute) (Window c),
      Cooldown = positive_or (10 * nano_minute) (Cooldown c)\<rparr>"

record circuit =
  cb_cfg :: circuit_config
  cb_state :: CircuitState
  cb_failures :: "instant list"
  cb_openedAt :: instant
  cb_halfOpenIn :: bool

definition NewCircuitBreaker :: "circuit_config \<Rightarrow> circuit" where
  "NewCircuitBreaker cfg =
     \<lparr>cb_cfg = circuit_withDefaults cfg, cb_state = CircuitClosed, cb_failures = [],
      cb_openedAt = 0, cb_halfOpenIn = False\<rparr>"

definition cb_gcLocked :: "instant \<Rightarrow> circuit \<Rightarrow> circuit" where
  "cb_gcLocked now b =
     (let cutoff = now + (- Window (cb_cfg b))
      in b\<lparr>cb_failures := filter (\<lambda>t. cutoff < t) (cb_failures b)\<rparr>)"

text \<open>\<open>Allow\<close>: the boolean is \<^const>\<open>False\<close> exactly when the error is \<open>ErrCircuitOpen\<close>.\<close>

datatype circuit_error = ErrCircuitOpen

definition cb_Allow :: "instant \<Rightarrow> circuit \<Rightarrow> (bool \<times> circuit_error option) \<times> circuit" where
  "cb_Allow now b0 =
     (let b = (if cb_state b0 = CircuitClosed then cb_gcLocked now b0 else b0)
      in case cb_state b of
           CircuitClosed \<Rightarrow> ((True, None), b)
         | CircuitOpen \<Rightarrow>
             if now - cb_openedAt b \<ge> Cooldown (cb_cfg b)
             then ((True, None), b\<lparr>cb_state := CircuitHalfOpen, cb_halfOpenIn := True\<rparr>)
             else ((False, Some ErrCircuitOpen), b)
         | CircuitHalfOpen \<Rightarrow>
             if cb_halfOpenIn b then ((False, Some ErrCircuitOpen), b)
             else ((True, None), b\<lparr>cb_halfOpenIn := True\<rparr>))"

definition cb_OnSuccess :: "circuit \<Rightarrow> circuit" where
  "cb_OnSuccess b =
     (case cb_state b of
        CircuitHalfOpen \<Rightarrow> b\<lparr>cb_state := CircuitClosed, cb_halfOpenIn := False, cb_failures := []\<rparr>
      | CircuitClosed \<Rightarrow> b
      | CircuitOpen \<Rightarrow> b)"

definition cb_OnFailure :: "instant \<Rightarrow> circuit \<Rightarrow> circuit" where
  "cb_OnFailure now b =
     (case cb_state b of
        CircuitHalfOpen \<Rightarrow>
          b\<lparr>cb_state := CircuitOpen, cb_openedAt := now, cb_halfOpenIn := False,
            cb_failures := cb_failures b @ [now]\<rparr>
      | CircuitClosed \<Rightarrow>
          let b' = cb_gcLocked now (b\<lparr>cb_failures := cb_failures b @ [now]\<rparr>)
          in if int (length (cb_failures b')) \<ge> FailureThreshold (cb_cfg b')
             then b'\<lparr>cb_state := CircuitOpen, cb_openedAt := now\<rparr> else b'
      | CircuitOpen \<Rightarrow> b)"

definition cb_State :: "instant \<Rightarrow> circuit \<Rightarrow> CircuitState \<times> circuit" where
  "cb_State now b =
     (let b' = (if cb_state b = CircuitOpen \<and> now - cb_openedAt b \<ge> Cooldown (cb_cfg b)
                then b\<lparr>cb_state := CircuitHalfOpen, cb_halfOpenIn := False\<rparr> else b)
      in (cb_state b', b'))"

definition cb_IsHealthy :: "instant \<Rightarrow> circuit \<Rightarrow> bool \<times> circuit" where
  "cb_IsHealthy now b = (case cb_State now b of (s, b') \<Rightarrow> (s = CircuitClosed, b'))"

section \<open>The contract\<close>

definition cb_params :: "circuit \<Rightarrow> breaker_params" where
  "cb_params b = \<lparr>bp_threshold = FailureThreshold (cb_cfg b), bp_window = Window (cb_cfg b),
                  bp_cooldown = Cooldown (cb_cfg b)\<rparr>"

definition cb_view :: "circuit \<Rightarrow> breaker_view" where
  "cb_view b =
     (case cb_state b of
        CircuitClosed \<Rightarrow> Closed (cb_failures b)
      | CircuitOpen \<Rightarrow> Open (cb_openedAt b)
      | CircuitHalfOpen \<Rightarrow> HalfOpen (cb_halfOpenIn b))"

definition cb_admits :: "instant \<Rightarrow> circuit \<Rightarrow> bool \<times> circuit" where
  "cb_admits now b = (case cb_Allow now b of ((ok, _), b') \<Rightarrow> (ok, b'))"

lemmas cb_defs = cb_params_def cb_view_def cb_Allow_def cb_admits_def cb_OnSuccess_def
  cb_OnFailure_def cb_State_def cb_gcLocked_def recent_def Let_def

interpretation channel_breaker:
  breaker_contract cb_params cb_view cb_admits cb_OnSuccess cb_OnFailure "\<lambda>now b. snd (cb_State now b)"
  by unfold_locales (simp_all add: cb_defs split: CircuitState.split)

section \<open>The health report\<close>

record channel_health =
  ch_Registered :: bool
  ch_State :: string
  ch_Healthy :: bool

record health_snapshot =
  hs_Channels :: "string \<rightharpoonup> channel_health"
  hs_Healthy :: bool

definition report_channel ::
  "instant \<Rightarrow> string \<Rightarrow> (string \<rightharpoonup> circuit) \<times> health_snapshot \<Rightarrow> (string \<rightharpoonup> circuit) \<times> health_snapshot" where
  "report_channel now name st =
     (case st of (brs, snap) \<Rightarrow>
        case brs name of
          None \<Rightarrow> (brs, snap\<lparr>hs_Channels := (hs_Channels snap)
                          (name \<mapsto> \<lparr>ch_Registered = False, ch_State = ''unconfigured'', ch_Healthy = False\<rparr>),
                        hs_Healthy := False\<rparr>)
        | Some br \<Rightarrow>
            case cb_State now br of (s, br') \<Rightarrow>
            case cb_IsHealthy now br' of (healthy, br'') \<Rightarrow>
              (brs(name \<mapsto> br''),
               snap\<lparr>hs_Channels := (hs_Channels snap)
                      (name \<mapsto> \<lparr>ch_Registered = True, ch_State = CircuitState_String s, ch_Healthy = healthy\<rparr>),
                    hs_Healthy := hs_Healthy snap \<and> healthy\<rparr>))"

definition BuildHealth :: "instant \<Rightarrow> (string \<rightharpoonup> circuit) \<Rightarrow> (string \<rightharpoonup> circuit) \<times> health_snapshot" where
  "BuildHealth now brs =
     fold (report_channel now) [''feishu'', ''dingtalk'', ''wecom'']
       (brs, \<lparr>hs_Channels = Map.empty, hs_Healthy = True\<rparr>)"

section \<open>Properties\<close>

text \<open>The two breakers of the code base are interchangeable: with the same limits and from the
  same state, any sequence of calls gets the same answers from \<open>datasource.Breaker\<close> and from
  \<open>notify.CircuitBreaker\<close>, and leaves them in the same state.\<close>

theorem breakers_equivalent:
  assumes "br_params b = cb_params c" "br_view b = cb_view c"
  shows "fst (source_breaker.apply_ops cs b) = fst (channel_breaker.apply_ops cs c)
         \<and> br_view (snd (source_breaker.apply_ops cs b)) = cb_view (snd (channel_breaker.apply_ops cs c))"
  using assms by (simp add: source_breaker.apply_ops_refines channel_breaker.apply_ops_refines)

theorem breakers_equivalent_witness:
  "fst (source_breaker.apply_ops [Failed 1, Ask 2] (the (NewBreaker (Some (0 :: nat)) 0 0 0)))
   = fst (channel_breaker.apply_ops [Failed 1, Ask 2] (NewCircuitBreaker \<lparr>FailureThreshold = 0, Window = 0, Cooldown = 0\<rparr>))"
  by (rule breakers_equivalent [THEN conjunct1])
     (simp_all add: NewBreaker_def NewCircuitBreaker_def circuit_withDefaults_def br_params_def
        cb_params_def br_view_def cb_view_def)

end
