(* ===== verification/Notify_Retry.thy ===== *)
theory Notify_Retry
  imports AF_Prelude
begin

text \<open>
  \<open>notify/retry.go\<close>: retries with exponential backoff.  The function retried, the context and
  the timer are arguments: what attempt \<open>n\<close> returns, whether the context is done at the check
  before attempt \<open>n\<close>, and whether it is done during the wait after attempt \<open>n\<close>.
\<close>

record retry_config =
  rc_Attempts :: int
  rc_InitialBackoff :: duration
  rc_MaxBackoff :: duration

definition retry_withDefaults :: "retry_config \<Rightarrow> retry_config" where
  "retry_withDefaults c =
     \<lparr>rc_Attempts = positive_or 3 (rc_Attempts c),
      rc_InitialBackoff = positive_or nano_second (rc_InitialBackoff c),
      rc_MaxBackoff = positive_or (30 * nano_second) (rc_MaxBackoff c)\<rparr>"

datatype ctx_error = CtxCanceled | CtxDeadlineExceeded

text \<open>
  The errors of \<open>Retry\<close>: the bare context error, an abort before an attempt (which wraps the
  last attempt's error), a cancelled wait (which wraps the context's error) and exhaustion.
\<close>

datatype 'e retry_error =
    CtxDone ctx_error
  | RetryAborted int int ctx_error 'e
  | RetryCanceled int int ctx_error 'e
  | RetryExhausted int "'e option"

text \<open>What a call of \<open>Retry\<close> does: its error, the waits it starts, the attempts it makes.\<close>

record 'e retry_run =
  rr_err :: "'e retry_error option"
  rr_waits :: "duration list"
  rr_calls :: nat

function retry_loop ::
  "retry_config \<Rightarrow> (int \<Rightarrow> ctx_error option) \<Rightarrow> (int \<Rightarrow> 'e option) \<Rightarrow> (int \<Rightarrow> ctx_error option)
   \<Rightarrow> int \<Rightarrow> duration \<Rightarrow> 'e option \<Rightarrow> 'e retry_run"
where
  "retry_loop cfg ctx fn tick attempt backoff lastErr =
     (if attempt \<le> rc_Attempts cfg then
        case ctx attempt of
          Some ce \<Rightarrow>
            \<lparr>rr_err = Some (case lastErr of Some le \<Rightarrow> RetryAborted attempt (rc_Attempts cfg) ce le
                            | None \<Rightarrow> CtxDone ce),
             rr_waits = [], rr_calls = 0\<rparr>
        | None \<Rightarrow>
            case fn attempt of
              None \<Rightarrow> \<lparr>rr_err = None, rr_waits = [], rr_calls = 1\<rparr>
            | Some err \<Rightarrow>
                if attempt = rc_Attempts cfg
                then \<lparr>rr_err = Some (RetryExhausted (rc_Attempts cfg) (Some err)),
                      rr_waits = [], rr_calls = 1\<rparr>
                else case tick attempt of
                  Some ce \<Rightarrow>
                    \<lparr>rr_err = Some (RetryCanceled attempt (rc_Attempts cfg) ce err),
                     rr_waits = [backoff], rr_calls = 1\<rparr>
                | None \<Rightarrow>
                    let b2 = backoff * 2;
                        b = (if rc_MaxBackoff cfg < b2 then rc_MaxBackoff cfg else b2);
                        r = retry_loop cfg ctx fn tick (attempt + 1) b (Some err)
                    in r\<lparr>rr_waits := backoff # rr_waits r, rr_calls := Suc (rr_calls r)\<rparr>
      else \<lparr>rr_err = Some (RetryExhausted (rc_Attempts cfg) lastErr), rr_waits = [], rr_calls = 0\<rparr>)"
  by pat_completeness auto
termination
  by (relation "measure (\<lambda>(cfg, ctx, fn, tick, attempt, _). nat (rc_Attempts cfg + 1 - attempt))") auto

declare retry_loop.simps [simp del]

definition Retry ::
  "retry_config \<Rightarrow> (int \<Rightarrow> ctx_error option) \<Rightarrow> (int \<Rightarrow> 'e option) \<Rightarrow> (int \<Rightarrow> ctx_error option) \<Rightarrow> 'e retry_run"
where
  "Retry cfg0 ctx fn tick =
     (let cfg = retry_withDefaults cfg0
      in retry_loop cfg ctx fn tick 1 (rc_InitialBackoff cfg) None)"

text \<open>\<open>IsRetryable\<close>, over what \<open>errors.Is\<close> says of the error.\<close>

definition IsRetryable :: "(bool \<times> bool \<times> bool) option \<Rightarrow> bool" where
  "IsRetryable err =
     (case err of
        None \<Rightarrow> False
      | Some (is_canceled, is_deadline, is_all_failed) \<Rightarrow>
          if is_canceled \<or> is_deadline then False else if is_all_failed then False else True)"

section \<open>An uncancelled run\<close>

text \<open>The wait before attempt \<open>k + 2\<close>.\<close>

definition backoff_at :: "retry_config \<Rightarrow> nat \<Rightarrow> duration" where
  "backoff_at cfg k =
     (if k = 0 then rc_InitialBackoff cfg else min (rc_MaxBackoff cfg) (rc_InitialBackoff cfg * 2 ^ k))"

lemma backoff_at_Suc:
  assumes "0 < rc_InitialBackoff cfg" "0 < rc_MaxBackoff cfg"
  shows "(if rc_MaxBackoff cfg < backoff_at cfg k * 2 then rc_MaxBackoff cfg else backoff_at cfg k * 2)
         = backoff_at cfg (Suc k)"
  using assms by (auto simp: backoff_at_def min_def)

lemma retry_loop_plain:
  assumes "0 < rc_InitialBackoff cfg" "0 < rc_MaxBackoff cfg" "0 < attempt" "attempt \<le> rc_Attempts cfg"
  shows "retry_loop cfg (\<lambda>_. None) fn (\<lambda>_. None) attempt (backoff_at cfg k) le =
     (let n = rc_Attempts cfg;
          ok = filter (\<lambda>i. fn i = None) [attempt..n];
          calls = (case ok of [] \<Rightarrow> n + 1 - attempt | i # _ \<Rightarrow> i + 1 - attempt)
      in \<lparr>rr_err = (if ok = [] then Some (RetryExhausted n (fn n)) else None),
          rr_waits = map (backoff_at cfg) [k..<k + nat (calls - 1)],
          rr_calls = nat calls\<rparr>)"
  using assms(3,4)
proof (induction "nat (rc_Attempts cfg - attempt)" arbitrary: attempt k le)
  case 0
  then have "attempt = rc_Attempts cfg" by simp
  then show ?case
    by (subst retry_loop.simps) (auto split: option.splits)
next
  case (Suc m)
  then have lt: "attempt < rc_Attempts cfg" by simp
  have up: "[attempt..rc_Attempts cfg] = attempt # [attempt + 1..rc_Attempts cfg]"
    using lt by (simp add: upto_rec1)
  show ?case
  proof (cases "fn attempt")
    case None
    then show ?thesis using lt up by (subst retry_loop.simps) simp
  next
    case (Some err)
    have IH: "retry_loop cfg (\<lambda>_. None) fn (\<lambda>_. None) (attempt + 1) (backoff_at cfg (Suc k)) (Some err) =
       (let n = rc_Attempts cfg;
            ok = filter (\<lambda>i. fn i = None) [attempt + 1..n];
            calls = (case ok of [] \<Rightarrow> n + 1 - (attempt + 1) | i # _ \<Rightarrow> i + 1 - (attempt + 1))
        in \<lparr>rr_err = (if ok = [] then Some (RetryExhausted n (fn n)) else None),
            rr_waits = map (backoff_at cfg) [Suc k..<Suc k + nat (calls - 1)],
            rr_calls = nat calls\<rparr>)"
      using Suc lt by (intro Suc.hyps(1)) auto
    show ?thesis
    proof (cases "filter (\<lambda>i. fn i = None) [attempt + 1..rc_Attempts cfg]")
      case Nil
      moreover have "nat (rc_Attempts cfg - attempt) = Suc (nat (rc_Attempts cfg - attempt - 1))"
        "nat (rc_Attempts cfg + 1 - attempt) = Suc (nat (rc_Attempts cfg - attempt))"
        using lt by auto
      ultimately show ?thesis
        using lt up Some IH backoff_at_Suc [OF assms(1,2), of k]
        by (subst retry_loop.simps) (simp add: Let_def upt_conv_Cons)
    next
      case (Cons i js)
      from arg_cong [OF Cons, of set] have "i \<in> set [attempt + 1..rc_Attempts cfg]" by auto
      then have "nat (i - attempt) = Suc (nat (i - attempt - 1))"
        "nat (i + 1 - attempt) = Suc (nat (i - attempt))"
        by auto
      with Cons show ?thesis
        using lt up Some IH backoff_at_Suc [OF assms(1,2), of k]
        by (subst retry_loop.simps) (simp add: Let_def upt_conv_Cons)
    qed
  qed
qed

section \<open>Properties\<close>

text \<open>With a context that is never done, \<open>Retry\<close> calls the function until its first success
  and no further, at most \<open>Attempts\<close> times; it fails exactly when all attempts fail, with the last
  attempt's error; and its waits are the initial backoff followed by its doublings capped at the
  maximal backoff.\<close>

theorem Retry_plain:
  "Retry cfg (\<lambda>_. None) fn (\<lambda>_. None) =
    (let c = retry_withDefaults cfg in
     case filter (\<lambda>i. fn i = None) [1..rc_Attempts c] of
       [] \<Rightarrow> \<lparr>rr_err = Some (RetryExhausted (rc_Attempts c) (fn (rc_Attempts c))),
             rr_waits = map (backoff_at c) [0..<nat (rc_Attempts c - 1)],
             rr_calls = nat (rc_Attempts c)\<rparr>
     | i # _ \<Rightarrow> \<lparr>rr_err = None, rr_waits = map (backoff_at c) [0..<nat (i - 1)], rr_calls = nat i\<rparr>)"
proof -
  define c where "c = retry_withDefaults cfg"
  have pos: "0 < rc_InitialBackoff c" "0 < rc_MaxBackoff c" "1 \<le> rc_Attempts c"
    by (simp_all add: c_def retry_withDefaults_def time_unit_defs positive_or_def)
  have "rc_InitialBackoff c = backoff_at c 0" by (simp add: backoff_at_def)
  then show ?thesis
    using retry_loop_plain [OF pos(1,2) _ pos(3), of fn 0 None]
    by (simp add: Retry_def c_def [symmetric] Let_def split: list.split)
qed

end
