(* ===== verification/Notify_Manager.thy ===== *)
theory Notify_Manager
  imports Notify_Circuit Notify_Retry
begin

text \<open>
  \<open>notify/manager.go\<close> and \<open>notify/registry/registry.go\<close>: the router that tries the primary
  channel and then the fallbacks.  A channel is its name and its circuit breaker; what an HTTP
  attempt returns, the context and the clock are arguments (\<open>send_env\<close>), as the webhooks are
  outside the program.
\<close>

section \<open>Channels\<close>

record channel =
  chn_Name :: string
  chn_breaker :: circuit

record nm_manager =
  nm_primary :: string
  nm_fallback :: "string list"
  nm_channels :: "string \<rightharpoonup> channel"
  nm_retry :: retry_config
  nm_timeout :: duration

definition NewNotifyManager :: "string \<Rightarrow> string list \<Rightarrow> retry_config \<Rightarrow> duration \<Rightarrow> nm_manager" where
  "NewNotifyManager primary fallback retry timeout =
     \<lparr>nm_primary = primary, nm_fallback = fallback, nm_channels = Map.empty,
      nm_retry = retry_withDefaults retry, nm_timeout = positive_or (5 * nano_second) timeout\<rparr>"

definition RegisterChannel :: "string \<Rightarrow> channel option \<Rightarrow> nm_manager \<Rightarrow> nm_manager" where
  "RegisterChannel name ch m =
     (case ch of
        None \<Rightarrow> m
      | Some c \<Rightarrow> if name = [] then m else m\<lparr>nm_channels := (nm_channels m)(name \<mapsto> c)\<rparr>)"

definition HasChannel :: "nm_manager \<Rightarrow> bool" where
  "HasChannel m \<longleftrightarrow> nm_channels m \<noteq> Map.empty"

definition lookup_channel :: "nm_manager \<Rightarrow> string \<Rightarrow> channel option" where
  "lookup_channel m name = nm_channels m name"

text \<open>The closure \<open>add\<close> of \<open>candidateOrder\<close>, over \<open>seen\<close> and \<open>out\<close>.\<close>

definition add_candidate :: "string \<Rightarrow> string set \<times> string list \<Rightarrow> string set \<times> string list" where
  "add_candidate name st =
     (case st of (seen, out) \<Rightarrow>
        if name = [] then (seen, out)
        else if name \<in> seen then (seen, out) else (insert name seen, out @ [name]))"

definition candidateOrder :: "nm_manager \<Rightarrow> string list" where
  "candidateOrder m = snd (fold add_candidate (nm_primary m # nm_fallback m) ({}, []))"

section \<open>Send\<close>

record 'e send_env =
  se_now :: "string \<Rightarrow> instant"
  se_ctx :: "string \<Rightarrow> int \<Rightarrow> ctx_error option"
  se_attempt :: "string \<Rightarrow> int \<Rightarrow> 'e option"
  se_tick :: "string \<Rightarrow> int \<Rightarrow> ctx_error option"

text \<open>Every error of \<open>Send\<close> wraps \<open>ErrAllChannelsFailed\<close>.\<close>

datatype 'e last_error = NothingTried | UnhealthyChannel string | ChannelError "'e retry_error"

datatype 'e send_error = NilMessage | NoChannels string | AllChannelsFailed string "'e last_error"

definition sendOne :: "'e send_env \<Rightarrow> nm_manager \<Rightarrow> string \<Rightarrow> 'e retry_run" where
  "sendOne env m name = Retry (nm_retry m) (se_ctx env name) (se_attempt env name) (se_tick env name)"

text \<open>The walk over the candidates; the third component lists the channels that were sent to.\<close>

fun send_loop ::
  "'e send_env \<Rightarrow> string list \<Rightarrow> string \<Rightarrow> 'e last_error \<Rightarrow> nm_manager
   \<Rightarrow> 'e send_error option \<times> nm_manager \<times> string list"
where
  "send_loop env [] lastTried lastErr m = (Some (AllChannelsFailed lastTried lastErr), m, [])"
| "send_loop env (name # rest) lastTried lastErr m =
     (case lookup_channel m name of
        None \<Rightarrow> send_loop env rest lastTried lastErr m
      | Some ch \<Rightarrow>
          case cb_IsHealthy (se_now env name) (chn_breaker ch) of (healthy, br) \<Rightarrow>
          let m' = m\<lparr>nm_channels := (nm_channels m)(name \<mapsto> ch\<lparr>chn_breaker := br\<rparr>)\<rparr>
          in if \<not> healthy then send_loop env rest name (UnhealthyChannel name) m'
             else case rr_err (sendOne env m' name) of
                    None \<Rightarrow> (None, m', [name])
                  | Some err \<Rightarrow>
                      case send_loop env rest name (ChannelError err) m' of
                        (res, m'', tried) \<Rightarrow> (res, m'', name # tried))"

definition nm_Send ::
  "'e send_env \<Rightarrow> 'm option \<Rightarrow> nm_manager \<Rightarrow> 'e send_error option \<times> nm_manager \<times> string list" where
  "nm_Send env msg m =
     (case msg of
        None \<Rightarrow> (Some NilMessage, m, [])
      | Some _ \<Rightarrow>
          let candidates = candidateOrder m
          in if candidates = [] then (Some (NoChannels (nm_primary m)), m, [])
             else send_loop env candidates [] NothingTried m)"

section \<open>Assembly from the configuration\<close>

record channel_cfg =
  cc_Enabled :: bool
  cc_WebhookURL :: string
  cc_Timeout :: duration

record notify_cfg =
  nc_Primary :: string
  nc_Fallback :: "string list"
  nc_RetryAttempts :: int
  nc_Circuit :: circuit_config
  nc_Feishu :: channel_cfg
  nc_DingTalk :: channel_cfg
  nc_WeCom :: channel_cfg

definition timeoutOr :: "duration \<Rightarrow> duration \<Rightarrow> duration" where
  "timeoutOr d fallback = (if d > 0 then d else fallback)"

definition wire_channel ::
  "circuit_config \<Rightarrow> string \<Rightarrow> channel_cfg \<Rightarrow> nm_manager \<times> (string \<rightharpoonup> circuit) \<Rightarrow> nm_manager \<times> (string \<rightharpoonup> circuit)"
where
  "wire_channel cb name cc st =
     (case st of (m, brs) \<Rightarrow>
        if cc_Enabled cc \<and> cc_WebhookURL cc \<noteq> []
        then let br = NewCircuitBreaker cb
             in (RegisterChannel name (Some \<lparr>chn_Name = name, chn_breaker = br\<rparr>) m, brs(name \<mapsto> br))
        else (m, brs))"

definition New_notify :: "notify_cfg \<Rightarrow> nm_manager \<times> (string \<rightharpoonup> circuit)" where
  "New_notify cfg =
     (let m = NewNotifyManager (nc_Primary cfg) (nc_Fallback cfg)
                \<lparr>rc_Attempts = nc_RetryAttempts cfg, rc_InitialBackoff = nano_second, rc_MaxBackoff = 0\<rparr>
                (5 * nano_second)
      in wire_channel (nc_Circuit cfg) ''wecom'' (nc_WeCom cfg)
           (wire_channel (nc_Circuit cfg) ''dingtalk'' (nc_DingTalk cfg)
             (wire_channel (nc_Circuit cfg) ''feishu'' (nc_Feishu cfg) (m, Map.empty))))"

section \<open>Lemmas\<close>

text \<open>The candidates are the names in order, each at its first occurrence.\<close>

lemma remdups_skip: "n \<in> set ys \<Longrightarrow> remdups (xs @ n # ys) = remdups (xs @ ys)"
  by (induction xs) auto

lemma candidates_fold:
  "distinct out \<Longrightarrow> snd (fold add_candidate names (set out, out))
     = rev (remdups (rev (out @ filter (\<lambda>n. n \<noteq> []) names)))"
proof (induction names arbitrary: out)
  case Nil
  then show ?case by (simp add: distinct_remdups_id)
next
  case (Cons n ns)
  show ?case
  proof (cases "n = [] \<or> n \<in> set out")
    case True
    then have "add_candidate n (set out, out) = (set out, out)" by (auto simp: add_candidate_def)
    with Cons True show ?thesis by (auto simp: remdups_skip)
  next
    case False
    then have "add_candidate n (set out, out) = (set (out @ [n]), out @ [n])"
      by (simp add: add_candidate_def)
    with Cons.IH [of "out @ [n]"] Cons.prems False show ?thesis by simp
  qed
qed

lemma candidateOrder_eq:
  "candidateOrder m = rev (remdups (rev (filter (\<lambda>n. n \<noteq> []) (nm_primary m # nm_fallback m))))"
  using candidates_fold [of "[]" "nm_primary m # nm_fallback m"] by (simp add: candidateOrder_def)

lemma candidateOrder_distinct: "distinct (candidateOrder m)"
  by (simp add: candidateOrder_eq)

text \<open>A candidate that would be delivered to, judged in the state before the walk.\<close>

definition delivers :: "'e send_env \<Rightarrow> nm_manager \<Rightarrow> string \<Rightarrow> bool" where
  "delivers env m name \<longleftrightarrow>
     (\<exists>ch. nm_channels m name = Some ch \<and> fst (cb_IsHealthy (se_now env name) (chn_breaker ch)))
     \<and> rr_err (sendOne env m name) = None"

definition sent_to :: "'e send_env \<Rightarrow> nm_manager \<Rightarrow> string \<Rightarrow> bool" where
  "sent_to env m name \<longleftrightarrow>
     (\<exists>ch. nm_channels m name = Some ch \<and> fst (cb_IsHealthy (se_now env name) (chn_breaker ch)))"

lemma sent_to_upd:
  "name \<noteq> x \<Longrightarrow> sent_to env (m\<lparr>nm_channels := (nm_channels m)(x \<mapsto> c)\<rparr>) name = sent_to env m name"
  "name \<noteq> x \<Longrightarrow> delivers env (m\<lparr>nm_channels := (nm_channels m)(x \<mapsto> c)\<rparr>) name = delivers env m name"
  by (simp_all add: sent_to_def delivers_def sendOne_def)

lemma send_loop_result:
  assumes "distinct names"
  shows "(fst (send_loop env names lt le m) = None \<longleftrightarrow> (\<exists>n\<in>set names. delivers env m n))
    \<and> snd (snd (send_loop env names lt le m)) =
        filter (sent_to env m) (takeWhile (\<lambda>n. \<not> delivers env m n) names
                                @ take 1 (dropWhile (\<lambda>n. \<not> delivers env m n) names))"
  using assms
proof (induction names arbitrary: lt le m)
  case Nil
  then show ?case by simp
next
  case (Cons n ns)
  have d: "n \<notin> set ns" "distinct ns" using Cons.prems by auto
  show ?case
  proof (cases "nm_channels m n")
    case None
    then have "\<not> delivers env m n" "\<not> sent_to env m n" by (simp_all add: delivers_def sent_to_def)
    with None show ?thesis using Cons.IH [OF d(2)] by (simp add: lookup_channel_def)
  next
    case (Some ch)
    obtain healthy br where h: "cb_IsHealthy (se_now env n) (chn_breaker ch) = (healthy, br)" by fastforce
    define m' where "m' = m\<lparr>nm_channels := (nm_channels m)(n \<mapsto> ch\<lparr>chn_breaker := br\<rparr>)\<rparr>"
    have same: "delivers env m' x = delivers env m x" "sent_to env m' x = sent_to env m x"
      if "x \<in> set ns" for x
    proof -
      have "x \<noteq> n" using that d(1) by blast
      then show "delivers env m' x = delivers env m x" "sent_to env m' x = sent_to env m x"
        by (simp_all add: m'_def sent_to_upd)
    qed
    have tw: "takeWhile (\<lambda>n. \<not> delivers env m' n) ns = takeWhile (\<lambda>n. \<not> delivers env m n) ns"
      "dropWhile (\<lambda>n. \<not> delivers env m' n) ns = dropWhile (\<lambda>n. \<not> delivers env m n) ns"
      using same(1) by (auto intro: takeWhile_cong dropWhile_cong)
    have fl: "filter (sent_to env m') (takeWhile (\<lambda>n. \<not> delivers env m n) ns
                @ take 1 (dropWhile (\<lambda>n. \<not> delivers env m n) ns))
        = filter (sent_to env m) (takeWhile (\<lambda>n. \<not> delivers env m n) ns
                @ take 1 (dropWhile (\<lambda>n. \<not> delivers env m n) ns))"
      by (rule filter_cong [OF refl], rule same(2))
        (auto dest: set_takeWhileD in_set_takeD set_dropWhileD)
    note IH = Cons.IH [OF d(2), where m = m', unfolded tw fl]
    have run: "sendOne env m' n = sendOne env m n" by (simp add: m'_def sendOne_def)
    have sd: "sent_to env m n \<longleftrightarrow> healthy" "delivers env m n \<longleftrightarrow> healthy \<and> rr_err (sendOne env m n) = None"
      using Some h by (simp_all add: sent_to_def delivers_def)
    show ?thesis
    proof (cases "healthy \<and> rr_err (sendOne env m n) = None")
      case True
      then show ?thesis
        using sd by (simp add: Some h lookup_channel_def m'_def [symmetric] Let_def run)
    next
      case False
      then show ?thesis
        using sd IH same(1)
        by (cases "rr_err (sendOne env m n)")
           (auto simp: Some h lookup_channel_def m'_def [symmetric] Let_def run case_prod_beta)
    qed
  qed
qed

text \<open>\<open>IsHealthy\<close> neither closes a breaker nor opens a closed one.\<close>

lemma cb_IsHealthy_closed:
  "cb_IsHealthy now b = (h, b') \<Longrightarrow> cb_state b' = CircuitClosed \<longleftrightarrow> cb_state b = CircuitClosed"
  "cb_IsHealthy now b = (h, b') \<Longrightarrow> h \<longleftrightarrow> cb_state b = CircuitClosed"
  "cb_IsHealthy now b = (h, b') \<Longrightarrow> cb_failures b' = cb_failures b"
  by (auto simp: cb_IsHealthy_def cb_State_def Let_def split: if_splits)

definition breaker_of :: "nm_manager \<Rightarrow> string \<Rightarrow> circuit option" where
  "breaker_of m name = map_option chn_breaker (nm_channels m name)"

definition same_health :: "nm_manager \<Rightarrow> nm_manager \<Rightarrow> bool" where
  "same_health m m' \<longleftrightarrow>
     (\<forall>name. map_option (\<lambda>b. (cb_state b = CircuitClosed, cb_failures b)) (breaker_of m' name)
           = map_option (\<lambda>b. (cb_state b = CircuitClosed, cb_failures b)) (breaker_of m name))"

lemma same_health_refl: "same_health m m"
  by (simp add: same_health_def)

lemma send_loop_health: "same_health m (fst (snd (send_loop env names lt le m)))"
proof (induction names arbitrary: lt le m)
  case Nil
  then show ?case by (simp add: same_health_def)
next
  case (Cons n ns)
  show ?case
  proof (cases "nm_channels m n")
    case None
    then show ?thesis using Cons.IH by (simp add: lookup_channel_def)
  next
    case (Some ch)
    obtain healthy br where h: "cb_IsHealthy (se_now env n) (chn_breaker ch) = (healthy, br)" by fastforce
    define m' where "m' = m\<lparr>nm_channels := (nm_channels m)(n \<mapsto> ch\<lparr>chn_breaker := br\<rparr>)\<rparr>"
    have "same_health m m'"
      using cb_IsHealthy_closed(1,3) [OF h] Some by (auto simp: same_health_def m'_def breaker_of_def)
    then have step: "same_health m m2" if "same_health m' m2" for m2
      using that by (simp add: same_health_def)
    show ?thesis
      using step [OF Cons.IH] \<open>same_health m m'\<close>
      by (auto simp: Some h lookup_channel_def m'_def [symmetric] Let_def case_prod_beta split: option.split)
  qed
qed

section \<open>Properties\<close>

text \<open>A manager with three channels: the first is unhealthy, the second fails, the third works.\<close>

definition ex_circuit :: circuit where
  "ex_circuit = NewCircuitBreaker \<lparr>FailureThreshold = 0, Window = 0, Cooldown = 0\<rparr>"

definition ex_notify :: nm_manager where
  "ex_notify =
     RegisterChannel ''c'' (Some \<lparr>chn_Name = ''c'', chn_breaker = ex_circuit\<rparr>)
       (RegisterChannel ''b'' (Some \<lparr>chn_Name = ''b'', chn_breaker = ex_circuit\<rparr>)
         (RegisterChannel ''a'' (Some \<lparr>chn_Name = ''a'', chn_breaker = ex_circuit\<lparr>cb_state := CircuitOpen\<rparr>\<rparr>)
           (NewNotifyManager ''a'' [''b'', ''a'', ''c'']
              \<lparr>rc_Attempts = 2, rc_InitialBackoff = 0, rc_MaxBackoff = 0\<rparr> 0)))"

definition ex_send_env :: "string send_env" where
  "ex_send_env = \<lparr>se_now = (\<lambda>_. 5), se_ctx = (\<lambda>_ _. None),
     se_attempt = (\<lambda>name k. if name = ''b'' then Some ''http'' else None), se_tick = (\<lambda>_ _. None)\<rparr>"

text \<open>The candidates are the primary and the fallbacks in order, each non-empty name once;
  \<open>Send\<close> succeeds exactly when one of them is registered, has a closed breaker and accepts the
  message within its retries; the channels it sends to are the registered healthy candidates up to
  and including the first that accepts, in order.\<close>

theorem Send_first_success:
  "candidateOrder m = rev (remdups (rev (filter (\<lambda>n. n \<noteq> []) (nm_primary m # nm_fallback m))))
   \<and> (fst (nm_Send env (Some msg) m) = None \<longleftrightarrow> (\<exists>n\<in>set (candidateOrder m). delivers env m n))
   \<and> snd (snd (nm_Send env (Some msg) m)) =
       filter (sent_to env m) (takeWhile (\<lambda>n. \<not> delivers env m n) (candidateOrder m)
                               @ take 1 (dropWhile (\<lambda>n. \<not> delivers env m n) (candidateOrder m)))"
proof -
  note r = send_loop_result [OF candidateOrder_distinct [of m], of env "[]" NothingTried m]
  show ?thesis
    unfolding candidateOrder_eq [symmetric] using r
    by (cases "candidateOrder m = []") (simp_all add: nm_Send_def Let_def)
qed

text \<open>\<open>Send\<close> does not record any outcome on a channel's breaker: it changes no failure history,
  closes no breaker and opens none, whatever the channels answer, so a breaker that is closed stays
  closed after any number of failed sends.\<close>

theorem Send_never_feeds_breakers:
  "map_option (\<lambda>b. (cb_state b = CircuitClosed, cb_failures b))
       (breaker_of (fold (\<lambda>(env, msg) m. fst (snd (nm_Send env msg m))) sends m) name)
   = map_option (\<lambda>b. (cb_state b = CircuitClosed, cb_failures b)) (breaker_of m name)"
proof (induction sends arbitrary: m)
  case (Cons x sends)
  obtain env msg where x: "x = (env, msg)" by fastforce
  have "same_health m (fst (snd (nm_Send env msg m)))"
    by (simp add: nm_Send_def Let_def send_loop_health same_health_refl split: option.split)
  then show ?case using Cons.IH by (simp add: x same_health_def)
qed simp

end
