(* ===== verification/Market_Cache.thy ===== *)
theory Market_Cache
  imports Go_Time
begin

text \<open>
  \<open>datasource/cache.go\<close> and the in-memory cache of \<open>datasource/redis_cache.go\<close>.  A cache answers
  \<open>Get\<close> with a text (empty on a miss) or an error, and \<open>Set\<close> with success or failure.
  \<open>encoding/json\<close> enters through a codec: how a value is marshalled, if it can be, and
  how a text is unmarshalled.
\<close>

section \<open>Keys\<close>

definition KLineCacheKey :: "string \<Rightarrow> string \<Rightarrow> string \<Rightarrow> string" where
  "KLineCacheKey stockCode period tradeDate = ''kl:'' @ stockCode @ '':'' @ period @ '':'' @ tradeDate"

definition QuoteCacheKey :: "string \<Rightarrow> string" where
  "QuoteCacheKey stockCode = ''q:'' @ stockCode"

definition FundamentalCacheKey :: "string \<Rightarrow> string" where
  "FundamentalCacheKey stockCode = ''f:'' @ stockCode"

section \<open>The in-memory cache\<close>

type_synonym memory_cache = "string \<rightharpoonup> string \<times> instant"

definition NewMemoryCache :: memory_cache where
  "NewMemoryCache = Map.empty"

definition mc_Get :: "instant \<Rightarrow> string \<Rightarrow> memory_cache \<Rightarrow> string option \<times> memory_cache" where
  "mc_Get now key c =
     (case c key of
        None \<Rightarrow> (Some [], c)
      | Some (v, expiresAt) \<Rightarrow> if \<not> now < expiresAt then (Some [], c(key := None)) else (Some v, c))"

definition mc_Set :: "instant \<Rightarrow> string \<Rightarrow> string \<Rightarrow> duration \<Rightarrow> memory_cache \<Rightarrow> bool \<times> memory_cache" where
  "mc_Set now key v ttl c =
     (let ttl' = (if ttl \<le> 0 then 1000 else ttl) in (True, c(key \<mapsto> (v, now + ttl'))))"

definition mc_Del :: "string list \<Rightarrow> memory_cache \<Rightarrow> memory_cache" where
  "mc_Del keys c = fold (\<lambda>k c. c(k := None)) keys c"

section \<open>The cache contract\<close>

text \<open>
  What users of a cache rely on.  \<open>get\<close> may drop expired entries, which no later reader can
  tell.
\<close>

locale cache_contract =
  fixes get :: "instant \<Rightarrow> string \<Rightarrow> 'c \<Rightarrow> string option \<times> 'c"
    and put :: "instant \<Rightarrow> string \<Rightarrow> string \<Rightarrow> duration \<Rightarrow> 'c \<Rightarrow> bool \<times> 'c"
  assumes get_put: "0 < ttl \<Longrightarrow> now \<le> now' \<Longrightarrow> now' < now + ttl \<Longrightarrow>
      fst (get now' k (snd (put now k v ttl c))) = Some v"
    and get_other: "k' \<noteq> k \<Longrightarrow> fst (get now' k' (snd (put now k v ttl c))) = fst (get now' k' c)"
    and get_get: "now \<le> now' \<Longrightarrow> fst (get now' k' (snd (get now k c))) = fst (get now' k' c)"

interpretation memory: cache_contract mc_Get mc_Set
proof
  fix ttl now now' :: int and k k' v :: string and c :: memory_cache
  show "fst (mc_Get now' k (snd (mc_Set now k v ttl c))) = Some v"
    if "0 < ttl" "now \<le> now'" "now' < now + ttl"
    using that by (simp add: mc_Get_def mc_Set_def)
  show "fst (mc_Get now' k' (snd (mc_Set now k v ttl c))) = fst (mc_Get now' k' c)" if "k' \<noteq> k"
    using that by (simp add: mc_Get_def mc_Set_def split: option.split)
  show "fst (mc_Get now' k' (snd (mc_Get now k c))) = fst (mc_Get now' k' c)" if "now \<le> now'"
    using that by (auto simp: mc_Get_def split: option.split)
qed

section \<open>GetOrCompute\<close>

record 'v codec =
  cd_marshal :: "'v \<Rightarrow> string option"
  cd_unmarshal :: "string \<Rightarrow> 'v option"

text \<open>What \<open>encoding/json\<close> promises for a type: texts are not empty and read back.\<close>

definition codec_ok :: "'v codec \<Rightarrow> bool" where
  "codec_ok cd \<longleftrightarrow> (\<forall>v s. cd_marshal cd v = Some s \<longrightarrow> s \<noteq> [] \<and> cd_unmarshal cd s = Some v)"

text \<open>Reading a typed value: a hit needs a non-empty text that unmarshals.\<close>

definition cache_read ::
  "(instant \<Rightarrow> string \<Rightarrow> 'c \<Rightarrow> string option \<times> 'c) \<Rightarrow> 'v codec \<Rightarrow> instant \<Rightarrow> string \<Rightarrow> 'c \<Rightarrow> 'v option \<times> 'c"
where
  "cache_read get cd now key c =
     (case get now key c of
        (Some raw, c') \<Rightarrow> (if raw \<noteq> [] then cd_unmarshal cd raw else None, c')
      | (None, c') \<Rightarrow> (None, c'))"

text \<open>The best-effort write.\<close>

definition cache_write ::
  "(instant \<Rightarrow> string \<Rightarrow> string \<Rightarrow> duration \<Rightarrow> 'c \<Rightarrow> bool \<times> 'c) \<Rightarrow> 'v codec
   \<Rightarrow> instant \<Rightarrow> string \<Rightarrow> 'v \<Rightarrow> duration \<Rightarrow> 'c \<Rightarrow> 'c"
where
  "cache_write put cd now key v ttl c =
     (case cd_marshal cd v of Some buf \<Rightarrow> snd (put now key buf ttl c) | None \<Rightarrow> c)"

text \<open>
  \<open>GetOrCompute\<close> on an optional cache; \<open>fn\<close> is what the computation returns, \<open>t0\<close> and \<open>t1\<close> the
  clock at the read and at the write.  The last component tells whether \<open>fn\<close> was called.
\<close>

definition GetOrCompute ::
  "(instant \<Rightarrow> string \<Rightarrow> 'c \<Rightarrow> string option \<times> 'c)
   \<Rightarrow> (instant \<Rightarrow> string \<Rightarrow> string \<Rightarrow> duration \<Rightarrow> 'c \<Rightarrow> bool \<times> 'c)
   \<Rightarrow> 'v codec \<Rightarrow> string \<Rightarrow> duration \<Rightarrow> 'e + 'v \<Rightarrow> instant \<Rightarrow> instant \<Rightarrow> 'c option
   \<Rightarrow> ('e + 'v) \<times> 'c option \<times> bool"
where
  "GetOrCompute get put cd key ttl fn t0 t1 cache =
     (let (hit, cache') = (case cache of
                             None \<Rightarrow> (None, None)
                           | Some c \<Rightarrow> (case cache_read get cd t0 key c of (h, c') \<Rightarrow> (h, Some c')))
      in case hit of
           Some v \<Rightarrow> (Inr v, cache', False)
         | None \<Rightarrow>
             case fn of
               Inl err \<Rightarrow> (Inl err, cache', True)
             | Inr v \<Rightarrow> (Inr v, map_option (cache_write put cd t1 key v ttl) cache', True))"

text \<open>\<open>GetOrComputeBytes\<close> keeps the bytes as they are.\<close>

definition GetOrComputeBytes ::
  "(instant \<Rightarrow> string \<Rightarrow> 'c \<Rightarrow> string option \<times> 'c)
   \<Rightarrow> (instant \<Rightarrow> string \<Rightarrow> string \<Rightarrow> duration \<Rightarrow> 'c \<Rightarrow> bool \<times> 'c)
   \<Rightarrow> string \<Rightarrow> duration \<Rightarrow> 'e + string \<Rightarrow> instant \<Rightarrow> instant \<Rightarrow> 'c option
   \<Rightarrow> ('e + string) \<times> 'c option \<times> bool"
where
  "GetOrComputeBytes get put key ttl fn t0 t1 cache =
     GetOrCompute get put \<lparr>cd_marshal = Some, cd_unmarshal = Some\<rparr> key ttl fn t0 t1 cache"

context cache_contract begin

lemma read_after_write:
  assumes "codec_ok cd" "cd_marshal cd v \<noteq> None" "0 < ttl" "now \<le> now'" "now' < now + ttl"
  shows "fst (cache_read get cd now' k (cache_write put cd now k v ttl c)) = Some v"
proof -
  obtain s where s: "cd_marshal cd v = Some s" using assms(2) by blast
  then have "s \<noteq> []" "cd_unmarshal cd s = Some v" using assms(1) by (auto simp: codec_ok_def)
  with s get_put [OF assms(3-5), of k s c] show ?thesis
    by (simp add: cache_read_def cache_write_def case_prod_beta)
qed

lemma read_after_write_other:
  assumes "k' \<noteq> k"
  shows "fst (cache_read get cd' now' k' (cache_write put cd now k v ttl c)) = fst (cache_read get cd' now' k' c)"
  using get_other [OF assms] by (auto simp: cache_read_def cache_write_def case_prod_beta split: option.split)

lemma read_after_read:
  assumes "now \<le> now'"
  shows "fst (cache_read get cd' now' k' (snd (cache_read get cd now k c))) = fst (cache_read get cd' now' k' c)"
  using get_get [OF assms] by (auto simp: cache_read_def case_prod_beta split: option.split)

text \<open>A computed value is served from the cache until its time to live is over.\<close>

lemma compute_once:
  assumes "codec_ok cd" "cd_marshal cd v \<noteq> None" "0 < ttl" "t1 \<le> t2" "t2 < t1 + ttl"
    and "fst (cache_read get cd t0 key c) = None"
    and first: "GetOrCompute get put cd key ttl (Inr v :: 'e + 'v) t0 t1 (Some c) = (r, cache, called)"
  shows "r = Inr v \<and> called
     \<and> fst (GetOrCompute get put cd key ttl fn t2 t3 cache) = Inr v
     \<and> \<not> snd (snd (GetOrCompute get put cd key ttl (fn :: 'e + 'v) t2 t3 cache))"
proof -
  obtain c' where c': "cache_read get cd t0 key c = (None, c')"
    using assms(6) by (cases "cache_read get cd t0 key c") simp
  then have 1: "r = Inr v" "called" "cache = Some (cache_write put cd t1 key v ttl c')"
    using first by (simp_all add: GetOrCompute_def)
  obtain c'' where "cache_read get cd t2 key (cache_write put cd t1 key v ttl c') = (Some v, c'')"
    using read_after_write [OF assms(1-5), of key c'] by (cases "cache_read get cd t2 key (cache_write put cd t1 key v ttl c')") simp
  then show ?thesis using 1 by (simp add: GetOrCompute_def)
qed

end

section \<open>Properties\<close>

text \<open>Over the in-memory cache, a value that \<open>GetOrCompute\<close> computed on a miss is what every
  call for the same key returns until the time to live is over, without computing again, whatever
  the computation would give then.\<close>

theorem GetOrCompute_memoizes:
  assumes "codec_ok cd" "cd_marshal cd v \<noteq> None" "0 < ttl" "t1 \<le> t2" "t2 < t1 + ttl"
    and "fst (cache_read mc_Get cd t0 key c) = None"
  shows "case GetOrCompute mc_Get mc_Set cd key ttl (Inr v :: 'e + 'v) t0 t1 (Some c) of
       (r, cache, called) \<Rightarrow> r = Inr v \<and> called
         \<and> (case GetOrCompute mc_Get mc_Set cd key ttl (fn :: 'e + 'v) t2 t3 cache of
              (r', _, called') \<Rightarrow> r' = Inr v \<and> \<not> called')"
proof -
  obtain r cache called where
    1: "GetOrCompute mc_Get mc_Set cd key ttl (Inr v :: 'e + 'v) t0 t1 (Some c) = (r, cache, called)"
    by (rule prod_cases3)
  show ?thesis
    using memory.compute_once [OF assms 1, of fn t3] by (simp add: 1 case_prod_beta)
qed

theorem GetOrCompute_memoizes_witness:
  "case GetOrCompute mc_Get mc_Set \<lparr>cd_marshal = (\<lambda>b. Some [b]), cd_unmarshal = (\<lambda>s. Some (hd s))\<rparr>
        ''q:600519'' 5 (Inr CHR ''x'' :: nat + char) 0 1 (Some NewMemoryCache) of
     (r, cache, called) \<Rightarrow> r = Inr CHR ''x'' \<and> called
       \<and> (case GetOrCompute mc_Get mc_Set \<lparr>cd_marshal = (\<lambda>b. Some [b]), cd_unmarshal = (\<lambda>s. Some (hd s))\<rparr>
              ''q:600519'' 5 (Inl 0 :: nat + char) 4 4 cache of
            (r', _, called') \<Rightarrow> r' = Inr CHR ''x'' \<and> \<not> called')"
  by (rule GetOrCompute_memoizes) (simp_all add: codec_ok_def cache_read_def mc_Get_def NewMemoryCache_def)

end
