(* ===== verification/Health_Repo.thy ===== *)
theory Health_Repo
  imports Go_Time
begin

text \<open>
  \<open>datasource/health_repo_gorm.go\<close>: the health rows and the provider-switch events.  The two
  tables are a map from source names to rows and a list; a statement on them succeeds.
\<close>

datatype health_status = Healthy | Degraded | Down

record health_row =
  hr_Status :: health_status
  hr_LastOK :: "instant option"
  hr_LastFail :: "instant option"
  hr_FailCount5m :: int
  hr_LastError :: string

record switch_event =
  sw_From :: string
  sw_To :: string
  sw_Reason :: string
  sw_SwitchedAt :: instant

record health_db =
  hd_rows :: "string \<rightharpoonup> health_row"
  hd_switches :: "switch_event list"

datatype health_error = EmptySource | EmptySwitch

definition failThreshold :: int where
  "failThreshold = 5"

definition failWindow :: duration where
  "failWindow = 5 * nano_minute"

definition truncateErr :: "string \<Rightarrow> string" where
  "truncateErr s = (if length s \<le> 512 then s else take 512 s)"

definition computeStatus :: "int \<Rightarrow> instant option \<Rightarrow> instant \<Rightarrow> health_status" where
  "computeStatus failCount lastOK now =
     (if failCount \<ge> failThreshold then Down
      else if failCount > 0 then Degraded
      else case lastOK of
             None \<Rightarrow> Degraded
           | Some t \<Rightarrow> if now - t > failWindow then Degraded else Healthy)"

definition hr_RecordSuccess :: "instant \<Rightarrow> string \<Rightarrow> health_db \<Rightarrow> health_error option \<times> health_db" where
  "hr_RecordSuccess now src db =
     (if src = [] then (Some EmptySource, db)
      else
        let row = (case hd_rows db src of
                     None \<Rightarrow> \<lparr>hr_Status = Healthy, hr_LastOK = Some now, hr_LastFail = None,
                              hr_FailCount5m = 0, hr_LastError = []\<rparr>
                   | Some r \<Rightarrow> r\<lparr>hr_Status := Healthy, hr_LastOK := Some now, hr_FailCount5m := 0,
                                hr_LastError := []\<rparr>)
        in (None, db\<lparr>hd_rows := (hd_rows db)(src \<mapsto> row)\<rparr>))"

definition hr_RecordFailure ::
  "instant \<Rightarrow> string \<Rightarrow> string \<Rightarrow> health_db \<Rightarrow> health_error option \<times> health_db" where
  "hr_RecordFailure now src errMsg db =
     (if src = [] then (Some EmptySource, db)
      else
        let existing = hd_rows db src;
            count1 = (case existing of None \<Rightarrow> 0 | Some r \<Rightarrow> hr_FailCount5m r) + 1;
            newCount = (if count1 > failThreshold * 4 then failThreshold * 4 else count1);
            status = computeStatus newCount (Option.bind existing hr_LastOK) now;
            trunc = truncateErr errMsg;
            row = (case existing of
                     None \<Rightarrow> \<lparr>hr_Status = status, hr_LastOK = None, hr_LastFail = Some now,
                              hr_FailCount5m = newCount, hr_LastError = trunc\<rparr>
                   | Some r \<Rightarrow> r\<lparr>hr_Status := status, hr_LastFail := Some now,
                                hr_FailCount5m := newCount, hr_LastError := trunc\<rparr>)
        in (None, db\<lparr>hd_rows := (hd_rows db)(src \<mapsto> row)\<rparr>))"

definition hr_RecordSwitch ::
  "instant \<Rightarrow> string \<Rightarrow> string \<Rightarrow> string \<Rightarrow> health_db \<Rightarrow> health_error option \<times> health_db" where
  "hr_RecordSwitch now src dst reason db =
     (if src = [] \<and> dst = [] then (Some EmptySwitch, db)
      else (None, db\<lparr>hd_switches := hd_switches db
             @ [\<lparr>sw_From = src, sw_To = dst, sw_Reason = truncateErr reason, sw_SwitchedAt = now\<rparr>]\<rparr>))"

definition GetHealth :: "string \<Rightarrow> health_db \<Rightarrow> health_row option" where
  "GetHealth src db = hd_rows db src"

section \<open>What a sequence of outcomes leaves\<close>

text \<open>One recorded outcome of a source: a success, or a failure with its message.\<close>

definition record_outcome :: "string \<Rightarrow> instant \<times> string option \<Rightarrow> health_db \<Rightarrow> health_db" where
  "record_outcome src x db =
     snd (case snd x of None \<Rightarrow> hr_RecordSuccess (fst x) src db
          | Some msg \<Rightarrow> hr_RecordFailure (fst x) src msg db)"

text \<open>The failures after the last success.\<close>

definition trailing_failures :: "(instant \<times> string option) list \<Rightarrow> nat" where
  "trailing_failures xs = length (takeWhile (\<lambda>x. snd x \<noteq> None) (rev xs))"

lemma trailing_failures_snoc:
  "trailing_failures (xs @ [x]) = (if snd x = None then 0 else Suc (trailing_failures xs))"
  by (simp add: trailing_failures_def)

lemma record_other: "src' \<noteq> src \<Longrightarrow> hd_rows (record_outcome src x db) src' = hd_rows db src'"
  by (auto simp: record_outcome_def hr_RecordSuccess_def hr_RecordFailure_def Let_def split: option.split)

lemma record_success:
  assumes "src \<noteq> []"
  shows "\<exists>r. hd_rows (record_outcome src (now, None) db) src = Some r \<and> hr_Status r = Healthy
           \<and> hr_FailCount5m r = 0 \<and> hr_LastError r = []"
  using assms by (simp add: record_outcome_def hr_RecordSuccess_def Let_def split: option.split)

lemma record_failure:
  assumes "src \<noteq> []" "(case hd_rows db src of None \<Rightarrow> 0 | Some r \<Rightarrow> hr_FailCount5m r) = n" "0 \<le> n"
  shows "\<exists>r. hd_rows (record_outcome src (now, Some msg) db) src = Some r
           \<and> hr_Status r = (if n + 1 < 5 then Degraded else Down)
           \<and> hr_FailCount5m r = min 20 (n + 1) \<and> length (hr_LastError r) \<le> 512"
  using assms
  by (cases "hd_rows db src")
     (auto simp: record_outcome_def hr_RecordFailure_def Let_def computeStatus_def failThreshold_def truncateErr_def)

lemma recorded_row:
  assumes "src \<noteq> []" "hd_rows db src = None" "xs \<noteq> []"
  shows "\<exists>r. hd_rows (fold (record_outcome src) xs db) src = Some r
     \<and> hr_FailCount5m r = min 20 (int (trailing_failures xs))
     \<and> hr_Status r = (if trailing_failures xs = 0 then Healthy
                      else if trailing_failures xs < 5 then Degraded else Down)
     \<and> length (hr_LastError r) \<le> 512"
  using assms(3)
proof (induction xs rule: rev_induct)
  case (snoc x xs)
  obtain now oc where x: "x = (now, oc)" by fastforce
  let ?db = "fold (record_outcome src) xs db"
  define n where "n = trailing_failures xs"
  have count: "(case hd_rows ?db src of None \<Rightarrow> 0 | Some r \<Rightarrow> hr_FailCount5m r) = min 20 (int n)"
  proof (cases "xs = []")
    case True
    then show ?thesis using assms(2) by (simp add: n_def trailing_failures_def)
  next
    case False
    with snoc.IH show ?thesis by (auto simp: n_def)
  qed
  show ?case
  proof (cases oc)
    case None
    then show ?thesis
      using record_success [OF assms(1), of now ?db] by (auto simp: x trailing_failures_snoc)
  next
    case (Some msg)
    obtain r where "hd_rows (record_outcome src (now, Some msg) ?db) src = Some r"
      "hr_Status r = (if min 20 (int n) + 1 < 5 then Degraded else Down)"
      "hr_FailCount5m r = min 20 (min 20 (int n) + 1)" "length (hr_LastError r) \<le> 512"
      using record_failure [OF assms(1) count, of now msg] by auto
    then show ?thesis using Some by (auto simp: x trailing_failures_snoc n_def [symmetric] min_def)
  qed
qed simp

section \<open>Properties\<close>

text \<open>After any non-empty sequence of recorded outcomes of a source that had no row, its row
  counts the failures since the last success up to 20, is healthy when there is none, degraded for
  one to four and down from the fifth on, and its error text has at most 512 characters; the rows of
  other sources are untouched.\<close>

theorem health_row_after:
  assumes "src \<noteq> []" "hd_rows db src = None" "xs \<noteq> []"
  shows "(\<exists>r. GetHealth src (fold (record_outcome src) xs db) = Some r
     \<and> hr_FailCount5m r = min 20 (int (trailing_failures xs))
     \<and> hr_Status r = (if trailing_failures xs = 0 then Healthy
                      else if trailing_failures xs < 5 then Degraded else Down)
     \<and> length (hr_LastError r) \<le> 512)
     \<and> (src' = src \<or> GetHealth src' (fold (record_outcome src) xs db) = GetHealth src' db)"
proof -
  have "hd_rows (fold (record_outcome src) xs db) src' = hd_rows db src'" if "src' \<noteq> src"
    using that by (induction xs arbitrary: db) (simp_all add: record_other)
  then show ?thesis using recorded_row [OF assms] by (auto simp: GetHealth_def)
qed

theorem health_row_after_witness:
  "\<exists>r. GetHealth ''sina'' (fold (record_outcome ''sina'') [(1, None), (2, Some ''eof'')]
             \<lparr>hd_rows = Map.empty, hd_switches = []\<rparr>) = Some r \<and> hr_Status r = Degraded"
  using health_row_after [of "''sina''" "\<lparr>hd_rows = Map.empty, hd_switches = []\<rparr>" "[(1, None), (2, Some ''eof'')]"]
  by (auto simp: trailing_failures_def)

end
