(* ===== verification/Source_Manager.thy ===== *)
theory Source_Manager
  imports Source_Types Breaker Market_Cache Health_Repo
begin

text \<open>
  The data-source manager, \<open>datasource/manager.go\<close>: routing of a request along the chain of
  sources behind their breakers, the read-through caches, and the health check.  A call runs
  without another call in between; the clock readings of its steps are arguments.
\<close>

section \<open>Configuration and state\<close>

record manager_config =
  mc_CacheTTL :: duration
  mc_FailThreshold :: int
  mc_FailWindow :: duration
  mc_Cooldown :: duration
  mc_QuoteTTL :: duration
  mc_ConsistencyThreshold :: f64
  mc_UniverseURL :: string

definition default_threshold :: f64 where
  "default_threshold = f_round False (5 / 1000)"

definition manager_withDefaults :: "manager_config \<Rightarrow> manager_config" where
  "manager_withDefaults c =
     c\<lparr>mc_CacheTTL := positive_or (24 * nano_hour) (mc_CacheTTL c),
       mc_FailThreshold := positive_or 5 (mc_FailThreshold c),
       mc_FailWindow := positive_or (5 * nano_minute) (mc_FailWindow c),
       mc_Cooldown := positive_or (10 * nano_minute) (mc_Cooldown c),
       mc_QuoteTTL := positive_or (5 * nano_second) (mc_QuoteTTL c),
       mc_ConsistencyThreshold :=
         (if f_le (mc_ConsistencyThreshold c) (f_zero False) then default_threshold
          else mc_ConsistencyThreshold c)\<rparr>"

record 'c manager =
  mg_cfg :: manager_config
  mg_cache :: "'c option"
  mg_repo :: "health_db option"
  mg_breakers :: "source breaker list"

text \<open>\<open>NewManager\<close>: nil sources are left out, so every breaker has one.\<close>

definition NewManager ::
  "source option list \<Rightarrow> 'c option \<Rightarrow> health_db option \<Rightarrow> manager_config \<Rightarrow> 'c manager" where
  "NewManager srcs cache repo cfg0 =
     (let cfg = manager_withDefaults cfg0
      in \<lparr>mg_cfg = cfg, mg_cache = cache, mg_repo = repo,
          mg_breakers = List.map_filter
            (\<lambda>s. NewBreaker s (mc_FailThreshold cfg) (mc_FailWindow cfg) (mc_Cooldown cfg)) srcs\<rparr>)"

definition ListSources :: "'c manager \<Rightarrow> string list" where
  "ListSources m = map (s_Name \<circ> br_source) (mg_breakers m)"

record breaker_snapshot =
  bs_Name :: string
  bs_State :: string
  bs_FailureCount :: nat

text \<open>\<open>t\<close> and \<open>t'\<close> are the readings of \<open>StateName\<close> and \<open>FailureCount\<close>.\<close>

definition snapshot_breaker :: "instant \<Rightarrow> instant \<Rightarrow> source breaker \<Rightarrow> breaker_snapshot \<times> source breaker" where
  "snapshot_breaker t t' b =
     (case br_StateName t b of (st, b1) \<Rightarrow>
        case br_FailureCount t' b1 of (n, b2) \<Rightarrow>
          (\<lparr>bs_Name = s_Name (br_source b), bs_State = st, bs_FailureCount = n\<rparr>, b2))"

definition BreakerSnapshots :: "(nat \<Rightarrow> instant \<times> instant) \<Rightarrow> 'c manager \<Rightarrow> breaker_snapshot list \<times> 'c manager" where
  "BreakerSnapshots ck m =
     (let rs = map (\<lambda>i. case ck i of (t, t') \<Rightarrow> snapshot_breaker t t' (mg_breakers m ! i))
                   [0..<length (mg_breakers m)]
      in (map fst rs, m\<lparr>mg_breakers := map snd rs\<rparr>))"

section \<open>Routing\<close>

text \<open>
  The readings of one attempt: \<open>Allow\<close>, \<open>StateName\<close> of the log line of a skipped source, the
  start of the call, \<open>RecordFailure\<close>, and the health repository's two.
\<close>

record attempt_clock =
  ac_allow :: instant
  ac_name :: instant
  ac_call :: instant
  ac_failure :: instant
  ac_record :: instant
  ac_switch :: instant

datatype 'v routed = SkippedSource | FailedSource string string | Served 'v string

text \<open>Best-effort writes to an optional health repository.\<close>

definition note_success :: "instant \<Rightarrow> string \<Rightarrow> health_db option \<Rightarrow> health_db option" where
  "note_success t name repo = map_option (\<lambda>db. snd (hr_RecordSuccess t name db)) repo"

definition note_failure :: "instant \<Rightarrow> string \<Rightarrow> string \<Rightarrow> health_db option \<Rightarrow> health_db option" where
  "note_failure t name err repo = map_option (\<lambda>db. snd (hr_RecordFailure t name err db)) repo"

definition note_switch :: "instant \<Rightarrow> string \<Rightarrow> string \<Rightarrow> string \<Rightarrow> health_db option \<Rightarrow> health_db option" where
  "note_switch t prev name why repo =
     (if prev \<noteq> [] \<and> prev \<noteq> name
      then map_option (\<lambda>db. snd (hr_RecordSwitch t prev name why db)) repo else repo)"

definition routeOnce ::
  "(source \<Rightarrow> instant \<Rightarrow> string + 'v) \<Rightarrow> attempt_clock \<Rightarrow> string \<Rightarrow> source breaker \<Rightarrow> health_db option
   \<Rightarrow> 'v routed \<times> source breaker \<times> health_db option" where
  "routeOnce call ck prev b repo =
     (let (ok, b1) = br_Allow (ac_allow ck) b;
          s = br_source b
      in if \<not> ok then (SkippedSource, snd (br_StateName (ac_name ck) b1), repo)
         else case call s (ac_call ck) of
           Inl err \<Rightarrow>
             (FailedSource (s_Name s) err, br_RecordFailure (ac_failure ck) b1,
              note_switch (ac_switch ck) prev (s_Name s) (''fallback after error: '' @ err)
                (note_failure (ac_record ck) (s_Name s) err repo))
         | Inr v \<Rightarrow>
             (Served v (s_Name s), br_RecordSuccess b1,
              note_switch (ac_switch ck) prev (s_Name s) ''successful fallback''
                (note_success (ac_record ck) (s_Name s) repo)))"

text \<open>
  The loop of the four \<open>call\<close> helpers: the first error is kept, and the name of the last source
  that failed.  \<open>ck i\<close> holds the readings of the attempt at the \<open>i\<close>-th breaker.
\<close>

fun route_loop ::
  "(source \<Rightarrow> instant \<Rightarrow> string + 'v) \<Rightarrow> (nat \<Rightarrow> attempt_clock) \<Rightarrow> string \<Rightarrow> string option
   \<Rightarrow> source breaker list \<Rightarrow> health_db option
   \<Rightarrow> (string option + 'v \<times> string) \<times> source breaker list \<times> health_db option" where
  "route_loop call ck prev firstErr [] repo = (Inl firstErr, [], repo)"
| "route_loop call ck prev firstErr (b # bs) repo =
     (case routeOnce call (ck 0) prev b repo of
        (Served v name, b', repo') \<Rightarrow> (Inr (v, name), b' # bs, repo')
      | (SkippedSource, b', repo') \<Rightarrow>
          (case route_loop call (ck \<circ> Suc) prev firstErr bs repo' of
             (r, bs', repo'') \<Rightarrow> (r, b' # bs', repo''))
      | (FailedSource name err, b', repo') \<Rightarrow>
          (case route_loop call (ck \<circ> Suc) name
                  (case firstErr of None \<Rightarrow> Some err | Some e \<Rightarrow> Some e) bs repo' of
             (r, bs', repo'') \<Rightarrow> (r, b' # bs', repo'')))"

text \<open>
  Errors of the manager: \<open>AllSourcesFailed\<close> wraps \<open>ErrAllSourcesDown\<close> and the first error of
  a source, or \<open>ErrAllSourcesDown\<close> again when every source was skipped.
\<close>

datatype manager_error =
    EmptyStockCode
  | EmptyPeriod
  | EndBeforeStart
  | NoDaysInRange
  | AllSourcesFailed string "string option"
  | Partial manager_error
  | SourceUnhealthy string string

definition route ::
  "string \<Rightarrow> (source \<Rightarrow> instant \<Rightarrow> string + 'v) \<Rightarrow> (nat \<Rightarrow> attempt_clock) \<Rightarrow> 'c manager
   \<Rightarrow> (manager_error + 'v \<times> string) \<times> 'c manager" where
  "route op call ck m =
     (case route_loop call ck [] None (mg_breakers m) (mg_repo m) of
        (r, bs, repo) \<Rightarrow>
          (case r of Inl e \<Rightarrow> Inl (AllSourcesFailed op e) | Inr x \<Rightarrow> Inr x,
           m\<lparr>mg_breakers := bs, mg_repo := repo\<rparr>))"

definition callQuote ::
  "string \<Rightarrow> (nat \<Rightarrow> attempt_clock) \<Rightarrow> 'c manager \<Rightarrow> (manager_error + quote option \<times> string) \<times> 'c manager" where
  "callQuote code ck m = route ''GetQuote'' (\<lambda>s. s_GetQuote s code) ck m"

definition callKLine ::
  "string \<Rightarrow> string \<Rightarrow> instant \<Rightarrow> instant \<Rightarrow> (nat \<Rightarrow> attempt_clock) \<Rightarrow> 'c manager
   \<Rightarrow> (manager_error + kline list) \<times> 'c manager" where
  "callKLine code period lo hi ck m =
     (case route ''GetKLine'' (\<lambda>s. s_GetKLine s code period lo hi) ck m of
        (Inl e, m') \<Rightarrow> (Inl e, m')
      | (Inr (ks, name), m') \<Rightarrow>
          (Inr (map (\<lambda>k. if k_Source k = [] then k\<lparr>k_Source := name\<rparr> else k) ks), m'))"

definition callFundamental ::
  "string \<Rightarrow> (nat \<Rightarrow> attempt_clock) \<Rightarrow> 'c manager \<Rightarrow> (manager_error + fundamental option) \<times> 'c manager" where
  "callFundamental code ck m =
     (case route ''GetFundamental'' (\<lambda>s. s_GetFundamental s code) ck m of
        (Inl e, m') \<Rightarrow> (Inl e, m') | (Inr (f, _), m') \<Rightarrow> (Inr f, m'))"

definition callNews ::
  "string \<Rightarrow> int \<Rightarrow> (nat \<Rightarrow> attempt_clock) \<Rightarrow> 'c manager \<Rightarrow> (manager_error + news list) \<times> 'c manager" where
  "callNews code limit ck m =
     (case route ''GetNews'' (\<lambda>s. s_GetNews s code limit) ck m of
        (Inl e, m') \<Rightarrow> (Inl e, m') | (Inr (ns, _), m') \<Rightarrow> (Inr ns, m'))"

section \<open>Requests\<close>

text \<open>The cache operations and the codecs of \<open>encoding/json\<close> for the cached types.\<close>

record 'c cache_env =
  ce_get :: "instant \<Rightarrow> string \<Rightarrow> 'c \<Rightarrow> string option \<times> 'c"
  ce_put :: "instant \<Rightarrow> string \<Rightarrow> string \<Rightarrow> duration \<Rightarrow> 'c \<Rightarrow> bool \<times> 'c"
  ce_quote :: "quote codec"
  ce_fundamental :: "fundamental codec"
  ce_klines :: "kline list codec"

definition mg_read ::
  "(instant \<Rightarrow> string \<Rightarrow> 'c \<Rightarrow> string option \<times> 'c) \<Rightarrow> 'v codec \<Rightarrow> instant \<Rightarrow> string \<Rightarrow> 'c manager
   \<Rightarrow> 'v option \<times> 'c manager" where
  "mg_read get cd t key m =
     (case mg_cache m of
        None \<Rightarrow> (None, m)
      | Some c \<Rightarrow> (case cache_read get cd t key c of (h, c') \<Rightarrow> (h, m\<lparr>mg_cache := Some c'\<rparr>)))"

definition mg_write ::
  "(instant \<Rightarrow> string \<Rightarrow> string \<Rightarrow> duration \<Rightarrow> 'c \<Rightarrow> bool \<times> 'c) \<Rightarrow> 'v codec \<Rightarrow> instant \<Rightarrow> string \<Rightarrow> 'v
   \<Rightarrow> duration \<Rightarrow> 'c manager \<Rightarrow> 'c manager" where
  "mg_write put cd t key v ttl m = m\<lparr>mg_cache := map_option (cache_write put cd t key v ttl) (mg_cache m)\<rparr>"

text \<open>\<open>t0\<close> and \<open>t1\<close> are the cache's clock at the read and at the write.  The result is a pointer
  to a quote, and the sources may return nil without an error.\<close>

definition GetQuote ::
  "'c cache_env \<Rightarrow> string \<Rightarrow> instant \<Rightarrow> (nat \<Rightarrow> attempt_clock) \<Rightarrow> instant \<Rightarrow> 'c manager
   \<Rightarrow> (manager_error + quote option) \<times> 'c manager" where
  "GetQuote env code t0 ck t1 m0 =
     (if code = [] then (Inl EmptyStockCode, m0)
      else let key = QuoteCacheKey code;
               (hit, m) = mg_read (ce_get env) (ce_quote env) t0 key m0
           in case hit of
             Some q \<Rightarrow> (Inr (Some q), m)
           | None \<Rightarrow>
               (case callQuote code ck m of
                  (Inl e, m') \<Rightarrow> (Inl e, m')
                | (Inr (q, _), m') \<Rightarrow>
                    (Inr q, case q of
                       None \<Rightarrow> m'
                     | Some v \<Rightarrow> mg_write (ce_put env) (ce_quote env) t1 key v (mc_QuoteTTL (mg_cfg m')) m')))"

definition GetFundamental ::
  "'c cache_env \<Rightarrow> string \<Rightarrow> instant \<Rightarrow> (nat \<Rightarrow> attempt_clock) \<Rightarrow> instant \<Rightarrow> 'c manager
   \<Rightarrow> (manager_error + fundamental option) \<times> 'c manager" where
  "GetFundamental env code t0 ck t1 m0 =
     (if code = [] then (Inl EmptyStockCode, m0)
      else let key = FundamentalCacheKey code;
               (hit, m) = mg_read (ce_get env) (ce_fundamental env) t0 key m0
           in case hit of
             Some f \<Rightarrow> (Inr (Some f), m)
           | None \<Rightarrow>
               (case callFundamental code ck m of
                  (Inl e, m') \<Rightarrow> (Inl e, m')
                | (Inr f, m') \<Rightarrow>
                    (Inr f, case f of
                       None \<Rightarrow> m'
                     | Some v \<Rightarrow> mg_write (ce_put env) (ce_fundamental env) t1 key v (mc_CacheTTL (mg_cfg m')) m')))"

definition GetNews ::
  "string \<Rightarrow> int \<Rightarrow> (nat \<Rightarrow> attempt_clock) \<Rightarrow> 'c manager \<Rightarrow> (manager_error + news list) \<times> 'c manager" where
  "GetNews code limit ck m =
     (if code = [] then (Inl EmptyStockCode, m)
      else callNews code (if limit \<le> 0 then 10 else limit) ck m)"

section \<open>K-lines\<close>

record time_range =
  tr_start :: instant
  tr_end :: instant

text \<open>\<open>splitByDay\<close>: the windows between the midnights of \<open>start\<close>'s location.\<close>

function split_from :: "location \<Rightarrow> instant \<Rightarrow> instant \<Rightarrow> time_range list" where
  "split_from loc cur fin =
     (if cur < fin
      then let next = min (midnight loc (day_of loc cur + 1)) fin
           in \<lparr>tr_start = cur, tr_end = next\<rparr> # split_from loc next fin
      else [])"
  by auto

lemma cur_less_next_midnight: "cur < midnight loc (day_of loc cur + 1)"
  using midnight_le_iff [of loc "day_of loc cur + 1" cur] by linarith

termination split_from
  by (relation "measure (\<lambda>(loc, cur, fin). nat (fin - cur))")
    (auto simp: min_def cur_less_next_midnight nat_mono_iff intro: less_imp_diff_less)

declare split_from.simps [simp del]

definition splitByDay :: "location \<Rightarrow> instant \<Rightarrow> instant \<Rightarrow> time_range list" where
  "splitByDay loc start fin = (if \<not> start < fin then [] else split_from loc start fin)"

definition day_text :: "location \<Rightarrow> time_range \<Rightarrow> string" where
  "day_text loc d = date_text \<lparr>wt_instant = tr_start d, wt_loc = loc\<rparr>"

text \<open>The cache lookups, in order: per day a hit with its bars, or a miss.\<close>

fun read_days ::
  "'c cache_env \<Rightarrow> (string \<Rightarrow> string) \<Rightarrow> (nat \<Rightarrow> instant) \<Rightarrow> location \<Rightarrow> time_range list \<Rightarrow> 'c manager
   \<Rightarrow> (time_range \<times> kline list option) list \<times> 'c manager" where
  "read_days env key ck loc [] m = ([], m)"
| "read_days env key ck loc (d # ds) m =
     (case mg_read (ce_get env) (ce_klines env) (ck 0) (key (day_text loc d)) m of
        (h, m') \<Rightarrow> (case read_days env key (ck \<circ> Suc) loc ds m' of (hs, m'') \<Rightarrow> ((d, h) # hs, m'')))"

text \<open>The cache writes: every missing day with the bars bucketed under its date.\<close>

fun write_days ::
  "'c cache_env \<Rightarrow> (string \<Rightarrow> string) \<Rightarrow> (nat \<Rightarrow> instant) \<Rightarrow> location \<Rightarrow> kline list \<Rightarrow> time_range list
   \<Rightarrow> 'c manager \<Rightarrow> 'c manager" where
  "write_days env key ck loc ks [] m = m"
| "write_days env key ck loc ks (d # ds) m =
     write_days env key (ck \<circ> Suc) loc ks ds
       (mg_write (ce_put env) (ce_klines env) (ck 0) (key (day_text loc d))
          (filter (\<lambda>k. date_text (k_Timestamp k) = day_text loc d) ks) (mc_CacheTTL (mg_cfg m)) m)"

definition hit_bars :: "(time_range \<times> kline list option) list \<Rightarrow> kline list" where
  "hit_bars hs = concat (map (\<lambda>(d, h). case h of None \<Rightarrow> [] | Some ks \<Rightarrow> ks) hs)"

definition missing_days :: "(time_range \<times> kline list option) list \<Rightarrow> time_range list" where
  "missing_days hs = map fst (filter (\<lambda>(d, h). h = None) hs)"

text \<open>
  The single fetch spans from the earliest start to the latest end of the missing days.  The
  answer is the bars found in the cache followed by the fetched ones; when the fetch fails, the
  cached bars come with the error.
\<close>

definition GetKLine ::
  "'c cache_env \<Rightarrow> string \<Rightarrow> string \<Rightarrow> location \<Rightarrow> instant \<Rightarrow> instant \<Rightarrow> (nat \<Rightarrow> instant)
   \<Rightarrow> (nat \<Rightarrow> attempt_clock) \<Rightarrow> (nat \<Rightarrow> instant) \<Rightarrow> 'c manager
   \<Rightarrow> (kline list option \<times> manager_error option) \<times> 'c manager" where
  "GetKLine env code period loc start fin ckr ck ckw m0 =
     (if code = [] then ((None, Some EmptyStockCode), m0)
      else if period = [] then ((None, Some EmptyPeriod), m0)
      else if \<not> start < fin then ((None, Some EndBeforeStart), m0)
      else
        let days = splitByDay loc start fin;
            key = KLineCacheKey code period
        in if days = [] then ((None, Some NoDaysInRange), m0)
           else
             let (hs, m) = read_days env key ckr loc days m0;
                 merged = hit_bars hs;
                 missing = missing_days hs
             in case missing of
                  [] \<Rightarrow> ((Some merged, None), m)
                | d # ds \<Rightarrow>
                    let lo = fold (\<lambda>x a. if tr_start x < a then tr_start x else a) ds (tr_start d);
                        hi = fold (\<lambda>x a. if a < tr_end x then tr_end x else a) ds (tr_end d)
                    in case callKLine code period lo hi ck m of
                         (Inl e, m') \<Rightarrow>
                           (if merged \<noteq> [] then (Some merged, Some (Partial e)) else (None, Some e), m')
                       | (Inr ks, m') \<Rightarrow>
                           ((Some (merged @ ks), None),
                            case mg_cache m' of
                              None \<Rightarrow> m'
                            | Some _ \<Rightarrow> write_days env key ckw loc ks missing m'))"

section \<open>Health check\<close>

text \<open>\<open>HealthCheck\<close> asks every source, whatever its breaker says, and leaves the breakers alone;
  \<open>ck i\<close> holds the readings of the call and of the record.\<close>

fun health_loop ::
  "(nat \<Rightarrow> instant \<times> instant) \<Rightarrow> manager_error option \<Rightarrow> source breaker list \<Rightarrow> health_db option
   \<Rightarrow> manager_error option \<times> health_db option" where
  "health_loop ck firstErr [] repo = (firstErr, repo)"
| "health_loop ck firstErr (b # bs) repo =
     (let s = br_source b
      in case s_GetQuote s ''000000'' (fst (ck 0)) of
           Inl err \<Rightarrow>
             health_loop (ck \<circ> Suc)
               (case firstErr of None \<Rightarrow> Some (SourceUnhealthy (s_Name s) err) | Some e \<Rightarrow> Some e)
               bs (note_failure (snd (ck 0)) (s_Name s) err repo)
         | Inr _ \<Rightarrow> health_loop (ck \<circ> Suc) firstErr bs (note_success (snd (ck 0)) (s_Name s) repo))"

definition HealthCheck :: "(nat \<Rightarrow> instant \<times> instant) \<Rightarrow> 'c manager \<Rightarrow> manager_error option \<times> 'c manager" where
  "HealthCheck ck m =
     (case health_loop ck None (mg_breakers m) (mg_repo m) of (e, repo) \<Rightarrow> (e, m\<lparr>mg_repo := repo\<rparr>))"

end
