(* ===== verification/Node_Notify.thy ===== *)
theory Node_Notify
  imports Node_Persist Node_Data_Source Notify_Manager Source_Manager Go_Parse
begin

text \<open>
  The message templates of \<open>notify/template.go\<close> and the notify node, \<open>executor/nodes/notify.go\<close>.  Texts are
  the UTF-8 bytes of the source; the clock and the text of a time in RFC 3339 are arguments.
\<close>

section \<open>Messages\<close>

record stock_pick =
  sp_Code :: string
  sp_Name :: string
  sp_Strategy :: string
  sp_EntryLow :: string
  sp_EntryHigh :: string

datatype message_type = MsgMorning | MsgAfternoon | MsgReview | MsgAlert

datatype message_meta =
    NoMeta
  | PickMeta "string list" int
  | ReviewMeta string int "stock_pick list" "stock_pick list"
  | AlertMeta string string

record message =
  ms_Title :: string
  ms_Content :: string
  ms_Type :: message_type
  ms_Meta :: message_meta
  ms_Timestamp :: wall_time

definition newline :: string where
  "newline = [CHR 0x0A]"

definition picksToMeta :: "stock_pick list \<Rightarrow> message_meta" where
  "picksToMeta stocks = PickMeta (map sp_Code stocks) (int (length stocks))"

definition or_dash :: "string \<Rightarrow> string" where
  "or_dash s = (if s = [] then ''-'' else s)"

definition pick_line :: "stock_pick \<Rightarrow> string" where
  "pick_line s =
     ''| '' @ sp_Code s @ '' | '' @ or_dash (sp_Name s) @ '' | '' @ or_dash (sp_Strategy s) @ '' | ''
       @ TrimSpace (sp_EntryLow s @ '' - '' @ sp_EntryHigh s) @ '' |'' @ newline"

text \<open>\<open>srt\<close> is the unstable \<open>sort.Slice\<close> by code.\<close>

definition renderPickTable :: "(stock_pick list \<Rightarrow> stock_pick list) \<Rightarrow> stock_pick list \<Rightarrow> string \<Rightarrow> string" where
  "renderPickTable srt stocks summary =
     (if stocks = [] then bytes [239, 188, 136, 230, 151, 160, 230, 149, 176, 230, 141, 174, 239, 188, 137]
      else (if summary \<noteq> [] then ''**'' @ summary @ ''**'' @ newline @ newline else [])
        @ bytes [124, 32, 228, 187, 163, 231, 160, 129, 32, 124, 32, 229, 144, 141, 231, 167, 176, 32, 124, 32, 231,
          173, 150, 231, 149, 165, 32, 124, 32, 229, 187, 186, 232, 174, 174, 229, 140, 186, 233, 151, 180, 32, 124] @
          newline
        @ ''| --- | --- | --- | --- |'' @ newline
        @ concat (map pick_line (srt stocks)))"

definition pick_summary :: "int \<Rightarrow> string \<Rightarrow> wall_time \<Rightarrow> string" where
  "pick_summary n kind ts = bytes [229, 133, 177, 32] @ dec_int n @ kind @ bytes [239, 188, 136] @ date_text
    ts @ bytes [239, 188, 137]"

text \<open>What the builders use of their surroundings.\<close>

record template_env =
  te_now :: wall_time
  te_sort :: "stock_pick list \<Rightarrow> stock_pick list"
  te_rfc3339 :: "wall_time \<Rightarrow> string"

definition pick_message :: "template_env \<Rightarrow> string \<Rightarrow> string \<Rightarrow> string \<Rightarrow> message_type \<Rightarrow> stock_pick list \<Rightarrow> message" where
  "pick_message env title empty_text kind ty stocks =
     (if stocks = []
      then \<lparr>ms_Title = title, ms_Content = empty_text, ms_Type = ty, ms_Meta = NoMeta, ms_Timestamp = te_now env\<rparr>
      else \<lparr>ms_Title = title,
             ms_Content = renderPickTable (te_sort env) stocks (pick_summary (int (length stocks)) kind (te_now env)),
             ms_Type = ty, ms_Meta = picksToMeta stocks, ms_Timestamp = te_now env\<rparr>)"

definition BuildMorningPick :: "template_env \<Rightarrow> stock_pick list \<Rightarrow> message" where
  "BuildMorningPick env =
     pick_message env (bytes [230, 151, 169, 231, 155, 152, 230, 142, 168, 232, 141, 144]) (bytes [228, 187, 138,
       230, 151, 165, 230, 151, 160, 231, 172, 166, 229, 144, 136, 231, 173, 150, 231, 149, 165, 231, 154, 132,
       230, 151, 169, 231, 155, 152, 230, 142, 168, 232, 141, 144, 227, 128, 130])
       (bytes [32, 229, 143, 170, 230, 151, 169, 231, 155, 152, 230, 142, 168, 232, 141, 144]) MsgMorning"

definition BuildAfternoonPick :: "template_env \<Rightarrow> stock_pick list \<Rightarrow> message" where
  "BuildAfternoonPick env =
     pick_message env (bytes [229, 176, 190, 231, 155, 152, 230, 142, 168, 232, 141, 144]) (bytes [228, 187, 138,
       230, 151, 165, 230, 151, 160, 231, 172, 166, 229, 144, 136, 231, 173, 150, 231, 149, 165, 231, 154, 132,
       229, 176, 190, 231, 155, 152, 230, 142, 168, 232, 141, 144, 227, 128, 130])
       (bytes [32, 229, 143, 170, 229, 176, 190, 231, 155, 152, 230, 142, 168, 232, 141, 144]) MsgAfternoon"

text \<open>A date that does not parse, and the zero time, are replaced by the clock.\<close>

definition BuildDailyReview :: "template_env \<Rightarrow> string \<Rightarrow> int \<Rightarrow> stock_pick list \<Rightarrow> stock_pick list \<Rightarrow> message" where
  "BuildDailyReview env date0 hits gainers losers =
     (let date = (if date0 = [] then date_text (te_now env) else date0);
          ts = (case parseDate date of
                  Some t \<Rightarrow> if t = wt_instant zero_wall_time then te_now env else \<lparr>wt_instant = t, wt_loc = 0\<rparr>
                | None \<Rightarrow> te_now env)
      in \<lparr>ms_Title = bytes [230, 175, 143, 230, 151, 165, 229, 164, 141, 231, 155, 152],
          ms_Content =
            bytes [35, 35, 35, 32, 230, 175, 143, 230, 151, 165, 229, 164, 141, 231, 155, 152, 239, 188, 136] @ date @
              bytes [239, 188, 137] @ newline @ newline
            @ bytes [45, 32, 229, 145, 189, 228, 184, 173, 230, 149, 176, 239, 188, 154, 42, 42] @ dec_int hits @ ''**''
              @ newline
            @ newline @ bytes [35, 35, 35, 35, 32, 229, 189, 147, 230, 151, 165, 230, 182, 168, 229, 185, 133, 32, 84,
              79, 80, 32] @ dec_nat (length gainers) @ newline @ newline
            @ renderPickTable (te_sort env) gainers []
            @ newline @ bytes [35, 35, 35, 35, 32, 229, 189, 147, 230, 151, 165, 232, 183, 140, 229, 185, 133, 32, 84,
              79, 80, 32] @ dec_nat (length losers) @ newline @ newline
            @ renderPickTable (te_sort env) losers [],
          ms_Type = MsgReview, ms_Meta = ReviewMeta date hits gainers losers, ms_Timestamp = ts\<rparr>)"

definition BuildAlert :: "template_env \<Rightarrow> string \<Rightarrow> string \<Rightarrow> string \<Rightarrow> message" where
  "BuildAlert env source0 severity0 detail =
     (let source = (if source0 = [] then ''system'' else source0);
          severity = (if severity0 = [] then ''error'' else severity0);
          now = te_now env
      in \<lparr>ms_Title = ''['' @ map upper_char severity @ ''] '' @ source,
          ms_Content =
            bytes [62, 32, 42, 42, 229, 145, 138, 232, 173, 166, 42, 42] @ newline @ ''>'' @ newline
            @ bytes [62, 32, 45, 32, 230, 157, 165, 230, 186, 144, 239, 188, 154, 96] @ source @ ''`'' @ newline
            @ bytes [62, 32, 45, 32, 231, 186, 167, 229, 136, 171, 239, 188, 154, 96] @ severity @ ''`'' @ newline
            @ bytes [62, 32, 45, 32, 230, 151, 182, 233, 151, 180, 239, 188, 154] @ te_rfc3339 env now @ newline @ ''>''
              @ newline
            @ ''> '' @ detail,
          ms_Type = MsgAlert, ms_Meta = AlertMeta source severity, ms_Timestamp = now\<rparr>)"

section \<open>The node\<close>

record notify_params =
  np_Subtype :: string
  np_Source :: string
  np_Severity :: string
  np_Detail :: string

definition zero_notify_params :: notify_params where
  "zero_notify_params = \<lparr>np_Subtype = [], np_Source = [], np_Severity = [], np_Detail = []\<rparr>"

definition subtypeForSession :: "run_ctx \<Rightarrow> string" where
  "subtypeForSession rc =
     (case GetVar rc VarKeySessionTag of
        Some (VStr t) \<Rightarrow>
          if t = ''MORNING'' then ''morning'' else if t = ''AFTERNOON'' then ''afternoon''
          else if t = ''REVIEW'' then ''review'' else ''alert''
      | _ \<Rightarrow> ''alert'')"

text \<open>\<open>fixed2\<close> is \<open>FormatFloat\<close> with two decimals.\<close>

definition formatPrice :: "(f64 \<Rightarrow> string) \<Rightarrow> val \<Rightarrow> string" where
  "formatPrice fixed2 v =
     (case toFloatOK v of Some x \<Rightarrow> fixed2 x | None \<Rightarrow> (case v of VStr s \<Rightarrow> s | _ \<Rightarrow> []))"

definition entry :: "payload \<Rightarrow> string \<Rightarrow> val" where
  "entry m k = (case map_of m k of None \<Rightarrow> VNil | Some v \<Rightarrow> v)"

definition pick_of :: "(f64 \<Rightarrow> string) \<Rightarrow> payload \<Rightarrow> stock_pick option" where
  "pick_of fixed2 m =
     (if stringOf (entry m ''stock_code'') = [] then None
      else Some \<lparr>sp_Code = stringOf (entry m ''stock_code''), sp_Name = stringOf (entry m ''stock_name''),
                 sp_Strategy = stringOf (entry m ''strategy_code''), sp_EntryLow = formatPrice fixed2 (entry m ''entry_price_low''),
                 sp_EntryHigh = formatPrice fixed2 (entry m ''entry_price_high'')\<rparr>)"

definition extractPicks :: "(f64 \<Rightarrow> string) \<Rightarrow> payload \<Rightarrow> stock_pick list" where
  "extractPicks fixed2 ins =
     (case findFirstSlice ins of
        None \<Rightarrow> []
      | Some items \<Rightarrow> List.map_filter (\<lambda>it. Option.bind (as_map it) (pick_of fixed2)) items)"

text \<open>What a run gives the node; \<open>nv_now\<close> is the clock of the run context.\<close>

record notify_env =
  nv_RunID :: nat
  nv_StrategyCode :: string
  nv_now :: wall_time
  nv_templates :: template_env
  nv_fixed2 :: "f64 \<Rightarrow> string"
  nv_quote :: "string \<Rightarrow> string"

definition buildMessage :: "notify_env \<Rightarrow> string \<Rightarrow> notify_params \<Rightarrow> stock_pick list \<Rightarrow> node_error + message" where
  "buildMessage env subtype p picks =
     (if subtype = ''morning'' then Inr (BuildMorningPick (nv_templates env) picks)
      else if subtype = ''afternoon'' then Inr (BuildAfternoonPick (nv_templates env) picks)
      else if subtype = ''review''
      then Inr (BuildDailyReview (nv_templates env) (date_text (nv_now env)) (int (length picks)) picks [])
      else if subtype = ''alert''
      then Inr (BuildAlert (nv_templates env) (np_Source p) (np_Severity p)
             (if np_Detail p = []
              then ''Run '' @ dec_nat (nv_RunID env) @ '' on strategy '' @ nv_quote env (nv_StrategyCode env) @ '' produced ''
                @ dec_nat (length picks) @ '' picks''
              else np_Detail p))
      else Inl (ParamError ''notify'' ''subtype'' (''unknown: '' @ subtype)))"

text \<open>The manager: whether it has a channel, and \<open>Send\<close> with its effect on the manager's state.\<close>

record 's notifier =
  no_HasChannel :: "'s \<Rightarrow> bool"
  no_Send :: "message \<Rightarrow> 's \<Rightarrow> string option \<times> 's"

definition notify_Run ::
  "(string \<Rightarrow> string + notify_params) \<Rightarrow> notify_env \<Rightarrow> run_ctx \<Rightarrow> 's notifier option \<Rightarrow> payload \<Rightarrow> 's \<Rightarrow> node_out \<times> 's" where
  "notify_Run unmarshal env rc mgr ins s =
     (case decode_params ''notify'' unmarshal zero_notify_params ins of
        Inl e \<Rightarrow> (Inl e, s)
      | Inr p \<Rightarrow>
          let subtype = (if np_Subtype p = [] then subtypeForSession rc else np_Subtype p);
              picks = extractPicks (nv_fixed2 env) ins;
              n = VInt (int (length picks))
          in case buildMessage env subtype p picks of
               Inl e \<Rightarrow> (Inl e, s)
             | Inr msg \<Rightarrow>
                 (case mgr of
                    None \<Rightarrow> (Inr [(''dry_run'', VBool True), (''sent'', VBool False), (''subtype'', VStr subtype),
                                 (''title'', VStr (ms_Title msg)), (''preview'', VStr (ms_Content msg)), (''recipients'', n)], s)
                  | Some m \<Rightarrow>
                      if \<not> no_HasChannel m s
                      then (Inr [(''sent'', VBool False), (''skipped'', VStr ''no channel configured''), (''subtype'', VStr subtype),
                                 (''recipients'', n)], s)
                      else case no_Send m msg s of
                        (Some e, s') \<Rightarrow> (Inl (NodeFailure (''notify.Send: '' @ e)), s')
                      | (None, s') \<Rightarrow>
                          (Inr [(''sent'', VBool True), (''subtype'', VStr subtype), (''recipients'', n)], s')))"

section \<open>What is sent\<close>

text \<open>A sort by code: a permutation in ascending order of code, not necessarily stable.\<close>

definition sorts_by_code :: "(stock_pick list \<Rightarrow> stock_pick list) \<Rightarrow> bool" where
  "sorts_by_code srt \<longleftrightarrow> (\<forall>xs. mset (srt xs) = mset xs \<and> sorted (map sp_Code (srt xs)))"

lemma extractPicks_codes:
  "findFirstSlice ins = Some items \<Longrightarrow>
   map sp_Code (extractPicks fixed2 ins)
     = filter (\<lambda>c. c \<noteq> []) (map (\<lambda>it. case it of VMap m \<Rightarrow> stringOf (entry m ''stock_code'') | _ \<Rightarrow> []) items)"
proof -
  have "map sp_Code (List.map_filter (\<lambda>it. Option.bind (as_map it) (pick_of fixed2)) xs)
      = filter (\<lambda>c. c \<noteq> []) (map (\<lambda>it. case it of VMap m \<Rightarrow> stringOf (entry m ''stock_code'') | _ \<Rightarrow> []) xs)" for xs
  proof (induction xs)
    case (Cons x xs)
    then show ?case by (cases x) (simp_all add: List.map_filter_simps pick_of_def)
  qed (simp add: List.map_filter_simps)
  then show "findFirstSlice ins = Some items \<Longrightarrow> ?thesis" by (simp add: extractPicks_def)
qed

text \<open>The table of a message has one line per pick, in the order of the codes.\<close>

lemma renderPickTable_lines:
  assumes "sorts_by_code srt" "stocks \<noteq> []"
  shows "\<exists>header ps. renderPickTable srt stocks summary = header @ concat (map pick_line ps)
    \<and> mset ps = mset stocks \<and> sorted (map sp_Code ps)"
  using assms by (intro exI [of _ "srt stocks"] exI) (auto simp: renderPickTable_def sorts_by_code_def)

text \<open>Whatever the session and the rows upstream, the node fails only for parameters that do not
  decode, for an unknown subtype, or when the manager has a channel and \<open>Send\<close> fails; without a channel
  nothing is sent and the run goes on.  It counts one recipient for every row with a stock code, in
  their order, and a morning or afternoon message lists exactly these, one line each, by code.\<close>

theorem notify_Run_outcome:
  assumes "decode_params ''notify'' unmarshal zero_notify_params ins = Inr p" "findFirstSlice ins = Some items"
    and "sub = (if np_Subtype p = [] then subtypeForSession rc else np_Subtype p)"
    and "picks = extractPicks (nv_fixed2 env) ins" "sorts_by_code (te_sort (nv_templates env))"
  shows "(np_Subtype p = [] \<longrightarrow> sub \<in> {''morning'', ''afternoon'', ''review'', ''alert''})
    \<and> map sp_Code picks
        = filter (\<lambda>c. c \<noteq> []) (map (\<lambda>it. case it of VMap m \<Rightarrow> stringOf (entry m ''stock_code'') | _ \<Rightarrow> []) items)
    \<and> (sub \<notin> {''morning'', ''afternoon'', ''review'', ''alert''} \<longrightarrow>
         notify_Run unmarshal env rc mgr ins s = (Inl (ParamError ''notify'' ''subtype'' (''unknown: '' @ sub)), s))
    \<and> (sub \<in> {''morning'', ''afternoon'', ''review'', ''alert''} \<longrightarrow>
         (\<exists>msg. buildMessage env sub p picks = Inr msg
          \<and> (sub \<in> {''morning'', ''afternoon''} \<and> picks \<noteq> [] \<longrightarrow>
               (\<exists>header ps. ms_Content msg = header @ concat (map pick_line ps) \<and> mset ps = mset picks
                  \<and> sorted (map sp_Code ps)))
          \<and> (\<forall>m. mgr = Some m \<and> \<not> no_HasChannel m s \<longrightarrow>
               notify_Run unmarshal env rc mgr ins s = (Inr [(''sent'', VBool False), (''skipped'', VStr ''no channel configured''),
                 (''subtype'', VStr sub), (''recipients'', VInt (int (length picks)))], s))
          \<and> (\<forall>m. mgr = Some m \<and> no_HasChannel m s \<longrightarrow>
               snd (notify_Run unmarshal env rc mgr ins s) = snd (no_Send m msg s)
               \<and> (is_ok (fst (notify_Run unmarshal env rc mgr ins s)) \<longleftrightarrow> fst (no_Send m msg s) = None))))"
proof -
  have auto: "np_Subtype p = [] \<longrightarrow> sub \<in> {''morning'', ''afternoon'', ''review'', ''alert''}"
    by (auto simp: assms(3) subtypeForSession_def split: option.split val.split)
  have table: "\<exists>header ps. ms_Content (pick_message (nv_templates env) title empty kind ty picks) = header @ concat (map pick_line ps)
      \<and> mset ps = mset picks \<and> sorted (map sp_Code ps)" if "picks \<noteq> []" for title empty kind ty
    using renderPickTable_lines [OF assms(5) that] that by (simp add: pick_message_def)
  have run: "notify_Run unmarshal env rc mgr ins s =
     (case buildMessage env sub p picks of
         Inl e \<Rightarrow> (Inl e, s)
       | Inr msg \<Rightarrow>
           (case mgr of
              None \<Rightarrow> (Inr [(''dry_run'', VBool True), (''sent'', VBool False), (''subtype'', VStr sub),
                   (''title'', VStr (ms_Title msg)), (''preview'', VStr (ms_Content msg)),
                   (''recipients'', VInt (int (length picks)))], s)
            | Some m \<Rightarrow>
                if \<not> no_HasChannel m s
                then (Inr [(''sent'', VBool False), (''skipped'', VStr ''no channel configured''), (''subtype'', VStr sub),
                     (''recipients'', VInt (int (length picks)))], s)
                else case no_Send m msg s of
                  (Some e, s') \<Rightarrow> (Inl (NodeFailure (''notify.Send: '' @ e)), s')
                | (None, s') \<Rightarrow>
                    (Inr [(''sent'', VBool True), (''subtype'', VStr sub), (''recipients'', VInt (int (length picks)))], s')))"
    unfolding notify_Run_def assms(1) sum.case Let_def assms(3,4) [symmetric] ..
  have unknown: "buildMessage env sub p picks = Inl (ParamError ''notify'' ''subtype'' (''unknown: '' @ sub))"
    if "sub \<notin> {''morning'', ''afternoon'', ''review'', ''alert''}"
    using that by (simp add: buildMessage_def)
  have built: "\<exists>msg. buildMessage env sub p picks = Inr msg \<and> (sub \<in> {''morning'', ''afternoon''} \<and> picks \<noteq> [] \<longrightarrow>
      (\<exists>header ps. ms_Content msg = header @ concat (map pick_line ps) \<and> mset ps = mset picks \<and> sorted (map sp_Code ps)))"
    if "sub \<in> {''morning'', ''afternoon'', ''review'', ''alert''}"
    using that table by (auto simp: buildMessage_def BuildMorningPick_def BuildAfternoonPick_def)
  have skipped: "notify_Run unmarshal env rc mgr ins s = (Inr [(''sent'', VBool False), (''skipped'', VStr ''no channel configured''),
      (''subtype'', VStr sub), (''recipients'', VInt (int (length picks)))], s)"
    if "buildMessage env sub p picks = Inr msg" "mgr = Some m" "\<not> no_HasChannel m s" for m msg
    unfolding run that(1) by (simp add: that(2,3))
  have sent: "snd (notify_Run unmarshal env rc mgr ins s) = snd (no_Send m msg s)
      \<and> (is_ok (fst (notify_Run unmarshal env rc mgr ins s)) \<longleftrightarrow> fst (no_Send m msg s) = None)"
    if "buildMessage env sub p picks = Inr msg" "mgr = Some m" "no_HasChannel m s" for m msg
    unfolding run that(1) by (cases "no_Send m msg s") (auto simp: that(2,3) split: option.split)
  show ?thesis
  proof (intro conjI impI)
    assume "sub \<in> {''morning'', ''afternoon'', ''review'', ''alert''}"
    then obtain msg where msg: "buildMessage env sub p picks = Inr msg"
      "sub \<in> {''morning'', ''afternoon''} \<and> picks \<noteq> [] \<longrightarrow>
        (\<exists>header ps. ms_Content msg = header @ concat (map pick_line ps) \<and> mset ps = mset picks \<and> sorted (map sp_Code ps))"
      using built by blast
    show "\<exists>msg. buildMessage env sub p picks = Inr msg
          \<and> (sub \<in> {''morning'', ''afternoon''} \<and> picks \<noteq> [] \<longrightarrow>
               (\<exists>header ps. ms_Content msg = header @ concat (map pick_line ps) \<and> mset ps = mset picks
                  \<and> sorted (map sp_Code ps)))
          \<and> (\<forall>m. mgr = Some m \<and> \<not> no_HasChannel m s \<longrightarrow>
               notify_Run unmarshal env rc mgr ins s = (Inr [(''sent'', VBool False), (''skipped'', VStr ''no channel configured''),
                 (''subtype'', VStr sub), (''recipients'', VInt (int (length picks)))], s))
          \<and> (\<forall>m. mgr = Some m \<and> no_HasChannel m s \<longrightarrow>
               snd (notify_Run unmarshal env rc mgr ins s) = snd (no_Send m msg s)
               \<and> (is_ok (fst (notify_Run unmarshal env rc mgr ins s)) \<longleftrightarrow> fst (no_Send m msg s) = None))"
      using msg sent [OF msg(1)] skipped [OF msg(1)] by blast
  qed (use auto extractPicks_codes [OF assms(2), of "nv_fixed2 env"] unknown assms(4) run in simp_all)
qed

end
