(* ===== verification/Perf_Calc.thy ===== *)
theory Perf_Calc
  imports F64_Order Slice_Stable
begin

text \<open>
  The performance formulas of \<open>perf/calculator.go\<close> over binary64 values.  A nil pointer, which
  means \<open>no data\<close>, is \<^const>\<open>None\<close>.
\<close>

definition isFinitePositive :: "f64 \<Rightarrow> bool" where
  "isFinitePositive v \<longleftrightarrow> f_finite v \<and> f_lt (Fin 0) v"

definition TReturn :: "f64 \<Rightarrow> f64 \<Rightarrow> f64 option" where
  "TReturn entry exit_px =
     (if \<not> isFinitePositive entry \<or> \<not> f_finite exit_px then None
      else let r = f_sub (f_div exit_px entry) (Fin 1)
           in if f_finite r then Some r else None)"

section \<open>Drawdown\<close>

definition drawdown :: "f64 \<Rightarrow> f64 \<Rightarrow> f64" where
  "drawdown peak v = f_div (f_sub peak v) peak"

text \<open>One turn of the loop; the state is the peak so far and the worst drop so far.\<close>

definition mdd_step :: "f64 \<times> f64 \<Rightarrow> f64 \<Rightarrow> f64 \<times> f64" where
  "mdd_step st v =
     (case st of (peak, mdd) \<Rightarrow>
        if \<not> f_finite v then (peak, mdd)
        else let peak' = (if peak = NaN \<or> f_lt peak v then v else peak)
             in if isFinitePositive peak' \<and> f_lt mdd (drawdown peak' v) then (peak', drawdown peak' v)
                else (peak', mdd))"

definition MaxDrawdown :: "f64 list \<Rightarrow> f64 option" where
  "MaxDrawdown path =
     (if length path < 2 then None
      else let mdd = snd (foldl mdd_step (NaN, Fin 0) path) in if mdd = NaN then None else Some mdd)"

section \<open>Averages\<close>

definition WinRate :: "f64 list \<Rightarrow> f64 option" where
  "WinRate returns =
     (let total = filter f_finite returns; wins = filter (f_lt (Fin 0)) total
      in if total = [] then None
         else Some (f_div (f_of_int (int (length wins))) (f_of_int (int (length total)))))"

definition AverageReturn :: "f64 list \<Rightarrow> f64 option" where
  "AverageReturn returns =
     (let vs = filter f_finite returns
      in if vs = [] then None else Some (f_div (foldl f_add (Fin 0) vs) (f_of_int (int (length vs)))))"

text \<open>\<open>sortFloats\<close>: insertion from the right, the sorted prefix held reversed.\<close>

definition sortFloats :: "f64 list \<Rightarrow> f64 list" where
  "sortFloats a = rev (fold (insert_left (\<lambda>v y. f_lt v y)) a [])"

definition MedianReturn :: "f64 list \<Rightarrow> f64 option" where
  "MedianReturn returns =
     (let cleaned = sortFloats (filter f_finite returns); n = length cleaned
      in if n = 0 then None
         else if n mod 2 = 1 then Some (cleaned ! (n div 2))
         else Some (f_div (f_add (cleaned ! (n div 2 - 1)) (cleaned ! (n div 2))) (Fin 2)))"

section \<open>The median is taken from the sorted list\<close>

definition float_key :: "f64 \<Rightarrow> int \<times> rat" where
  "float_key x = (f_class x, f_val x)"

interpretation floats: keyed_less f_lt float_key "{x. x \<noteq> NaN}"
  by unfold_locales (auto simp: float_key_def f_lt_iff less_prod_def)

lemma sortFloats_sorts:
  assumes "\<forall>x\<in>set a. x \<noteq> NaN"
  shows "sortFloats a = sort_key float_key a"
proof -
  have "sortFloats a = slice_stable f_lt a" by (simp add: sortFloats_def slice_stable_def)
  then show ?thesis using floats.slice_stable_sort_key [of a] assms by auto
qed

section \<open>The drawdown is the worst drop from a running peak\<close>

definition price :: "f64 \<Rightarrow> bool" where
  "price v \<longleftrightarrow> (\<exists>q. v = Fin q \<and> 0 < q \<and> f_ok v)"

lemma priceD: "price v \<Longrightarrow> v \<noteq> NaN \<and> f_finite v \<and> isFinitePositive v"
  by (auto simp: price_def isFinitePositive_def f_lt_iff)

lemma price_iff: "f_ok v \<Longrightarrow> price v \<longleftrightarrow> isFinitePositive v"
  by (cases v) (auto simp: price_def isFinitePositive_def f_lt_iff)

lemma drawdown_bounds:
  assumes "price p" "price v" "f_le v p"
  shows "f_le (Fin 0) (drawdown p v)" "f_le (drawdown p v) (Fin 1)"
proof -
  obtain a b where ab: "p = Fin a" "v = Fin b" "0 < b" "b \<le> a" "f_ok (Fin a)"
    using assms by (auto simp: price_def f_le_iff)
  have sub: "f_sub p v = f_round False (a - b)" using ab by (simp add: f_sub_def f_add_def)
  have "f_le (Fin 0) (f_round False (a - b))" by (rule f_round_ge) (use ab in auto)
  moreover have "f_le (f_round False (a - b)) (Fin a)" by (rule f_round_le) (use ab in auto)
  ultimately obtain w where w: "f_round False (a - b) = Fin w" "0 \<le> w" "w \<le> a"
    using ab by (cases "f_round False (a - b)") (auto simp: f_le_iff f_round_def f_zero_def Let_def split: if_splits)
  have "f_sub p v = Fin w" using sub w by simp
  then have dd: "drawdown p v = f_round False (w / a)"
    using ab w by (simp add: drawdown_def f_div_def f_is_zero_def)
  show "f_le (Fin 0) (drawdown p v)" unfolding dd by (rule f_round_ge) (use ab w in auto)
  show "f_le (drawdown p v) (Fin 1)" unfolding dd by (rule f_round_le) (use ab w f_1 in auto)
qed

definition running_peak :: "f64 list \<Rightarrow> nat \<Rightarrow> f64 \<Rightarrow> bool" where
  "running_peak ps j p \<longleftrightarrow> p \<in> set (take (Suc j) ps) \<and> (\<forall>x\<in>set (take (Suc j) ps). f_le x p)"

lemma running_peak_prefix: "j < length ps \<Longrightarrow> running_peak (ps @ qs) j p \<longleftrightarrow> running_peak ps j p"
  by (simp add: running_peak_def)

lemma foldl_mdd_finite: "foldl mdd_step st path = foldl mdd_step st (filter f_finite path)"
  by (induction path arbitrary: st) (auto simp: mdd_step_def split: prod.split)

lemma mdd_spec:
  assumes "\<forall>v\<in>set ps. price v" "ps \<noteq> []" "foldl mdd_step (NaN, Fin 0) ps = (peak, m)"
  shows "running_peak ps (length ps - 1) peak
    \<and> (\<forall>j<length ps. \<exists>p. running_peak ps j p \<and> f_le (drawdown p (ps ! j)) m)
    \<and> (\<exists>j<length ps. \<exists>p. running_peak ps j p \<and> m = drawdown p (ps ! j))"
  using assms
proof (induction ps arbitrary: peak m rule: rev_induct)
  case (snoc v ps)
  show ?case
  proof (cases "ps = []")
    case True
    have v: "price v" using snoc.prems(1) by simp
    then obtain q where q: "v = Fin q" "0 < q" by (auto simp: price_def)
    have "f_sub v v = Fin 0" using q by (simp add: f_sub_def f_add_def f_round_0 f_zero_def)
    then have dd: "drawdown v v = Fin 0"
      using q by (simp add: drawdown_def f_div_def f_is_zero_def f_round_0 f_zero_def)
    have "(peak, m) = (v, Fin 0)"
      using snoc.prems(3) True priceD [OF v] dd by (simp add: mdd_step_def Let_def)
    then show ?thesis using True dd priceD [OF v] by (simp add: running_peak_def f_le_refl)
  next
    case False
    obtain peak0 m0 where st: "foldl mdd_step (NaN, Fin 0) ps = (peak0, m0)" by fastforce
    have IH: "running_peak ps (length ps - 1) peak0"
      "\<forall>j<length ps. \<exists>p. running_peak ps j p \<and> f_le (drawdown p (ps ! j)) m0"
      "\<exists>j<length ps. \<exists>p. running_peak ps j p \<and> m0 = drawdown p (ps ! j)"
      using snoc.IH [OF _ False st] snoc.prems(1) by auto
    have v: "price v" and ps: "\<forall>x\<in>set ps. price x" using snoc.prems(1) by auto
    have peak0: "peak0 \<in> set ps" "\<forall>x\<in>set ps. f_le x peak0"
      using IH(1) False by (auto simp: running_peak_def)
    define p' where "p' = (if f_lt peak0 v then v else peak0)"
    have p': "price p'" "f_le v p'" "\<forall>x\<in>set ps. f_le x p'" "p' \<in> set (ps @ [v])"
      using v ps peak0 priceD f_not_lt [of peak0 v] f_le_trans f_lt_imp_le
      by (auto simp: p'_def f_le_refl)
    have rp: "running_peak (ps @ [v]) (length ps) p'" using p' by (simp add: running_peak_def)
    have m: "(peak, m) = (p', if f_lt m0 (drawdown p' v) then drawdown p' v else m0)"
    proof -
      have "peak0 \<noteq> NaN" "f_finite v" "isFinitePositive p'"
        using priceD ps peak0(1) v p'(1) by auto
      then have "mdd_step (peak0, m0) v = (p', if f_lt m0 (drawdown p' v) then drawdown p' v else m0)"
        by (simp add: mdd_step_def Let_def p'_def [symmetric])
      then show ?thesis using snoc.prems(3) st by (simp only: foldl_append foldl.simps)
    qed
    obtain j0 p0 where j0: "j0 < length ps" "running_peak ps j0 p0" "m0 = drawdown p0 (ps ! j0)"
      using IH(3) by blast
    have m0: "m0 \<noteq> NaN" "f_le m0 m0"
    proof -
      have "p0 \<in> set ps" using j0(2) by (auto simp: running_peak_def dest: in_set_takeD)
      moreover have "f_le (ps ! j0) p0" using j0(1,2) by (auto simp: running_peak_def take_Suc_conv_app_nth)
      ultimately show "m0 \<noteq> NaN" using drawdown_bounds [of p0 "ps ! j0"] j0 ps by (auto simp: f_le_iff)
      then show "f_le m0 m0" by (rule f_le_refl)
    qed
    have dd: "drawdown p' v \<noteq> NaN" using drawdown_bounds [OF p'(1) v p'(2)] by (auto simp: f_le_iff)
    have up: "f_le m0 m" "f_le (drawdown p' v) m"
      using m m0 dd f_not_lt [of m0 "drawdown p' v"] by (auto simp: f_lt_imp_le f_le_refl)
    have each: "\<exists>p. running_peak (ps @ [v]) j p \<and> f_le (drawdown p ((ps @ [v]) ! j)) m"
      if "j < length (ps @ [v])" for j
    proof (cases "j < length ps")
      case True
      then show ?thesis using IH(2) f_le_trans [OF _ up(1)]
        by (metis nth_append running_peak_prefix)
    next
      case False
      then have "j = length ps" using that by simp
      then show ?thesis using rp up(2) by auto
    qed
    have "\<exists>j<length (ps @ [v]). \<exists>p. running_peak (ps @ [v]) j p \<and> m = drawdown p ((ps @ [v]) ! j)"
    proof (cases "f_lt m0 (drawdown p' v)")
      case True
      then show ?thesis using m rp by (intro exI [of _ "length ps"]) auto
    next
      case False
      then show ?thesis using m j0
        by (intro exI [of _ j0]) (auto simp: nth_append running_peak_prefix)
    qed
    then show ?thesis using rp each m by simp
  qed
qed simp

text \<open>For a path of at least two points whose finite values are positive prices, \<open>MaxDrawdown\<close>
  returns a number between 0 and 1: the largest of the drops from the highest price so far to the
  current one, over all points.  With no finite value at all it returns 0.\<close>

theorem MaxDrawdown_worst:
  assumes "2 \<le> length path" "ps = filter f_finite path" "\<forall>v\<in>set ps. f_ok v \<and> isFinitePositive v"
  shows "\<exists>m. MaxDrawdown path = Some m \<and> f_le (Fin 0) m \<and> f_le m (Fin 1) \<and> (ps = [] \<longrightarrow> m = Fin 0)
    \<and> (\<forall>j<length ps. \<exists>p. running_peak ps j p \<and> f_le (drawdown p (ps ! j)) m)
    \<and> (ps \<noteq> [] \<longrightarrow> (\<exists>j<length ps. \<exists>p. running_peak ps j p \<and> m = drawdown p (ps ! j)))"
proof -
  obtain peak m where st: "foldl mdd_step (NaN, Fin 0) ps = (peak, m)" by fastforce
  have fold: "foldl mdd_step (NaN, Fin 0) path = (peak, m)" using st foldl_mdd_finite assms(2) by metis
  have ps: "\<forall>v\<in>set ps. price v" using assms(3) price_iff by blast
  show ?thesis
  proof (cases "ps = []")
    case True
    then show ?thesis using st fold assms(1) by (auto simp: MaxDrawdown_def f_le_iff)
  next
    case False
    have worst: "\<forall>j<length ps. \<exists>p. running_peak ps j p \<and> f_le (drawdown p (ps ! j)) m"
      "\<exists>j<length ps. \<exists>p. running_peak ps j p \<and> m = drawdown p (ps ! j)"
      using mdd_spec [OF ps False st] by auto
    then obtain j p where j: "j < length ps" "running_peak ps j p" "m = drawdown p (ps ! j)" by blast
    have "p \<in> set ps" "f_le (ps ! j) p"
      using j(1,2) by (auto simp: running_peak_def take_Suc_conv_app_nth dest: in_set_takeD)
    then have "f_le (Fin 0) m" "f_le m (Fin 1)"
      using drawdown_bounds [of p "ps ! j"] ps j by auto
    then show ?thesis using fold assms(1) worst False
      by (auto simp: MaxDrawdown_def Let_def f_le_iff)
  qed
qed

theorem MaxDrawdown_worst_witness:
  "\<exists>m. MaxDrawdown [Fin 4, Fin 2, NaN] = Some m \<and> f_le (drawdown (Fin 4) (Fin 2)) m \<and> f_le m (Fin 1)"
proof -
  have ok: "f_ok (Fin 4)" "f_ok (Fin 2)"
    using rep_mag_int [of 4] rep_mag_int [of 2] f_limit_gt by simp_all
  obtain m where m: "MaxDrawdown [Fin 4, Fin 2, NaN] = Some m" "f_le m (Fin 1)"
    "\<forall>j<2. \<exists>p. running_peak [Fin 4, Fin 2] j p \<and> f_le (drawdown p ([Fin 4, Fin 2] ! j)) m"
    using MaxDrawdown_worst [of "[Fin 4, Fin 2, NaN]" "[Fin 4, Fin 2]"] ok
    by (auto simp: isFinitePositive_def numeral_2_eq_2)
  from m(3) [rule_format, of 1] obtain p where "running_peak [Fin 4, Fin 2] 1 p" "f_le (drawdown p (Fin 2)) m"
    by auto
  moreover from this(1) have "p = Fin 4" by (auto simp: running_peak_def f_le_iff)
  ultimately show ?thesis using m by auto
qed

text \<open>\<open>MedianReturn\<close> ignores infinite and undefined values; of the others it takes the middle
  element of the list sorted in ascending order, or the mean of the two middle elements when
  their number is even.\<close>

theorem MedianReturn_middle:
  "MedianReturn returns =
    (let s = sort_key float_key (filter f_finite returns); n = length s
     in if s = [] then None else if odd n then Some (s ! (n div 2))
        else Some (f_div (f_add (s ! (n div 2 - 1)) (s ! (n div 2))) (Fin 2)))"
proof -
  have "\<forall>x\<in>set (filter f_finite returns). x \<noteq> NaN" by auto
  from sortFloats_sorts [OF this] show ?thesis by (simp add: MedianReturn_def Let_def odd_iff_mod_2_eq_one)
qed

end
