(* ===== verification/Db_Columns.thy ===== *)
theory Db_Columns
  imports F64_Order Go_Time
begin

text \<open>
  What the columns of a table keep of a value, where the type of the column is coarser than the Go
  type: \<open>type:date\<close> keeps the day of a time, in the location of the connection, and
  \<open>type:decimal(p,n)\<close> keeps \<open>n\<close> decimal places of a floating-point number.  Rounding is done by the
  database, so it is an argument of the definitions that write such columns.
\<close>

record db_columns =
  dc_zone :: location
  dc_decimal :: "nat \<Rightarrow> f64 \<Rightarrow> f64"

definition column_date :: "db_columns \<Rightarrow> instant \<Rightarrow> instant" where
  "column_date c t = midnight (dc_zone c) (day_of (dc_zone c) t)"

lemma column_date_again [simp]: "column_date c (column_date c t) = column_date c t"
  by (simp add: column_date_def midnight_def day_of_def nano_day_def)

lemma column_date_eq_iff: "column_date c t = column_date c t' \<longleftrightarrow> day_of (dc_zone c) t = day_of (dc_zone c) t'"
  by (simp add: column_date_def midnight_def nano_day_def time_unit_defs)

text \<open>What a database documents of decimal columns: a value read from one is written back unchanged, and
  rounding keeps a number that is not negative from becoming negative; it may become zero.\<close>

definition decimal_laws :: "db_columns \<Rightarrow> bool" where
  "decimal_laws c \<longleftrightarrow>
     (\<forall>n x. dc_decimal c n (dc_decimal c n x) = dc_decimal c n x)
     \<and> (\<forall>n x. f_le (Fin 0) x \<longrightarrow> f_le (Fin 0) (dc_decimal c n x))"

text \<open>Columns that round to the nearest decimal, on a connection in UTC.\<close>

definition nearest_decimal :: "nat \<Rightarrow> f64 \<Rightarrow> f64" where
  "nearest_decimal n x = (case x of Fin q \<Rightarrow> Fin (of_int (round (q * 10 ^ n)) / 10 ^ n) | _ \<Rightarrow> x)"

definition rounding_columns :: db_columns where
  "rounding_columns = \<lparr>dc_zone = 0, dc_decimal = nearest_decimal\<rparr>"

lemma rounding_columns_laws: "decimal_laws rounding_columns"
proof -
  have "f_le (Fin 0) (nearest_decimal n x)" if "f_le (Fin 0) x" for n x
  proof (cases x)
    case (Fin q)
    then have "0 \<le> q" using that by (simp add: f_le_iff)
    then have "0 \<le> round (q * 10 ^ n)" using round_mono [of 0 "q * 10 ^ n"] by simp
    then show ?thesis by (simp add: nearest_decimal_def Fin f_le_iff)
  qed (use that in \<open>simp_all add: nearest_decimal_def\<close>)
  moreover have "nearest_decimal n (nearest_decimal n x) = nearest_decimal n x" for n x
    by (cases x) (simp_all add: nearest_decimal_def)
  ultimately show ?thesis by (simp add: decimal_laws_def rounding_columns_def)
qed

text \<open>A positive number can be kept as zero.\<close>

lemma rounded_to_zero: "dc_decimal rounding_columns 4 (Fin (1 / 100000)) = Fin 0"
  by code_simp

end
