(* ===== verification/Perf_Service.thy ===== *)
theory Perf_Service
  imports Perf_Calc Calendar Node_Persist Db_Columns
begin

text \<open>
  Performance snapshots, \<open>perf/service.go\<close>: the closes of the first, third and fifth trading day
  after a recommendation, the figures derived from them, and the table they are kept in.  The
  market-data manager is a function of its own state; the calendar is the one of
  \<open>calendar/trading_day.go\<close>.
\<close>

section \<open>State\<close>

record perf_service =
  pv_db :: bool
  pv_ds :: bool
  pv_cal :: bool
  pv_klinePeriod :: string
  pv_klineLookback :: duration
  pv_klineTimeout :: duration
  pv_klineFuturePad :: duration

record perf_options =
  po_DB :: bool
  po_Datasource :: bool
  po_Calendar :: bool
  po_KlinePeriod :: duration
  po_KlineLookback :: duration
  po_KlineTimeout :: duration
  po_KlineFuturePad :: duration

text \<open>\<open>NewService\<close>: both branches on \<open>KlinePeriod\<close> give the daily period.\<close>

definition NewPerfService :: "perf_options \<Rightarrow> perf_service" where
  "NewPerfService opts =
     \<lparr>pv_db = po_DB opts, pv_ds = po_Datasource opts, pv_cal = po_Calendar opts, pv_klinePeriod = ''1d'',
      pv_klineLookback = positive_or (7 * 24 * nano_hour) (po_KlineLookback opts),
      pv_klineTimeout = positive_or (5 * nano_second) (po_KlineTimeout opts),
      pv_klineFuturePad = positive_or (24 * nano_hour) (po_KlineFuturePad opts)\<rparr>"

record 's perf_state =
  pf_cal :: calendar
  pf_ds :: 's

text \<open>\<open>GetKLine\<close> of the manager: code, period, start and end.\<close>

type_synonym 's get_kline =
  "string \<Rightarrow> string \<Rightarrow> instant \<Rightarrow> instant \<Rightarrow> 's \<Rightarrow> (string + kline list) \<times> 's"

text \<open>The table and the clock as the \<open>n\<close>-th call of \<open>NextTradingDay\<close> finds them at its \<open>i\<close>-th step.\<close>

type_synonym calendar_env = "nat \<Rightarrow> int \<Rightarrow> calendar_db option \<times> instant"

record snapshot =
  sn_RecommendationID :: nat
  sn_SnapshotDate :: instant
  sn_T1Return :: "f64 option"
  sn_T3Return :: "f64 option"
  sn_T5Return :: "f64 option"
  sn_T1Close :: "f64 option"
  sn_T3Close :: "f64 option"
  sn_T5Close :: "f64 option"
  sn_CumulativeReturn :: "f64 option"
  sn_MaxDrawdown :: "f64 option"
  sn_WinRate :: "f64 option"
  sn_CalculatedAt :: instant

definition zero_instant :: instant where
  "zero_instant = wt_instant zero_wall_time"

datatype perf_error =
    ErrNotReady
  | ErrBadRecommendation
  | BadEntryPrice nat f64
  | NoTradingDayAfter nat
  | NoTradingDayT3 nat
  | NoTradingDayT5 nat
  | NilSnapshot
  | ZeroRecommendationID
  | SaveFailed string
  | ListFailed string
  | RangeReversed
  | ContextDone string

section \<open>Helpers\<close>

definition inDay :: "instant \<Rightarrow> location \<Rightarrow> instant" where
  "inDay t loc = midnight loc (day_of loc t)"

definition pickLast :: "f64 option list \<Rightarrow> f64 option" where
  "pickLast ps = foldl (\<lambda>out p. if p \<noteq> None then p else out) None ps"

definition singleRecWinRate :: "f64 option \<Rightarrow> f64 option \<Rightarrow> f64 option \<Rightarrow> f64 option" where
  "singleRecWinRate t1 t3 t5 =
     (let ps = [t1, t3, t5];
          known = list_ex (\<lambda>p. p \<noteq> None) ps;
          anyPositive = list_ex (\<lambda>p. case p of None \<Rightarrow> False | Some r \<Rightarrow> f_lt (Fin 0) r) ps;
          allKnown = list_all (\<lambda>p. p \<noteq> None) ps
      in if \<not> known then None
         else if \<not> allKnown \<and> \<not> anyPositive then None
         else if anyPositive then Some (Fin 1)
         else Some (Fin 0))"

definition fetchClose ::
  "perf_service \<Rightarrow> 's get_kline \<Rightarrow> string \<Rightarrow> instant \<Rightarrow> 's perf_state \<Rightarrow> f64 option \<times> 's perf_state" where
  "fetchClose sv getk code day s =
     (if \<not> pv_ds sv then (None, s)
      else
        let loc = timezone (cal_cfg (pf_cal s));
            start = midnight loc (day_of loc day);
            fin = start + pv_klineFuturePad sv
        in if fin < start then (None, s)
           else case getk code (pv_klinePeriod sv) start fin (pf_ds s) of
                  (Inl e, ds) \<Rightarrow> (None, s\<lparr>pf_ds := ds\<rparr>)
                | (Inr ks, ds) \<Rightarrow>
                    (map_option k_Close
                       (find (\<lambda>k. day_of loc (wt_instant (k_Timestamp k)) = day_of loc day \<and> f_finite (k_Close k)) ks),
                     s\<lparr>pf_ds := ds\<rparr>))"

text \<open>\<open>n\<close> calls of \<open>NextTradingDay\<close> in a row, the first one numbered \<open>c\<close>.\<close>

fun next_days :: "calendar_env \<Rightarrow> nat \<Rightarrow> nat \<Rightarrow> instant \<Rightarrow> calendar \<Rightarrow> instant option \<times> calendar" where
  "next_days env 0 c day cal = (Some day, cal)"
| "next_days env (Suc n) c day cal =
     (case NextTradingDay (env c) day cal of
        ((d, False), cal') \<Rightarrow> (None, cal')
      | ((d, True), cal') \<Rightarrow> next_days env n (Suc c) d cal')"

section \<open>Computing a snapshot\<close>

definition entry_mid :: "recommendation \<Rightarrow> f64" where
  "entry_mid rec = f_div (f_add (rec_EntryPriceLow rec) (rec_EntryPriceHigh rec)) (Fin 2)"

definition rec_instant :: "recommendation \<Rightarrow> instant" where
  "rec_instant rec = midnight 0 (rec_Date rec)"

text \<open>The snapshot of the closes that were found.\<close>

definition snapshot_of ::
  "recommendation \<Rightarrow> instant \<Rightarrow> f64 option \<Rightarrow> f64 option \<Rightarrow> f64 option \<Rightarrow> snapshot" where
  "snapshot_of rec date c1 c3 c5 =
     (let entry = entry_mid rec;
          ret = (\<lambda>c. Option.bind c (TReturn entry));
          path = entry # List.map_filter id [c1, c3, c5]
      in \<lparr>sn_RecommendationID = rec_ID rec, sn_SnapshotDate = date,
          sn_T1Return = ret c1, sn_T3Return = ret c3, sn_T5Return = ret c5,
          sn_T1Close = c1, sn_T3Close = c3, sn_T5Close = c5,
          sn_CumulativeReturn = pickLast [ret c1, ret c3, ret c5],
          sn_MaxDrawdown = MaxDrawdown path,
          sn_WinRate = singleRecWinRate (ret c1) (ret c3) (ret c5),
          sn_CalculatedAt = zero_instant\<rparr>)"

definition set_cal :: "calendar \<Rightarrow> 's perf_state \<Rightarrow> 's perf_state" where
  "set_cal cal s = s\<lparr>pf_cal := cal\<rparr>"

definition ComputeOne ::
  "perf_service \<Rightarrow> calendar_env \<Rightarrow> 's get_kline \<Rightarrow> recommendation option \<Rightarrow> 's perf_state
   \<Rightarrow> (perf_error + snapshot) \<times> 's perf_state" where
  "ComputeOne sv env getk rec_opt s =
     (case rec_opt of
        None \<Rightarrow> (Inl ErrBadRecommendation, s)
      | Some rec \<Rightarrow>
          if rec_ID rec = 0 then (Inl ErrBadRecommendation, s)
          else if \<not> pv_ds sv \<or> \<not> pv_cal sv then (Inl ErrNotReady, s)
          else if \<not> f_lt (Fin 0) (entry_mid rec) then (Inl (BadEntryPrice (rec_ID rec) (entry_mid rec)), s)
          else
            let date = inDay (rec_instant rec) (timezone (cal_cfg (pf_cal s)))
            in case next_days env 1 0 date (pf_cal s) of
                 (None, cal) \<Rightarrow> (Inl (NoTradingDayAfter (rec_ID rec)), set_cal cal s)
               | (Some t1, cal) \<Rightarrow>
               (case next_days env 2 1 t1 cal of
                 (None, cal) \<Rightarrow> (Inl (NoTradingDayT3 (rec_ID rec)), set_cal cal s)
               | (Some t3, cal) \<Rightarrow>
               (case next_days env 2 3 t3 cal of
                 (None, cal) \<Rightarrow> (Inl (NoTradingDayT5 (rec_ID rec)), set_cal cal s)
               | (Some t5, cal) \<Rightarrow>
                   (case fetchClose sv getk (rec_StockCode rec) t1 (set_cal cal s) of (c1, s1) \<Rightarrow>
                    case fetchClose sv getk (rec_StockCode rec) t3 s1 of (c3, s3) \<Rightarrow>
                    case fetchClose sv getk (rec_StockCode rec) t5 s3 of (c5, s5) \<Rightarrow>
                      (Inr (snapshot_of rec date c1 c3 c5), s5)))))"

section \<open>The table\<close>

text \<open>Rows in the order of their identifiers, with the unique index on recommendation and date;
  on a conflict every figure is overwritten.  The date of a row is a date column and its figures are
  decimal columns, so a row holds what these keep.\<close>

definition stored_snapshot :: "db_columns \<Rightarrow> snapshot \<Rightarrow> snapshot" where
  "stored_snapshot c sn =
     (let kept = (\<lambda>n. map_option (dc_decimal c n))
      in \<lparr>sn_RecommendationID = sn_RecommendationID sn, sn_SnapshotDate = column_date c (sn_SnapshotDate sn),
          sn_T1Return = kept 6 (sn_T1Return sn), sn_T3Return = kept 6 (sn_T3Return sn), sn_T5Return = kept 6 (sn_T5Return sn),
          sn_T1Close = kept 4 (sn_T1Close sn), sn_T3Close = kept 4 (sn_T3Close sn), sn_T5Close = kept 4 (sn_T5Close sn),
          sn_CumulativeReturn = kept 6 (sn_CumulativeReturn sn), sn_MaxDrawdown = kept 6 (sn_MaxDrawdown sn),
          sn_WinRate = kept 4 (sn_WinRate sn), sn_CalculatedAt = sn_CalculatedAt sn\<rparr>)"

definition sn_key :: "snapshot \<Rightarrow> nat \<times> instant" where
  "sn_key sn = (sn_RecommendationID sn, sn_SnapshotDate sn)"

definition upsert :: "snapshot \<Rightarrow> snapshot list \<Rightarrow> snapshot list" where
  "upsert sn tb =
     (if sn_key sn \<in> set (map sn_key tb) then map (\<lambda>r. if sn_key r = sn_key sn then sn else r) tb
      else tb @ [sn])"

text \<open>\<open>Save\<close>: \<open>now\<close> holds the two readings of the clock, \<open>err\<close> is the outcome of the statement.  The dates
  are filled in on the snapshot of the caller, which is the second component of the result; the
  table gets what its columns keep of it.\<close>

definition fill_dates :: "instant \<times> instant \<Rightarrow> snapshot \<Rightarrow> snapshot" where
  "fill_dates now sn =
     (let sn1 = (if sn_SnapshotDate sn = zero_instant then sn\<lparr>sn_SnapshotDate := fst now\<rparr> else sn)
      in if sn_CalculatedAt sn1 = zero_instant then sn1\<lparr>sn_CalculatedAt := snd now\<rparr> else sn1)"

definition Save ::
  "perf_service \<Rightarrow> db_columns \<Rightarrow> instant \<times> instant \<Rightarrow> string option \<Rightarrow> snapshot option \<Rightarrow> snapshot list
   \<Rightarrow> perf_error option \<times> snapshot option \<times> snapshot list" where
  "Save sv c now err sn_opt tb =
     (if \<not> pv_db sv then (Some ErrNotReady, sn_opt, tb)
      else case sn_opt of
             None \<Rightarrow> (Some NilSnapshot, None, tb)
           | Some sn \<Rightarrow>
               if sn_RecommendationID sn = 0 then (Some ZeroRecommendationID, Some sn, tb)
               else let sn' = fill_dates now sn
                    in case err of
                         Some e \<Rightarrow> (Some (SaveFailed e), Some sn', tb)
                       | None \<Rightarrow> (None, Some sn', upsert (stored_snapshot c sn') tb))"

text \<open>The columns of the table, and what the \<open>k\<close>-th recommendation of a batch finds: its calendar answers,
  the clock of \<open>Save\<close>, the outcome of the statement, and whether the context is done before it.\<close>

record batch_env =
  be_columns :: db_columns
  be_cal :: "nat \<Rightarrow> calendar_env"
  be_now :: "nat \<Rightarrow> instant \<times> instant"
  be_save :: "nat \<Rightarrow> string option"
  be_ctx :: "nat \<Rightarrow> string option"

text \<open>The snapshot is returned also when saving it fails.\<close>

definition ComputeAndSave ::
  "perf_service \<Rightarrow> batch_env \<Rightarrow> nat \<Rightarrow> 's get_kline \<Rightarrow> recommendation \<Rightarrow> 's perf_state \<times> snapshot list
   \<Rightarrow> (snapshot option \<times> perf_error option) \<times> 's perf_state \<times> snapshot list" where
  "ComputeAndSave sv env k getk rec st =
     (case st of (s, tb) \<Rightarrow>
        case ComputeOne sv (be_cal env k) getk (Some rec) s of
          (Inl e, s') \<Rightarrow> ((None, Some e), s', tb)
        | (Inr sn, s') \<Rightarrow>
            (case Save sv (be_columns env) (be_now env k) (be_save env k) (Some sn) tb of
               (err, sn', tb') \<Rightarrow> ((sn', err), s', tb')))"

record batch_result =
  br_processed :: nat
  br_errs :: nat
  br_error :: "perf_error option"

text \<open>The loop of \<open>ComputeRange\<close> and \<open>Backfill\<close>; \<open>skip\<close> says which recommendations are passed over.\<close>

fun batch_loop ::
  "perf_service \<Rightarrow> batch_env \<Rightarrow> 's get_kline \<Rightarrow> (recommendation \<Rightarrow> bool) \<Rightarrow> nat \<Rightarrow> recommendation list
   \<Rightarrow> nat \<times> nat \<Rightarrow> 's perf_state \<times> snapshot list \<Rightarrow> batch_result \<times> 's perf_state \<times> snapshot list"
where
  "batch_loop sv env getk skip k [] n st = (\<lparr>br_processed = fst n, br_errs = snd n, br_error = None\<rparr>, st)"
| "batch_loop sv env getk skip k (rec # recs) n st =
     (case be_ctx env k of
        Some e \<Rightarrow> (\<lparr>br_processed = fst n, br_errs = snd n, br_error = Some (ContextDone e)\<rparr>, st)
      | None \<Rightarrow>
          if skip rec then batch_loop sv env getk skip (Suc k) recs n st
          else case ComputeAndSave sv env k getk rec st of
                 ((_, Some e), st') \<Rightarrow> batch_loop sv env getk skip (Suc k) recs (fst n, Suc (snd n)) st'
               | ((_, None), st') \<Rightarrow> batch_loop sv env getk skip (Suc k) recs (Suc (fst n), snd n) st')"

text \<open>The query both batches start from.\<close>

definition recs_between :: "instant \<Rightarrow> instant \<Rightarrow> recommendation list \<Rightarrow> recommendation list" where
  "recs_between t1 t2 recs =
     sort_key (\<lambda>r. (rec_Date r, rec_ID r)) (filter (\<lambda>r. t1 \<le> rec_instant r \<and> rec_instant r \<le> t2) recs)"

definition failed_batch :: "perf_error \<Rightarrow> batch_result" where
  "failed_batch e = \<lparr>br_processed = 0, br_errs = 0, br_error = Some e\<rparr>"

definition ComputeRange ::
  "perf_service \<Rightarrow> batch_env \<Rightarrow> 's get_kline \<Rightarrow> string option \<Rightarrow> instant \<Rightarrow> instant \<Rightarrow> recommendation list
   \<Rightarrow> 's perf_state \<times> snapshot list \<Rightarrow> batch_result \<times> 's perf_state \<times> snapshot list" where
  "ComputeRange sv env getk list_err start fin recs st =
     (if \<not> pv_db sv then (failed_batch ErrNotReady, st)
      else if fin < start then (failed_batch RangeReversed, st)
      else case list_err of
             Some e \<Rightarrow> (failed_batch (ListFailed e), st)
           | None \<Rightarrow> batch_loop sv env getk (\<lambda>_. False) 0 (recs_between start fin recs) (0, 0) st)"

text \<open>\<open>Backfill\<close>; it reads the location of the calendar without a nil check, so \<^const>\<open>None\<close>, a
  panic, is its outcome when no calendar is wired.\<close>

definition Backfill ::
  "perf_service \<Rightarrow> batch_env \<Rightarrow> 's get_kline \<Rightarrow> string option \<Rightarrow> string option \<Rightarrow> instant \<Rightarrow> duration
   \<Rightarrow> recommendation list \<Rightarrow> 's perf_state \<times> snapshot list
   \<Rightarrow> (batch_result \<times> 's perf_state \<times> snapshot list) option" where
  "Backfill sv env getk list_err exist_err now lookback recs st =
     (if \<not> pv_db sv then Some (failed_batch ErrNotReady, st)
      else if \<not> pv_cal sv then None
      else
        let found = recs_between (now - positive_or (7 * 24 * nano_hour) lookback) now recs
        in case list_err of
             Some e \<Rightarrow> Some (failed_batch (ListFailed e), st)
           | None \<Rightarrow>
               if found = [] then Some (\<lparr>br_processed = 0, br_errs = 0, br_error = None\<rparr>, st)
               else case exist_err of
                      Some e \<Rightarrow> Some (failed_batch (ListFailed e), st)
                    | None \<Rightarrow>
                        Some (batch_loop sv env getk
                          (\<lambda>r. rec_ID r \<in> set (map sn_RecommendationID (snd st))) 0 found (0, 0) st))"

section \<open>Queries\<close>

definition HistoryForRec :: "nat \<Rightarrow> snapshot list \<Rightarrow> snapshot list" where
  "HistoryForRec rid tb =
     sort_key (\<lambda>sn. - sn_SnapshotDate sn) (filter (\<lambda>sn. sn_RecommendationID sn = rid) tb)"

text \<open>Newest date first, then the highest identifier, which is the last row of the table.\<close>

definition LatestSnapshotForRec :: "nat \<Rightarrow> snapshot list \<Rightarrow> snapshot option" where
  "LatestSnapshotForRec rid tb =
     (case sort_key (\<lambda>sn. - sn_SnapshotDate sn) (filter (\<lambda>sn. sn_RecommendationID sn = rid) (rev tb)) of
        [] \<Rightarrow> None | sn # _ \<Rightarrow> Some sn)"

section \<open>What a snapshot says\<close>

lemma pickLast3:
  "pickLast [a, b, c] = (if c \<noteq> None then c else if b \<noteq> None then b else a)"
  by (simp add: pickLast_def)

lemma mdd_not_NaN: "m \<noteq> NaN \<Longrightarrow> snd (foldl mdd_step (p, m) path) \<noteq> NaN"
  by (induction path arbitrary: p m) (auto simp: mdd_step_def Let_def f_lt_iff)

lemma MaxDrawdown_None: "MaxDrawdown path = None \<longleftrightarrow> length path < 2"
  using mdd_not_NaN [of "Fin 0" NaN path] by (simp add: MaxDrawdown_def Let_def)

lemma IsTradingDay_cfg_eq: "IsTradingDay db now day cal = (b, cal') \<Longrightarrow> cal_cfg cal' = cal_cfg cal"
  by (metis IsTradingDay_cfg snd_conv)

lemma NextTradingDay_later:
  "NextTradingDay env day cal = ((d, True), cal') \<Longrightarrow> day < d \<and> cal_cfg cal' = cal_cfg cal"
proof -
  have "scan_days 1 env day n i cal = ((d, True), cal') \<Longrightarrow> 0 < i \<Longrightarrow> day < d \<and> cal_cfg cal' = cal_cfg cal" for n i
    by (induction n arbitrary: i cal)
      (auto simp: Let_def add_days_def split: prod.splits bool.splits if_splits dest!: IsTradingDay_cfg_eq)
  then show "NextTradingDay env day cal = ((d, True), cal') \<Longrightarrow> day < d \<and> cal_cfg cal' = cal_cfg cal"
    by (simp add: NextTradingDay_def)
qed

lemma next_days_add:
  "next_days env (m + n) c day cal =
     (case next_days env m c day cal of
        (None, cal') \<Rightarrow> (None, cal') | (Some d, cal') \<Rightarrow> next_days env n (c + m) d cal')"
  by (induction m arbitrary: c day cal) (auto split: prod.splits bool.splits option.splits)

lemma next_days_later:
  "next_days env n c day cal = (Some d, cal') \<Longrightarrow>
   cal_cfg cal' = cal_cfg cal \<and> day \<le> d \<and> (0 < n \<longrightarrow> day < d)"
proof (induction n arbitrary: c day cal)
  case (Suc n)
  then obtain d1 cal1 where "NextTradingDay (env c) day cal = ((d1, True), cal1)"
    "next_days env n (Suc c) d1 cal1 = (Some d, cal')"
    by (auto split: prod.splits bool.splits)
  then show ?case using Suc.IH NextTradingDay_later by fastforce
qed simp

text \<open>C39: A snapshot is only computed for a positive entry price.  It is dated on the day of the
  recommendation; its closes are those of the first, third and fifth next trading days, which are
  later and in this order; each return is the return from the entry price to that close and is
  missing when the close is; the cumulative return is the one of the latest horizon that is
  known; the verdict is 1 when some known return is positive, 0 when all three are known and none
  is, and missing otherwise; the drawdown, over the entry price and the closes, is missing exactly
  when no close is known, so one close is enough, where the documentation asks for two.\<close>

theorem ComputeOne_contract:
  assumes "ComputeOne sv env getk (Some rec) s = (Inr sn, s')"
    and "date = inDay (rec_instant rec) (timezone (cal_cfg (pf_cal s)))"
  shows "f_lt (Fin 0) (entry_mid rec) \<and> sn_RecommendationID sn = rec_ID rec \<and> sn_SnapshotDate sn = date
    \<and> (\<exists>t1 t3 t5 q1 q3 q5. fst (next_days env 1 0 date (pf_cal s)) = Some t1
         \<and> fst (next_days env 3 0 date (pf_cal s)) = Some t3
         \<and> fst (next_days env 5 0 date (pf_cal s)) = Some t5 \<and> date < t1 \<and> t1 < t3 \<and> t3 < t5
         \<and> sn_T1Close sn = fst (fetchClose sv getk (rec_StockCode rec) t1 q1)
         \<and> sn_T3Close sn = fst (fetchClose sv getk (rec_StockCode rec) t3 q3)
         \<and> sn_T5Close sn = fst (fetchClose sv getk (rec_StockCode rec) t5 q5))
    \<and> sn_T1Return sn = Option.bind (sn_T1Close sn) (TReturn (entry_mid rec))
    \<and> sn_T3Return sn = Option.bind (sn_T3Close sn) (TReturn (entry_mid rec))
    \<and> sn_T5Return sn = Option.bind (sn_T5Close sn) (TReturn (entry_mid rec))
    \<and> sn_CumulativeReturn sn =
         (if sn_T5Return sn \<noteq> None then sn_T5Return sn
          else if sn_T3Return sn \<noteq> None then sn_T3Return sn else sn_T1Return sn)
    \<and> sn_WinRate sn =
         (if \<exists>r\<in>{sn_T1Return sn, sn_T3Return sn, sn_T5Return sn}. \<exists>x. r = Some x \<and> f_lt (Fin 0) x then Some (Fin 1)
          else if None \<notin> {sn_T1Return sn, sn_T3Return sn, sn_T5Return sn} then Some (Fin 0) else None)
    \<and> (sn_MaxDrawdown sn = None \<longleftrightarrow> sn_T1Close sn = None \<and> sn_T3Close sn = None \<and> sn_T5Close sn = None)"
proof -
  obtain t1 t3 t5 cal1 cal3 cal5 where days:
    "next_days env 1 0 date (pf_cal s) = (Some t1, cal1)" "next_days env 2 1 t1 cal1 = (Some t3, cal3)"
    "next_days env 2 3 t3 cal3 = (Some t5, cal5)"
    and pos: "f_lt (Fin 0) (entry_mid rec)"
    using assms by (auto simp: ComputeOne_def Let_def split: if_splits prod.splits option.splits)
  define q1 where "q1 = set_cal cal5 s"
  define q3 where "q3 = snd (fetchClose sv getk (rec_StockCode rec) t1 q1)"
  define q5 where "q5 = snd (fetchClose sv getk (rec_StockCode rec) t3 q3)"
  define c1 where "c1 = fst (fetchClose sv getk (rec_StockCode rec) t1 q1)"
  define c3 where "c3 = fst (fetchClose sv getk (rec_StockCode rec) t3 q3)"
  define c5 where "c5 = fst (fetchClose sv getk (rec_StockCode rec) t5 q5)"
  have sn: "sn = snapshot_of rec date c1 c3 c5"
    using assms days unfolding c1_def c3_def c5_def q5_def q3_def q1_def
    by (simp add: ComputeOne_def Let_def split: if_splits prod.splits)
  have d3: "next_days env 3 0 date (pf_cal s) = (Some t3, cal3)"
    using next_days_add [of env 1 2 0 date "pf_cal s"] days by (simp add: numeral_3_eq_3)
  have d5: "next_days env 5 0 date (pf_cal s) = (Some t5, cal5)"
    using next_days_add [of env 3 2 0 date "pf_cal s"] d3 days by simp
  have order: "date < t1" "t1 < t3" "t3 < t5"
    using days next_days_later [of env 1 0] next_days_later [of env 2] by auto
  have trading: "\<exists>t1 t3 t5 q1 q3 q5. fst (next_days env 1 0 date (pf_cal s)) = Some t1
         \<and> fst (next_days env 3 0 date (pf_cal s)) = Some t3
         \<and> fst (next_days env 5 0 date (pf_cal s)) = Some t5 \<and> date < t1 \<and> t1 < t3 \<and> t3 < t5
         \<and> c1 = fst (fetchClose sv getk (rec_StockCode rec) t1 q1)
         \<and> c3 = fst (fetchClose sv getk (rec_StockCode rec) t3 q3)
         \<and> c5 = fst (fetchClose sv getk (rec_StockCode rec) t5 q5)"
    using days(1) d3 d5 order unfolding c1_def c3_def c5_def by (metis fst_conv)
  have win: "singleRecWinRate a b c =
      (if \<exists>r\<in>{a, b, c}. \<exists>x. r = Some x \<and> f_lt (Fin 0) x then Some (Fin 1)
       else if None \<notin> {a, b, c} then Some (Fin 0) else None)" for a b c
    by (cases a; cases b; cases c) (auto simp: singleRecWinRate_def Let_def)
  have mdd: "MaxDrawdown (entry_mid rec # List.map_filter id [c1, c3, c5]) = None
      \<longleftrightarrow> c1 = None \<and> c3 = None \<and> c5 = None"
    by (cases c1; cases c3; cases c5) (simp_all add: MaxDrawdown_None List.map_filter_def)
  show ?thesis
    unfolding sn snapshot_of_def Let_def snapshot.select_convs win pickLast3
    using pos trading mdd by (intro conjI refl)
qed

definition demo_service :: perf_service where
  "demo_service = NewPerfService \<lparr>po_DB = True, po_Datasource = True, po_Calendar = True, po_KlinePeriod = 0,
     po_KlineLookback = 0, po_KlineTimeout = 0, po_KlineFuturePad = 0\<rparr>"

definition demo_rec :: recommendation where
  "demo_rec = \<lparr>rec_ID = 3, rec_RunID = 1, rec_Date = 20248, rec_StockCode = ''a'', rec_StockName = [],
     rec_EntryPriceLow = Fin 8, rec_EntryPriceHigh = Fin 8, rec_StrategyCode = [], rec_StrategyName = [],
     rec_NodeSnapshot = []\<rparr>"

definition demo_pstate :: "unit perf_state" where
  "demo_pstate = \<lparr>pf_cal = ex_calendar, pf_ds = ()\<rparr>"

lemma demo_entry: "entry_mid demo_rec = Fin 8"
proof -
  have "f_add (Fin 8) (Fin 8) = Fin 16"
    using f_round_exact [of 16 False] rep_mag_int [of 16] f_limit_gt by (simp add: f_add_def)
  moreover have "f_div (Fin 16) (Fin 2) = Fin 8"
    using f_round_exact [of 8 False] rep_mag_int [of 8] f_limit_gt by (simp add: f_div_def f_is_zero_def)
  ultimately show ?thesis by (simp add: entry_mid_def demo_rec_def)
qed

lemma no_table_trading:
  "cal_cache cal = Map.empty \<Longrightarrow>
   IsTradingDay None t (midnight (timezone (cal_cfg cal)) d) cal = (weekday d \<noteq> 6 \<and> weekday d \<noteq> 0, cal)"
  by (simp add: IsTradingDay_def cal_lookup_def weekend_rule_def Let_def)

lemma add_days_midnight: "add_days n (midnight off d) = midnight off (d + n)"
  by (simp add: add_days_def midnight_def algebra_simps)

lemma next_weekday:
  assumes "cal_cache cal = Map.empty" "off = timezone (cal_cfg cal)"
  shows "weekday (d + 1) \<notin> {0, 6} \<Longrightarrow>
         NextTradingDay (\<lambda>_. (None, 0)) (midnight off d) cal = ((midnight off (d + 1), True), cal)"
    and "weekday (d + 1) = 6 \<Longrightarrow> weekday (d + 2) = 0 \<Longrightarrow> weekday (d + 3) \<notin> {0, 6} \<Longrightarrow>
         NextTradingDay (\<lambda>_. (None, 0)) (midnight off d) cal = ((midnight off (d + 3), True), cal)"
proof -
  have step: "scan_days 1 (\<lambda>_. (None, 0)) (midnight off d) (Suc n) i cal =
      (if weekday (d + i) \<noteq> 6 \<and> weekday (d + i) \<noteq> 0 then ((midnight off (d + i), True), cal)
       else scan_days 1 (\<lambda>_. (None, 0)) (midnight off d) n (i + 1) cal)" for n i
    using no_table_trading [OF assms(1)] assms(2) by (simp add: Let_def add_days_midnight)
  have n: "(366 :: nat) = Suc (Suc (Suc 363))" by simp
  show "weekday (d + 1) \<notin> {0, 6} \<Longrightarrow>
      NextTradingDay (\<lambda>_. (None, 0)) (midnight off d) cal = ((midnight off (d + 1), True), cal)"
    unfolding NextTradingDay_def n step by simp
  show "weekday (d + 1) = 6 \<Longrightarrow> weekday (d + 2) = 0 \<Longrightarrow> weekday (d + 3) \<notin> {0, 6} \<Longrightarrow>
      NextTradingDay (\<lambda>_. (None, 0)) (midnight off d) cal = ((midnight off (d + 3), True), cal)"
    unfolding NextTradingDay_def n step by simp
qed

lemma demo_weekdays:
  "weekday 20249 = 2" "weekday 20250 = 3" "weekday 20251 = 4" "weekday 20252 = 5" "weekday 20253 = 6"
  "weekday 20254 = 0" "weekday 20255 = 1"
  by (simp_all add: weekday_def)

lemma demo_days:
  "NextTradingDay (\<lambda>_. (None, 0)) (midnight (8 * nano_hour) d) ex_calendar =
     ((midnight (8 * nano_hour) (if d = 20252 then 20255 else d + 1), True), ex_calendar)"
  if "d \<in> {20248, 20249, 20250, 20251, 20252}"
proof -
  have cal: "cal_cache ex_calendar = Map.empty" "8 * nano_hour = timezone (cal_cfg ex_calendar)"
    by (simp_all add: ex_calendar_def)
  from that consider "d = 20252" | "d \<noteq> 20252" "weekday (d + 1) \<notin> {0, 6}"
    by (auto simp: demo_weekdays)
  then show ?thesis
  proof cases
    case 1
    then show ?thesis using next_weekday(2) [OF cal, of 20252] by (simp only: demo_weekdays) (simp add: demo_weekdays)
  next
    case 2
    then show ?thesis using next_weekday(1) [OF cal 2(2)] by simp
  qed
qed

definition demo_getk :: "unit get_kline" where
  "demo_getk code period start fin ds = (Inr [demo_bar code start 8], ds)"

theorem ComputeOne_contract_witness:
  "\<exists>sn. fst (ComputeOne demo_service (\<lambda>_ _. (None, 0)) demo_getk (Some demo_rec) demo_pstate) = Inr sn
      \<and> sn_T5Close sn = Some (Fin 8) \<and> sn_T5Return sn = TReturn (Fin 8) (Fin 8)
      \<and> sn_MaxDrawdown sn \<noteq> None"
proof -
  let ?env = "(\<lambda>_ _. (None, 0)) :: calendar_env" and ?off = "8 * nano_hour"
  have tz: "timezone (cal_cfg ex_calendar) = ?off" by (simp add: ex_calendar_def)
  have date: "inDay (rec_instant demo_rec) ?off = midnight ?off 20248"
    by (simp add: inDay_def rec_instant_def demo_rec_def midnight_def day_of_def day_unit_defs)
  have fetch: "fetchClose demo_service demo_getk code (midnight ?off d) \<lparr>pf_cal = ex_calendar, pf_ds = ()\<rparr> =
      (Some (Fin 8), \<lparr>pf_cal = ex_calendar, pf_ds = ()\<rparr>)" for code d
    by (simp add: fetchClose_def demo_service_def NewPerfService_def demo_getk_def demo_bar_def tz Let_def
        positive_or_def time_unit_defs)
  have days: "next_days ?env 1 0 (midnight ?off 20248) ex_calendar = (Some (midnight ?off 20249), ex_calendar)"
    "next_days ?env 2 1 (midnight ?off 20249) ex_calendar = (Some (midnight ?off 20251), ex_calendar)"
    "next_days ?env 2 3 (midnight ?off 20251) ex_calendar = (Some (midnight ?off 20255), ex_calendar)"
    using demo_days by (simp_all add: numeral_2_eq_2)
  obtain sn s' where run: "ComputeOne demo_service ?env demo_getk (Some demo_rec) demo_pstate = (Inr sn, s')"
    "sn_T5Close sn = Some (Fin 8)"
    using days fetch date tz demo_entry
    by (auto simp: ComputeOne_def demo_pstate_def set_cal_def Let_def demo_service_def NewPerfService_def
        demo_rec_def snapshot_of_def f_lt_iff)
  show ?thesis
    using ComputeOne_contract [OF run(1) refl] run by (simp add: demo_entry)
qed

section \<open>The table under batches\<close>

lemma upsert_keys: "map sn_key (upsert sn tb) = (if sn_key sn \<in> set (map sn_key tb) then map sn_key tb else map sn_key tb @ [sn_key sn])"
  by (auto simp: upsert_def)

lemma upsert_other: "sn_RecommendationID sn \<noteq> rid \<Longrightarrow>
  filter (\<lambda>r. sn_RecommendationID r = rid) (upsert sn tb) = filter (\<lambda>r. sn_RecommendationID r = rid) tb"
proof -
  assume other: "sn_RecommendationID sn \<noteq> rid"
  have "filter (\<lambda>r. sn_RecommendationID r = rid) (map (\<lambda>r. if sn_key r = sn_key sn then sn else r) tb)
      = filter (\<lambda>r. sn_RecommendationID r = rid) tb"
    using other by (induction tb) (auto simp: sn_key_def)
  then show ?thesis using other by (simp add: upsert_def)
qed

lemma upsert_again: "upsert sn (upsert sn tb) = upsert sn tb"
proof -
  have "sn_key sn \<in> set (map sn_key (upsert sn tb))" by (simp add: upsert_keys)
  moreover have "(if sn_key r = sn_key sn then sn else r) = r" if "r \<in> set (upsert sn tb)" for r
    using that by (auto simp: upsert_def image_iff split: if_splits)
  ultimately show ?thesis by (simp add: upsert_def [of sn "upsert sn tb"] map_idI)
qed

lemma ComputeOne_id: "ComputeOne sv env getk (Some rec) s = (Inr sn, s') \<Longrightarrow> sn_RecommendationID sn = rec_ID rec"
  using ComputeOne_contract by blast

lemma fill_dates_id [simp]: "sn_RecommendationID (fill_dates now sn) = sn_RecommendationID sn"
  by (simp add: fill_dates_def Let_def)

lemma stored_id [simp]: "sn_RecommendationID (stored_snapshot c sn) = sn_RecommendationID sn"
  by (simp add: stored_snapshot_def Let_def)

lemma stored_date [simp]: "sn_SnapshotDate (stored_snapshot c sn) = column_date c (sn_SnapshotDate sn)"
  by (simp add: stored_snapshot_def Let_def)

text \<open>At most one row per recommendation and day; the dates are those a date column keeps.\<close>

definition snapshots_ok :: "db_columns \<Rightarrow> snapshot list \<Rightarrow> bool" where
  "snapshots_ok c tb \<longleftrightarrow>
     distinct (map (\<lambda>r. (sn_RecommendationID r, day_of (dc_zone c) (sn_SnapshotDate r))) tb)
     \<and> (\<forall>r\<in>set tb. column_date c (sn_SnapshotDate r) = sn_SnapshotDate r)"

lemma snapshots_ok_iff:
  "snapshots_ok c tb \<longleftrightarrow>
     distinct (map sn_key tb) \<and> (\<forall>r\<in>set tb. column_date c (sn_SnapshotDate r) = sn_SnapshotDate r)"
proof (cases "\<forall>r\<in>set tb. column_date c (sn_SnapshotDate r) = sn_SnapshotDate r")
  case True
  have "day_of (dc_zone c) (sn_SnapshotDate r) = day_of (dc_zone c) (sn_SnapshotDate r') \<longleftrightarrow> sn_SnapshotDate r = sn_SnapshotDate r'"
    if "r \<in> set tb" "r' \<in> set tb" for r r'
    using True that by (metis column_date_eq_iff)
  then have "inj_on (\<lambda>r. (sn_RecommendationID r, day_of (dc_zone c) (sn_SnapshotDate r))) (set tb) \<longleftrightarrow> inj_on sn_key (set tb)"
    by (auto simp: inj_on_def sn_key_def)
  then show ?thesis using True by (simp add: snapshots_ok_def distinct_map)
qed (auto simp: snapshots_ok_def)

lemma snapshots_ok_upsert:
  "snapshots_ok c tb \<Longrightarrow> snapshots_ok c (upsert (stored_snapshot c sn) tb)"
  by (auto simp: snapshots_ok_iff upsert_keys) (auto simp: upsert_def split: if_splits)

text \<open>One recommendation either leaves the table alone or upserts a row of its own.\<close>

lemma ComputeAndSave_table:
  assumes "ComputeAndSave sv env k getk rec (s, tb) = (r, s', tb')"
  shows "tb' = tb \<or> (\<exists>sn. sn_RecommendationID sn = rec_ID rec \<and> tb' = upsert (stored_snapshot (be_columns env) sn) tb)"
  using assms
  by (auto simp: ComputeAndSave_def Save_def Let_def split: prod.splits sum.splits option.splits if_splits
      dest: ComputeOne_id) (metis ComputeOne_id fill_dates_id)

lemma batch_loop_table:
  assumes "batch_loop sv env getk skip k recs n (s, tb) = (res, s', tb')"
  shows "(snapshots_ok (be_columns env) tb \<longrightarrow> snapshots_ok (be_columns env) tb')
    \<and> (\<forall>rid. rid \<notin> rec_ID ` {r \<in> set recs. \<not> skip r} \<longrightarrow>
         filter (\<lambda>r. sn_RecommendationID r = rid) tb' = filter (\<lambda>r. sn_RecommendationID r = rid) tb)
    \<and> (br_error res = None \<longrightarrow> br_processed res + br_errs res = fst n + snd n + length (filter (\<lambda>r. \<not> skip r) recs))"
  using assms
proof (induction recs arbitrary: k n s tb)
  case (Cons rec recs)
  consider (halt) e where "be_ctx env k = Some e"
    | (pass) "be_ctx env k = None" "skip rec"
    | (run) x e s1 tb1 where "be_ctx env k = None" "\<not> skip rec" "ComputeAndSave sv env k getk rec (s, tb) = ((x, e), s1, tb1)"
    by (cases "be_ctx env k"; cases "ComputeAndSave sv env k getk rec (s, tb)") auto
  then show ?case
  proof cases
    case halt
    then show ?thesis using Cons.prems by auto
  next
    case pass
    then show ?thesis using Cons.prems Cons.IH [of "Suc k" n s tb] by auto
  next
    case run
    define n1 where "n1 = (if e = None then (Suc (fst n), snd n) else (fst n, Suc (snd n)))"
    have loop: "batch_loop sv env getk skip (Suc k) recs n1 (s1, tb1) = (res, s', tb')"
      using run Cons.prems by (cases e) (simp_all add: n1_def)
    have n1: "fst n1 + snd n1 = Suc (fst n + snd n)" by (simp add: n1_def)
    from ComputeAndSave_table [OF run(3)] have tb1: "snapshots_ok (be_columns env) tb \<longrightarrow> snapshots_ok (be_columns env) tb1"
      "rid \<noteq> rec_ID rec \<Longrightarrow> filter (\<lambda>r. sn_RecommendationID r = rid) tb1 = filter (\<lambda>r. sn_RecommendationID r = rid) tb" for rid
      by (auto simp: snapshots_ok_upsert upsert_other)
    have sub: "rid \<noteq> rec_ID rec \<and> rid \<notin> rec_ID ` {r \<in> set recs. \<not> skip r}"
      if "rid \<notin> rec_ID ` {r \<in> set (rec # recs). \<not> skip r}" for rid
      using that run(2) by auto
    note IH = Cons.IH [OF loop]
    show ?thesis
    proof (intro conjI allI impI)
      assume "snapshots_ok (be_columns env) tb"
      with tb1(1) IH show "snapshots_ok (be_columns env) tb'" by blast
    next
      fix rid assume rid: "rid \<notin> rec_ID ` {r \<in> set (rec # recs). \<not> skip r}"
      have "filter (\<lambda>r. sn_RecommendationID r = rid) tb' = filter (\<lambda>r. sn_RecommendationID r = rid) tb1"
        using IH sub [OF rid] by blast
      also have "\<dots> = filter (\<lambda>r. sn_RecommendationID r = rid) tb" using tb1(2) sub [OF rid] by blast
      finally show "filter (\<lambda>r. sn_RecommendationID r = rid) tb' = filter (\<lambda>r. sn_RecommendationID r = rid) tb" .
    next
      assume "br_error res = None"
      then have "br_processed res + br_errs res = fst n1 + snd n1 + length (filter (\<lambda>r. \<not> skip r) recs)"
        using IH by blast
      then show "br_processed res + br_errs res = fst n + snd n + length (filter (\<lambda>r. \<not> skip r) (rec # recs))"
        using run(2) n1 by simp
    qed
  qed
qed auto

lemma Backfill_cases:
  assumes "Backfill sv env getk le ee now lookback recs (s, tb) = Some (res, s', tb')"
  shows "tb' = tb \<or> batch_loop sv env getk (\<lambda>r. rec_ID r \<in> set (map sn_RecommendationID tb)) 0
     (recs_between (now - positive_or (7 * 24 * nano_hour) lookback) now recs) (0, 0) (s, tb) = (res, s', tb')"
  using assms by (auto simp: Backfill_def Let_def split: if_splits option.splits)

text \<open>A snapshot that was saved, with its dates filled in, and a new snapshot with the same figures.\<close>

lemma fill_dates_again: "snd now \<noteq> zero_instant \<Longrightarrow> fst now \<noteq> zero_instant \<Longrightarrow> fill_dates now' (fill_dates now sn) = fill_dates now sn"
  by (auto simp: fill_dates_def Let_def)

lemma Save_None:
  "Save sv c now None (Some sn) tb = (None, sn', tb') \<longleftrightarrow>
   pv_db sv \<and> sn_RecommendationID sn \<noteq> 0 \<and> sn' = Some (fill_dates now sn) \<and> tb' = upsert (stored_snapshot c (fill_dates now sn)) tb"
  by (auto simp: Save_def Let_def)

definition undated :: "snapshot \<Rightarrow> snapshot" where
  "undated sn = sn\<lparr>sn_CalculatedAt := zero_instant\<rparr>"

lemma sn_key_undated [simp]: "sn_key (undated sn) = sn_key sn"
  by (simp add: undated_def sn_key_def)

lemma undated_upsert: "map undated (upsert sn tb) = upsert (undated sn) (map undated tb)"
  by (simp add: upsert_def comp_def)

lemma undated_stored:
  "sn_SnapshotDate sn \<noteq> zero_instant \<Longrightarrow>
   undated (stored_snapshot c (fill_dates now sn)) = undated (stored_snapshot c sn)"
  by (simp add: undated_def stored_snapshot_def fill_dates_def Let_def)

text \<open>C40: A table with at most one row per recommendation and day, and dated as its date column keeps
  dates, stays so under \<open>ComputeRange\<close>, \<open>Backfill\<close> and \<open>Save\<close>.  \<open>ComputeRange\<close> touches only rows of
  recommendations in its range, and when it is not cut short every one of them is counted as
  processed or as failed.  Saving the snapshot that a successful save has handed back, with its
  dates, changes nothing, at whatever time, unless the clock of the first save read the zero time;
  saving a dated snapshot anew, as a second computation with the same result does,
  changes no row in anything but the time of its calculation.\<close>

theorem snapshot_table_invariant:
  assumes "snapshots_ok (be_columns env) tb" "c = be_columns env"
  shows "(ComputeRange sv env getk le start fin recs (s, tb) = (res, s', tb') \<longrightarrow>
            snapshots_ok c tb'
          \<and> (\<forall>rid. rid \<notin> rec_ID ` {r \<in> set recs. start \<le> rec_instant r \<and> rec_instant r \<le> fin} \<longrightarrow>
               filter (\<lambda>r. sn_RecommendationID r = rid) tb' = filter (\<lambda>r. sn_RecommendationID r = rid) tb)
          \<and> (br_error res = None \<longrightarrow> br_processed res + br_errs res =
               length (filter (\<lambda>r. start \<le> rec_instant r \<and> rec_instant r \<le> fin) recs)))
    \<and> (Backfill sv env getk le ee now lookback recs (s, tb) = Some (res, s', tb') \<longrightarrow> snapshots_ok c tb')
    \<and> (Save sv c clk None (Some sn) tb = (None, Some sn1, tb1) \<longrightarrow>
            snapshots_ok c tb1
          \<and> (fst clk \<noteq> zero_instant \<and> snd clk \<noteq> zero_instant \<longrightarrow>
               Save sv c later None (Some sn1) tb1 = (None, Some sn1, tb1))
          \<and> (sn_SnapshotDate sn \<noteq> zero_instant \<longrightarrow>
               (\<exists>sn2 tb2. Save sv c later None (Some sn) tb1 = (None, Some sn2, tb2)
                  \<and> map undated tb2 = map undated tb1)))"
proof (intro conjI impI)
  assume run: "ComputeRange sv env getk le start fin recs (s, tb) = (res, s', tb')"
  have recs: "set (recs_between start fin recs) = {r \<in> set recs. start \<le> rec_instant r \<and> rec_instant r \<le> fin}"
    "length (recs_between start fin recs) = length (filter (\<lambda>r. start \<le> rec_instant r \<and> rec_instant r \<le> fin) recs)"
    by (auto simp: recs_between_def)
  consider "tb' = tb" "br_error res \<noteq> None"
    | "batch_loop sv env getk (\<lambda>_. False) 0 (recs_between start fin recs) (0, 0) (s, tb) = (res, s', tb')"
    using run by (auto simp: ComputeRange_def failed_batch_def split: if_splits option.splits)
  then have "snapshots_ok c tb'
      \<and> (\<forall>rid. rid \<notin> rec_ID ` {r \<in> set recs. start \<le> rec_instant r \<and> rec_instant r \<le> fin} \<longrightarrow>
           filter (\<lambda>r. sn_RecommendationID r = rid) tb' = filter (\<lambda>r. sn_RecommendationID r = rid) tb)
      \<and> (br_error res = None \<longrightarrow> br_processed res + br_errs res =
           length (filter (\<lambda>r. start \<le> rec_instant r \<and> rec_instant r \<le> fin) recs))"
  proof cases
    case 1
    then show ?thesis using assms by auto
  next
    case 2
    from batch_loop_table [OF 2] show ?thesis using assms by (simp add: recs)
  qed
  then show "snapshots_ok c tb'"
    "\<forall>rid. rid \<notin> rec_ID ` {r \<in> set recs. start \<le> rec_instant r \<and> rec_instant r \<le> fin} \<longrightarrow>
       filter (\<lambda>r. sn_RecommendationID r = rid) tb' = filter (\<lambda>r. sn_RecommendationID r = rid) tb"
    "br_error res = None \<Longrightarrow> br_processed res + br_errs res =
       length (filter (\<lambda>r. start \<le> rec_instant r \<and> rec_instant r \<le> fin) recs)"
    by blast+
next
  assume "Backfill sv env getk le ee now lookback recs (s, tb) = Some (res, s', tb')"
  from Backfill_cases [OF this] show "snapshots_ok c tb'"
    using assms by (auto dest: batch_loop_table [THEN conjunct1])
next
  assume "Save sv c clk None (Some sn) tb = (None, Some sn1, tb1)"
  then have saved: "pv_db sv" "sn_RecommendationID sn \<noteq> 0" "sn1 = fill_dates clk sn"
    "tb1 = upsert (stored_snapshot c sn1) tb"
    by (simp_all add: Save_None)
  show "snapshots_ok c tb1" using assms by (simp add: saved(4) snapshots_ok_upsert)
  show "Save sv c later None (Some sn1) tb1 = (None, Some sn1, tb1)"
    if "fst clk \<noteq> zero_instant \<and> snd clk \<noteq> zero_instant"
    using that saved(1,2) fill_dates_again [of clk later sn] by (simp add: Save_None saved(3,4) upsert_again)
  show "\<exists>sn2 tb2. Save sv c later None (Some sn) tb1 = (None, Some sn2, tb2) \<and> map undated tb2 = map undated tb1"
    if "sn_SnapshotDate sn \<noteq> zero_instant"
    using saved(1,2) by (simp add: Save_None saved(3,4) undated_upsert undated_stored [OF that] upsert_again)
qed

definition empty_snapshot :: snapshot where
  "empty_snapshot = snapshot_of demo_rec (midnight (8 * nano_hour) 20248) None None None"

definition demo_batch :: batch_env where
  "demo_batch = \<lparr>be_columns = rounding_columns, be_cal = (\<lambda>_ _ _. (None, 0)), be_now = (\<lambda>_. (7, 8)),
     be_save = (\<lambda>_. None), be_ctx = (\<lambda>_. None)\<rparr>"

theorem snapshot_table_invariant_witness:
  "\<exists>res s1 tb1 sn2 tb2. ComputeRange demo_service demo_batch demo_getk None (rec_instant demo_rec) (rec_instant demo_rec)
       [demo_rec] (demo_pstate, []) = (res, s1, tb1)
     \<and> snapshots_ok rounding_columns tb1 \<and> br_processed res + br_errs res = 1
     \<and> Save demo_service rounding_columns (5, 6) None (Some empty_snapshot) [] = (None, Some sn2, tb2)
     \<and> Save demo_service rounding_columns (7, 8) None (Some sn2) tb2 = (None, Some sn2, tb2)"
proof -
  have cols: "rounding_columns = be_columns demo_batch" by (simp add: demo_batch_def)
  have empty: "snapshots_ok (be_columns demo_batch) []" by (simp add: snapshots_ok_def)
  obtain res s1 tb1 where run: "ComputeRange demo_service demo_batch demo_getk None (rec_instant demo_rec) (rec_instant demo_rec)
      [demo_rec] (demo_pstate, []) = (res, s1, tb1)" by (metis prod.collapse)
  have "br_error res = None"
    using run by (auto simp: ComputeRange_def demo_service_def NewPerfService_def recs_between_def demo_batch_def
        split: prod.splits option.splits)
  moreover obtain sn2 tb2 where save: "Save demo_service rounding_columns (5, 6) None (Some empty_snapshot) [] = (None, Some sn2, tb2)"
    by (simp add: Save_def Let_def demo_service_def NewPerfService_def empty_snapshot_def snapshot_of_def demo_rec_def)
  have times: "(5 :: int) \<noteq> zero_instant" "(6 :: int) \<noteq> zero_instant"
    by (simp_all add: zero_instant_def zero_wall_time_def time_unit_defs)
  note inv = snapshot_table_invariant [OF empty cols, where sv = demo_service and getk = demo_getk]
  from inv [THEN conjunct1, THEN mp, OF run] calculation
  have "snapshots_ok rounding_columns tb1" "br_processed res + br_errs res = 1" by simp_all
  moreover have "Save demo_service rounding_columns (7, 8) None (Some sn2) tb2 = (None, Some sn2, tb2)"
    using inv [THEN conjunct2, THEN conjunct2, THEN mp, OF save] times by simp
  ultimately show ?thesis using run save by blast
qed

text \<open>\<open>Backfill\<close> never completes a snapshot: whatever the data source has learned since, the rows
  of a recommendation that already has one, even one without a single close, are left as they
  are.  A recommendation whose first snapshot was taken before its fifth trading day keeps the
  missing figures.\<close>

theorem Backfill_never_completes:
  assumes "Backfill sv env getk le ee now lookback recs (s, tb) = Some (res, s', tb')"
    and "rid \<in> set (map sn_RecommendationID tb)"
  shows "filter (\<lambda>r. sn_RecommendationID r = rid) tb' = filter (\<lambda>r. sn_RecommendationID r = rid) tb"
proof -
  define found where "found = recs_between (now - positive_or (7 * 24 * nano_hour) lookback) now recs"
  from Backfill_cases [OF assms(1), folded found_def] consider "tb' = tb"
    | "batch_loop sv env getk (\<lambda>r. rec_ID r \<in> set (map sn_RecommendationID tb)) 0 found (0, 0) (s, tb) = (res, s', tb')"
    by blast
  then show ?thesis
  proof cases
    case 2
    have "rid \<notin> rec_ID ` {r \<in> set found. \<not> rec_ID r \<in> set (map sn_RecommendationID tb)}"
      using assms(2) by blast
    with batch_loop_table [OF 2] show ?thesis by blast
  qed simp
qed

theorem Backfill_never_completes_witness:
  "\<exists>res s' tb'. Backfill demo_service demo_batch demo_getk None None (midnight 0 20258) (20 * nano_day) [demo_rec]
       (demo_pstate, [empty_snapshot]) = Some (res, s', tb')
     \<and> filter (\<lambda>r. sn_RecommendationID r = 3) tb' = [empty_snapshot]"
proof -
  have id: "sn_RecommendationID empty_snapshot = 3"
    by (simp add: empty_snapshot_def snapshot_of_def demo_rec_def Let_def)
  have "Backfill demo_service demo_batch demo_getk None None (midnight 0 20258) (20 * nano_day) [demo_rec]
      (demo_pstate, [empty_snapshot]) \<noteq> None"
    by (simp add: Backfill_def demo_service_def NewPerfService_def Let_def del: not_None_eq)
  then obtain r where r: "Backfill demo_service demo_batch demo_getk None None (midnight 0 20258) (20 * nano_day) [demo_rec]
      (demo_pstate, [empty_snapshot]) = Some r"
    by auto
  then show ?thesis
    using Backfill_never_completes [of demo_service demo_batch demo_getk None None "midnight 0 20258" "20 * nano_day"
        "[demo_rec]" demo_pstate "[empty_snapshot]" "fst r" "fst (snd r)" "snd (snd r)" 3] id
    by (cases r) auto
qed

end
