(* ===== verification/Perf_Aggregate.thy ===== *)
theory Perf_Aggregate
  imports Perf_Service Slice_Stable App_Error Go_Parse
begin

text \<open>
  \<open>perf/handler.go\<close>: the aggregates over the latest snapshot of each recommendation, grouped by
  strategy, stock or session tag, with the arguments of the request as the handler reads them, and
  the manual trigger of a computation.  Offsets are computed in 64-bit integers.
\<close>

section \<open>Arguments\<close>

definition atoiDefault :: "string \<Rightarrow> int \<Rightarrow> int" where
  "atoiDefault s d = (if s = [] then d else case Atoi s of None \<Rightarrow> d | Some n \<Rightarrow> n)"

definition defaultStr :: "string \<Rightarrow> string \<Rightarrow> string" where
  "defaultStr v d = (if v = [] then d else v)"

record aggregations_query =
  aq_GroupBy :: string
  aq_From :: string
  aq_To :: string
  aq_Page :: int
  aq_PageSize :: int

text \<open>The query parameters: group, from, to, page and page size.\<close>

definition read_query :: "string \<Rightarrow> string \<Rightarrow> string \<Rightarrow> string \<Rightarrow> string \<Rightarrow> aggregations_query" where
  "read_query grouping from to page per_page =
     \<lparr>aq_GroupBy = defaultStr grouping ''strategy'', aq_From = from, aq_To = to,
      aq_Page = positive_or 1 (atoiDefault page 1),
      aq_PageSize = (let n = atoiDefault per_page 20 in if n \<le> 0 \<or> 200 < n then 20 else n)\<rparr>"

section \<open>Groups\<close>

record joined =
  jn_RecID :: nat
  jn_StrategyCode :: string
  jn_StockCode :: string
  jn_T1Return :: "f64 option"
  jn_T3Return :: "f64 option"
  jn_T5Return :: "f64 option"
  jn_MaxDrawdown :: "f64 option"

definition join_row :: "recommendation \<Rightarrow> snapshot \<Rightarrow> joined" where
  "join_row r s =
     \<lparr>jn_RecID = rec_ID r, jn_StrategyCode = rec_StrategyCode r, jn_StockCode = rec_StockCode r,
      jn_T1Return = sn_T1Return s, jn_T3Return = sn_T3Return s, jn_T5Return = sn_T5Return s,
      jn_MaxDrawdown = sn_MaxDrawdown s\<rparr>"

text \<open>The join, for recommendations in the range, by recommendation and from the newest snapshot on.  The
  snapshots are listed in ascending order of identifier.\<close>

definition joined_rows :: "instant option \<Rightarrow> instant option \<Rightarrow> recommendation list \<Rightarrow> snapshot list \<Rightarrow> joined list" where
  "joined_rows from to recs snaps =
     (let in_range = (\<lambda>r. (\<forall>t\<in>set_option from. t \<le> rec_instant r) \<and> (\<forall>t\<in>set_option to. rec_instant r \<le> t));
          ordered = sort_key (\<lambda>s. (sn_RecommendationID s, - sn_SnapshotDate s)) (rev snaps)
      in concat (map (\<lambda>s. map (\<lambda>r. join_row r s)
           (filter (\<lambda>r. rec_ID r = sn_RecommendationID s \<and> in_range r) recs)) ordered))"

fun keep_latest :: "nat set \<Rightarrow> joined list \<Rightarrow> joined list" where
  "keep_latest seen [] = []"
| "keep_latest seen (j # js) =
     (if jn_RecID j \<in> seen then keep_latest seen js else j # keep_latest (insert (jn_RecID j) seen) js)"

definition groupKeysFor :: "string \<Rightarrow> (nat \<Rightarrow> string list) \<Rightarrow> joined \<Rightarrow> string list" where
  "groupKeysFor groupBy tags j =
     (if groupBy = ''strategy'' then [defaultStr (jn_StrategyCode j) ''UNGROUPED'']
      else if groupBy = ''stock'' then [defaultStr (jn_StockCode j) ''UNGROUPED'']
      else if groupBy = ''session_tag'' then
        (let out = filter (\<lambda>t. t \<noteq> []) (tags (jn_RecID j)) in if out = [] then [''UNGROUPED''] else out)
      else [''UNGROUPED''])"

text \<open>A running sum with the number of its terms.\<close>

type_synonym running = "f64 \<times> f64"

definition run_add :: "f64 option \<Rightarrow> running \<Rightarrow> running" where
  "run_add v r = (case v of None \<Rightarrow> r | Some x \<Rightarrow> (f_add (fst r) x, f_add (snd r) (Fin 1)))"

definition run_mean :: "running \<Rightarrow> f64 option" where
  "run_mean r = (if f_lt (Fin 0) (snd r) then Some (f_div (fst r) (snd r)) else None)"

record groupAccum =
  ga_key :: string
  ga_count :: nat
  ga_T1 :: running
  ga_T3 :: running
  ga_T5 :: running
  ga_DD :: running
  ga_Win :: running

definition new_accum :: "string \<Rightarrow> groupAccum" where
  "new_accum k =
     (let z = (Fin 0, Fin 0)
      in \<lparr>ga_key = k, ga_count = 0, ga_T1 = z, ga_T3 = z, ga_T5 = z, ga_DD = z, ga_Win = z\<rparr>)"

definition win_of :: "f64 \<Rightarrow> f64" where
  "win_of x = (if f_lt (Fin 0) x then Fin 1 else Fin 0)"

definition ga_add :: "joined \<Rightarrow> groupAccum \<Rightarrow> groupAccum" where
  "ga_add j g =
     g\<lparr>ga_count := Suc (ga_count g), ga_T1 := run_add (jn_T1Return j) (ga_T1 g), ga_T3 := run_add (jn_T3Return j) (ga_T3 g),
       ga_T5 := run_add (jn_T5Return j) (ga_T5 g), ga_Win := run_add (map_option win_of (jn_T5Return j)) (ga_Win g),
       ga_DD := run_add (jn_MaxDrawdown j) (ga_DD g)\<rparr>"

record aggregationRow =
  ar_Key :: string
  ar_Count :: nat
  ar_AvgT1 :: "f64 option"
  ar_AvgT3 :: "f64 option"
  ar_AvgT5 :: "f64 option"
  ar_WinRateT5 :: "f64 option"
  ar_AvgDrawdown :: "f64 option"

definition ga_snapshot :: "groupAccum \<Rightarrow> aggregationRow" where
  "ga_snapshot g =
     \<lparr>ar_Key = ga_key g, ar_Count = ga_count g, ar_AvgT1 = run_mean (ga_T1 g), ar_AvgT3 = run_mean (ga_T3 g),
      ar_AvgT5 = run_mean (ga_T5 g), ar_WinRateT5 = run_mean (ga_Win g), ar_AvgDrawdown = run_mean (ga_DD g)\<rparr>"

text \<open>The grouping loop: the keys in the order they were first met, and the accumulator of each.\<close>

definition group_step ::
  "string \<times> joined \<Rightarrow> string list \<times> (string \<Rightarrow> groupAccum option) \<Rightarrow> string list \<times> (string \<Rightarrow> groupAccum option)" where
  "group_step kj st =
     (case (kj, st) of ((k, j), (keys, m)) \<Rightarrow>
        (case m k of
           None \<Rightarrow> (keys @ [k], m(k \<mapsto> ga_add j (new_accum k)))
         | Some g \<Rightarrow> (keys, m(k \<mapsto> ga_add j g))))"

definition group_rows :: "(joined \<Rightarrow> string list) \<Rightarrow> joined list \<Rightarrow> string list \<times> (string \<Rightarrow> groupAccum option)" where
  "group_rows keys_of latest =
     fold group_step (concat (map (\<lambda>j. map (\<lambda>k. (k, j)) (keys_of j)) latest)) ([], Map.empty)"

definition group_before :: "(string \<Rightarrow> groupAccum option) \<Rightarrow> string \<Rightarrow> string \<Rightarrow> bool" where
  "group_before m a b =
     (if ga_count (the (m a)) \<noteq> ga_count (the (m b)) then ga_count (the (m b)) < ga_count (the (m a)) else a < b)"

text \<open>The slice of a page; \<open>None\<close> is the panic of a slice with bounds out of range.\<close>

definition page_slice :: "int \<Rightarrow> int \<Rightarrow> 'a list \<Rightarrow> 'a list option" where
  "page_slice page per_page xs =
     (let n = int (length xs); o1 = int64 (int64 (page - 1) * per_page); o2 = (if n < o1 then n else o1);
          e1 = int64 (o2 + per_page); e2 = (if n < e1 then n else e1)
      in if 0 \<le> o2 \<and> o2 \<le> e2 then Some (take (nat (e2 - o2)) (drop (nat o2) xs)) else None)"

text \<open>The first statement loads the join, the second the tags, which only that grouping needs.  A bound that
  is the zero time is \<open>None\<close>.\<close>

definition perf_aggregate ::
  "bool \<Rightarrow> (nat \<Rightarrow> string option) \<Rightarrow> aggregations_query \<Rightarrow> instant option \<Rightarrow> instant option \<Rightarrow> rec_db \<Rightarrow> snapshot list
   \<Rightarrow> (service_error + aggregationRow list \<times> nat) option" where
  "perf_aggregate has_db fail q from to db snaps =
     (if \<not> has_db then Some (Inl (Biz (Unavailable ''perf: db not configured'')))
      else case fail 0 of
        Some e \<Rightarrow> Some (Inl (DbError e))
      | None \<Rightarrow>
          let latest = keep_latest {} (joined_rows from to (db_recs db) snaps);
              by_tag = (aq_GroupBy q = ''session_tag'' \<and> latest \<noteq> [])
          in case (if by_tag then fail 1 else None) of
               Some e \<Rightarrow> Some (Inl (DbError e))
             | None \<Rightarrow>
                 (let tags = (\<lambda>i. map rt_Tag (filter (\<lambda>t. rt_RecommendationID t = i) (db_tags db)))
                  in case group_rows (groupKeysFor (aq_GroupBy q) tags) latest of
                       (keys, m) \<Rightarrow>
                         map_option (\<lambda>ks. Inr (map (\<lambda>k. ga_snapshot (the (m k))) ks, length keys))
                           (page_slice (aq_Page q) (aq_PageSize q) (slice_stable (group_before m) keys))))"

text \<open>The bounds are tested with \<open>IsZero\<close>: one that was not given, and one that is given as the first day of
  the year 1, which is the zero time, do not bound anything.\<close>

definition date_bound :: "string \<Rightarrow> instant option" where
  "date_bound v =
     (let t = (if v = [] then zero_instant else the (parseDate v)) in if t = zero_instant then None else Some t)"

lemma year_one_is_no_bound: "date_bound ''0001-01-01'' = None"
  by code_simp

text \<open>\<open>err\<close> is the text of the error of \<open>time.Parse\<close>.\<close>

definition Aggregations ::
  "(string \<Rightarrow> string) \<Rightarrow> bool \<Rightarrow> (nat \<Rightarrow> string option) \<Rightarrow> aggregations_query \<Rightarrow> rec_db \<Rightarrow> snapshot list
   \<Rightarrow> (service_error + aggregationRow list \<times> nat) option" where
  "Aggregations err has_db fail q db snaps =
     (if aq_GroupBy q \<notin> {''strategy'', ''session_tag'', ''stock''}
      then Some (Inl (Biz (InvalidArg ''group_by must be one of: strategy, session_tag, stock'')))
      else if aq_From q \<noteq> [] \<and> parseDate (aq_From q) = None then Some (Inl (Biz (InvalidArg (''from: '' @ err (aq_From q)))))
      else if aq_To q \<noteq> [] \<and> parseDate (aq_To q) = None then Some (Inl (Biz (InvalidArg (''to: '' @ err (aq_To q)))))
      else perf_aggregate has_db fail q (date_bound (aq_From q)) (date_bound (aq_To q)) db snaps)"

section \<open>The manual trigger\<close>

record calculate_request =
  cq_RecommendationID :: nat
  cq_From :: string
  cq_To :: string

datatype calc_error = Request service_error | Perf perf_error
datatype calc_result = Computed "snapshot option" | RangeComputed nat nat string string

definition invalid_request :: "string \<Rightarrow> calc_error" where
  "invalid_request msg = Request (Biz (InvalidArg msg))"

text \<open>\<open>computeOneByID\<close>; \<open>fail\<close> is the outcome of the query.\<close>

definition computeOneByID ::
  "perf_service \<Rightarrow> batch_env \<Rightarrow> 's get_kline \<Rightarrow> string option \<Rightarrow> nat \<Rightarrow> recommendation list \<Rightarrow> 's perf_state \<times> snapshot list
   \<Rightarrow> (calc_error + calc_result) \<times> 's perf_state \<times> snapshot list" where
  "computeOneByID sv env getk fail rid recs st =
     (if \<not> pv_db sv then (Inl (Request (Biz (Unavailable ''perf: db not configured''))), st)
      else case fail of
        Some e \<Rightarrow> (Inl (Request (DbError e)), st)
      | None \<Rightarrow>
          (case find (\<lambda>r. rec_ID r = rid) recs of
             None \<Rightarrow> (Inl (Request (Biz (NotFound ''recommendation not found''))), st)
           | Some rec \<Rightarrow>
               (case ComputeAndSave sv env 0 getk rec st of
                  ((_, Some e), st') \<Rightarrow> (Inl (Perf e), st')
                | ((sn, None), st') \<Rightarrow> (Inr (Computed sn), st'))))"

text \<open>\<open>body\<close> is the decoded body, all zero when there was none, or the text of its error.\<close>

definition Calculate ::
  "(string \<Rightarrow> string) \<Rightarrow> perf_service \<Rightarrow> batch_env \<Rightarrow> 's get_kline \<Rightarrow> string option \<Rightarrow> string + calculate_request
   \<Rightarrow> recommendation list \<Rightarrow> 's perf_state \<times> snapshot list \<Rightarrow> (calc_error + calc_result) \<times> 's perf_state \<times> snapshot list" where
  "Calculate err sv env getk fail body recs st =
     (case body of
        Inl e \<Rightarrow> (Inl (invalid_request (''invalid request body: '' @ e)), st)
      | Inr req \<Rightarrow>
          if cq_RecommendationID req \<noteq> 0 then computeOneByID sv env getk fail (cq_RecommendationID req) recs st
          else if cq_From req = [] \<and> cq_To req = []
          then (Inl (invalid_request ''either recommendation_id or from+to is required''), st)
          else if cq_From req = [] \<or> cq_To req = [] then (Inl (invalid_request ''from and to must both be set''), st)
          else case (parseDate (cq_From req), parseDate (cq_To req)) of
            (None, _) \<Rightarrow> (Inl (invalid_request (''from: '' @ err (cq_From req))), st)
          | (Some _, None) \<Rightarrow> (Inl (invalid_request (''to: '' @ err (cq_To req))), st)
          | (Some t1, Some t2) \<Rightarrow>
              (case ComputeRange sv env getk fail t1 t2 recs st of
                 (res, st') \<Rightarrow>
                   ((case br_error res of
                       Some e \<Rightarrow> Inl (Perf e)
                     | None \<Rightarrow> Inr (RangeComputed (br_processed res) (br_errs res) (cq_From req) (cq_To req))), st')))"

section \<open>Lemmas\<close>

text \<open>The first page, when it is large enough, is the whole list.\<close>

lemma page_slice_first: "int (length xs) \<le> per \<Longrightarrow> per < 2 ^ 63 \<Longrightarrow> page_slice 1 per xs = Some xs"
  by (auto simp: page_slice_def int64_id Let_def)

lemma page_slice_sub: "page_slice page per xs = Some ys \<Longrightarrow> \<exists>i n. ys = take n (drop i xs)"
  unfolding page_slice_def Let_def by (metis option.distinct(1) option.inject)

definition known :: "('a \<Rightarrow> 'b option) \<Rightarrow> 'a list \<Rightarrow> 'b list" where
  "known f xs = List.map_filter f xs"

lemma known_simps [simp]:
  "known f [] = []" "known f (xs @ ys) = known f xs @ known f ys" "known f [x] = (case f x of None \<Rightarrow> [] | Some v \<Rightarrow> [v])"
  by (auto simp: known_def List.map_filter_def split: option.split)

lemma length_known: "length (known f xs) \<le> length xs"
  by (auto simp: known_def List.map_filter_def intro: le_trans [OF length_filter_le])

lemma f_of_int_Suc: "int n < 2 ^ 53 \<Longrightarrow> f_add (f_of_int (int n)) (Fin 1) = f_of_int (int (Suc n))"
  using f_of_int_exact [of "int n"] by (simp add: f_add_def) (simp add: f_of_int_def add.commute)

lemma f_of_int_pos: "int n \<le> 2 ^ 53 \<Longrightarrow> f_lt (Fin 0) (f_of_int (int n)) \<longleftrightarrow> 0 < n"
  using f_of_int_exact [of "int n"] by simp

text \<open>A running sum over a list.\<close>

lemma fold_run_add:
  "int (length xs) \<le> 2 ^ 53 \<Longrightarrow>
   fold (\<lambda>x. run_add (f x)) xs (Fin 0, Fin 0) = (foldl f_add (Fin 0) (known f xs), f_of_int (int (length (known f xs))))"
proof (induction xs rule: rev_induct)
  case Nil
  show ?case using f_of_int_exact [of 0] by simp
next
  case (snoc x xs)
  have "int (length (known f xs)) < 2 ^ 53" using length_known [of f xs] snoc.prems by simp
  from f_of_int_Suc [OF this] snoc show ?case by (cases "f x") (simp_all add: run_add_def)
qed

text \<open>The mean of the values that are there.\<close>

definition mean_of :: "f64 list \<Rightarrow> f64 option" where
  "mean_of vs = (if vs = [] then None else Some (f_div (foldl f_add (Fin 0) vs) (f_of_int (int (length vs)))))"

lemma run_mean_fold:
  assumes "int (length xs) \<le> 2 ^ 53"
  shows "run_mean (fold (\<lambda>x. run_add (f x)) xs (Fin 0, Fin 0)) = mean_of (known f xs)"
  using f_of_int_pos [of "length (known f xs)"] length_known [of f xs] assms
  by (simp add: fold_run_add [OF assms] run_mean_def mean_of_def)

text \<open>For finite values it is the calculator's average, and the mean of the verdicts its win rate.\<close>

lemma mean_of_AverageReturn: "\<forall>v\<in>set vs. f_finite v \<Longrightarrow> mean_of vs = AverageReturn vs"
  by (simp add: mean_of_def AverageReturn_def Let_def filter_id_conv)

lemma sum_wins:
  "int (length vs) \<le> 2 ^ 53 \<Longrightarrow>
   foldl f_add (Fin 0) (map win_of vs) = f_of_int (int (length (filter (f_lt (Fin 0)) vs)))"
proof (induction vs rule: rev_induct)
  case Nil
  show ?case using f_of_int_exact [of 0] by simp
next
  case (snoc v vs)
  have snoc_length: "int (length vs) < 2 ^ 53" using snoc.prems by simp
  have n: "int (length (filter (f_lt (Fin 0)) vs)) < 2 ^ 53"
    using snoc.prems by (intro le_less_trans [OF _ snoc_length]) simp
  have "f_add (f_of_int (int n)) (Fin 0) = f_of_int (int n)" if "int n < 2 ^ 53" for n
    using f_of_int_exact [of "int n"] that by (simp add: f_add_def) (simp add: f_of_int_def)
  then show ?case using snoc f_of_int_Suc [OF n] n by (simp add: win_of_def add.commute)
qed

lemma mean_wins_WinRate:
  assumes "int (length vs) \<le> 2 ^ 53" "\<forall>v\<in>set vs. f_finite v"
  shows "mean_of (map win_of vs) = WinRate vs"
proof -
  have "filter f_finite vs = vs" using assms(2) by (simp add: filter_id_conv)
  then show ?thesis by (simp add: mean_of_def WinRate_def Let_def sum_wins [OF assms(1)])
qed

text \<open>The accumulator of a group.\<close>

lemma fold_ga_add:
  "fold ga_add js (new_accum k) =
     \<lparr>ga_key = k, ga_count = length js, ga_T1 = fold (\<lambda>j. run_add (jn_T1Return j)) js (Fin 0, Fin 0),
      ga_T3 = fold (\<lambda>j. run_add (jn_T3Return j)) js (Fin 0, Fin 0), ga_T5 = fold (\<lambda>j. run_add (jn_T5Return j)) js (Fin 0, Fin 0),
      ga_DD = fold (\<lambda>j. run_add (jn_MaxDrawdown j)) js (Fin 0, Fin 0),
      ga_Win = fold (\<lambda>j. run_add (map_option win_of (jn_T5Return j))) js (Fin 0, Fin 0)\<rparr>"
  by (induction js rule: rev_induct) (simp_all add: new_accum_def ga_add_def Let_def)

lemma group_fold:
  assumes "fold group_step flat ([], Map.empty) = (keys, m)"
  shows "distinct keys \<and> set keys = fst ` set flat
    \<and> (\<forall>k. m k = (if k \<in> set keys then Some (fold ga_add (map snd (filter (\<lambda>x. fst x = k) flat)) (new_accum k)) else None))"
  using assms
proof (induction flat arbitrary: keys m rule: rev_induct)
  case (snoc x flat)
  obtain keys0 m0 where st: "fold group_step flat ([], Map.empty) = (keys0, m0)" by force
  note IH = snoc.IH [OF st]
  have now: "group_step x (keys0, m0) = (keys, m)" using snoc.prems st by simp
  show ?case
  proof (cases "m0 (fst x)")
    case None
    then have "fst x \<notin> set keys0" using IH by (auto split: if_splits)
    moreover have "filter (\<lambda>y. fst y = fst x) flat = []" unfolding filter_empty_conv using calculation IH by (metis image_eqI)
    ultimately show ?thesis using now None IH by (cases x) (auto simp: group_step_def, (metis fst_conv image_eqI)+)
  next
    case (Some g)
    then have "fst x \<in> set keys0" using IH by (metis option.distinct(1))
    then show ?thesis using now Some IH by (cases x) (auto simp: group_step_def, (metis fst_conv image_eqI)+)
  qed
qed simp

text \<open>The order of the groups.\<close>

interpretation groups: keyed_less "group_before m" "\<lambda>k. (- int (ga_count (the (m k))), k)" UNIV for m
  by unfold_locales (auto simp: group_before_def)

lemma keep_latest_ids:
  "distinct (map jn_RecID (keep_latest seen js)) \<and> jn_RecID ` set (keep_latest seen js) = jn_RecID ` set js - seen"
  by (induction js arbitrary: seen) auto

text \<open>The rows that count for a group: one for each time its key is among the keys of a recommendation.\<close>

definition members :: "(joined \<Rightarrow> string list) \<Rightarrow> joined list \<Rightarrow> string \<Rightarrow> joined list" where
  "members keys_of latest k = concat (map (\<lambda>j. replicate (count_list (keys_of j) k) j) latest)"

lemma members_flat:
  "map snd (filter (\<lambda>x. fst x = k) (concat (map (\<lambda>j. map (\<lambda>k. (k, j)) (keys_of j)) latest))) = members keys_of latest k"
proof -
  have "map snd (filter (\<lambda>x. fst x = k) (map (\<lambda>k. (k, j)) ks)) = replicate (count_list ks k) j" for ks and j :: joined
    by (induction ks) auto
  then show ?thesis by (induction latest) (simp_all add: members_def)
qed

lemma sum_group_lengths:
  assumes "distinct ks" "c ` set xs \<subseteq> set ks"
  shows "sum_list (map (\<lambda>k. length (filter (\<lambda>x. c x = k) xs)) ks) = length xs"
  using assms(2)
proof (induction xs)
  case (Cons x xs)
  have "sum_list (map (\<lambda>k. length (filter (\<lambda>y. c y = k) (x # xs))) ks) =
      sum_list (map (\<lambda>k. if k = c x then 1 else 0) ks) + sum_list (map (\<lambda>k. length (filter (\<lambda>y. c y = k) xs)) ks)"
    by (simp add: sum_list_addf [symmetric] if_distrib cong: if_cong) (rule arg_cong [where f = sum_list], auto)
  also have "sum_list (map (\<lambda>k. if k = c x then 1 else 0) ks) = (1 :: nat)"
    using assms(1) Cons.prems by (simp add: sum_list_distinct_conv_sum_set sum.delta)
  finally show ?case using Cons by simp
qed simp

lemma group_rows_spec:
  assumes "group_rows keys_of latest = (keys, m)"
  shows "distinct keys" "set keys = (\<Union>j\<in>set latest. set (keys_of j))"
    and "\<And>k. k \<in> set keys \<Longrightarrow> m k = Some (fold ga_add (members keys_of latest k) (new_accum k))"
  using group_fold [OF assms [unfolded group_rows_def]] by (auto simp: members_flat image_iff)

text \<open>A row over a list of members.\<close>

lemma row_of_members:
  assumes "int (length ms) \<le> 2 ^ 53" "r = ga_snapshot (fold ga_add ms (new_accum k))"
    and "\<forall>j\<in>set ms. \<forall>v. v \<in> {jn_T1Return j, jn_T3Return j, jn_T5Return j, jn_MaxDrawdown j} \<longrightarrow> (\<forall>x\<in>set_option v. f_finite x)"
  shows "ar_Key r = k" "ar_Count r = length ms" "ar_AvgT1 r = AverageReturn (known jn_T1Return ms)"
    "ar_AvgT3 r = AverageReturn (known jn_T3Return ms)" "ar_AvgT5 r = AverageReturn (known jn_T5Return ms)"
    "ar_AvgDrawdown r = AverageReturn (known jn_MaxDrawdown ms)" "ar_WinRateT5 r = WinRate (known jn_T5Return ms)"
proof -
  have fin: "\<forall>v\<in>set (known f ms). f_finite v"
    if "f \<in> {jn_T1Return, jn_T3Return, jn_T5Return, jn_MaxDrawdown}" for f
    using assms(3) that by (fastforce simp: known_def List.map_filter_def)
  have wins: "known (\<lambda>j. map_option win_of (jn_T5Return j)) ms = map win_of (known jn_T5Return ms)"
    by (induction ms) (auto simp: known_def List.map_filter_def split: option.split)
  have n: "int (length (known jn_T5Return ms)) \<le> 2 ^ 53"
    using length_known [of jn_T5Return ms] assms(1) by linarith
  show "ar_Key r = k" "ar_Count r = length ms" "ar_AvgT1 r = AverageReturn (known jn_T1Return ms)"
    "ar_AvgT3 r = AverageReturn (known jn_T3Return ms)" "ar_AvgT5 r = AverageReturn (known jn_T5Return ms)"
    "ar_AvgDrawdown r = AverageReturn (known jn_MaxDrawdown ms)" "ar_WinRateT5 r = WinRate (known jn_T5Return ms)"
    by (simp_all add: assms(2) fold_ga_add ga_snapshot_def run_mean_fold [OF assms(1)] mean_of_AverageReturn [OF fin]
        wins mean_wins_WinRate [OF n fin])
qed

text \<open>C37: For a request whose page holds all groups, whose statements succeed, and whose snapshots hold
  finite figures: every group that some recommendation with a snapshot in the range belongs to is
  listed once, larger groups first and equal ones by key.  A row counts the latest snapshots of its
  group; each mean is what the calculator's \<open>AverageReturn\<close> gives for the figures that are there, the
  win rate what its \<open>WinRate\<close> gives for the returns after five days, and each is missing, not zero,
  when no figure is there.  Grouped by strategy or by stock, the counts add up to the number of
  recommendations with a snapshot in the range.\<close>

theorem aggregation_rows:
  assumes "perf_aggregate True (\<lambda>_. None) q from to db snaps = Some (Inr (rows, n))"
    and "aq_Page q = 1" "int n \<le> aq_PageSize q" "aq_PageSize q \<le> 200"
    and "latest = keep_latest {} (joined_rows from to (db_recs db) snaps)"
    and "keys_of = groupKeysFor (aq_GroupBy q) (\<lambda>i. map rt_Tag (filter (\<lambda>t. rt_RecommendationID t = i) (db_tags db)))"
    and "\<forall>k. int (length (members keys_of latest k)) \<le> 2 ^ 53"
    and "\<forall>j\<in>set latest. \<forall>v. v \<in> {jn_T1Return j, jn_T3Return j, jn_T5Return j, jn_MaxDrawdown j} \<longrightarrow> (\<forall>x\<in>set_option v. f_finite x)"
  shows "distinct (map ar_Key rows) \<and> length rows = n
    \<and> ar_Key ` set rows = (\<Union>j\<in>set latest. set (keys_of j))
    \<and> sorted (map (\<lambda>r. (- int (ar_Count r), ar_Key r)) rows)
    \<and> (\<forall>r\<in>set rows. let ms = members keys_of latest (ar_Key r) in
         ar_Count r = length ms \<and> ar_AvgT1 r = AverageReturn (known jn_T1Return ms)
         \<and> ar_AvgT3 r = AverageReturn (known jn_T3Return ms) \<and> ar_AvgT5 r = AverageReturn (known jn_T5Return ms)
         \<and> ar_AvgDrawdown r = AverageReturn (known jn_MaxDrawdown ms) \<and> ar_WinRateT5 r = WinRate (known jn_T5Return ms))
    \<and> (aq_GroupBy q \<in> {''strategy'', ''stock''} \<longrightarrow> sum_list (map ar_Count rows) = length latest)"
proof -
  obtain keys m where g: "group_rows keys_of latest = (keys, m)" by force
  define ks where "ks = slice_stable (group_before m) keys"
  have n: "n = length keys" and rows: "rows = map (\<lambda>k. ga_snapshot (the (m k))) ks"
    using assms(1-4) g page_slice_first [of ks "aq_PageSize q"]
    by (auto simp: perf_aggregate_def assms(5,6) [symmetric] Let_def ks_def split: option.splits)
  note spec = group_rows_spec [OF g]
  have ks: "set ks = set keys" "distinct ks" "length ks = length keys"
    using spec(1) distinct_mset_cong [of ks keys] by (simp_all add: ks_def)
  have row: "ga_snapshot (the (m k)) = ga_snapshot (fold ga_add (members keys_of latest k) (new_accum k))" if "k \<in> set ks" for k
    using spec(3) that ks(1) by simp
  have sub: "set (members keys_of latest k) \<subseteq> set latest" for k by (auto simp: members_def)
  have cols: "\<forall>j\<in>set (members keys_of latest k). \<forall>v. v \<in> {jn_T1Return j, jn_T3Return j, jn_T5Return j, jn_MaxDrawdown j}
      \<longrightarrow> (\<forall>x\<in>set_option v. f_finite x)" for k
    using assms(8) sub [of k] by blast
  note r = row_of_members [OF assms(7) [rule_format] row cols]
  have keys: "map ar_Key rows = ks" unfolding rows using r(1) by (simp add: map_idI)
  then have "ar_Key ` set rows = (\<Union>j\<in>set latest. set (keys_of j))"
    using ks(1) spec(2) by (metis set_map)
  moreover have "\<forall>r\<in>set rows. let ms = members keys_of latest (ar_Key r) in
         ar_Count r = length ms \<and> ar_AvgT1 r = AverageReturn (known jn_T1Return ms)
         \<and> ar_AvgT3 r = AverageReturn (known jn_T3Return ms) \<and> ar_AvgT5 r = AverageReturn (known jn_T5Return ms)
         \<and> ar_AvgDrawdown r = AverageReturn (known jn_MaxDrawdown ms) \<and> ar_WinRateT5 r = WinRate (known jn_T5Return ms)"
    unfolding rows Let_def set_map ball_simps using r by simp
  moreover have "sorted (map (\<lambda>r. (- int (ar_Count r), ar_Key r)) rows)"
  proof -
    have "map (\<lambda>r. (- int (ar_Count r), ar_Key r)) rows = map (\<lambda>k. (- int (ga_count (the (m k))), k)) ks"
      unfolding rows using r(1) by (simp add: ga_snapshot_def)
    moreover have "sorted (map (\<lambda>k. (- int (ga_count (the (m k))), k)) ks)"
      unfolding ks_def groups.slice_stable_sort_key [of keys m, simplified] by simp
    ultimately show ?thesis by simp
  qed
  moreover have "sum_list (map ar_Count rows) = length latest" if single: "aq_GroupBy q \<in> {''strategy'', ''stock''}"
  proof -
    obtain c where c: "\<And>j. keys_of j = [c j]"
    proof (cases "aq_GroupBy q = ''strategy''")
      case True
      then show thesis using that [of "\<lambda>j. defaultStr (jn_StrategyCode j) ''UNGROUPED''"] by (simp add: assms(6) groupKeysFor_def)
    next
      case False
      then show thesis using single that [of "\<lambda>j. defaultStr (jn_StockCode j) ''UNGROUPED''"] by (simp add: assms(6) groupKeysFor_def)
    qed
    have "members keys_of latest k = filter (\<lambda>j. c j = k) latest" for k
      by (induction latest) (auto simp: members_def c)
    then have "map ar_Count rows = map (\<lambda>k. length (filter (\<lambda>j. c j = k) latest)) ks"
      unfolding rows using r(2) by simp
    then show ?thesis using sum_group_lengths [OF ks(2), of c latest] spec(2) ks(1) by (auto simp: c)
  qed
  ultimately show ?thesis using keys ks(2,3) n rows by simp
qed

text \<open>The page number is not bounded: for a large one the offset overflows to a negative number and
  the slice panics, whatever the tables hold.\<close>

theorem aggregation_page_panics:
  assumes "aq_Page q = 46116860184273881" "aq_PageSize q = 200"
  shows "perf_aggregate True (\<lambda>_. None) q from to db snaps = None"
  by (auto simp: perf_aggregate_def Let_def page_slice_def int64_def assms split: prod.split)

definition demo_query :: aggregations_query where
  "demo_query = read_query [] [] [] [] []"

theorem aggregation_page_panics_witness:
  "perf_aggregate True (\<lambda>_. None) (demo_query\<lparr>aq_Page := 46116860184273881, aq_PageSize := 200\<rparr>) None None
     \<lparr>db_recs = [], db_tags = []\<rparr> [] = None"
  by (rule aggregation_page_panics) simp_all

definition demo_snap :: "nat \<Rightarrow> f64 option \<Rightarrow> snapshot" where
  "demo_snap i t5 = \<lparr>sn_RecommendationID = i, sn_SnapshotDate = 0, sn_T1Return = None, sn_T3Return = None, sn_T5Return = t5,
     sn_T1Close = None, sn_T3Close = None, sn_T5Close = None, sn_CumulativeReturn = None, sn_MaxDrawdown = None,
     sn_WinRate = None, sn_CalculatedAt = 0\<rparr>"

definition demo_tables :: rec_db where
  "demo_tables = \<lparr>db_recs = [demo_rec\<lparr>rec_ID := 1, rec_StrategyCode := ''a''\<rparr>, demo_rec\<lparr>rec_ID := 2, rec_StrategyCode := ''a''\<rparr>,
     demo_rec\<lparr>rec_ID := 3, rec_StrategyCode := []\<rparr>], db_tags = []\<rparr>"

definition demo_snaps :: "snapshot list" where
  "demo_snaps = [demo_snap 1 (Some (Fin 1)), demo_snap 2 (Some (Fin 0)), demo_snap 3 None]"

definition demo_latest :: "joined list" where
  "demo_latest = map (\<lambda>(i, c, v). \<lparr>jn_RecID = i, jn_StrategyCode = c, jn_StockCode = rec_StockCode demo_rec, jn_T1Return = None,
     jn_T3Return = None, jn_T5Return = v, jn_MaxDrawdown = None\<rparr>) [(1, ''a'', Some (Fin 1)), (2, ''a'', Some (Fin 0)), (3, [], None)]"

lemma demo_latest: "demo_latest = keep_latest {} (joined_rows None None (db_recs demo_tables) demo_snaps)"
  by (simp add: demo_latest_def joined_rows_def join_row_def demo_tables_def demo_snaps_def demo_snap_def)

lemma demo_members: "int (length (members (groupKeysFor ''strategy'' tags) demo_latest k)) \<le> 2 ^ 53"
proof -
  have "length (members (groupKeysFor ''strategy'' tags) demo_latest k) \<le> 3"
    by (simp add: members_def demo_latest_def groupKeysFor_def)
  then show ?thesis by simp
qed

theorem aggregation_rows_witness:
  "\<exists>rows. perf_aggregate True (\<lambda>_. None) demo_query None None demo_tables demo_snaps = Some (Inr (rows, 2))
     \<and> ar_AvgT1 ` set rows = {None} \<and> sum_list (map ar_Count rows) = 3 \<and> ar_Key ` set rows = {''a'', ''UNGROUPED''}"
proof -
  let ?keys = "groupKeysFor ''strategy'' (\<lambda>i. map rt_Tag (filter (\<lambda>t. rt_RecommendationID t = i) (db_tags demo_tables)))"
  have q: "aq_Page demo_query = 1" "aq_PageSize demo_query = 20" "aq_GroupBy demo_query = ''strategy''"
    by (simp_all add: demo_query_def read_query_def atoiDefault_def defaultStr_def Let_def)
  obtain m where g: "group_rows ?keys demo_latest = ([''a'', ''UNGROUPED''], m)"
    by (simp add: group_rows_def group_step_def groupKeysFor_def demo_latest_def defaultStr_def)
  obtain rows where run: "perf_aggregate True (\<lambda>_. None) demo_query None None demo_tables demo_snaps = Some (Inr (rows, 2))"
    using g page_slice_first [of "slice_stable (group_before m) [''a'', ''UNGROUPED'']" 20]
    by (simp add: perf_aggregate_def q demo_latest [symmetric] Let_def)
  have "(\<forall>j\<in>set demo_latest. \<forall>v. v \<in> {jn_T1Return j, jn_T3Return j, jn_T5Return j, jn_MaxDrawdown j} \<longrightarrow> (\<forall>x\<in>set_option v. f_finite x))"
    by (auto simp: demo_latest_def)
  note rows = aggregation_rows [OF run q(1) _ _ demo_latest refl _ this, unfolded q(3), OF _ _ allI, OF _ _ demo_members]
  have "ar_AvgT1 r = None" if "r \<in> set rows" for r
  proof -
    have "known jn_T1Return (members ?keys demo_latest (ar_Key r)) = []"
      by (auto simp: known_def List.map_filter_def members_def demo_latest_def filter_empty_conv)
    then show ?thesis using rows that q(2) by (simp add: Let_def AverageReturn_def)
  qed
  moreover have "(\<Union>j\<in>set demo_latest. set (?keys j)) = {''a'', ''UNGROUPED''}"
    by (auto simp: demo_latest_def groupKeysFor_def defaultStr_def)
  moreover have "length demo_latest = 3" by (simp add: demo_latest_def)
  ultimately have facts: "(\<forall>r\<in>set rows. ar_AvgT1 r = None) \<and> sum_list (map ar_Count rows) = 3
      \<and> ar_Key ` set rows = {''a'', ''UNGROUPED''}"
    using rows q(2) by simp
  have "set rows \<noteq> {}" by (rule notI) (use facts in simp)
  then have "ar_AvgT1 ` set rows = {None}" using facts by (auto simp: image_iff)
  then show ?thesis using run facts by blast
qed

end
