(* ===== verification/Quote_Validation.thy ===== *)
theory Quote_Validation
  imports Source_Manager
begin

text \<open>
  Cross-source price checks, \<open>datasource/validate.go\<close>.  \<open>sort.Slice\<close> is an argument: it is not
  stable, so how it orders pairs of the same source is not determined.
\<close>

record source_quote =
  sq_Source :: string
  sq_Quote :: "quote option"

record inconsistency =
  ic_Source :: string
  ic_Other :: string
  ic_Price :: f64
  ic_OtherPx :: f64
  ic_Deviation :: f64
  ic_Threshold :: f64

definition valid_threshold :: "f64 \<Rightarrow> f64" where
  "valid_threshold t = (if f_le t (f_zero False) then default_threshold else t)"

text \<open>The price of a pair that is compared.\<close>

definition usable_price :: "source_quote \<Rightarrow> f64 option" where
  "usable_price p =
     (case sq_Quote p of
        None \<Rightarrow> None
      | Some q \<Rightarrow> if f_le (q_Price q) (f_zero False) then None else Some (q_Price q))"

definition compare_quotes :: "f64 \<Rightarrow> source_quote \<Rightarrow> source_quote \<Rightarrow> inconsistency list" where
  "compare_quotes thr a b =
     (case (usable_price a, usable_price b) of
        (Some pa, Some pb) \<Rightarrow>
          let denom = f_max pa pb
          in if f_eq denom (f_zero False) then []
             else let dev = f_div (f_abs (f_sub pa pb)) denom
                  in if f_lt thr dev
                     then [\<lparr>ic_Source = sq_Source a, ic_Other = sq_Source b, ic_Price = pa, ic_OtherPx = pb,
                            ic_Deviation = dev, ic_Threshold = thr\<rparr>,
                           \<lparr>ic_Source = sq_Source b, ic_Other = sq_Source a, ic_Price = pb, ic_OtherPx = pa,
                            ic_Deviation = dev, ic_Threshold = thr\<rparr>]
                     else []
      | _ \<Rightarrow> [])"

fun validate_pairs :: "f64 \<Rightarrow> source_quote list \<Rightarrow> inconsistency list" where
  "validate_pairs thr [] = []"
| "validate_pairs thr (p # ps) = concat (map (compare_quotes thr p) ps) @ validate_pairs thr ps"

definition ValidateQuotes ::
  "(source_quote list \<Rightarrow> source_quote list) \<Rightarrow> source_quote list \<Rightarrow> f64 \<Rightarrow> inconsistency list" where
  "ValidateQuotes srt pairs threshold = validate_pairs (valid_threshold threshold) (srt pairs)"

text \<open>\<open>CrossSourceQuoteValidator.Validate\<close>: sources that fail are left out; \<open>ck\<close> gives the time
  of each call.\<close>

record validator =
  cv_Sources :: "source list"
  cv_Threshold :: f64

definition NewCrossSourceQuoteValidator :: "source list \<Rightarrow> f64 \<Rightarrow> validator" where
  "NewCrossSourceQuoteValidator srcs t = \<lparr>cv_Sources = srcs, cv_Threshold = valid_threshold t\<rparr>"

definition collect_quotes :: "string \<Rightarrow> (nat \<Rightarrow> instant) \<Rightarrow> source list \<Rightarrow> source_quote list" where
  "collect_quotes code ck srcs =
     List.map_filter
       (\<lambda>i. case s_GetQuote (srcs ! i) code (ck i) of
              Inl _ \<Rightarrow> None
            | Inr q \<Rightarrow> Some \<lparr>sq_Source = s_Name (srcs ! i), sq_Quote = q\<rparr>)
       [0..<length srcs]"

definition cross_validate ::
  "(source_quote list \<Rightarrow> source_quote list) \<Rightarrow> validator \<Rightarrow> string \<Rightarrow> (nat \<Rightarrow> instant)
   \<Rightarrow> manager_error + inconsistency list" where
  "cross_validate srt v code ck =
     (if code = [] then Inl EmptyStockCode
      else let pairs = collect_quotes code ck (cv_Sources v)
           in if length pairs < 2 then Inr [] else Inr (ValidateQuotes srt pairs (cv_Threshold v)))"

section \<open>Deviations\<close>

lemma f_abs_round: "f_abs (f_round neg x) = f_round False \<bar>x\<bar>"
  using rnd_mag_nonneg [of "\<bar>x\<bar>"]
  by (auto simp: f_round_def f_zero_def Let_def abs_if split: if_splits)

lemma deviation_le_1:
  assumes "f_ok a" "f_ok b" "\<not> f_le a (f_zero False)" "\<not> f_le b (f_zero False)"
    and "f_div (f_abs (f_sub a b)) (f_max a b) \<noteq> NaN"
  shows "f_le (f_div (f_abs (f_sub a b)) (f_max a b)) (Fin 1)"
proof -
  obtain p q where ab: "a = Fin p" "b = Fin q" "0 < p" "0 < q"
    using assms(3-5)
    by (cases a; cases b)
      (auto simp: f_le_iff f_zero_def f_sub_def f_add_def f_div_def f_max_def split: if_splits)
  have mx: "f_max a b = Fin (max p q)" using ab by (auto simp: f_max_def f_is_zero_def max_def)
  have ok: "f_ok (Fin (max p q))" using assms(1,2) ab by (simp add: max_def)
  have abs: "f_abs (f_sub a b) = f_round False \<bar>p - q\<bar>"
    using ab by (simp add: f_sub_def f_add_def f_abs_round)
  have le: "f_le (f_round False \<bar>p - q\<bar>) (Fin (max p q))"
    by (rule f_round_le) (use ok ab in \<open>auto simp: max_def\<close>)
  have nn: "0 \<le> f_val (f_round False \<bar>p - q\<bar>)"
    using rnd_mag_nonneg [of "\<bar>p - q\<bar>"] by (auto simp: f_round_def f_zero_def Let_def)
  obtain v where v: "f_round False \<bar>p - q\<bar> = Fin v" "0 \<le> v" "v \<le> max p q"
    using le nn by (cases "f_round False \<bar>p - q\<bar>")
      (auto simp: f_le_iff f_round_def f_zero_def Let_def split: if_splits)
  have "f_div (Fin v) (Fin (max p q)) = f_round (v < 0) (v / max p q)"
    using ab by (auto simp: f_div_def f_is_zero_def max_def)
  moreover have "f_le (f_round (v < 0) (v / max p q)) (Fin 1)"
    by (rule f_round_le) (use v ab rep_mag_int [of 1] in \<open>auto simp: divide_le_eq max_def\<close>)
  ultimately show ?thesis by (simp add: abs mx v(1))
qed

lemma default_threshold_bounds:
  "f_le (Fin (1 / 256)) default_threshold" "f_le default_threshold (Fin (1 / 128))"
  unfolding default_threshold_def
  by (rule f_round_ge; use f_ok_pow2 [of 8] in simp) (rule f_round_le; use f_ok_pow2 [of 7] in simp)

lemma valid_threshold_pos: "\<not> f_le (valid_threshold t) (f_zero False)"
  using default_threshold_bounds(1)
  by (cases default_threshold) (auto simp: valid_threshold_def f_le_iff f_zero_def)

text \<open>Every pair of positions is compared once.\<close>

lemma set_validate_pairs:
  "set (validate_pairs thr ps) = (\<Union>{set (compare_quotes thr (ps ! i) (ps ! j)) | i j. i < j \<and> j < length ps})"
proof (induction ps)
  case (Cons p ps)
  have "(\<Union>{set (compare_quotes thr ((p # ps) ! i) ((p # ps) ! j)) | i j. i < j \<and> j < length (p # ps)})
      = (\<Union>{set (compare_quotes thr p (ps ! j)) | j. j < length ps})
        \<union> (\<Union>{set (compare_quotes thr (ps ! i) (ps ! j)) | i j. i < j \<and> j < length ps})"
    (is "?L = ?A \<union> ?B")
  proof
    show "?L \<subseteq> ?A \<union> ?B"
    proof
      fix x assume "x \<in> ?L"
      then obtain i j where ij: "i < j" "j < Suc (length ps)" "x \<in> set (compare_quotes thr ((p # ps) ! i) ((p # ps) ! j))"
        by auto
      then obtain j' where j: "j = Suc j'" by (cases j) auto
      show "x \<in> ?A \<union> ?B" using ij unfolding j by (cases i) auto
    qed
    show "?A \<union> ?B \<subseteq> ?L"
    proof
      fix x assume "x \<in> ?A \<union> ?B"
      then consider j where "j < length ps" "x \<in> set (compare_quotes thr p (ps ! j))"
        | i j where "i < j" "j < length ps" "x \<in> set (compare_quotes thr (ps ! i) (ps ! j))" by auto
      then show "x \<in> ?L"
      proof cases
        case (1 j)
        then have "0 < Suc j \<and> Suc j < length (p # ps)
            \<and> x \<in> set (compare_quotes thr ((p # ps) ! 0) ((p # ps) ! Suc j))" by simp
        then show ?thesis by blast
      next
        case (2 i j)
        then have "Suc i < Suc j \<and> Suc j < length (p # ps)
            \<and> x \<in> set (compare_quotes thr ((p # ps) ! Suc i) ((p # ps) ! Suc j))" by simp
        then show ?thesis by blast
      qed
    qed
  qed
  moreover have "set (concat (map (compare_quotes thr p) ps)) = \<Union>{set (compare_quotes thr p (ps ! j)) | j. j < length ps}"
    by (auto simp: in_set_conv_nth) (metis nth_mem)+
  ultimately show ?case using Cons.IH by simp
qed simp

definition mirrored :: "inconsistency \<Rightarrow> inconsistency" where
  "mirrored x = x\<lparr>ic_Source := ic_Other x, ic_Other := ic_Source x, ic_Price := ic_OtherPx x,
     ic_OtherPx := ic_Price x\<rparr>"

text \<open>Whatever the sort does, a reported inconsistency names two prices above zero whose deviation
  exceeds the effective threshold and is at most 1, and its mirror image is reported too; the
  effective threshold is positive even for a threshold that is not.\<close>

theorem ValidateQuotes_reports:
  assumes "x \<in> set (ValidateQuotes srt pairs threshold)"
    and "\<forall>p\<in>set (srt pairs). \<forall>q. sq_Quote p = Some q \<longrightarrow> f_ok (q_Price q)"
  shows "f_lt (ic_Threshold x) (ic_Deviation x) \<and> f_le (ic_Deviation x) (Fin 1)
    \<and> f_lt (Fin 0) (ic_Threshold x)
    \<and> f_lt (Fin 0) (ic_Price x) \<and> f_lt (Fin 0) (ic_OtherPx x)
    \<and> mirrored x \<in> set (ValidateQuotes srt pairs threshold)"
proof -
  let ?t = "valid_threshold threshold"
  obtain i j where ij: "i < j" "j < length (srt pairs)"
    and x: "x \<in> set (compare_quotes ?t (srt pairs ! i) (srt pairs ! j))"
    using assms(1) by (auto simp: ValidateQuotes_def set_validate_pairs)
  obtain pa pb where up: "usable_price (srt pairs ! i) = Some pa" "usable_price (srt pairs ! j) = Some pb"
    using x that
    by (cases "usable_price (srt pairs ! i)"; cases "usable_price (srt pairs ! j)")
      (simp_all add: compare_quotes_def)
  define dev where "dev = f_div (f_abs (f_sub pa pb)) (f_max pa pb)"
  have thr: "f_lt ?t dev" and ic: "ic_Deviation x = dev" "ic_Threshold x = ?t"
    "ic_Price x = pa \<and> ic_OtherPx x = pb \<or> ic_Price x = pb \<and> ic_OtherPx x = pa"
    using x by (auto simp: compare_quotes_def up Let_def dev_def split: if_splits)
  have in1: "srt pairs ! i \<in> set (srt pairs)" and in2: "srt pairs ! j \<in> set (srt pairs)"
    using ij by auto
  have ok: "f_ok pa" "f_ok pb" "\<not> f_le pa (f_zero False)" "\<not> f_le pb (f_zero False)"
    using up in1 in2 assms(2) by (auto simp: usable_price_def split: option.splits if_splits)
  have nn: "dev \<noteq> NaN" "?t \<noteq> NaN" using thr by (auto simp: f_lt_iff)
  have pn: "pa \<noteq> NaN" "pb \<noteq> NaN"
    using nn(1) by (auto simp: dev_def f_sub_def f_add_def f_div_def)
  have pos: "f_lt (Fin 0) y" if "\<not> f_le y (f_zero False)" "y \<noteq> NaN" for y
    using that f_not_lt [of "Fin 0" y] by (simp add: f_zero_def)
  have le: "f_le dev (Fin 1)" unfolding dev_def by (rule deviation_le_1) (use ok nn in \<open>auto simp: dev_def\<close>)
  have mir: "mirrored x \<in> set (compare_quotes ?t (srt pairs ! i) (srt pairs ! j))"
    using x by (auto simp: compare_quotes_def up Let_def mirrored_def split: if_splits)
  then have "mirrored x \<in> set (ValidateQuotes srt pairs threshold)"
    unfolding ValidateQuotes_def set_validate_pairs using ij by blast
  then show ?thesis
    using thr ic le ok pos [OF ok(3) pn(1)] pos [OF ok(4) pn(2)] pos [OF valid_threshold_pos nn(2)] by auto
qed

definition ex_quote :: "rat \<Rightarrow> quote" where
  "ex_quote p = \<lparr>q_StockCode = ''c'', q_StockName = [], q_Price = Fin p, q_Open = NaN, q_High = NaN, q_Low = NaN,
     q_PrevClose = NaN, q_Volume = 0, q_Amount = NaN, q_Bid5 = [], q_Ask5 = [],
     q_Timestamp = \<lparr>wt_instant = 0, wt_loc = 0\<rparr>, q_Source = []\<rparr>"

definition ex_pairs :: "source_quote list" where
  "ex_pairs = [\<lparr>sq_Source = ''a'', sq_Quote = Some (ex_quote 3)\<rparr>, \<lparr>sq_Source = ''b'', sq_Quote = Some (ex_quote 4)\<rparr>]"

definition ex_report :: inconsistency where
  "ex_report = \<lparr>ic_Source = ''a'', ic_Other = ''b'', ic_Price = Fin 3, ic_OtherPx = Fin 4,
     ic_Deviation = Fin (1 / 4), ic_Threshold = default_threshold\<rparr>"

theorem ValidateQuotes_reports_witness:
  "ex_report \<in> set (ValidateQuotes (\<lambda>ps. ps) ex_pairs (Fin 0)) \<and> f_lt default_threshold (Fin (1 / 4))"
proof -
  have small: "(1 :: rat) < f_limit" "(3 :: rat) < f_limit" "(4 :: rat) < f_limit" "(1 / 4 :: rat) < f_limit"
    using f_limit_gt by simp_all
  have "f_sub (Fin 3) (Fin 4) = f_round False (- 1)" by (simp add: f_sub_def f_add_def)
  also have "\<dots> = Fin (- 1)" using rep_mag_int [of 1] small by (subst f_round_exact) simp_all
  finally have "f_abs (f_sub (Fin 3) (Fin 4)) = Fin 1" by simp
  then have "f_div (f_abs (f_sub (Fin 3) (Fin 4))) (Fin 4) = f_round False (1 / 4)"
    by (simp add: f_div_def f_is_zero_def)
  also have "\<dots> = Fin (1 / 4)" using f_ok_pow2 [of 2] small by (subst f_round_exact) simp_all
  finally have dev: "f_div (f_abs (f_sub (Fin 3) (Fin 4))) (Fin 4) = Fin (1 / 4)" .
  have lt: "f_lt default_threshold (Fin (1 / 4))"
    using default_threshold_bounds(2) by (rule f_le_lt_trans) (simp add: f_lt_iff)
  have mem: "ex_report \<in> set (ValidateQuotes (\<lambda>ps. ps) ex_pairs (Fin 0))"
    using lt
    by (simp add: ValidateQuotes_def ex_pairs_def compare_quotes_def usable_price_def ex_quote_def Let_def
        dev f_le_iff f_eq_iff f_zero_def valid_threshold_def ex_report_def f_max_def f_is_zero_def)
  have ok: "\<forall>p\<in>set ex_pairs. \<forall>q. sq_Quote p = Some q \<longrightarrow> f_ok (q_Price q)"
    using rep_mag_int [of 3] rep_mag_int [of 4] small by (simp add: ex_pairs_def ex_quote_def)
  show ?thesis using ValidateQuotes_reports [OF mem ok] mem by (simp add: ex_report_def)
qed

end
