(* ===== verification/Reviews.thy ===== *)
theory Reviews
  imports Llm_Client Perf_Service App_Error Row_Table
begin

text \<open>
  The daily and weekly reviews of \<open>review/service.go\<close> and their cron entries, \<open>review/scheduler.go\<close>: a
  report of the recommendations of a period with the returns of their latest snapshots, told by the
  language model.  \<open>fail n\<close> is the error of the \<open>n\<close>-th statement of a call; the texts of floating-point
  numbers are arguments.  The figures of a report are stored in decimal columns and its period in date
  columns, so the report that is read later is not quite the one that was returned.
\<close>

section \<open>Reports\<close>

record review_report =
  rp_Kind :: string
  rp_PeriodStart :: instant
  rp_PeriodEnd :: instant
  rp_RecommendationCount :: int
  rp_WinRateT5 :: "f64 option"
  rp_AvgT5Return :: "f64 option"
  rp_Summary :: string
  rp_LLM :: string

text \<open>The row as the table keeps it.\<close>

definition stored_report :: "db_columns \<Rightarrow> review_report \<Rightarrow> review_report" where
  "stored_report c rep =
     rep\<lparr>rp_PeriodStart := column_date c (rp_PeriodStart rep), rp_PeriodEnd := column_date c (rp_PeriodEnd rep),
         rp_WinRateT5 := map_option (dc_decimal c 6) (rp_WinRateT5 rep),
         rp_AvgT5Return := map_option (dc_decimal c 6) (rp_AvgT5Return rep)\<rparr>"

definition ReviewKindDaily :: string where "ReviewKindDaily = ''daily''"
definition ReviewKindWeekly :: string where "ReviewKindWeekly = ''weekly''"

text \<open>The service: the reports unless there is no database, the summarizer unless it is nil.\<close>

record review_service =
  rs_reports :: "review_report table option"
  rs_llm :: "client option option"

definition no_review_db :: biz_error where
  "no_review_db = Unavailable ''review: db not configured''"

definition reviewSystemPrompt :: string where
  "reviewSystemPrompt = bytes [228, 189, 160, 230, 152, 175, 32, 65, 32, 232, 130, 161, 233, 135, 143, 229, 140,
    150, 233, 128, 137, 232, 130, 161, 231, 154, 132, 229, 164, 141, 231, 155, 152, 229, 136, 134, 230, 158, 144,
    229, 184, 136, 227, 128, 130, 230, 160, 185, 230, 141, 174, 231, 187, 153, 229, 174, 154, 231, 154, 132, 230,
    159, 144, 230, 151, 182, 230, 174, 181, 230, 142, 168, 232, 141, 144, 228, 184, 142, 229, 133, 182, 32, 84, 43,
    78, 32, 230, 148, 182, 231, 155, 138, 230, 149, 176, 230, 141, 174, 44, 10, 229, 134, 153, 228, 184, 128, 230,
    174, 181, 231, 174, 128, 230, 180, 129, 231, 154, 132, 228, 184, 173, 230, 150, 135, 229, 164, 141, 231, 155,
    152, 58, 229, 145, 189, 228, 184, 173, 231, 142, 135, 228, 184, 142, 229, 185, 179, 229, 157, 135, 230, 148,
    182, 231, 155, 138, 230, 128, 142, 228, 185, 136, 230, 160, 183, 227, 128, 129, 232, 161, 168, 231, 142, 176,
    230, 156, 128, 229, 165, 189, 47, 230, 156, 128, 229, 183, 174, 231, 154, 132, 230, 160, 135, 231, 154, 132,
    227, 128, 129, 229, 143, 175, 232, 131, 189, 231, 154, 132, 229, 189, 146, 229, 155, 160, 227, 128, 129, 228,
    184, 139, 228, 184, 128, 230, 173, 165, 230, 179, 168, 230, 132, 143, 231, 130, 185, 227, 128, 130, 10, 228,
    184, 141, 232, 182, 133, 232, 191, 135, 32, 51, 48, 48, 32, 229, 173, 151, 44, 228, 184, 141, 232, 166, 129,
    231, 188, 150, 233, 128, 160, 230, 149, 176, 230, 141, 174, 233, 135, 140, 230, 178, 161, 230, 156, 137, 231,
    154, 132, 230, 149, 176, 229, 173, 151, 227, 128, 130]"

section \<open>Figures\<close>

record pnl_row =
  pn_code :: string
  pn_t5 :: "f64 option"

text \<open>The rows for the summary, the sum of the known returns, their number and that of the positive ones.\<close>

record t5_sum =
  ts_rows :: "pnl_row list"
  ts_Sum :: f64
  ts_Known :: int
  ts_Wins :: int

definition t5_step :: "(nat \<Rightarrow> snapshot option) \<Rightarrow> recommendation \<Rightarrow> t5_sum \<Rightarrow> t5_sum" where
  "t5_step latest r a =
     (let t5 = Option.bind (latest (rec_ID r)) sn_T5Return;
          a' = a\<lparr>ts_rows := ts_rows a @ [\<lparr>pn_code = rec_StockCode r, pn_t5 = t5\<rparr>]\<rparr>
      in case t5 of
           None \<Rightarrow> a'
         | Some v \<Rightarrow> a'\<lparr>ts_Sum := f_add (ts_Sum a) v, ts_Known := ts_Known a + 1,
                       ts_Wins := ts_Wins a + (if f_lt (Fin 0) v then 1 else 0)\<rparr>)"

definition t5_total :: "(nat \<Rightarrow> snapshot option) \<Rightarrow> recommendation list \<Rightarrow> t5_sum" where
  "t5_total latest recs = fold (t5_step latest) recs \<lparr>ts_rows = [], ts_Sum = Fin 0, ts_Known = 0, ts_Wins = 0\<rparr>"

text \<open>The snapshots of the recommendations, by recommendation and newest first; the first of each counts.\<close>

definition review_snaps :: "nat list \<Rightarrow> snapshot list \<Rightarrow> snapshot list" where
  "review_snaps ids tb =
     sort_key (\<lambda>sn. (sn_RecommendationID sn, - sn_SnapshotDate sn)) (filter (\<lambda>sn. sn_RecommendationID sn \<in> set ids) tb)"

definition latest_of :: "snapshot list \<Rightarrow> nat \<Rightarrow> snapshot option" where
  "latest_of snaps i = find (\<lambda>sn. sn_RecommendationID sn = i) snaps"

section \<open>Summary\<close>

text \<open>\<open>fixed n\<close> is the verb \<open>%.nf\<close>.\<close>

definition t5_before :: "pnl_row \<Rightarrow> pnl_row \<Rightarrow> bool" where
  "t5_before a b = (case (pn_t5 a, pn_t5 b) of (Some x, Some y) \<Rightarrow> f_lt y x | _ \<Rightarrow> False)"

definition t5_line :: "(nat \<Rightarrow> f64 \<Rightarrow> string) \<Rightarrow> pnl_row \<Rightarrow> string" where
  "t5_line fixed r =
     (case pn_t5 r of
        None \<Rightarrow> []
      | Some v \<Rightarrow> ''  '' @ pn_code r @ '': '' @ fixed 2 (f_mul v (Fin 100)) @ ''%'' @ [CHR 0x0A])"

definition buildDataBlock :: "(nat \<Rightarrow> f64 \<Rightarrow> string) \<Rightarrow> review_report \<Rightarrow> pnl_row list \<Rightarrow> string" where
  "buildDataBlock fixed rep rows =
     (let day = (\<lambda>t. format_date (day_of 0 t));
          with_t5 = slice_stable t5_before (filter (\<lambda>r. pn_t5 r \<noteq> None) rows)
      in bytes [229, 164, 141, 231, 155, 152, 231, 177, 187, 229, 158, 139, 58, 32] @ rp_Kind rep
         @ bytes [10, 230, 151, 182, 230, 174, 181, 58, 32] @ day (rp_PeriodStart rep) @ '' ~ ''
         @ day (add_days (-1) (rp_PeriodEnd rep))
         @ bytes [10, 230, 142, 168, 232, 141, 144, 230, 149, 176, 58, 32] @ dec_int (rp_RecommendationCount rep) @ [CHR 0x0A]
         @ (case (rp_WinRateT5 rep, rp_AvgT5Return rep) of
              (Some w, Some a) \<Rightarrow>
                bytes [84, 43, 53, 32, 229, 145, 189, 228, 184, 173, 231, 142, 135, 58, 32] @ fixed 1 (f_mul w (Fin 100))
                @ bytes [37, 10, 84, 43, 53, 32, 229, 185, 179, 229, 157, 135, 230, 148, 182, 231, 155, 138, 58,
                  32] @ fixed 2 (f_mul a (Fin 100))
                @ ''%'' @ [CHR 0x0A]
            | _ \<Rightarrow> bytes [84, 43, 53, 32, 230, 149, 176, 230, 141, 174, 229, 176, 154, 230, 156, 170,
              229, 176, 177, 231, 187, 170, 40, 230, 142, 168, 232, 141, 144, 230, 156, 170, 230, 187, 161, 32, 53,
              32, 228, 184, 170, 228, 186, 164, 230, 152, 147, 230, 151, 165, 41, 10])
         @ (if with_t5 = [] then []
            else bytes [228, 184, 170, 232, 130, 161, 32, 84, 43, 53, 58, 10] @ concat (map (t5_line fixed) with_t5)))"

definition summarize :: "'w llm_env \<Rightarrow> client option option \<Rightarrow> string \<Rightarrow> 'w \<Rightarrow> (string \<times> string) \<times> 'w" where
  "summarize env llm block w =
     (case llm of
        None \<Rightarrow> ((block, ''none''), w)
      | Some p \<Rightarrow>
          (case provider_ask env p (AskSummary reviewSystemPrompt block) w of
             (r, w') \<Rightarrow>
               ((case r of
                   Inl _ \<Rightarrow> (block, ''none'')
                 | Inr out \<Rightarrow> if TrimSpace out = [] then (block, ''none'') else (out, provider_Name p)), w')))"

section \<open>Generate\<close>

definition truncate_day :: "instant \<Rightarrow> instant" where
  "truncate_day t = midnight 0 (day_of 0 t)"

record review_env =
  rv_columns :: db_columns
  rv_fail :: "nat \<Rightarrow> string option"
  rv_fixed :: "nat \<Rightarrow> f64 \<Rightarrow> string"

definition review_recs :: "instant \<Rightarrow> instant \<Rightarrow> recommendation list \<Rightarrow> recommendation list" where
  "review_recs ps pe recs = sort_key rec_ID (filter (\<lambda>r. ps \<le> rec_instant r \<and> rec_instant r < pe) recs)"

definition report_of :: "string \<Rightarrow> instant \<Rightarrow> instant \<Rightarrow> nat \<Rightarrow> t5_sum \<Rightarrow> review_report" where
  "report_of kind ps pe n a =
     \<lparr>rp_Kind = kind, rp_PeriodStart = ps, rp_PeriodEnd = pe, rp_RecommendationCount = int n,
      rp_WinRateT5 = (if 0 < ts_Known a then Some (f_div (f_of_int (ts_Wins a)) (f_of_int (ts_Known a))) else None),
      rp_AvgT5Return = (if 0 < ts_Known a then Some (f_div (ts_Sum a) (f_of_int (ts_Known a))) else None),
      rp_Summary = [], rp_LLM = []\<rparr>"

definition Generate ::
  "'w llm_env \<Rightarrow> review_env \<Rightarrow> string \<Rightarrow> instant \<Rightarrow> instant \<Rightarrow> recommendation list \<Rightarrow> snapshot list \<Rightarrow> review_service \<Rightarrow> 'w
   \<Rightarrow> (biz_error + nat \<times> review_report) \<times> review_service \<times> 'w" where
  "Generate env rv kind start fin recs tb s w =
     (case rs_reports s of
        None \<Rightarrow> (Inl no_review_db, s, w)
      | Some reports \<Rightarrow>
          let ps = truncate_day start; pe = truncate_day fin
          in if pe \<le> ps then (Inl (InvalidArg ''period_end must be after period_start''), s, w)
             else let found = review_recs ps pe recs
                  in case and_then (stmt (wrap_error CodeInternal ''review: load recs'') (rv_fail rv 0) ()) (\<lambda>_.
                       stmt (wrap_error CodeInternal ''review: load snapshots'') (if found = [] then None else rv_fail rv 1) ()) of
                       Inl e \<Rightarrow> (Inl e, s, w)
                     | Inr _ \<Rightarrow>
                         let total = t5_total (latest_of (review_snaps (map rec_ID found) tb)) found;
                             rep = report_of kind ps pe (length found) total
                         in (case summarize env (rs_llm s) (buildDataBlock (rv_fixed rv) rep (ts_rows total)) w of
                               ((summary, llm), w') \<Rightarrow>
                                 let rep' = rep\<lparr>rp_Summary := summary, rp_LLM := llm\<rparr>
                                 in (case rv_fail rv 2 of
                                       Some e \<Rightarrow> (Inl (wrap_error CodeInternal ''review: persist'' e), s, w')
                                     | None \<Rightarrow>
                                         (case tb_create (stored_report (rv_columns rv) rep') reports of
                                            (i, t) \<Rightarrow> (Inr (i, rep'), s\<lparr>rs_reports := Some t\<rparr>, w')))))"

definition GenerateDaily ::
  "'w llm_env \<Rightarrow> review_env \<Rightarrow> instant \<Rightarrow> recommendation list \<Rightarrow> snapshot list \<Rightarrow> review_service \<Rightarrow> 'w
   \<Rightarrow> (biz_error + nat \<times> review_report) \<times> review_service \<times> 'w" where
  "GenerateDaily env rv now = (let day = truncate_day now in Generate env rv ReviewKindDaily day (add_days 1 day))"

definition GenerateWeekly ::
  "'w llm_env \<Rightarrow> review_env \<Rightarrow> instant \<Rightarrow> recommendation list \<Rightarrow> snapshot list \<Rightarrow> review_service \<Rightarrow> 'w
   \<Rightarrow> (biz_error + nat \<times> review_report) \<times> review_service \<times> 'w" where
  "GenerateWeekly env rv now =
     (let fin = add_days 1 (truncate_day now) in Generate env rv ReviewKindWeekly (add_days (-7) fin) fin)"

section \<open>Queries\<close>

definition review_List :: "string option \<Rightarrow> string \<Rightarrow> int \<Rightarrow> review_service \<Rightarrow> biz_error + (nat \<times> review_report) list" where
  "review_List fail kind limit s =
     (case rs_reports s of
        None \<Rightarrow> Inl no_review_db
      | Some t \<Rightarrow>
          stmt (wrap_error CodeInternal ''review: list'') fail
            (take (nat (if limit \<le> 0 \<or> 200 < limit then 30 else limit))
               (rev (tb_where (\<lambda>r. kind = [] \<or> rp_Kind r = kind) t))))"

definition review_Get :: "string option \<Rightarrow> nat \<Rightarrow> review_service \<Rightarrow> biz_error + review_report" where
  "review_Get fail i s =
     (case rs_reports s of
        None \<Rightarrow> Inl no_review_db
      | Some t \<Rightarrow>
          (case (if fail = None then tb_first i t else None) of
             None \<Rightarrow> Inl (NotFound ''review report not found'')
           | Some r \<Rightarrow> Inr r))"

section \<open>The scheduler\<close>

text \<open>The entries are the parsed schedules with the kind they generate; \<open>parse\<close> and the time zone table are
  those of the libraries.\<close>

record 'sched review_scheduler =
  rw_DailyCron :: string
  rw_WeeklyCron :: string
  rw_Location :: location
  rw_entries :: "('sched \<times> string) list"
  rw_active :: bool
  rw_running :: bool

definition review_NewScheduler ::
  "(string \<Rightarrow> string + location) \<Rightarrow> (string \<Rightarrow> string) \<Rightarrow> bool \<Rightarrow> string \<Rightarrow> string \<Rightarrow> string \<Rightarrow> string + 'sched review_scheduler" where
  "review_NewScheduler zone quote has_svc daily weekly tz0 =
     (if \<not> has_svc then Inl ''review: scheduler: nil service''
      else let tz = (if tz0 = [] then ''Asia/Shanghai'' else tz0)
           in case zone tz of
                Inl e \<Rightarrow> Inl (''review: scheduler: load timezone '' @ quote tz @ '': '' @ e)
              | Inr loc \<Rightarrow> Inr \<lparr>rw_DailyCron = daily, rw_WeeklyCron = weekly, rw_Location = loc, rw_entries = [],
                              rw_active = False, rw_running = False\<rparr>)"

definition add_entry ::
  "(string \<Rightarrow> string + 'sched) \<Rightarrow> (string \<Rightarrow> string) \<Rightarrow> string \<Rightarrow> string \<Rightarrow> 'sched review_scheduler
   \<Rightarrow> string option \<times> 'sched review_scheduler" where
  "add_entry parse quote expr kind s =
     (if expr = [] then (None, s)
      else case parse expr of
             Inl e \<Rightarrow> (Some (''review: scheduler: parse '' @ quote expr @ '': '' @ e), s)
           | Inr sc \<Rightarrow> (None, s\<lparr>rw_entries := rw_entries s @ [(sc, kind)]\<rparr>))"

definition review_Start ::
  "(string \<Rightarrow> string + 'sched) \<Rightarrow> (string \<Rightarrow> string) \<Rightarrow> 'sched review_scheduler \<Rightarrow> string option \<times> 'sched review_scheduler" where
  "review_Start parse quote s =
     (case add_entry parse quote (rw_DailyCron s) ''daily'' s of
        (Some e, s1) \<Rightarrow> (Some e, s1)
      | (None, s1) \<Rightarrow>
          (case add_entry parse quote (rw_WeeklyCron s) ''weekly'' s1 of
             (Some e, s2) \<Rightarrow> (Some e, s2)
           | (None, s2) \<Rightarrow> (None, s2\<lparr>rw_active := True, rw_running := True\<rparr>)))"

text \<open>\<open>drained\<close>: whether the running jobs end before the context does, else its error.\<close>

definition review_Stop :: "string option \<Rightarrow> 'sched review_scheduler \<Rightarrow> string option \<times> 'sched review_scheduler" where
  "review_Stop drained s =
     (if \<not> rw_active s then (None, s) else (drained, s\<lparr>rw_active := False, rw_running := False\<rparr>))"

section \<open>The figures of a report\<close>

text \<open>The known returns of the recommendations, in their order.\<close>

definition t5_values :: "(nat \<Rightarrow> snapshot option) \<Rightarrow> recommendation list \<Rightarrow> f64 list" where
  "t5_values latest recs = List.map_filter (\<lambda>r. Option.bind (latest (rec_ID r)) sn_T5Return) recs"

lemma map_filter_append: "List.map_filter f (xs @ ys) = List.map_filter f xs @ List.map_filter f ys"
  by (simp add: List.map_filter_def)

lemma t5_total_eq:
  "t5_total latest recs =
     \<lparr>ts_rows = map (\<lambda>r. \<lparr>pn_code = rec_StockCode r, pn_t5 = Option.bind (latest (rec_ID r)) sn_T5Return\<rparr>) recs,
      ts_Sum = foldl f_add (Fin 0) (t5_values latest recs), ts_Known = int (length (t5_values latest recs)),
      ts_Wins = int (length (filter (f_lt (Fin 0)) (t5_values latest recs)))\<rparr>"
proof (induction recs rule: rev_induct)
  case (snoc r recs)
  have "t5_total latest (recs @ [r]) = t5_step latest r (t5_total latest recs)" by (simp add: t5_total_def)
  then show ?case unfolding snoc
    by (cases "Option.bind (latest (rec_ID r)) sn_T5Return")
      (simp_all add: t5_step_def Let_def t5_values_def map_filter_append List.map_filter_simps)
qed (simp add: t5_total_def t5_values_def List.map_filter_simps)

text \<open>With one snapshot per recommendation and date, the two queries for the latest snapshot agree.\<close>

lemma find_hd: "find P xs = (case filter P xs of [] \<Rightarrow> None | x # _ \<Rightarrow> Some x)"
  by (induction xs) auto

lemma latest_of_eq:
  assumes "distinct (map sn_key tb)" "i \<in> set ids"
  shows "latest_of (review_snaps ids tb) i = LatestSnapshotForRec i tb"
proof -
  let ?mine = "filter (\<lambda>sn. sn_RecommendationID sn = i)" and ?both = "\<lambda>sn. (sn_RecommendationID sn, - sn_SnapshotDate sn)"
  have "?mine (filter (\<lambda>sn. sn_RecommendationID sn \<in> set ids) tb) = ?mine tb"
    unfolding filter_filter by (rule filter_cong) (use assms(2) in auto)
  then have "?mine (review_snaps ids tb) = sort_key ?both (?mine tb)"
    unfolding review_snaps_def filter_sort by (rule arg_cong)
  moreover have "sort_key (\<lambda>sn. - sn_SnapshotDate sn) (?mine (rev tb)) = sort_key ?both (?mine tb)"
  proof (rule sort_key_inj_key_eq)
    show "mset (?mine (rev tb)) = mset (sort_key ?both (?mine tb))" by simp
    show "inj_on (\<lambda>sn. - sn_SnapshotDate sn) (set (?mine (rev tb)))"
      using assms(1) by (auto simp: inj_on_def distinct_map sn_key_def)
    have "sorted (map ?both (sort_key ?both (?mine tb)))" by simp
    then have "sorted_wrt (\<lambda>a b. ?both a \<le> ?both b) (sort_key ?both (?mine tb))" by (simp only: sorted_map)
    then have "sorted_wrt (\<lambda>a b. - sn_SnapshotDate a \<le> - sn_SnapshotDate b) (sort_key ?both (?mine tb))"
      by (rule sorted_wrt_mono_rel [rotated]) (simp add: less_eq_prod_def)
    then show "sorted (map (\<lambda>sn. - sn_SnapshotDate sn) (sort_key ?both (?mine tb)))" by (simp add: sorted_map)
  qed
  ultimately show ?thesis unfolding latest_of_def LatestSnapshotForRec_def find_hd by (simp only:)
qed

text \<open>The table of a report lists the stocks from the best return to the worst, equals in their order.\<close>

interpretation pnl_rows: keyed_less t5_before "\<lambda>r. (- f_class (the (pn_t5 r)), - f_val (the (pn_t5 r)))"
  "{r. pn_t5 r \<noteq> None \<and> pn_t5 r \<noteq> Some NaN}"
  by unfold_locales (auto simp: t5_before_def f_lt_iff less_prod_def)

text \<open>The data block does not look at the body.\<close>

lemma data_block_body [simp]:
  "buildDataBlock fixed (rep\<lparr>rp_Summary := x, rp_LLM := y\<rparr>) rows = buildDataBlock fixed rep rows"
  by (simp add: buildDataBlock_def)

text \<open>C38: On a snapshot table with one row per recommendation and date and finite returns, and a
  well-formed table of reports: the report
  that is returned is of the given kind and covers the whole UTC days from start to end; its figures
  are the calculator's win rate and average over the T+5 returns that the latest snapshots of
  exactly the recommendations of these days have; and its body, never empty, is the answer of the
  language model under the name of the model, or, with the name none, exactly the data block of
  these figures and returns, when there is no model, it fails or its answer is blank.  What is
  stored, and read back under its identifier, is that report as the columns keep it: the two figures
  to six decimal places, the period as dates.\<close>

theorem Generate_report:
  assumes "Generate env rv kind start fin recs tb s w = (Inr (i, rep), s', w')"
    and "distinct (map sn_key tb)" "tb_ok (the (rs_reports s))"
    and "\<forall>sn\<in>set tb. \<forall>v. sn_T5Return sn = Some v \<longrightarrow> f_finite v"
    and "found = review_recs (truncate_day start) (truncate_day fin) recs"
    and "returns = t5_values (\<lambda>i. LatestSnapshotForRec i tb) found"
    and "block = buildDataBlock (rv_fixed rv) rep
           (map (\<lambda>r. \<lparr>pn_code = rec_StockCode r, pn_t5 = Option.bind (LatestSnapshotForRec (rec_ID r) tb) sn_T5Return\<rparr>) found)"
    and "answer = (\<lambda>p. fst (provider_ask env p (AskSummary reviewSystemPrompt block) w))"
  shows "mset found = mset (filter (\<lambda>r. truncate_day start \<le> rec_instant r \<and> rec_instant r < truncate_day fin) recs)
    \<and> rp_Kind rep = kind \<and> rp_PeriodStart rep = truncate_day start \<and> rp_PeriodEnd rep = truncate_day fin
    \<and> rp_RecommendationCount rep = int (length found)
    \<and> rp_WinRateT5 rep = WinRate returns \<and> rp_AvgT5Return rep = AverageReturn returns
    \<and> (if \<exists>p out. rs_llm s = Some p \<and> answer p = Inr out \<and> TrimSpace out \<noteq> []
       then \<exists>p. rs_llm s = Some p \<and> answer p = Inr (rp_Summary rep) \<and> rp_LLM rep = provider_Name p
       else rp_Summary rep = block \<and> rp_LLM rep = ''none'')
    \<and> rp_Summary rep \<noteq> [] \<and> review_Get None i s' = Inr (stored_report (rv_columns rv) rep)"
proof -
  obtain reports where reports: "rs_reports s = Some reports" using assms(1) by (auto simp: Generate_def split: option.splits)
  let ?ps = "truncate_day start" and ?pe = "truncate_day fin"
  let ?total = "t5_total (latest_of (review_snaps (map rec_ID found) tb)) found"
  let ?rep = "report_of kind ?ps ?pe (length found) ?total"
  let ?block = "buildDataBlock (rv_fixed rv) ?rep (ts_rows ?total)"
  obtain sm llm w2 where sum: "summarize env (rs_llm s) ?block w = ((sm, llm), w2)" by (metis prod.collapse)
  have rep: "rep = ?rep\<lparr>rp_Summary := sm, rp_LLM := llm\<rparr>" "i = tb_next reports"
    "s' = s\<lparr>rs_reports := Some (snd (tb_create (stored_report (rv_columns rv) rep) reports))\<rparr>"
    using assms(1) unfolding Generate_def reports option.case Let_def assms(5) [symmetric] sum prod.case
    by (auto simp: tb_create_def sum split: if_splits sum.splits option.splits)
  have same: "?total = t5_total (\<lambda>i. LatestSnapshotForRec i tb) found"
    unfolding t5_total_def
    by (rule fold_cong) (simp_all add: fun_eq_iff t5_step_def latest_of_eq [OF assms(2)])
  have fin: "\<forall>v\<in>set returns. f_finite v"
  proof
    fix v assume "v \<in> set returns"
    then obtain r :: recommendation and sn where "LatestSnapshotForRec (rec_ID r) tb = Some sn" "sn_T5Return sn = Some v"
      by (auto simp: assms(6) t5_values_def List.map_filter_def bind_eq_Some_conv)
    moreover from this(1) obtain rest where rest: "sort_key (\<lambda>sn. - sn_SnapshotDate sn)
        (filter (\<lambda>sn. sn_RecommendationID sn = rec_ID r) (rev tb)) = sn # rest"
      by (auto simp: LatestSnapshotForRec_def split: list.splits)
    have "sn \<in> set (sn # rest)" by simp
    then have "sn \<in> set tb" unfolding rest [symmetric] by simp
    ultimately show "f_finite v" using assms(4) by auto
  qed
  then have "filter f_finite returns = returns" by (simp add: filter_id_conv)
  then have figures: "rp_WinRateT5 rep = WinRate returns" "rp_AvgT5Return rep = AverageReturn returns"
    unfolding rep(1) same unfolding t5_total_eq assms(6) [symmetric]
    by (auto simp: report_of_def WinRate_def AverageReturn_def Let_def)
  have block: "?block = block" "block \<noteq> []"
    unfolding assms(7) rep(1) data_block_body same by (simp_all add: t5_total_eq) (simp add: buildDataBlock_def Let_def bytes_def)
  have body: "if \<exists>p out. rs_llm s = Some p \<and> answer p = Inr out \<and> TrimSpace out \<noteq> []
      then \<exists>p. rs_llm s = Some p \<and> answer p = Inr sm \<and> llm = provider_Name p else sm = block \<and> llm = ''none''"
    using sum unfolding block(1) assms(8)
    by (auto simp: summarize_def split: option.splits prod.splits sum.splits if_splits)
  have "TrimSpace sm \<noteq> [] \<or> sm = block" using body by (auto split: if_splits)
  then have "sm \<noteq> []" using block(2) TrimSpace_empty by auto
  moreover have "review_Get None i s' = Inr (stored_report (rv_columns rv) rep)"
    using tbl.first_create [of reports i "stored_report (rv_columns rv) rep"] assms(3)
    by (simp add: rep(2,3) review_Get_def reports tb_create_def)
  moreover have "mset found = mset (filter (\<lambda>r. ?ps \<le> rec_instant r \<and> rec_instant r < ?pe) recs)"
    by (simp add: assms(5) review_recs_def)
  moreover have "rp_Kind rep = kind" "rp_PeriodStart rep = ?ps" "rp_PeriodEnd rep = ?pe"
    "rp_RecommendationCount rep = int (length found)" "rp_Summary rep = sm" "rp_LLM rep = llm"
    by (simp_all add: rep(1) report_of_def)
  ultimately show ?thesis using figures body by (simp only: simp_thms)
qed

definition demo_review :: review_service where
  "demo_review = \<lparr>rs_reports = Some empty_table, rs_llm = None\<rparr>"

definition demo_review_env :: review_env where
  "demo_review_env = \<lparr>rv_columns = rounding_columns, rv_fail = (\<lambda>_. None), rv_fixed = (\<lambda>_ _. ''12.50'')\<rparr>"

definition demo_snapshot :: snapshot where
  "demo_snapshot = empty_snapshot\<lparr>sn_RecommendationID := rec_ID demo_rec, sn_T5Return := Some (Fin (1 / 8))\<rparr>"

theorem Generate_report_witness:
  "\<exists>rep s'. Generate demo_llm demo_review_env ReviewKindDaily (rec_instant demo_rec) (add_days 1 (rec_instant demo_rec))
       [demo_rec] [demo_snapshot] demo_review 0 = (Inr (1, rep), s', 0)
     \<and> rp_RecommendationCount rep = 1 \<and> rp_AvgT5Return rep = AverageReturn [Fin (1 / 8)] \<and> rp_LLM rep = ''none''
     \<and> review_Get None 1 s' = Inr (stored_report rounding_columns rep)"
proof -
  let ?t = "rec_instant demo_rec"
  have days: "truncate_day ?t = ?t" "truncate_day (add_days 1 ?t) = add_days 1 ?t"
    by (simp_all add: truncate_day_def rec_instant_def add_days_midnight)
  have next_day: "?t < add_days 1 ?t" by (simp add: add_days_def)
  have found: "review_recs ?t (add_days 1 ?t) [demo_rec] = [demo_rec]"
    using next_day by (simp add: review_recs_def)
  obtain i rep s' w' where run: "Generate demo_llm demo_review_env ReviewKindDaily ?t (add_days 1 ?t) [demo_rec] [demo_snapshot]
      demo_review 0 = (Inr (i, rep), s', w')" and iw: "i = 1" "w' = (0 :: nat)"
    using next_day
    by (simp add: Generate_def demo_review_def demo_review_env_def days found Let_def stmt_def summarize_def empty_table_def
        tb_create_def)
  have returns: "t5_values (\<lambda>i. LatestSnapshotForRec i [demo_snapshot]) [demo_rec] = [Fin (1 / 8)]"
    by (simp add: t5_values_def List.map_filter_simps LatestSnapshotForRec_def demo_snapshot_def)
  have table: "distinct (map sn_key [demo_snapshot])" "tb_ok (the (rs_reports demo_review))"
    "\<forall>sn\<in>set [demo_snapshot]. \<forall>v. sn_T5Return sn = Some v \<longrightarrow> f_finite v"
    using tb_ok_empty by (simp_all add: demo_review_def demo_snapshot_def)
  have found': "[demo_rec] = review_recs (truncate_day ?t) (truncate_day (add_days 1 ?t)) [demo_rec]"
    by (simp only: days found)
  note report = Generate_report [OF run table found' refl refl refl, unfolded returns]
  have "rs_llm demo_review = None" "rv_columns demo_review_env = rounding_columns"
    by (simp_all add: demo_review_def demo_review_env_def)
  with report have "rp_RecommendationCount rep = 1" "rp_AvgT5Return rep = AverageReturn [Fin (1 / 8)]" "rp_LLM rep = ''none''"
    "review_Get None i s' = Inr (stored_report rounding_columns rep)" by simp_all
  with run show ?thesis unfolding iw by blast
qed

end
