(* ===== verification/Positions.thy ===== *)
theory Positions
  imports App_Error Row_Table Source_Types Db_Columns
begin

text \<open>
  The holdings ledger, \<open>position/service.go\<close>: rows are entered and edited by hand; prices, values
  and profits are computed on read.  \<open>err\<close> arguments are outcomes of database statements; a quote
  source is a function of its own state.
\<close>

record position_row =
  pos_StockCode :: string
  pos_StockName :: string
  pos_CostPrice :: f64
  pos_Quantity :: int
  pos_OpenedAt :: instant
  pos_SourceRecommendationID :: nat
  pos_Note :: string

type_synonym book = "position_row table"

type_synonym 's quote_source = "string \<Rightarrow> 's \<Rightarrow> (string + quote option) \<times> 's"

section \<open>Operations\<close>

record create_input =
  ci_StockCode :: string
  ci_StockName :: string
  ci_CostPrice :: f64
  ci_Quantity :: int
  ci_OpenedAt :: "instant option"
  ci_SourceRecommendationID :: nat
  ci_Note :: string

definition utc_day :: "instant \<Rightarrow> instant" where
  "utc_day t = midnight 0 (day_of 0 t)"

text \<open>The row as the table keeps it: the cost price is a decimal column of four places, the opening day a
  date.\<close>

definition stored_position :: "db_columns \<Rightarrow> position_row \<Rightarrow> position_row" where
  "stored_position c p =
     p\<lparr>pos_CostPrice := dc_decimal c 4 (pos_CostPrice p), pos_OpenedAt := column_date c (pos_OpenedAt p)\<rparr>"

text \<open>\<open>db\<close> is \<^const>\<open>None\<close> when no database is configured.  The position returned is the one that was
  built, not the stored row.\<close>

definition pos_Create ::
  "db_columns \<Rightarrow> instant \<Rightarrow> string option \<Rightarrow> create_input \<Rightarrow> book option \<Rightarrow> (biz_error + nat \<times> position_row) \<times> book option" where
  "pos_Create c now err inp db =
     (case db of
        None \<Rightarrow> (Inl (Unavailable ''position: db not configured''), db)
      | Some t \<Rightarrow>
          if ci_StockCode inp = [] then (Inl (InvalidArg ''stock_code is required''), db)
          else if f_le (ci_CostPrice inp) (Fin 0) then (Inl (InvalidArg ''cost_price must be > 0''), db)
          else if ci_Quantity inp \<le> 0 then (Inl (InvalidArg ''quantity must be > 0''), db)
          else
            let opened = (case ci_OpenedAt inp of None \<Rightarrow> utc_day now | Some d \<Rightarrow> utc_day d);
                p = \<lparr>pos_StockCode = ci_StockCode inp, pos_StockName = ci_StockName inp,
                     pos_CostPrice = ci_CostPrice inp, pos_Quantity = ci_Quantity inp, pos_OpenedAt = opened,
                     pos_SourceRecommendationID = ci_SourceRecommendationID inp, pos_Note = ci_Note inp\<rparr>
            in case err of
                 Some e \<Rightarrow> (Inl (wrap_error CodeInternal ''position: create'' e), db)
               | None \<Rightarrow> (case tb_create (stored_position c p) t of (i, t') \<Rightarrow> (Inr (i, p), Some t')))"

record update_input =
  ui_CostPrice :: "f64 option"
  ui_Quantity :: "int option"
  ui_Note :: "string option"

definition or_keep :: "'a option \<Rightarrow> 'a \<Rightarrow> 'a" where
  "or_keep new old = (case new of None \<Rightarrow> old | Some x \<Rightarrow> x)"

definition pos_Update ::
  "db_columns \<Rightarrow> string option \<Rightarrow> nat \<Rightarrow> update_input \<Rightarrow> book option \<Rightarrow> (biz_error + position_row) \<times> book option" where
  "pos_Update c err ident inp db =
     (case db of
        None \<Rightarrow> (Inl (Unavailable ''position: db not configured''), db)
      | Some t \<Rightarrow>
          (case tb_first ident t of
             None \<Rightarrow> (Inl (NotFound ''position not found''), db)
           | Some p \<Rightarrow>
               if f_le (or_keep (ui_CostPrice inp) (Fin 1)) (Fin 0)
               then (Inl (InvalidArg ''cost_price must be > 0''), db)
               else if or_keep (ui_Quantity inp) 1 \<le> 0 then (Inl (InvalidArg ''quantity must be > 0''), db)
               else
                 let p' = p\<lparr>pos_CostPrice := or_keep (ui_CostPrice inp) (pos_CostPrice p),
                            pos_Quantity := or_keep (ui_Quantity inp) (pos_Quantity p),
                            pos_Note := or_keep (ui_Note inp) (pos_Note p)\<rparr>
                 in case err of
                      Some e \<Rightarrow> (Inl (wrap_error CodeInternal ''position: update'' e), db)
                    | None \<Rightarrow> (Inr p', Some (tb_save ident (stored_position c p') t))))"

definition pos_Close :: "string option \<Rightarrow> nat \<Rightarrow> book option \<Rightarrow> biz_error option \<times> book option" where
  "pos_Close err ident db =
     (case db of
        None \<Rightarrow> (Some (Unavailable ''position: db not configured''), db)
      | Some t \<Rightarrow>
          (case err of
             Some e \<Rightarrow> (Some (wrap_error CodeInternal ''position: close'' e), db)
           | None \<Rightarrow>
               if tb_first ident t = None then (Some (NotFound ''position not found''), db)
               else (None, Some (tb_delete ident t))))"

section \<open>The enriched list\<close>

record view =
  vw_id :: nat
  vw_Position :: position_row
  vw_CurrentPrice :: "f64 option"
  vw_MarketValue :: "f64 option"
  vw_CostValue :: f64
  vw_PnL :: "f64 option"
  vw_PnLPct :: "f64 option"

text \<open>The price of a position: none without a quote source, on an error, for a nil quote and for a
  price that is not positive.\<close>

definition live_price :: "'s quote_source option \<Rightarrow> string \<Rightarrow> 's \<Rightarrow> f64 option \<times> 's" where
  "live_price src code s =
     (case src of
        None \<Rightarrow> (None, s)
      | Some get \<Rightarrow>
          (case get code s of
             (Inr (Some q), s') \<Rightarrow> (if f_lt (Fin 0) (q_Price q) then Some (q_Price q) else None, s')
           | (_, s') \<Rightarrow> (None, s')))"

definition make_view :: "nat \<Rightarrow> position_row \<Rightarrow> f64 option \<Rightarrow> view" where
  "make_view i p price =
     (let cost = f_mul (pos_CostPrice p) (f_of_int (pos_Quantity p));
          mv = map_option (\<lambda>x. f_mul x (f_of_int (pos_Quantity p))) price;
          pnl = map_option (\<lambda>v. f_sub v cost) mv
      in \<lparr>vw_id = i, vw_Position = p, vw_CurrentPrice = price, vw_MarketValue = mv, vw_CostValue = cost,
          vw_PnL = pnl,
          vw_PnLPct = (if f_lt (Fin 0) cost then map_option (\<lambda>v. f_div v cost) pnl else None)\<rparr>)"

fun list_loop :: "'s quote_source option \<Rightarrow> (nat \<times> position_row) list \<Rightarrow> 's \<Rightarrow> view list \<times> 's" where
  "list_loop src [] s = ([], s)"
| "list_loop src ((i, p) # ps) s =
     (case live_price src (pos_StockCode p) s of
        (price, s1) \<Rightarrow> (case list_loop src ps s1 of (vs, s2) \<Rightarrow> (make_view i p price # vs, s2)))"

definition pos_List ::
  "string option \<Rightarrow> 's quote_source option \<Rightarrow> book option \<Rightarrow> 's \<Rightarrow> (biz_error + view list) \<times> 's" where
  "pos_List err src db s =
     (case db of
        None \<Rightarrow> (Inl (Unavailable ''position: db not configured''), s)
      | Some t \<Rightarrow>
          (case err of
             Some e \<Rightarrow> (Inl (wrap_error CodeInternal ''position: list'' e), s)
           | None \<Rightarrow> (case list_loop src (rev (tb_rows t)) s of (vs, s') \<Rightarrow> (Inr vs, s'))))"

record summary_row =
  su_Count :: nat
  su_TotalCostValue :: f64
  su_TotalMarketValue :: "f64 option"
  su_TotalPnL :: "f64 option"
  su_PricedCount :: nat

definition costOfPriced :: "view list \<Rightarrow> f64" where
  "costOfPriced views =
     foldl (\<lambda>c v. if vw_MarketValue v \<noteq> None then f_add c (vw_CostValue v) else c) (Fin 0) views"

definition Summarize :: "view list \<Rightarrow> summary_row" where
  "Summarize views =
     (let mv = foldl (\<lambda>m v. case vw_MarketValue v of None \<Rightarrow> m | Some x \<Rightarrow> f_add m x) (Fin 0) views;
          priced = length (filter (\<lambda>v. vw_MarketValue v \<noteq> None) views)
      in \<lparr>su_Count = length views,
          su_TotalCostValue = foldl (\<lambda>c v. f_add c (vw_CostValue v)) (Fin 0) views,
          su_TotalMarketValue = (if priced > 0 then Some mv else None),
          su_TotalPnL = (if priced > 0 then Some (f_sub mv (costOfPriced views)) else None),
          su_PricedCount = priced\<rparr>)"

section \<open>The book stays well-formed\<close>

text \<open>The cost price of a position is what the column keeps of a price that is not zero or less.\<close>

definition kept_price :: "db_columns \<Rightarrow> f64 \<Rightarrow> bool" where
  "kept_price c y \<longleftrightarrow> (\<exists>x. \<not> f_le x (Fin 0) \<and> y = dc_decimal c 4 x \<and> (x \<noteq> NaN \<longrightarrow> f_le (Fin 0) y))"

definition position_ok :: "db_columns \<Rightarrow> nat \<Rightarrow> position_row \<Rightarrow> bool" where
  "position_ok c i p \<longleftrightarrow>
     pos_StockCode p \<noteq> [] \<and> kept_price c (pos_CostPrice p) \<and> 0 < pos_Quantity p
     \<and> (\<exists>d. pos_OpenedAt p = column_date c (midnight 0 d))"

definition book_ok :: "db_columns \<Rightarrow> book option \<Rightarrow> bool" where
  "book_ok c db \<longleftrightarrow> (case db of None \<Rightarrow> True | Some t \<Rightarrow> tbl.all_rows (position_ok c) t)"

lemma kept_price_new: "decimal_laws c \<Longrightarrow> \<not> f_le x (Fin 0) \<Longrightarrow> kept_price c (dc_decimal c 4 x)"
  unfolding kept_price_def decimal_laws_def
  by (rule exI [of _ x]) (cases x; auto simp: f_le_iff)

lemma kept_price_again: "decimal_laws c \<Longrightarrow> kept_price c y \<Longrightarrow> dc_decimal c 4 y = y"
  by (auto simp: kept_price_def decimal_laws_def)

datatype position_request =
    Create_position instant "string option" create_input
  | Update_position "string option" nat update_input
  | Close_position "string option" nat

fun position_step :: "db_columns \<Rightarrow> position_request \<Rightarrow> book option \<Rightarrow> book option" where
  "position_step c (Create_position now err inp) db = snd (pos_Create c now err inp db)"
| "position_step c (Update_position err i inp) db = snd (pos_Update c err i inp db)"
| "position_step c (Close_position err i) db = snd (pos_Close err i db)"

lemma position_ok_create:
  assumes "decimal_laws c" "pos_StockCode p \<noteq> []" "\<not> f_le (pos_CostPrice p) (Fin 0)" "0 < pos_Quantity p"
    and "pos_OpenedAt p = utc_day t"
  shows "position_ok c i (stored_position c p)"
  using assms kept_price_new [OF assms(1,3)] by (auto simp: position_ok_def stored_position_def utc_day_def)

lemma position_ok_update:
  assumes "decimal_laws c" "position_ok c i p" "0 < or_keep q 1" "\<not> f_le (or_keep x (Fin 1)) (Fin 0)"
  shows "position_ok c i (stored_position c (p\<lparr>pos_CostPrice := or_keep x (pos_CostPrice p),
           pos_Quantity := or_keep q (pos_Quantity p), pos_Note := n\<rparr>))"
  using assms(2-4) kept_price_new [OF assms(1)] kept_price_again [OF assms(1)]
  by (cases x; cases q) (auto simp: position_ok_def stored_position_def or_keep_def)

lemma position_step_ok:
  assumes "decimal_laws c" "book_ok c db"
  shows "book_ok c (position_step c req db)"
proof (cases req)
  case (Create_position now err inp)
  show ?thesis using assms unfolding Create_position
    by (auto simp: pos_Create_def book_ok_def Let_def split: option.splits prod.splits
        elim!: tbl.all_rows_created intro!: position_ok_create)
next
  case (Update_position err i inp)
  show ?thesis using assms unfolding Update_position
    by (auto simp: pos_Update_def book_ok_def Let_def split: option.splits
        intro!: tbl.all_rows_save position_ok_update dest: tbl.all_rowsD)
next
  case (Close_position err i)
  show ?thesis using assms unfolding Close_position
    by (auto simp: pos_Close_def book_ok_def intro: tbl.all_rows_delete split: option.splits)
qed

lemma position_step_Some: "position_step c req (Some t) \<noteq> None"
  by (cases req) (auto simp: pos_Create_def pos_Update_def pos_Close_def Let_def split: option.splits prod.splits)

lemma book_fold_ok: "decimal_laws c \<Longrightarrow> book_ok c db \<Longrightarrow> book_ok c (fold (position_step c) reqs db)"
  by (induction reqs arbitrary: db) (simp_all add: position_step_ok)

lemma book_fold_Some: "\<exists>t'. fold (position_step c) reqs (Some t) = Some t'"
proof (induction reqs arbitrary: t)
  case (Cons req reqs)
  then show ?case using position_step_Some [of c req t] by auto
qed simp

lemma list_loop_views:
  "list_loop src ps s = (vs, s') \<Longrightarrow>
   map vw_id vs = map fst ps \<and> (\<forall>v\<in>set vs. \<exists>price. (vw_id v, vw_Position v) \<in> set ps
      \<and> v = make_view (vw_id v) (vw_Position v) price \<and> (\<forall>x. price = Some x \<longrightarrow> f_lt (Fin 0) x))"
proof (induction src ps s arbitrary: vs s' rule: list_loop.induct)
  case (2 src i p ps s)
  obtain price s1 vs1 where l: "live_price src (pos_StockCode p) s = (price, s1)" "list_loop src ps s1 = (vs1, s')"
    "vs = make_view i p price # vs1"
    using 2(2) by (auto split: prod.splits)
  have pos: "\<forall>x. price = Some x \<longrightarrow> f_lt (Fin 0) x"
    using l(1) by (auto simp: live_price_def split: option.splits prod.splits sum.splits if_splits)
  have self: "vw_id (make_view i p price) = i" "vw_Position (make_view i p price) = p"
    by (simp_all add: make_view_def Let_def)
  show ?case using 2(1) [OF l(1) [symmetric] l(2)] pos self l(3) by auto
qed simp

text \<open>C36: With decimal columns that round as documented, whatever requests have been served since the ledger was empty, in whatever order and with
  whatever failures, every position in it has a stock code, a quantity of at least one, a cost price
  that is what the decimal column keeps of a price that was not zero or less, and as opening date
  what the date column keeps of a UTC day.  The kept price is not negative, unless the price was not
  a number; it can be zero, because the check is made before the rounding.  The list shows every
  open position once, the newest first, and for each either a positive price with market value and
  profit, or none of the three; the summary counts exactly the priced ones.\<close>

theorem positions_well_formed:
  assumes "decimal_laws c" "fold (position_step c) reqs (Some empty_table) = Some t" "pos_List None src (Some t) s = (Inr views, s')"
  shows "map vw_id views = rev (map fst (tb_rows t)) \<and> distinct (map vw_id views)
    \<and> (\<forall>v\<in>set views. tb_first (vw_id v) t = Some (vw_Position v) \<and> position_ok c (vw_id v) (vw_Position v)
         \<and> (vw_MarketValue v = None \<longleftrightarrow> vw_CurrentPrice v = None) \<and> (vw_PnL v = None \<longleftrightarrow> vw_CurrentPrice v = None)
         \<and> (\<forall>x. vw_CurrentPrice v = Some x \<longrightarrow> f_lt (Fin 0) x
              \<and> vw_PnL v = Some (f_sub (f_mul x (f_of_int (pos_Quantity (vw_Position v)))) (vw_CostValue v))))
    \<and> su_Count (Summarize views) = length views
    \<and> su_PricedCount (Summarize views) = length (filter (\<lambda>v. vw_CurrentPrice v \<noteq> None) views)
    \<and> (su_TotalPnL (Summarize views) = None \<longleftrightarrow> su_PricedCount (Summarize views) = 0)"
proof -
  have ok: "tbl.all_rows (position_ok c) t" "tb_ok t"
    using book_fold_ok [OF assms(1), of "Some empty_table" reqs] assms(2) tb_ok_empty
    by (auto simp: book_ok_def tbl.all_rows_def tb_first_def empty_table_def)
  have loop: "list_loop src (rev (tb_rows t)) s = (views, s')"
    using assms(3) by (auto simp: pos_List_def split: prod.splits)
  have views: "map vw_id views = map fst (rev (tb_rows t))"
    "\<forall>v\<in>set views. \<exists>price. (vw_id v, vw_Position v) \<in> set (rev (tb_rows t))
      \<and> v = make_view (vw_id v) (vw_Position v) price \<and> (\<forall>x. price = Some x \<longrightarrow> f_lt (Fin 0) x)"
    using list_loop_views [OF loop] by blast+
  have dist: "distinct (map fst (tb_rows t))"
    using ok(2) by (simp add: tb_ok_def strict_sorted_iff)
  have each: "tb_first (vw_id v) t = Some (vw_Position v) \<and> position_ok c (vw_id v) (vw_Position v)
      \<and> (vw_MarketValue v = None \<longleftrightarrow> vw_CurrentPrice v = None) \<and> (vw_PnL v = None \<longleftrightarrow> vw_CurrentPrice v = None)
      \<and> (\<forall>x. vw_CurrentPrice v = Some x \<longrightarrow> f_lt (Fin 0) x
           \<and> vw_PnL v = Some (f_sub (f_mul x (f_of_int (pos_Quantity (vw_Position v)))) (vw_CostValue v)))"
    if shown: "v \<in> set views" for v
  proof -
    obtain price where v: "(vw_id v, vw_Position v) \<in> set (tb_rows t)"
      "v = make_view (vw_id v) (vw_Position v) price" "\<forall>x. price = Some x \<longrightarrow> f_lt (Fin 0) x"
      using bspec [OF views(2) shown] unfolding set_rev by blast
    have row: "tb_first (vw_id v) t = Some (vw_Position v)" using v(1) tb_rows_first [OF ok(2)] by blast
    have "vw_CurrentPrice v = price" "vw_MarketValue v = map_option (\<lambda>x. f_mul x (f_of_int (pos_Quantity (vw_Position v)))) price"
      "vw_PnL v = map_option (\<lambda>m. f_sub m (vw_CostValue v)) (vw_MarketValue v)"
      using v(2) by (metis make_view_def view.select_convs)+
    then show ?thesis using row tbl.all_rowsD [OF ok(1) row] v(3) by auto
  qed
  have "filter (\<lambda>v. vw_MarketValue v \<noteq> None) views = filter (\<lambda>v. vw_CurrentPrice v \<noteq> None) views"
    using each by (intro filter_cong) auto
  then show ?thesis using views(1) each dist by (auto simp: Summarize_def Let_def rev_map [symmetric])
qed

text \<open>A price that passes the check and is kept as zero: the position has no cost from then on, and its
  profit no percentage.\<close>

lemma zero_cost_position:
  assumes "ci_StockCode inp \<noteq> []" "\<not> f_le (ci_CostPrice inp) (Fin 0)" "0 < ci_Quantity inp"
    and "dc_decimal c 4 (ci_CostPrice inp) = Fin 0" "tb_ok t"
  shows "\<exists>i p t'. pos_Create c now None inp (Some t) = (Inr (i, p), Some t')
    \<and> (\<exists>r. tb_first i t' = Some r \<and> pos_CostPrice r = Fin 0)"
  using assms tbl.first_create [OF assms(5)]
  by (auto simp: pos_Create_def Let_def stored_position_def split: prod.split)
    (metis (no_types, lifting) fst_conv position_row.select_convs(3) snd_conv)

definition demo_open :: create_input where
  "demo_open = \<lparr>ci_StockCode = ''a'', ci_StockName = [], ci_CostPrice = Fin (1 / 100000), ci_Quantity = 3,
     ci_OpenedAt = None, ci_SourceRecommendationID = 0, ci_Note = []\<rparr>"

theorem positions_well_formed_witness:
  "\<exists>t views s'. fold (position_step rounding_columns) [Create_position 5 None demo_open, Close_position None 9]
        (Some empty_table) = Some t
     \<and> pos_List None (None :: unit quote_source option) (Some t) () = (Inr views, s')
     \<and> map vw_id views = [1] \<and> su_PricedCount (Summarize views) = 0
     \<and> map (pos_CostPrice \<circ> snd) (tb_rows t) = [Fin 0]"
proof -
  let ?reqs = "[Create_position 5 None demo_open, Close_position None 9]"
  obtain t where t: "fold (position_step rounding_columns) ?reqs (Some empty_table) = Some t" using book_fold_Some by blast
  then have rows: "map fst (tb_rows t) = [1]" "map (pos_CostPrice \<circ> snd) (tb_rows t) = [Fin 0]"
    using rounded_to_zero
    by (auto simp: pos_Create_def pos_Close_def demo_open_def tb_create_def empty_table_def tb_first_def f_le_iff Let_def
        stored_position_def)
  define views where "views = fst (list_loop (None :: unit quote_source option) (rev (tb_rows t)) ())"
  have v: "pos_List None (None :: unit quote_source option) (Some t) () = (Inr views, ())"
    by (simp add: pos_List_def views_def split: prod.split)
  have "\<forall>v\<in>set (fst (list_loop (None :: unit quote_source option) ps ())). vw_CurrentPrice v = None" for ps
    by (induction ps) (auto simp: live_price_def make_view_def Let_def split: prod.splits)
  then have "\<forall>v\<in>set views. vw_CurrentPrice v = None" by (simp add: views_def)
  then show ?thesis
    using t v rows positions_well_formed [OF rounding_columns_laws t v]
    by (intro exI [of _ t] exI [of _ views] exI [of _ "()"]) (auto simp: filter_empty_conv)
qed

end
