(* ===== verification/Run_Queries.thy ===== *)
theory Run_Queries
  imports Run_Lifecycle Positions
begin

text \<open>
  The read side of \<open>executor/executor.go\<close>: paged lists of recommendations with their tags, names filled
  in from live quotes, and the figures of the dashboard.
\<close>

section \<open>Recommendations\<close>

record rec_filter =
  rcf_StrategyCode :: string
  rcf_Tag :: string
  rcf_From :: "instant option"
  rcf_To :: "instant option"
  rcf_Page :: int
  rcf_PageSize :: int

definition rec_day :: "recommendation \<Rightarrow> instant" where
  "rec_day r = midnight 0 (rec_Date r)"

definition rec_matches :: "rec_filter \<Rightarrow> recommendation \<Rightarrow> bool" where
  "rec_matches f r \<longleftrightarrow>
     (rcf_StrategyCode f \<noteq> [] \<longrightarrow> rec_StrategyCode r = rcf_StrategyCode f)
     \<and> (\<forall>t\<in>set_option (rcf_From f). t \<le> rec_day r) \<and> (\<forall>t\<in>set_option (rcf_To f). rec_day r < t)"

text \<open>With a tag, the join gives a row for every tag row that matches.\<close>

definition tag_join :: "rec_filter \<Rightarrow> rec_db \<Rightarrow> recommendation list \<Rightarrow> recommendation list" where
  "tag_join f db recs =
     (if rcf_Tag f = [] then recs
      else concat (map (\<lambda>r. map (\<lambda>_. r)
        (filter (\<lambda>t. rt_RecommendationID t = rec_ID r \<and> rt_Tag t = rcf_Tag f) (db_tags db))) recs))"

definition tags_of :: "rec_db \<Rightarrow> recommendation \<Rightarrow> rec_tag list" where
  "tags_of db r = filter (\<lambda>t. rt_RecommendationID t = rec_ID r) (db_tags db)"

fun enrichRecNames ::
  "'s quote_source option \<Rightarrow> (recommendation \<times> rec_tag list) list \<Rightarrow> 's \<Rightarrow> (recommendation \<times> rec_tag list) list \<times> 's"
where
  "enrichRecNames None recs s = (recs, s)"
| "enrichRecNames (Some get) [] s = ([], s)"
| "enrichRecNames (Some get) ((r, ts) # recs) s =
     (if rec_StockName r \<noteq> [] then map_prod ((#) (r, ts)) id (enrichRecNames (Some get) recs s)
      else
        (case get (rec_StockCode r) s of (q, s1) \<Rightarrow>
           let r' = (case q of
                       Inr (Some x) \<Rightarrow> if q_StockName x \<noteq> [] then r\<lparr>rec_StockName := q_StockName x\<rparr> else r
                     | _ \<Rightarrow> r)
           in map_prod ((#) (r', ts)) id (enrichRecNames (Some get) recs s1)))"

definition ListRecommendations ::
  "(nat \<Rightarrow> string option) \<Rightarrow> rec_filter \<Rightarrow> 's quote_source option \<Rightarrow> rec_db option \<Rightarrow> 's
   \<Rightarrow> (service_error + (recommendation \<times> rec_tag list) list \<times> nat) \<times> 's" where
  "ListRecommendations fail f src db_opt s =
     (case db_opt of
        None \<Rightarrow> (Inl no_run_db, s)
      | Some db \<Rightarrow>
          let rows = sort_key (\<lambda>r. - int (rec_ID r)) (tag_join f db (filter (rec_matches f) (db_recs db)));
              page = page_of (positive_or 1 (rcf_Page f)) (page_size (rcf_PageSize f)) rows
          in case (fail 0, fail 1) of
               (Some e, _) \<Rightarrow> (Inl (wrapped CodeInternal ''executor: count recs'' e), s)
             | (None, Some e) \<Rightarrow> (Inl (wrapped CodeInternal ''executor: list recs'' e), s)
             | (None, None) \<Rightarrow>
                 (case enrichRecNames src (map (\<lambda>r. (r, tags_of db r)) page) s of
                    (recs, s') \<Rightarrow> (Inr (recs, length rows), s')))"

section \<open>The dashboard\<close>

record dashboard_error =
  de_RunID :: nat
  de_StrategyID :: nat
  de_Error :: string
  de_FinishedAt :: instant

record dashboard =
  da_TodayRecommendations :: nat
  da_TotalRecommendations :: nat
  da_RunsWindowDays :: int
  da_RunsTotal :: nat
  da_RunsSuccess :: nat
  da_RunsFailed :: nat
  da_SuccessRate :: "f64 option"
  da_RecentErrors :: "dashboard_error list"

definition error_of :: "nat \<times> run_row \<Rightarrow> dashboard_error" where
  "error_of ir =
     (case ir of (i, r) \<Rightarrow>
        \<lparr>de_RunID = i, de_StrategyID = rn_StrategyID r, de_Error = rn_Error r,
         de_FinishedAt = (case rn_FinishedAt r of None \<Rightarrow> wt_instant zero_wall_time | Some t \<Rightarrow> t)\<rparr>)"

definition count_runs :: "(run_row \<Rightarrow> bool) \<Rightarrow> run_db \<Rightarrow> nat" where
  "count_runs P db = length (tb_where P (rd_runs db))"

definition dashboard_of :: "int \<Rightarrow> instant \<Rightarrow> rec_db \<Rightarrow> run_db \<Rightarrow> dashboard" where
  "dashboard_of days now rdb db =
     (let today = utc_day now; start = now - days * nano_day;
          total = count_runs (\<lambda>r. start \<le> rn_CreatedAt r) db;
          success = count_runs (\<lambda>r. start \<le> rn_CreatedAt r \<and> rn_Status r = RunStatusSuccess) db
      in \<lparr>da_TodayRecommendations = length (filter (\<lambda>r. today \<le> rec_day r \<and> rec_day r < today + nano_day) (db_recs rdb)),
          da_TotalRecommendations = length (db_recs rdb),
          da_RunsWindowDays = days,
          da_RunsTotal = total,
          da_RunsSuccess = success,
          da_RunsFailed = count_runs (\<lambda>r. start \<le> rn_CreatedAt r \<and> rn_Status r = RunStatusFailed) db,
          da_SuccessRate = (if 0 < total then Some (f_div (f_of_int (int success)) (f_of_int (int total))) else None),
          da_RecentErrors = map error_of (take 5 (rev (tb_where (\<lambda>r. rn_Status r = RunStatusFailed) (rd_runs db))))\<rparr>)"

text \<open>The statements in their order; the first that fails gives the error.\<close>

definition dashboard_statements :: "string list" where
  "dashboard_statements = [''dashboard: today recs'', ''dashboard: total recs'', ''dashboard: runs total'',
     ''dashboard: runs success'', ''dashboard: runs failed'', ''dashboard: recent errors'']"

definition DashboardStats ::
  "(nat \<Rightarrow> string option) \<Rightarrow> int \<Rightarrow> instant \<Rightarrow> rec_db \<Rightarrow> run_db option \<Rightarrow> service_error + dashboard" where
  "DashboardStats fail windowDays now rdb db_opt =
     (case db_opt of
        None \<Rightarrow> Inl no_run_db
      | Some db \<Rightarrow>
          (case find (\<lambda>k. fail k \<noteq> None) [0..<length dashboard_statements] of
             Some k \<Rightarrow> Inl (wrapped CodeInternal (dashboard_statements ! k) (the (fail k)))
           | None \<Rightarrow> Inr (dashboard_of (positive_or 7 windowDays) now rdb db)))"

section \<open>What the pages and the dashboard show\<close>

text \<open>Consecutive pages, put together, are the list.\<close>

lemma pages_take:
  "0 < n \<Longrightarrow> concat (map (\<lambda>p. page_of (int p) (int n) xs) [1..<Suc k]) = take (k * n) xs"
proof (induction k)
  case (Suc k)
  have "page_of (int (Suc k)) (int n) xs = take n (drop (k * n) xs)"
    by (simp add: page_of_def algebra_simps flip: of_nat_mult)
  then show ?case
    using Suc by (simp add: take_add [symmetric] add.commute)
qed simp

lemma pages_cover:
  assumes "0 < n" "length xs \<le> k * n"
  shows "concat (map (\<lambda>p. page_of (int p) (int n) xs) [1..<Suc k]) = xs"
  by (simp add: pages_take [OF assms(1)] assms(2) del: upt_Suc One_nat_def)

lemma page_size_range: "1 \<le> page_size n \<and> page_size n \<le> 200"
  by (simp add: page_size_def)

lemma length_page: "length (page_of p n xs) \<le> nat n"
  by (simp add: page_of_def)

lemma run_matches_page [simp]: "run_matches (f\<lparr>rf_Page := p\<rparr>) = run_matches f"
  by (simp add: run_matches_def fun_eq_iff)

text \<open>Paging through the runs gives every run that matches the filter exactly once, newest first:
  when the statements succeed and no run is added meanwhile, the pages 1, 2, ... put together are the
  matching rows in descending order of identifier, each page has at most the page size, and every
  page reports the number of matching rows.\<close>

theorem ListRuns_pages:
  assumes "tb_ok (rd_runs db)" "\<forall>k. fail k = None" "1 \<le> rf_PageSize f" "rf_PageSize f \<le> 200"
    and "matching = rev (tb_where (run_matches f) (rd_runs db))" "length matching \<le> k * nat (rf_PageSize f)"
  shows "\<exists>page. (\<forall>p>0. ListRuns fail (f\<lparr>rf_Page := int p\<rparr>) (Some db) = Inr (page p, length matching)
          \<and> length (page p) \<le> nat (rf_PageSize f))
    \<and> concat (map page [1..<Suc k]) = matching
    \<and> sorted_wrt (>) (map fst matching) \<and> (\<forall>i r. (i, r) \<in> set matching \<longleftrightarrow> tb_first i (rd_runs db) = Some r \<and> run_matches f r)"
proof (intro exI [of _ "\<lambda>p. page_of (int p) (rf_PageSize f) matching"] conjI allI impI)
  fix p :: nat assume "0 < p"
  then show "ListRuns fail (f\<lparr>rf_Page := int p\<rparr>) (Some db) = Inr (page_of (int p) (rf_PageSize f) matching, length matching)"
    using assms(2-5) by (simp add: ListRuns_def stmt_def page_size_def Let_def)
  show "length (page_of (int p) (rf_PageSize f) matching) \<le> nat (rf_PageSize f)" by (rule length_page)
next
  show "concat (map (\<lambda>p. page_of (int p) (rf_PageSize f) matching) [1..<Suc k]) = matching"
    using pages_cover [of "nat (rf_PageSize f)" matching k] assms(3,6) by simp
  have "sorted_wrt (<) (map fst (tb_where (run_matches f) (rd_runs db)))"
    using assms(1) unfolding tb_ok_def tb_where_def sorted_wrt_map by (blast intro: sorted_wrt_filter)
  then show "sorted_wrt (>) (map fst matching)" by (simp add: assms(5) sorted_wrt_rev flip: rev_map)
  show "(i, r) \<in> set matching \<longleftrightarrow> tb_first i (rd_runs db) = Some r \<and> run_matches f r" for i r
    using tb_rows_first [OF assms(1)] by (auto simp: assms(5) tb_where_def)
qed

lemma length_filter_disjoint:
  "(\<And>x. \<not> (P x \<and> Q x)) \<Longrightarrow> (\<And>x. P x \<or> Q x \<Longrightarrow> R x) \<Longrightarrow>
   length (filter P xs) + length (filter Q xs) \<le> length (filter R xs)"
  by (induction xs) auto

text \<open>The figures of the dashboard agree with each other: today's recommendations are among all of
  them, the successful and the failed runs of the window are disjoint parts of its runs, the success
  rate is shown exactly when there are runs and lies between 0 and 1, and the recent errors are the
  newest failed runs, five at most.\<close>

theorem dashboard_consistent:
  assumes "DashboardStats fail windowDays now rdb (Some db) = Inr d" "tb_ok (rd_runs db)" "da_RunsTotal d \<le> 2 ^ 53"
  shows "1 \<le> da_RunsWindowDays d \<and> da_TodayRecommendations d \<le> da_TotalRecommendations d
    \<and> da_RunsSuccess d + da_RunsFailed d \<le> da_RunsTotal d
    \<and> (da_SuccessRate d = None \<longleftrightarrow> da_RunsTotal d = 0)
    \<and> (\<forall>x. da_SuccessRate d = Some x \<longrightarrow> f_le (Fin 0) x \<and> f_le x (Fin 1))
    \<and> length (da_RecentErrors d) \<le> 5 \<and> sorted_wrt (>) (map de_RunID (da_RecentErrors d))
    \<and> (\<forall>e\<in>set (da_RecentErrors d). \<exists>r. tb_first (de_RunID e) (rd_runs db) = Some r \<and> rn_Status r = RunStatusFailed
         \<and> de_Error e = rn_Error r)"
proof -
  have d: "d = dashboard_of (positive_or 7 windowDays) now rdb db"
    using assms(1) by (simp add: DashboardStats_def split: option.splits)
  define start where "start = now - positive_or 7 windowDays * nano_day"
  have counts: "da_RunsTotal d = count_runs (\<lambda>r. start \<le> rn_CreatedAt r) db"
    "da_RunsSuccess d = count_runs (\<lambda>r. start \<le> rn_CreatedAt r \<and> rn_Status r = RunStatusSuccess) db"
    "da_RunsFailed d = count_runs (\<lambda>r. start \<le> rn_CreatedAt r \<and> rn_Status r = RunStatusFailed) db"
    by (simp_all add: d dashboard_of_def Let_def start_def)
  have sum: "da_RunsSuccess d + da_RunsFailed d \<le> da_RunsTotal d"
    unfolding counts count_runs_def tb_where_def
    by (rule length_filter_disjoint) (auto simp: run_text_defs)
  have rate: "da_SuccessRate d = (if 0 < da_RunsTotal d
      then Some (f_div (f_of_int (int (da_RunsSuccess d))) (f_of_int (int (da_RunsTotal d)))) else None)"
    by (simp add: d dashboard_of_def Let_def)
  have range: "f_le (Fin 0) x \<and> f_le x (Fin 1)" if "da_SuccessRate d = Some x" for x
  proof -
    have pos: "0 < da_RunsTotal d" and x: "x = f_div (Fin (of_nat (da_RunsSuccess d))) (Fin (of_nat (da_RunsTotal d)))"
      using that assms(3) sum by (auto simp: rate f_of_int_exact split: if_splits)
    have q: "0 \<le> of_nat (da_RunsSuccess d) / (of_nat (da_RunsTotal d) :: rat)" "of_nat (da_RunsSuccess d) / of_nat (da_RunsTotal d) \<le> (1 :: rat)"
      using pos sum by simp_all
    have "x = f_round False (of_nat (da_RunsSuccess d) / of_nat (da_RunsTotal d))"
      using pos by (simp add: x f_div_def f_is_zero_def)
    then show ?thesis using f_round_le [OF _ f_1(1)] f_round_ge [OF _ f_1(2)] q by simp
  qed
  define failed where "failed = take 5 (rev (tb_where (\<lambda>r. rn_Status r = RunStatusFailed) (rd_runs db)))"
  have errors: "da_RecentErrors d = map error_of failed" by (simp add: d dashboard_of_def Let_def failed_def)
  have ids: "map de_RunID (da_RecentErrors d) = map fst failed"
    by (simp add: errors error_of_def split_def)
  have "sorted_wrt (<) (map fst (tb_where (\<lambda>r. rn_Status r = RunStatusFailed) (rd_runs db)))"
    using assms(2) unfolding tb_ok_def tb_where_def sorted_wrt_map by (blast intro: sorted_wrt_filter)
  then have "sorted_wrt (>) (map fst failed)"
    by (simp add: failed_def sorted_wrt_rev sorted_wrt_take flip: take_map rev_map)
  moreover have "\<exists>r. tb_first (de_RunID e) (rd_runs db) = Some r \<and> rn_Status r = RunStatusFailed \<and> de_Error e = rn_Error r"
    if "e \<in> set (da_RecentErrors d)" for e
  proof -
    obtain i r where ir: "(i, r) \<in> set failed" "e = error_of (i, r)" using \<open>e \<in> _\<close> by (auto simp: errors)
    then have "(i, r) \<in> set (tb_rows (rd_runs db))" "rn_Status r = RunStatusFailed"
      using in_set_takeD by (fastforce simp: failed_def tb_where_def)+
    then show ?thesis using tb_rows_first [OF assms(2)] ir(2) by (auto simp: error_of_def)
  qed
  moreover have "1 \<le> da_RunsWindowDays d" by (simp add: d dashboard_of_def Let_def positive_or_def)
  moreover have "da_TodayRecommendations d \<le> da_TotalRecommendations d" by (simp add: d dashboard_of_def Let_def)
  moreover have "length (da_RecentErrors d) \<le> 5" by (simp add: errors failed_def)
  ultimately show ?thesis using sum range ids rate by (auto split: if_splits)
qed

definition demo_runs :: run_db where
  "demo_runs = \<lparr>rd_runs = \<lparr>tb_rows = [(1, new_run demo_run_env 1 []),
       (2, (new_run demo_run_env 1 [])\<lparr>rn_Status := RunStatusFailed\<rparr>)], tb_next = 3\<rparr>, rd_logs = [], rd_next_log = 1\<rparr>"

lemma demo_runs_ok: "tb_ok (rd_runs demo_runs)"
  by (auto simp: tb_ok_def demo_runs_def)

definition every_run :: run_list_filter where
  "every_run = \<lparr>rf_StrategyID = 0, rf_Status = [], rf_From = None, rf_To = None, rf_Page = 0, rf_PageSize = 1\<rparr>"

theorem ListRuns_pages_witness:
  "\<exists>page. (\<forall>p>0. ListRuns (\<lambda>_. None) (every_run\<lparr>rf_Page := int p\<rparr>) (Some demo_runs) = Inr (page p, 2))
     \<and> map fst (concat (map page [1..<3])) = [2, 1]"
proof -
  define m where "m = rev (tb_where (run_matches every_run) (rd_runs demo_runs))"
  have m: "map fst m = [2, 1]" "length m = 2"
    by (simp_all add: m_def demo_runs_def tb_where_def run_matches_def every_run_def)
  have h: "1 \<le> rf_PageSize every_run" "rf_PageSize every_run \<le> 200" "length m \<le> 2 * nat (rf_PageSize every_run)"
    by (simp_all add: every_run_def m)
  obtain page where "\<forall>p>0. ListRuns (\<lambda>_. None) (every_run\<lparr>rf_Page := int p\<rparr>) (Some demo_runs) = Inr (page p, length m)"
    "concat (map page [1..<Suc 2]) = m"
    using ListRuns_pages [OF demo_runs_ok _ h(1,2) m_def h(3), of "\<lambda>_. None"] by blast
  then show ?thesis using m by (intro exI [of _ page]) (simp del: upt_Suc)
qed

theorem dashboard_consistent_witness:
  "\<exists>d. DashboardStats (\<lambda>_. None) 0 1 \<lparr>db_recs = [], db_tags = []\<rparr> (Some demo_runs) = Inr d
     \<and> da_RunsTotal d = 2 \<and> da_RunsFailed d = 1 \<and> da_RunsSuccess d + da_RunsFailed d \<le> da_RunsTotal d"
proof -
  define d where "d = dashboard_of 7 1 \<lparr>db_recs = [], db_tags = []\<rparr> demo_runs"
  have s: "DashboardStats (\<lambda>_. None) 0 1 \<lparr>db_recs = [], db_tags = []\<rparr> (Some demo_runs) = Inr d"
    by (simp add: DashboardStats_def dashboard_statements_def positive_or_def d_def)
  have counts: "da_RunsTotal d = 2" "da_RunsFailed d = 1"
    by (simp_all add: d_def dashboard_of_def Let_def count_runs_def tb_where_def demo_runs_def new_run_def
        demo_run_env_def run_text_defs nano_day_def time_unit_defs)
  show ?thesis using dashboard_consistent [OF s demo_runs_ok] s counts by auto
qed

end
