(* ===== verification/Source_Manager_Props.thy ===== *)
theory Source_Manager_Props
  imports Source_Manager
begin

text \<open>
  Guarantees of the data-source manager: which source answers a request and what an attempt
  leaves of the breakers, and which bars a K-line request returns.
\<close>

section \<open>The route of a request\<close>

text \<open>The source behind a breaker is asked and gives an answer.\<close>

definition serving :: "(source \<Rightarrow> instant \<Rightarrow> string + 'v) \<Rightarrow> attempt_clock \<Rightarrow> source breaker \<Rightarrow> bool" where
  "serving call ck b \<longleftrightarrow> fst (br_Allow (ac_allow ck) b) \<and> is_ok (call (br_source b) (ac_call ck))"

text \<open>The error of an attempt, if the source was asked.\<close>

definition attempt_error :: "(source \<Rightarrow> instant \<Rightarrow> string + 'v) \<Rightarrow> attempt_clock \<Rightarrow> source breaker \<Rightarrow> string option" where
  "attempt_error call ck b =
     (if fst (br_Allow (ac_allow ck) b)
      then (case call (br_source b) (ac_call ck) of Inl err \<Rightarrow> Some err | Inr _ \<Rightarrow> None) else None)"

text \<open>What an attempt leaves of its breaker.\<close>

definition settle_breaker ::
  "(source \<Rightarrow> instant \<Rightarrow> string + 'v) \<Rightarrow> attempt_clock \<Rightarrow> source breaker \<Rightarrow> source breaker" where
  "settle_breaker call ck b =
     (let b1 = snd (br_Allow (ac_allow ck) b)
      in if \<not> fst (br_Allow (ac_allow ck) b) then snd (br_StateName (ac_name ck) b1)
         else if is_ok (call (br_source b) (ac_call ck)) then br_RecordSuccess b1
         else br_RecordFailure (ac_failure ck) b1)"

lemma routeOnce_cases:
  obtains repo' where "\<not> fst (br_Allow (ac_allow ck) b)"
    "routeOnce call ck prev b repo = (SkippedSource, settle_breaker call ck b, repo')"
  | err repo' where "fst (br_Allow (ac_allow ck) b)" "call (br_source b) (ac_call ck) = Inl err"
    "routeOnce call ck prev b repo = (FailedSource (s_Name (br_source b)) err, settle_breaker call ck b, repo')"
  | v repo' where "fst (br_Allow (ac_allow ck) b)" "call (br_source b) (ac_call ck) = Inr v"
    "routeOnce call ck prev b repo = (Served v (s_Name (br_source b)), settle_breaker call ck b, repo')"
  by (cases "fst (br_Allow (ac_allow ck) b)"; cases "call (br_source b) (ac_call ck)")
    (auto simp: routeOnce_def settle_breaker_def Let_def case_prod_beta)

lemma upt_Suc_shift: "[0..<Suc n] = 0 # map Suc [0..<n]"
  by (simp add: upt_conv_Cons map_Suc_upt)

lemma find_upt_Suc:
  "find P [0..<Suc n] = (if P 0 then Some 0 else map_option Suc (find (P \<circ> Suc) [0..<n]))"
proof -
  have "find P (map Suc xs) = map_option Suc (find (P \<circ> Suc) xs)" for xs
    by (induction xs) auto
  then show ?thesis by (simp add: upt_Suc_shift del: upt_Suc)
qed

text \<open>The serving source, the attempts made, and the errors met on the way.\<close>

definition server :: "(source \<Rightarrow> instant \<Rightarrow> string + 'v) \<Rightarrow> (nat \<Rightarrow> attempt_clock) \<Rightarrow> source breaker list \<Rightarrow> nat option" where
  "server call ck bs = find (\<lambda>i. serving call (ck i) (bs ! i)) [0..<length bs]"

definition attempts :: "(source \<Rightarrow> instant \<Rightarrow> string + 'v) \<Rightarrow> (nat \<Rightarrow> attempt_clock) \<Rightarrow> source breaker list \<Rightarrow> nat" where
  "attempts call ck bs = (case server call ck bs of None \<Rightarrow> length bs | Some n \<Rightarrow> Suc n)"

definition route_errors :: "(source \<Rightarrow> instant \<Rightarrow> string + 'v) \<Rightarrow> (nat \<Rightarrow> attempt_clock) \<Rightarrow> source breaker list \<Rightarrow> string list" where
  "route_errors call ck bs =
     List.map_filter (\<lambda>i. attempt_error call (ck i) (bs ! i)) [0..<length bs]"

lemma server_simps:
  "server call ck [] = None"
  "server call ck (b # bs) =
     (if serving call (ck 0) b then Some 0 else map_option Suc (server call (ck \<circ> Suc) bs))"
  by (simp_all add: server_def find_upt_Suc comp_def del: upt_Suc)

lemma map_filter_Suc:
  "List.map_filter f [0..<Suc n] =
     (case f 0 of None \<Rightarrow> [] | Some x \<Rightarrow> [x]) @ List.map_filter (f \<circ> Suc) [0..<n]"
  unfolding upt_Suc_shift List.map_filter_def by (simp add: comp_def filter_map split: option.split)

lemma route_errors_simps:
  "route_errors call ck [] = []"
  "route_errors call ck (b # bs) =
     (case attempt_error call (ck 0) b of None \<Rightarrow> [] | Some e \<Rightarrow> [e]) @ route_errors call (ck \<circ> Suc) bs"
  by (simp_all add: route_errors_def map_filter_Suc comp_def List.map_filter_def[of _ "[]"] del: upt_Suc)

lemma attempts_le: "attempts call ck bs \<le> length bs"
  by (auto simp: attempts_def server_def find_Some_iff split: option.split)

lemma attempts_simps:
  "attempts call ck (b # bs) =
     (if serving call (ck 0) b then 1 else Suc (attempts call (ck \<circ> Suc) bs))"
  by (auto simp: attempts_def server_simps split: option.split)

lemma route_loop_spec:
  "case route_loop call ck prev ferr bs repo of (r, bs', repo') \<Rightarrow>
     (case server call ck bs of
        None \<Rightarrow> r = Inl (case ferr of None \<Rightarrow> (case route_errors call ck bs of [] \<Rightarrow> None | e # _ \<Rightarrow> Some e)
                         | Some e \<Rightarrow> Some e)
      | Some n \<Rightarrow> (\<exists>v. call (br_source (bs ! n)) (ac_call (ck n)) = Inr v \<and> r = Inr (v, s_Name (br_source (bs ! n)))))
     \<and> bs' = map (\<lambda>i. settle_breaker call (ck i) (bs ! i)) [0..<attempts call ck bs]
              @ drop (attempts call ck bs) bs"
proof (induction bs arbitrary: ck prev ferr repo)
  case Nil
  then show ?case by (simp add: server_simps route_errors_simps attempts_def split: option.split)
next
  case (Cons b bs)
  define ck' where "ck' = ck \<circ> Suc"
  have step: "map (\<lambda>i. settle_breaker call (ck i) ((b # bs) ! i)) [0..<Suc n]
      = settle_breaker call (ck 0) b # map (\<lambda>i. settle_breaker call (ck' i) (bs ! i)) [0..<n]" for n
    by (simp add: upt_Suc_shift comp_def ck'_def del: upt_Suc)
  have nth: "(b # bs) ! Suc n = bs ! n" "ck (Suc n) = ck' n" for n by (simp_all add: ck'_def)
  note simps = server_simps(2) [of call ck b bs, folded ck'_def]
    route_errors_simps(2) [of call ck b bs, folded ck'_def]
    attempts_simps [of call ck b bs, folded ck'_def]
    route_loop.simps(2) [of call ck prev ferr b bs repo, folded ck'_def]
  show ?case
  proof (cases rule: routeOnce_cases [of "ck 0" b call prev repo])
    case (1 repo')
    have no: "\<not> serving call (ck 0) b" "attempt_error call (ck 0) b = None"
      using 1 by (simp_all add: serving_def attempt_error_def)
    show ?thesis
      using Cons.IH [where ck = ck' and prev = prev and ferr = ferr and repo = repo']
      unfolding simps 1(2) using no
      by (cases "server call ck' bs"; cases ferr) (auto simp: step nth case_prod_beta simp del: upt_Suc)
  next
    case (2 err repo')
    have no: "\<not> serving call (ck 0) b" "attempt_error call (ck 0) b = Some err"
      using 2 by (simp_all add: serving_def attempt_error_def)
    show ?thesis
      using Cons.IH [where ck = ck' and prev = "s_Name (br_source b)"
          and ferr = "case ferr of None \<Rightarrow> Some err | Some e \<Rightarrow> Some e" and repo = repo']
      unfolding simps 2(3) using no
      by (cases "server call ck' bs"; cases ferr) (auto simp: step nth case_prod_beta simp del: upt_Suc)
  next
    case (3 v repo')
    have "serving call (ck 0) b" using 3 by (simp add: serving_def)
    then show ?thesis
      using 3(2) step [of 0] unfolding simps 3(3) by simp
  qed
qed

text \<open>C27: a routed request is answered by the first source whose breaker admits it and that gives an
  answer; when there is none it fails with the error of the first source that was asked.  The
  sources up to the answering one have their attempt recorded on their breakers, the ones after
  it are neither asked nor touched, and cache and configuration stay as they are.\<close>

theorem route_first_success:
  "case route op call ck m of (r, m') \<Rightarrow>
     (case server call ck (mg_breakers m) of
        None \<Rightarrow> r = Inl (AllSourcesFailed op
                 (case route_errors call ck (mg_breakers m) of [] \<Rightarrow> None | e # _ \<Rightarrow> Some e))
      | Some n \<Rightarrow> (\<exists>v. call (br_source (mg_breakers m ! n)) (ac_call (ck n)) = Inr v
                    \<and> r = Inr (v, s_Name (br_source (mg_breakers m ! n)))))
     \<and> mg_breakers m' =
         map (\<lambda>i. settle_breaker call (ck i) (mg_breakers m ! i)) [0..<attempts call ck (mg_breakers m)]
         @ drop (attempts call ck (mg_breakers m)) (mg_breakers m)
     \<and> mg_cache m' = mg_cache m \<and> mg_cfg m' = mg_cfg m"
  using route_loop_spec [where call = call and ck = ck and prev = "[]" and ferr = None
    and bs = "mg_breakers m" and repo = "mg_repo m"]
  by (auto simp: route_def case_prod_beta split: option.split)

section \<open>The windows of a range\<close>

text \<open>\<open>ds\<close> are adjacent windows from \<open>a\<close> to \<open>b\<close>.\<close>

fun windows :: "time_range list \<Rightarrow> instant \<Rightarrow> instant \<Rightarrow> bool" where
  "windows [] a b = (a = b)"
| "windows (d # ds) a b = (tr_start d = a \<and> a < tr_end d \<and> windows ds (tr_end d) b)"

lemma windows_le: "windows ds a b \<Longrightarrow> a \<le> b"
  by (induction ds arbitrary: a) fastforce+

lemma windows_append: "windows (xs @ ys) a b \<longleftrightarrow> (\<exists>c. windows xs a c \<and> windows ys c b)"
  by (induction xs arbitrary: a) auto

lemma windows_split_from: "cur \<le> fin \<Longrightarrow> windows (split_from loc cur fin) cur fin"
proof (induction loc cur fin rule: split_from.induct)
  case (1 loc cur fin)
  show ?case
  proof (cases "cur < fin")
    case True
    then show ?thesis
      using 1 cur_less_next_midnight [of cur loc] by (subst split_from.simps) (simp add: Let_def)
  qed (use 1 in \<open>simp add: split_from.simps\<close>)
qed

lemma window_pos: "windows ds a b \<Longrightarrow> d \<in> set ds \<Longrightarrow> tr_start d < tr_end d"
  by (induction ds arbitrary: a) auto

lemma windows_bounds: "windows ds a b \<Longrightarrow> d \<in> set ds \<Longrightarrow> a \<le> tr_start d \<and> tr_end d \<le> b"
proof (induction ds arbitrary: a)
  case (Cons x ds)
  then show ?case using windows_le by fastforce
qed simp

definition later :: "time_range \<Rightarrow> time_range \<Rightarrow> bool" where
  "later x y \<longleftrightarrow> tr_start x \<le> tr_start y \<and> tr_end x \<le> tr_end y"

lemma windows_sorted: "windows ds a b \<Longrightarrow> sorted_wrt later ds"
proof (induction ds arbitrary: a)
  case (Cons d ds)
  have "later d x" if "x \<in> set ds" for x
    using windows_bounds [of ds "tr_end d" b x] window_pos [of ds "tr_end d" b x] that Cons.prems
    by (auto simp: later_def)
  then show ?case using Cons.IH [of "tr_end d"] Cons.prems by simp
qed simp

lemma fold_min_start:
  "\<forall>x\<in>set ds. a \<le> tr_start x \<Longrightarrow> fold (\<lambda>x a. if tr_start x < a then tr_start x else a) ds a = a"
  by (induction ds) auto

lemma fold_max_end:
  "sorted_wrt later (d # ds) \<Longrightarrow>
     fold (\<lambda>x a. if a < tr_end x then tr_end x else a) ds (tr_end d) = tr_end (last (d # ds))"
proof (induction ds arbitrary: d)
  case (Cons x ds)
  then have "(if tr_end d < tr_end x then tr_end x else tr_end d) = tr_end x"
    by (auto simp: later_def)
  then show ?case using Cons.IH [of x] Cons.prems by simp
qed simp

section \<open>The bars of a range\<close>

text \<open>The bars of the market data \<open>B\<close> in the half-open interval.\<close>

definition bars_in :: "kline list \<Rightarrow> instant \<Rightarrow> instant \<Rightarrow> kline list" where
  "bars_in B a b = filter (\<lambda>k. a \<le> wt_instant (k_Timestamp k) \<and> wt_instant (k_Timestamp k) < b) B"

lemma mset_bars_split:
  "a \<le> b \<Longrightarrow> b \<le> c \<Longrightarrow> mset (bars_in B a c) = mset (bars_in B a b) + mset (bars_in B b c)"
  unfolding bars_in_def mset_filter
  by (induction B) (auto simp: multiset_eq_iff)

lemma mset_bars_windows:
  "windows ds a b \<Longrightarrow>
     mset (concat (map (\<lambda>d. bars_in B (tr_start d) (tr_end d)) ds)) = mset (bars_in B a b)"
proof (induction ds arbitrary: a)
  case Nil
  then show ?case by (simp add: bars_in_def)
next
  case (Cons d ds)
  then show ?case
    using mset_bars_split [of a "tr_end d" b B] windows_le [of ds "tr_end d" b] by simp
qed

section \<open>What a K-line request returns\<close>

text \<open>The reads from the first to the last day that missed the cache.\<close>

definition missed :: "time_range \<times> kline list option \<Rightarrow> bool" where
  "missed x \<longleftrightarrow> snd x = None"

definition missed_span ::
  "(time_range \<times> kline list option) list \<Rightarrow> (time_range \<times> kline list option) list" where
  "missed_span hs = rev (dropWhile (\<lambda>x. \<not> missed x) (rev (dropWhile (\<lambda>x. \<not> missed x) hs)))"

lemma missed_span_split:
  assumes "missing_days hs \<noteq> []"
  obtains pre post where "hs = pre @ missed_span hs @ post"
    "\<forall>x\<in>set pre. \<not> missed x" "\<forall>x\<in>set post. \<not> missed x" "missed_span hs \<noteq> []"
    "missed (hd (missed_span hs))" "missed (last (missed_span hs))"
proof -
  define ys where "ys = dropWhile (\<lambda>x. \<not> missed x) hs"
  obtain x where x: "x \<in> set hs" "missed x"
    using assms by (fastforce simp: missing_days_def missed_def filter_empty_conv)
  then have ne: "ys \<noteq> []" by (auto simp: ys_def dropWhile_eq_Nil_conv)
  then have hd: "missed (hd ys)" using hd_dropWhile [of "\<lambda>x. \<not> missed x" hs] by (simp add: ys_def)
  then have "hd ys \<in> set (rev ys)" using ne by simp
  then have ne2: "dropWhile (\<lambda>x. \<not> missed x) (rev ys) \<noteq> []" using hd by (auto simp: dropWhile_eq_Nil_conv)
  have span: "missed_span hs = rev (dropWhile (\<lambda>x. \<not> missed x) (rev ys))"
    by (simp add: missed_span_def ys_def)
  have ys: "ys = missed_span hs @ rev (takeWhile (\<lambda>x. \<not> missed x) (rev ys))"
    unfolding span by (metis rev_append rev_rev_ident takeWhile_dropWhile_id)
  show thesis
  proof (rule that)
    show "hs = takeWhile (\<lambda>x. \<not> missed x) hs @ missed_span hs @ rev (takeWhile (\<lambda>x. \<not> missed x) (rev ys))"
      using ys by (metis takeWhile_dropWhile_id ys_def)
    show "missed_span hs \<noteq> []" using ne2 by (simp add: span)
    show "missed (last (missed_span hs))"
      using hd_dropWhile [OF ne2] by (simp add: span last_rev ne2)
    show "missed (hd (missed_span hs))"
      using hd ys ne2 by (metis hd_append2 rev_is_Nil_conv span)
  qed (auto dest: set_takeWhileD)
qed

lemma missing_days_append: "missing_days (xs @ ys) = missing_days xs @ missing_days ys"
  by (simp add: missing_days_def)

lemma missing_days_hits: "\<forall>x\<in>set xs. \<not> missed x \<Longrightarrow> missing_days xs = []"
  by (auto simp: missing_days_def missed_def filter_empty_conv)

lemma missing_days_hd: "xs \<noteq> [] \<Longrightarrow> missed (hd xs) \<Longrightarrow> missing_days xs \<noteq> [] \<and> hd (missing_days xs) = fst (hd xs)"
  by (cases xs) (auto simp: missing_days_def missed_def)

lemma missing_days_last:
  "xs \<noteq> [] \<Longrightarrow> missed (last xs) \<Longrightarrow> last (missing_days xs) = fst (last xs)"
  by (cases xs rule: rev_cases) (auto simp: missing_days_def missed_def)

lemma hit_bars_append: "hit_bars (xs @ ys) = hit_bars xs @ hit_bars ys"
  by (simp add: hit_bars_def)

definition cached_true :: "kline list \<Rightarrow> (time_range \<times> kline list option) list \<Rightarrow> bool" where
  "cached_true B hs \<longleftrightarrow>
     (\<forall>(d, h)\<in>set hs. case h of None \<Rightarrow> True | Some ks \<Rightarrow> ks = bars_in B (tr_start d) (tr_end d))"

lemma hit_bars_all:
  assumes "\<forall>x\<in>set hs. \<not> missed x" "cached_true B hs"
  shows "hit_bars hs = concat (map (\<lambda>d. bars_in B (tr_start d) (tr_end d)) (map fst hs))"
  using assms
  by (induction hs) (auto simp: hit_bars_def cached_true_def missed_def split: option.splits)

lemma cached_true_append: "cached_true B (xs @ ys) \<longleftrightarrow> cached_true B xs \<and> cached_true B ys"
  by (auto simp: cached_true_def)

text \<open>The fetched range is the range of the span, so the days of the span that were in the cache
  come twice.\<close>

lemma assembled_bars:
  assumes win: "windows (map fst hs) a b" and true: "cached_true B hs"
    and miss: "missing_days hs = d # ds"
  shows "mset (hit_bars hs @ bars_in B
       (fold (\<lambda>x a. if tr_start x < a then tr_start x else a) ds (tr_start d))
       (fold (\<lambda>x a. if a < tr_end x then tr_end x else a) ds (tr_end d)))
     = mset (bars_in B a b) + mset (hit_bars (missed_span hs))"
proof -
  obtain pre post where hs: "hs = pre @ missed_span hs @ post"
    and out: "\<forall>x\<in>set pre. \<not> missed x" "\<forall>x\<in>set post. \<not> missed x"
    and span: "missed_span hs \<noteq> []" "missed (hd (missed_span hs))" "missed (last (missed_span hs))"
    using missed_span_split [of hs] miss by auto
  define sp where "sp = missed_span hs"
  have hs: "hs = pre @ sp @ post" and sp: "sp \<noteq> []" "missed (hd sp)" "missed (last sp)"
    using hs span by (simp_all add: sp_def)
  have md: "missing_days sp = d # ds"
    using miss out by (simp add: hs missing_days_append missing_days_hits)
  obtain c e where w: "windows (map fst pre) a c" "windows (map fst sp) c e" "windows (map fst post) e b"
    using win by (auto simp: hs windows_append)
  have sorted: "sorted_wrt later (d # ds)"
  proof -
    have "sorted_wrt later (map fst sp)" by (rule windows_sorted [OF w(2)])
    then show ?thesis
      unfolding md [symmetric] missing_days_def by (simp add: sorted_wrt_map sorted_wrt_filter)
  qed
  have lo: "fold (\<lambda>x a. if tr_start x < a then tr_start x else a) ds (tr_start d) = c"
  proof -
    have "tr_start d = c"
      using missing_days_hd [OF sp(1,2)] md w(2) sp(1) by (cases sp) auto
    then show ?thesis using fold_min_start [of ds "tr_start d"] sorted by (auto simp: later_def)
  qed
  have hi: "fold (\<lambda>x a. if a < tr_end x then tr_end x else a) ds (tr_end d) = e"
  proof -
    have "last (d # ds) = fst (last sp)" using missing_days_last [OF sp(1,3)] md by simp
    moreover have "tr_end (fst (last sp)) = e"
      using w(2) sp(1) by (cases sp rule: rev_cases) (auto simp: windows_append)
    ultimately show ?thesis using fold_max_end [OF sorted] by simp
  qed
  have hit: "mset (hit_bars pre) = mset (bars_in B a c)" "mset (hit_bars post) = mset (bars_in B e b)"
  proof -
    have t: "cached_true B pre" "cached_true B post" using true by (simp_all add: hs cached_true_append)
    show "mset (hit_bars pre) = mset (bars_in B a c)" "mset (hit_bars post) = mset (bars_in B e b)"
      unfolding hit_bars_all [OF out(1) t(1)] hit_bars_all [OF out(2) t(2)]
      by (rule mset_bars_windows [OF w(1)], rule mset_bars_windows [OF w(3)])
  qed
  have "mset (bars_in B a b) = mset (bars_in B a c) + mset (bars_in B c e) + mset (bars_in B e b)"
    using mset_bars_split [of a c b B] mset_bars_split [of c e b B]
      windows_le [OF w(1)] windows_le [OF w(2)] windows_le [OF w(3)] by simp
  then show ?thesis
    unfolding lo hi sp_def [symmetric] by (simp add: hs hit_bars_append hit)
qed

lemma read_days_fst: "map fst (fst (read_days env key ck loc ds m)) = ds"
  by (induction ds arbitrary: ck m) (simp_all add: case_prod_beta)

lemma read_days_frame:
  "mg_breakers (snd (read_days env key ck loc ds m)) = mg_breakers m
   \<and> mg_repo (snd (read_days env key ck loc ds m)) = mg_repo m"
proof (induction ds arbitrary: ck m)
  case (Cons d ds)
  have "mg_breakers (snd (mg_read (ce_get env) (ce_klines env) (ck 0) (key (day_text loc d)) m)) = mg_breakers m
      \<and> mg_repo (snd (mg_read (ce_get env) (ce_klines env) (ck 0) (key (day_text loc d)) m)) = mg_repo m"
    by (simp add: mg_read_def case_prod_beta split: option.split)
  then show ?case using Cons by (simp add: case_prod_beta)
qed simp

text \<open>Sources that return, when they return at all, the bars of \<open>B\<close> in the asked interval.\<close>

definition honest_sources :: "kline list \<Rightarrow> string \<Rightarrow> string \<Rightarrow> source breaker list \<Rightarrow> bool" where
  "honest_sources B code period bs \<longleftrightarrow>
     (\<forall>k\<in>set B. k_Source k \<noteq> []) \<and>
     (\<forall>b\<in>set bs. \<forall>lo hi t. case s_GetKLine (br_source b) code period lo hi t of
        Inl _ \<Rightarrow> True | Inr ks \<Rightarrow> ks = bars_in B lo hi)"

lemma callKLine_honest:
  assumes "honest_sources B code period (mg_breakers m)"
    and "fst (callKLine code period lo hi ck m) = Inr ks"
  shows "ks = bars_in B lo hi"
proof -
  obtain ks' name where r: "fst (route ''GetKLine'' (\<lambda>s. s_GetKLine s code period lo hi) ck m) = Inr (ks', name)"
    and ks: "ks = map (\<lambda>k. if k_Source k = [] then k\<lparr>k_Source := name\<rparr> else k) ks'"
    using assms(2) by (auto simp: callKLine_def case_prod_beta prod_eq_iff split: sum.splits)
  define call where "call = (\<lambda>s :: source. s_GetKLine s code period lo hi)"
  obtain n where n: "server call ck (mg_breakers m) = Some n"
    "call (br_source (mg_breakers m ! n)) (ac_call (ck n)) = Inr ks'"
    using route_loop_spec [where call = call and ck = ck and prev = "[]" and ferr = None
        and bs = "mg_breakers m" and repo = "mg_repo m"] r
    by (auto simp: route_def call_def case_prod_beta split: option.splits sum.splits)
  have "n < length (mg_breakers m)" using n(1) by (auto simp: server_def find_Some_iff)
  then have "ks' = bars_in B lo hi"
    using assms(1) n(2) by (fastforce simp: honest_sources_def call_def dest: nth_mem split: sum.splits)
  moreover have "map (\<lambda>k. if k_Source k = [] then k\<lparr>k_Source := name\<rparr> else k) (bars_in B lo hi) = bars_in B lo hi"
    using assms(1) by (auto simp: honest_sources_def bars_in_def intro!: map_idI)
  ultimately show ?thesis using ks by simp
qed

text \<open>Let every source answer a K-line request with the bars of some market data \<open>B\<close> in the
  asked half-open interval, and let every cached day hold the bars of its window.  A request that
  succeeds returns the bars of the requested interval and, a second time, the bars of every cached
  day that lies between two days missing from the cache, because the single fetch spans from the
  first missing day to the last one.\<close>

theorem GetKLine_bars:
  assumes "honest_sources B code period (mg_breakers m)"
    and "cached_true B (fst (read_days env (KLineCacheKey code period) ckr loc (splitByDay loc start fin) m))"
    and "fst (GetKLine env code period loc start fin ckr ck ckw m) = (Some ks, None)"
  shows "mset ks = mset (bars_in B start fin)
     + mset (hit_bars (missed_span
         (fst (read_days env (KLineCacheKey code period) ckr loc (splitByDay loc start fin) m))))"
proof -
  obtain hs m' where rd: "read_days env (KLineCacheKey code period) ckr loc (splitByDay loc start fin) m = (hs, m')"
    by fastforce
  have lt: "start < fin" using assms(3) by (auto simp: GetKLine_def split: if_splits)
  then have win: "windows (map fst hs) start fin"
  proof -
    have "map fst hs = split_from loc start fin"
      using read_days_fst [of env "KLineCacheKey code period" ckr loc "splitByDay loc start fin" m] lt
      unfolding rd by (simp add: splitByDay_def)
    then show ?thesis using windows_split_from [of start fin loc] lt by simp
  qed
  have true: "cached_true B hs" using assms(2) by (simp add: rd)
  have hon: "honest_sources B code period (mg_breakers m')"
    using assms(1) read_days_frame [of env "KLineCacheKey code period" ckr loc "splitByDay loc start fin" m]
    by (simp add: rd)
  show ?thesis
  proof (cases "missing_days hs")
    case Nil
    then have out: "\<forall>x\<in>set hs. \<not> missed x"
      by (auto simp: missing_days_def missed_def filter_empty_conv)
    then have "missed_span hs = []"
      by (simp add: missed_span_def dropWhile_eq_Nil_conv [THEN iffD2, OF out])
    moreover have "ks = hit_bars hs"
      using assms(3) Nil by (auto simp: GetKLine_def rd Let_def split: if_splits)
    ultimately show ?thesis
      using mset_bars_windows [OF win, of B] hit_bars_all [OF out true] by (simp add: rd hit_bars_def)
  next
    case (Cons d ds)
    let ?lo = "fold (\<lambda>x a. if tr_start x < a then tr_start x else a) ds (tr_start d)"
    let ?hi = "fold (\<lambda>x a. if a < tr_end x then tr_end x else a) ds (tr_end d)"
    obtain fetched where "fst (callKLine code period ?lo ?hi ck m') = Inr fetched" "ks = hit_bars hs @ fetched"
      using assms(3) Cons
      by (auto simp: GetKLine_def rd Let_def case_prod_beta split: if_splits sum.splits)
    then have "ks = hit_bars hs @ bars_in B ?lo ?hi"
      using callKLine_honest [OF hon] by blast
    then show ?thesis using assembled_bars [OF win true Cons] by (simp only: rd fst_conv)
  qed
qed

text \<open>Three days, with the middle one in the cache: its bar comes twice.\<close>

definition ex_bar :: "int \<Rightarrow> kline" where
  "ex_bar d = \<lparr>k_StockCode = ''c'', k_Period = ''1d'', k_Timestamp = \<lparr>wt_instant = d * nano_day, wt_loc = 0\<rparr>,
     k_Open = NaN, k_High = NaN, k_Low = NaN, k_Close = NaN, k_Volume = d, k_Amount = NaN, k_Source = ''s''\<rparr>"

definition ex_market :: "kline list" where
  "ex_market = map ex_bar [0, 1, 2]"

definition ex_source :: source where
  "ex_source = \<lparr>s_Name = ''s'', s_GetQuote = (\<lambda>_ _. Inl []), 
     s_GetKLine = (\<lambda>_ _ lo hi _. Inr (bars_in ex_market lo hi)),
     s_GetFundamental = (\<lambda>_ _. Inl []), s_GetNews = (\<lambda>_ _ _. Inl [])\<rparr>"

definition ex_cache_env :: "memory_cache cache_env" where
  "ex_cache_env = \<lparr>ce_get = mc_Get, ce_put = mc_Set,
     ce_quote = \<lparr>cd_marshal = (\<lambda>_. None), cd_unmarshal = (\<lambda>_. None)\<rparr>,
     ce_fundamental = \<lparr>cd_marshal = (\<lambda>_. None), cd_unmarshal = (\<lambda>_. None)\<rparr>,
     ce_klines = \<lparr>cd_marshal = (\<lambda>_. None), cd_unmarshal = (\<lambda>_. Some [ex_bar 1])\<rparr>\<rparr>"

definition ex_source_breaker :: "source breaker" where
  "ex_source_breaker = \<lparr>br_source = ex_source, br_threshold = 5, br_window = 1, br_cooldown = 1,
     br_state = StateClosed, br_failures = [], br_openedAt = 0, br_halfOpenIn = False\<rparr>"

definition ex_manager :: "memory_cache manager" where
  "ex_manager = \<lparr>mg_cfg = \<lparr>mc_CacheTTL = 1, mc_FailThreshold = 5, mc_FailWindow = 1, mc_Cooldown = 1,
       mc_QuoteTTL = 1, mc_ConsistencyThreshold = NaN, mc_UniverseURL = []\<rparr>,
     mg_cache = Some [''kl:c:1d:1970-01-02'' \<mapsto> (''x'', 9)], mg_repo = None,
     mg_breakers = [ex_source_breaker]\<rparr>"

definition ex_ticks :: "nat \<Rightarrow> attempt_clock" where
  "ex_ticks _ = \<lparr>ac_allow = 0, ac_name = 0, ac_call = 0, ac_failure = 0, ac_record = 0, ac_switch = 0\<rparr>"

lemma ex_days: "splitByDay 0 0 (3 * nano_day) =
    [\<lparr>tr_start = 0, tr_end = nano_day\<rparr>, \<lparr>tr_start = nano_day, tr_end = 2 * nano_day\<rparr>,
     \<lparr>tr_start = 2 * nano_day, tr_end = 3 * nano_day\<rparr>]"
  by (simp add: splitByDay_def split_from.simps midnight_def day_of_def min_def Let_def)

lemma ex_day_texts:
  "day_text 0 \<lparr>tr_start = 0, tr_end = e\<rparr> = ''1970-01-01''"
  "day_text 0 \<lparr>tr_start = nano_day, tr_end = e\<rparr> = ''1970-01-02''"
  "day_text 0 \<lparr>tr_start = 2 * nano_day, tr_end = e\<rparr> = ''1970-01-03''"
proof -
  have "format_date 0 = ''1970-01-01''" "format_date 1 = ''1970-01-02''" "format_date 2 = ''1970-01-03''"
    by code_simp+
  moreover have "day_of 0 0 = 0" "day_of 0 nano_day = 1" "day_of 0 (2 * nano_day) = 2"
    by (simp_all add: day_of_def)
  ultimately show "day_text 0 \<lparr>tr_start = 0, tr_end = e\<rparr> = ''1970-01-01''"
    "day_text 0 \<lparr>tr_start = nano_day, tr_end = e\<rparr> = ''1970-01-02''"
    "day_text 0 \<lparr>tr_start = 2 * nano_day, tr_end = e\<rparr> = ''1970-01-03''"
    by (simp_all add: day_text_def date_text_def)
qed

lemma ex_reads:
  "fst (read_days ex_cache_env (KLineCacheKey ''c'' ''1d'') (\<lambda>_. 5) 0 (splitByDay 0 0 (3 * nano_day)) ex_manager) =
     [(\<lparr>tr_start = 0, tr_end = nano_day\<rparr>, None), (\<lparr>tr_start = nano_day, tr_end = 2 * nano_day\<rparr>, Some [ex_bar 1]),
      (\<lparr>tr_start = 2 * nano_day, tr_end = 3 * nano_day\<rparr>, None)]"
  by (simp add: ex_days ex_day_texts ex_manager_def ex_cache_env_def mg_read_def cache_read_def mc_Get_def
      KLineCacheKey_def)

lemma ex_bars: "bars_in ex_market 0 (3 * nano_day) = [ex_bar 0, ex_bar 1, ex_bar 2]"
  "bars_in ex_market nano_day (2 * nano_day) = [ex_bar 1]"
  by (simp_all add: bars_in_def ex_market_def ex_bar_def day_unit_defs)

lemma ex_fetch:
  "fst (GetKLine ex_cache_env ''c'' ''1d'' 0 0 (3 * nano_day) (\<lambda>_. 5) ex_ticks (\<lambda>_. 6) ex_manager) =
     (Some [ex_bar 1, ex_bar 0, ex_bar 1, ex_bar 2], None)"
proof -
  obtain m' where m': "read_days ex_cache_env (KLineCacheKey ''c'' ''1d'') (\<lambda>_. 5) 0
      (splitByDay 0 0 (3 * nano_day)) ex_manager
      = ([(\<lparr>tr_start = 0, tr_end = nano_day\<rparr>, None), (\<lparr>tr_start = nano_day, tr_end = 2 * nano_day\<rparr>, Some [ex_bar 1]),
      (\<lparr>tr_start = 2 * nano_day, tr_end = 3 * nano_day\<rparr>, None)], m')"
    using ex_reads by (metis prod.collapse)
  have br: "mg_breakers m' = [ex_source_breaker]" "mg_repo m' = None"
    using read_days_frame [of ex_cache_env "KLineCacheKey ''c'' ''1d''" "\<lambda>_. 5" 0 "splitByDay 0 0 (3 * nano_day)" ex_manager]
    unfolding m' by (simp_all, simp_all add: ex_manager_def)
  have route: "fst (route ''GetKLine'' (\<lambda>s. s_GetKLine s ''c'' ''1d'' 0 (3 * nano_day)) ex_ticks m')
      = Inr ([ex_bar 0, ex_bar 1, ex_bar 2], ''s'')"
  proof -
    have "br_Allow (ac_allow (ex_ticks 0)) ex_source_breaker = (True, ex_source_breaker)"
      by (simp add: br_Allow_def br_gcLocked_def ex_source_breaker_def)
    moreover have "s_GetKLine (br_source ex_source_breaker) ''c'' ''1d'' 0 (3 * nano_day) t
        = Inr [ex_bar 0, ex_bar 1, ex_bar 2]" for t
      by (simp add: ex_source_breaker_def ex_source_def ex_bars)
    moreover have "s_Name (br_source ex_source_breaker) = ''s''"
      by (simp add: ex_source_breaker_def ex_source_def)
    ultimately show ?thesis by (simp add: route_def br routeOnce_def)
  qed
  have src: "k_Source (ex_bar d) = ''s''" for d by (simp add: ex_bar_def)
  obtain m'' where call: "callKLine ''c'' ''1d'' 0 (3 * nano_day) ex_ticks m' = (Inr [ex_bar 0, ex_bar 1, ex_bar 2], m'')"
    using route by (auto simp: callKLine_def case_prod_beta src prod_eq_iff split: sum.splits)
  have "missing_days [(\<lparr>tr_start = 0, tr_end = nano_day\<rparr>, None),
      (\<lparr>tr_start = nano_day, tr_end = 2 * nano_day\<rparr>, Some [ex_bar 1]),
      (\<lparr>tr_start = 2 * nano_day, tr_end = 3 * nano_day\<rparr>, None)]
      = [\<lparr>tr_start = 0, tr_end = nano_day\<rparr>, \<lparr>tr_start = 2 * nano_day, tr_end = 3 * nano_day\<rparr>]"
    by (simp add: missing_days_def)
  moreover have "splitByDay 0 0 (3 * nano_day) \<noteq> []" by (simp add: ex_days)
  moreover have "\<not> nano_day < 0" using nano_day_pos by linarith
  ultimately show ?thesis
    unfolding GetKLine_def by (simp add: Let_def m' call hit_bars_def)
qed

theorem GetKLine_bars_witness:
  "fst (GetKLine ex_cache_env ''c'' ''1d'' 0 0 (3 * nano_day) (\<lambda>_. 5) ex_ticks (\<lambda>_. 6) ex_manager) =
     (Some [ex_bar 1, ex_bar 0, ex_bar 1, ex_bar 2], None)
   \<and> mset [ex_bar 1, ex_bar 0, ex_bar 1, ex_bar 2] = mset (bars_in ex_market 0 (3 * nano_day)) + {#ex_bar 1#}"
proof -
  have hon: "honest_sources ex_market ''c'' ''1d'' (mg_breakers ex_manager)"
    by (auto simp: honest_sources_def ex_market_def ex_bar_def ex_manager_def ex_source_breaker_def ex_source_def)
  have true: "cached_true ex_market (fst (read_days ex_cache_env (KLineCacheKey ''c'' ''1d'') (\<lambda>_. 5) 0
      (splitByDay 0 0 (3 * nano_day)) ex_manager))"
    by (simp add: cached_true_def ex_reads ex_bars)
  show ?thesis
    using GetKLine_bars [OF hon true ex_fetch] ex_fetch
    by (simp add: ex_reads missed_span_def missed_def hit_bars_def)
qed

end
