(* ===== verification/Spec2Isabelle.thy ===== *)
theory Spec2Isabelle
  imports Ai_Edit Auth Config_Check Cron_Scheduler Llm_Settings Node_Notify Perf_Aggregate Quote_Validation Reviews Run_Queries Source_Manager_Props
begin

text \<open>
  Verification library for \<open>af\<close>, a Go service that runs stock-screening strategies: a strategy is a
  graph of nodes (data sources, indicators, filters, persistence, notification) that a concurrent
  executor walks on a schedule.  All file names are relative to \<open>src/backend/internal\<close>.

  PARTS AND HOW THEY INTERACT.  A cron entry fires in \<open>executor/scheduler.go\<close>, which asks
  \<open>calendar/trading_day.go\<close> whether the market is open and starts a run.  The run parses and
  validates the graph (\<open>orchestrator/types.go\<close>), resolves every node in the registry
  (\<open>orchestrator/registry.go\<close>) and hands the graph to \<open>orchestrator/executor.go\<close>: a scheduler
  goroutine dispatches a node when its predecessors are done, worker goroutines run the nodes under
  a semaphore, a failure skips the descendants, events go to \<open>orchestrator/eventbus.go\<close>.  The
  nodes (\<open>executor/nodes\<close>) read market data through \<open>datasource/manager.go\<close>, which routes each
  call along the configured sources behind one circuit breaker per source and caches the answers,
  and send messages through \<open>notify/manager.go\<close>, which tries its channels in order with retries.
  Around the engine, \<open>executor/executor.go\<close> stores runs, their logs and events;
  \<open>orchestrator/strategy_service.go\<close> keeps strategies with their versions and tells the scheduler of
  changes; \<open>perf\<close> measures what became of the recommendations a run stored, \<open>position\<close> keeps the
  user's positions, \<open>review\<close> sums up days and weeks, \<open>ai\<close> proposes edits of strategies through the
  language model that \<open>settings\<close> configures, and \<open>auth\<close> guards the requests.

  THEORIES AND SOURCES.
  \<^item> \<open>AF_Prelude\<close>: shared vocabulary and lemmas.  \<open>Go_Sort\<close> (\<open>sortStrings\<close> and \<open>insertSorted\<close> of
    \<open>orchestrator/types.go\<close>), \<open>Slice_Stable\<close> (\<open>sort.SliceStable\<close>), \<open>Go_Text\<close> (package \<open>strings\<close>),
    \<open>Go_Time\<close> (days, civil dates, weekdays), \<open>F64\<close> and \<open>F64_Order\<close> (binary64 arithmetic): what the
    program uses of Go and its library.
  \<^item> \<open>Dag\<close>, \<open>Dag_Topo\<close>, \<open>Graph_Walk\<close>: graphs, their validation and lookups, the topological sort,
    descendants and paths (\<open>orchestrator/types.go\<close>, \<open>executor.go\<close>).  \<open>Node_Registry\<close>, \<open>Event_Bus\<close>:
    \<open>orchestrator/registry.go\<close> and \<open>eventbus.go\<close>.
  \<^item> \<open>Exec_Model\<close>: the concurrent executor, \<open>orchestrator/executor.go\<close>.  The record \<open>sched\<close> is the
    scheduler's state (pending counters, ready queue, results, semaphore, workers and their phases);
    \<open>sched_step\<close> is one atomic move of a goroutine; \<open>Execute\<close> and \<open>ExecuteToNode\<close> relate a request to
    the summaries, errors and events its runs can have.  \<open>Exec_Inv\<close> holds the reachability invariant,
    \<open>Exec_Phase\<close> what is known of a node in each phase, \<open>Exec_Props\<close>, \<open>Execute_Props\<close> and
    \<open>Exec_Events\<close> the properties: order, concurrency bound, exact failure cascade, termination under
    every schedule, independence of the results from the schedule, published events.
  \<^item> \<open>Breaker_Spec\<close> (the abstract breaker), \<open>Breaker\<close> (\<open>datasource/breaker.go\<close>), \<open>Notify_Circuit\<close>
    (\<open>notify/circuit.go\<close>): both implementations refine the one specification.
  \<^item> \<open>Source_Types\<close> (\<open>datasource/types.go\<close>, \<open>code.go\<close>), \<open>Source_Manager\<close> and
    \<open>Source_Manager_Props\<close> (\<open>datasource/manager.go\<close>), \<open>Market_Cache\<close> (\<open>cache.go\<close>), \<open>Health_Repo\<close>
    (\<open>health_repo_gorm.go\<close>), \<open>Quote_Validation\<close> (\<open>validate.go\<close>).
  \<^item> \<open>Notify_Retry\<close> (\<open>notify/retry.go\<close>), \<open>Notify_Manager\<close> (\<open>manager.go\<close>, \<open>registry/registry.go\<close>).
  \<^item> \<open>Calendar\<close>: \<open>calendar/trading_day.go\<close>.
  \<^item> \<open>Indicators\<close>: \<open>executor/nodes/indicators\<close>.  \<open>Node_Values\<close>: the dynamic values nodes exchange.
    \<open>Node_Select\<close> (\<open>filter.go\<close>, \<open>rank.go\<close>, \<open>dedupe.go\<close>), \<open>Node_Indicator\<close> (\<open>indicator.go\<close>),
    \<open>Node_Persist\<close> (\<open>session_tag.go\<close>, \<open>persist.go\<close>), \<open>Node_Data_Source\<close> (\<open>data_source.go\<close>,
    \<open>datasource/rows.go\<close>), \<open>Node_Notify\<close> (\<open>notify.go\<close>, \<open>notify/template.go\<close>).
  \<^item> \<open>App_Error\<close> (\<open>apperr\<close>), \<open>Row_Table\<close> (a database table as the statements see it), \<open>Db_Columns\<close>
    (what date and decimal columns keep of a value, \<open>model\<close>), \<open>Go_Parse\<close>
    (numbers and dates of requests, 64-bit wrap-around), \<open>Dag_Json\<close> (\<open>orchestrator/dag.go\<close>).
  \<^item> \<open>Strategy_Service\<close> and \<open>Strategy_Props\<close> (\<open>orchestrator/strategy_service.go\<close>): the tables of
    strategies and versions, every operation, their invariant, renaming of graphs, export and import.
  \<^item> \<open>Run_Lifecycle\<close> (\<open>executor/executor.go\<close>, the trigger of \<open>handler.go\<close>): \<open>run_Execute\<close> relates a request
    to the rows, logs and events it leaves.  \<open>Run_Queries\<close>: lists and dashboard of \<open>handler.go\<close>.
  \<^item> \<open>Schedule_Sync\<close> (the contract between strategies and scheduler) and \<open>Cron_Scheduler\<close>
    (\<open>executor/scheduler.go\<close>): the schedule follows the table, firings are gated, concurrent Adds leak.
  \<^item> \<open>Perf_Calc\<close> (\<open>perf/calculator.go\<close>), \<open>Perf_Service\<close> (\<open>service.go\<close>), \<open>Perf_Aggregate\<close>
    (\<open>handler.go\<close>), \<open>Positions\<close> (\<open>position\<close>), \<open>Reviews\<close> (\<open>review/service.go\<close>, \<open>scheduler.go\<close>).
  \<^item> \<open>Llm_Client\<close> (\<open>ai/openai.go\<close>, \<open>mock.go\<close>, \<open>chain.go\<close>, \<open>provider.go\<close>, \<open>models.go\<close>), \<open>Ai_Edit\<close>
    (\<open>ai/service.go\<close>), \<open>Llm_Settings\<close> (\<open>settings/service.go\<close>): the fallback order, edits that keep the
    invariant of the strategies, settings that survive a restart and hide the keys.
  \<^item> \<open>Auth\<close> (\<open>auth/service.go\<close>, \<open>middleware.go\<close>), \<open>Config_Check\<close> (\<open>config/config.go\<close>).

  INTERFACES.  A locale states what a component promises and is interpreted on the code's model:
  \<open>sorter\<close> (both sorts of \<open>types.go\<close>), \<open>keyed_less\<close> (comparison functions given to
  \<open>sort.SliceStable\<close>), the breaker contract of \<open>Breaker_Spec\<close> (both breakers), \<open>row_selector\<close>
  (the selecting nodes), \<open>cache_contract\<close> (the market-data cache), \<open>id_table\<close> (the statements on a
  table, on \<open>Row_Table\<close>), \<open>reloading\<close> (a schedule that follows the strategies, on the cron scheduler).

  CONVENTIONS.  A Go string is its bytes.  An instant and a duration are integers of nanoseconds; a
  location is a fixed offset, so daylight saving is not covered (the program's zone has none).  A
  \<open>float64\<close> is a value of \<open>f64\<close>, every operation rounded; the compiler is assumed not to fuse a
  multiplication with an addition.  A Go map read by key is a partial function; one that is
  iterated is the list of its entries in the order of the iteration.  Errors are values of sum
  types; their texts are kept where the program compares or stores them.  A mutex-protected
  operation is one atomic step.  Log calls are left out.  The error of a database statement is an
  argument, numbered in the order of the statements of a call where there are several; a statement
  without such an argument succeeds; a failed transaction leaves the tables as they were.  The JSON,
  bcrypt, jwt, cron and HTTP libraries, random bytes and the clock are arguments; what a theorem
  needs of them is a named hypothesis on documented behaviour, and its witness has an instance.
  The rows of positions, performance snapshots and reviews hold what their date and decimal columns
  keep, with the rounding of the database as an argument (\<open>Db_Columns\<close>); the entry prices of stored
  recommendations are kept as given, their dates are read as midnight UTC, and texts and times of
  day are stored unchanged everywhere.
  Offsets of paged lists are unbounded integers, which is exact while they fit 64 bits;
  \<open>Perf_Aggregate\<close> has the wrap-around.

  TERMINATION.  No definition takes fuel.  Loops over data are structural recursion or \<open>function\<close>
  with a measure; the topological sort is a \<open>partial_function\<close> whose totality is part of its
  properties; the executor is a step relation, and its termination is proved by a measure that
  every step decreases; that a run ends with a final status rests on it.

  NOT MODELLED.  HTTP handlers that bind a request and write a response, routing, generic middleware,
  logging, GORM entities and start-up (framework glue without decisions of their own); the HTTP
  adapters of market-data services and webhooks (external formats); the defaults and environment
  bindings of the configuration (tables handed to \<open>viper\<close>); strategy templates and the API description
  (static data); the cron entry of \<open>perf/scheduler.go\<close>; draining of events and the event stream to a
  client.
\<close>

end
